(* ===== verification/Go_Prelude.thy ===== *)
theory Go_Prelude
  imports Main "HOL-Library.Char_ord" "HOL-Library.List_Lexorder" "HOL-Library.Sublist"
    "HOL-Library.Multiset"
begin

text \<open>
  The prelude of the development: the Go types and library calls that the components share.
  A Go string is its list of bytes (type \<open>string\<close>), compared bytewise as Go does (the order of
  \<open>HOL-Library.List_Lexorder\<close> over \<open>Char_ord\<close>). \<open>time.Time\<close> is the signed number of nanoseconds
  since the zero time, so \<open>IsZero\<close> is equality with 0; \<open>time.Duration\<close> is a number of
  nanoseconds. \<open>error\<close> values keep the format string and its arguments instead of the rendered
  text, and the wrapped error of \<open>%w\<close>, which is what \<open>errors.Is\<close> walks.
\<close>

named_theorems go_simps \<open>evaluation rules of the modelled Go library calls\<close>

type_synonym gotime = int
type_synonym duration = int

abbreviation (input) second :: duration where
  "second \<equiv> 1000000000"

abbreviation (input) minute :: duration where
  "minute \<equiv> 60 * second"

abbreviation (input) hour :: duration where
  "hour \<equiv> 60 * minute"

subsection \<open>Errors\<close>

datatype goerr =
    ContextCanceled
  | ContextDeadlineExceeded
  | ErrorsNew string
  | Errorf string "string list"
  | ErrorfWrap string "string list" goerr

text \<open>\<open>errors.Is(err, context.Canceled)\<close>: the error itself or one it wraps.\<close>

primrec errors_is_canceled :: "goerr \<Rightarrow> bool" where
  "errors_is_canceled ContextCanceled = True"
| "errors_is_canceled ContextDeadlineExceeded = False"
| "errors_is_canceled (ErrorsNew t) = False"
| "errors_is_canceled (Errorf f as) = False"
| "errors_is_canceled (ErrorfWrap f as e) = errors_is_canceled e"

subsection \<open>Strings\<close>

text \<open>
  The UTF-8 encodings of the code points \<open>unicode.IsSpace\<close> accepts. \<open>strings.TrimSpace\<close> decodes
  a rune at either end and removes it while it is one of these; on any byte string that is
  removing one of these byte sequences from that end.
\<close>

definition space_runes :: "string list" where
  "space_runes =
    [[CHR '' ''], [CHR 0x09], [CHR 0x0A], [CHR 0x0B], [CHR 0x0C], [CHR 0x0D],
     [CHR 0xC2, CHR 0x85], [CHR 0xC2, CHR 0xA0], [CHR 0xE1, CHR 0x9A, CHR 0x80]] @
    map (\<lambda>c. [CHR 0xE2, CHR 0x80, c])
      [CHR 0x80, CHR 0x81, CHR 0x82, CHR 0x83, CHR 0x84, CHR 0x85, CHR 0x86, CHR 0x87,
       CHR 0x88, CHR 0x89, CHR 0x8A, CHR 0xA8, CHR 0xA9, CHR 0xAF] @
    [[CHR 0xE2, CHR 0x81, CHR 0x9F], [CHR 0xE3, CHR 0x80, CHR 0x80]]"

definition strip_one :: "string list \<Rightarrow> string \<Rightarrow> string option" where
  "strip_one rs s =
     (case find (\<lambda>r. r \<noteq> [] \<and> prefix r s) rs of
        None \<Rightarrow> None
      | Some r \<Rightarrow> Some (drop (length r) s))"

lemma strip_one_shorter: "strip_one rs s = Some s' \<Longrightarrow> length s' < length s"
  by (auto simp: strip_one_def find_Some_iff prefix_def split: option.splits)

lemma strip_one_suffix: "strip_one rs s = Some s' \<Longrightarrow> suffix s' s"
  by (auto simp: strip_one_def suffix_drop split: option.splits)

lemma strip_one_None: "strip_one rs s = None \<longleftrightarrow> (\<forall>r\<in>set rs. r \<noteq> [] \<longrightarrow> \<not> prefix r s)"
proof -
  have "strip_one rs s = None \<longleftrightarrow> find (\<lambda>r. r \<noteq> [] \<and> prefix r s) rs = None"
    by (simp add: strip_one_def split: option.split)
  then show ?thesis by (auto simp: find_None_iff)
qed

function trim_left :: "string list \<Rightarrow> string \<Rightarrow> string" where
  "trim_left rs s = (case strip_one rs s of None \<Rightarrow> s | Some s' \<Rightarrow> trim_left rs s')"
  by pat_completeness auto
termination
  by (relation "measure (\<lambda>(rs, s). length s)") (auto dest: strip_one_shorter)

declare trim_left.simps [simp del]

definition TrimSpace :: "string \<Rightarrow> string" where
  "TrimSpace s = rev (trim_left (map rev space_runes) (rev (trim_left space_runes s)))"

lemma trim_left_fixed: "strip_one rs (trim_left rs s) = None"
proof (induction rs s rule: trim_left.induct)
  case (1 rs s)
  show ?case
  proof (cases "strip_one rs s")
    case None
    then show ?thesis by (simp add: trim_left.simps [of rs s])
  next
    case (Some s')
    then show ?thesis using "1.IH" by (simp add: trim_left.simps [of rs s])
  qed
qed

lemma trim_left_suffix: "suffix (trim_left rs s) s"
proof (induction rs s rule: trim_left.induct)
  case (1 rs s)
  show ?case
  proof (cases "strip_one rs s")
    case None
    then show ?thesis by (simp add: trim_left.simps [of rs s])
  next
    case (Some s')
    then have "suffix s' s" by (rule strip_one_suffix)
    with Some "1.IH" show ?thesis
      by (auto simp: trim_left.simps [of rs s] intro: suffix_order.trans)
  qed
qed

lemma trim_left_id: "strip_one rs s = None \<Longrightarrow> trim_left rs s = s"
  by (simp add: trim_left.simps [of rs s])

lemma strip_one_prefix: "strip_one rs s = None \<Longrightarrow> prefix p s \<Longrightarrow> strip_one rs p = None"
  unfolding strip_one_None by (metis prefix_order.trans)

lemma TrimSpace_Nil [simp]: "TrimSpace [] = []"
  by (simp add: TrimSpace_def strip_one_None trim_left_id)

lemma TrimSpace_idem [simp]: "TrimSpace (TrimSpace s) = TrimSpace s"
proof -
  let ?l = "trim_left space_runes s"
  let ?t = "trim_left (map rev space_runes) (rev ?l)"
  have pre: "prefix (rev ?t) ?l"
    using trim_left_suffix [of "map rev space_runes" "rev ?l"] by (simp add: suffix_to_prefix)
  have left: "trim_left space_runes (rev ?t) = rev ?t"
    by (rule trim_left_id [OF strip_one_prefix [OF trim_left_fixed pre]])
  have right: "trim_left (map rev space_runes) ?t = ?t"
    by (rule trim_left_id [OF trim_left_fixed])
  show ?thesis by (simp add: TrimSpace_def left right)
qed

text \<open>Printable ASCII without the blank: no such string has anything to trim.\<close>

definition plain_char :: "char \<Rightarrow> bool" where
  "plain_char c \<longleftrightarrow> 33 \<le> (of_char c :: nat) \<and> (of_char c :: nat) \<le> 126"

lemma space_runes_no_plain: "r \<in> set space_runes \<Longrightarrow> r \<noteq> [] \<and> list_all (\<lambda>c. \<not> plain_char c) r"
  by (auto simp: space_runes_def plain_char_def)

lemma strip_one_plain:
  assumes "\<And>r. r \<in> set rs \<Longrightarrow> list_all (\<lambda>c. \<not> plain_char c) r" "list_all plain_char s"
  shows "strip_one rs s = None"
  using assms unfolding strip_one_None
  by (metis (no_types, lifting) list_all_iff list.set_intros(1) neq_Nil_conv set_mono_prefix subsetD)

lemma TrimSpace_plain [go_simps]: "list_all plain_char s \<Longrightarrow> TrimSpace s = s"
  unfolding TrimSpace_def
  by (subst trim_left_id [OF strip_one_plain], auto dest: space_runes_no_plain simp: list_all_iff)
     (subst trim_left_id [OF strip_one_plain], auto dest!: space_runes_no_plain simp: list_all_iff)

text \<open>A string with a printable character other than the blank is not blank.\<close>

lemma trim_left_chars: "set s \<subseteq> \<Union> (set ` set rs) \<union> set (trim_left rs s)"
proof (induction rs s rule: trim_left.induct)
  case (1 rs s)
  show ?case
  proof (cases "strip_one rs s")
    case None
    then show ?thesis by (simp add: trim_left.simps [of rs s])
  next
    case (Some s')
    then obtain r where "find (\<lambda>r. r \<noteq> [] \<and> prefix r s) rs = Some r" and s': "s' = drop (length r) s"
      by (auto simp: strip_one_def split: option.splits)
    then have r: "r \<in> set rs" "prefix r s" by (auto simp: find_Some_iff)
    then have "set s \<subseteq> set r \<union> set s'" by (auto simp: prefix_def s')
    moreover have "trim_left rs s = trim_left rs s'" using Some by (simp add: trim_left.simps [of rs s])
    ultimately show ?thesis using r(1) "1.IH" [OF Some] by fastforce
  qed
qed

lemma TrimSpace_not_blank:
  assumes "c \<in> set s" "plain_char c"
  shows "TrimSpace s \<noteq> []"
proof
  assume blank: "TrimSpace s = []"
  let ?l = "trim_left space_runes s"
  have rune: "c \<notin> set r" if "r \<in> set space_runes" for r
    using space_runes_no_plain [OF that] assms(2) by (auto simp: list_all_iff)
  have "c \<in> set ?l" using trim_left_chars [of s space_runes] assms(1) rune by blast
  with trim_left_chars [of "rev ?l" "map rev space_runes"] rune blank show False
    by (auto simp: TrimSpace_def)
qed

text \<open>
  \<open>strings.ToLower\<close> and \<open>strings.EqualFold\<close> on ASCII letters; bytes outside ASCII are left as they
  are.
\<close>

definition lower_char :: "char \<Rightarrow> char" where
  "lower_char c = (let n = (of_char c :: nat) in if 65 \<le> n \<and> n \<le> 90 then char_of (n + 32) else c)"

definition ToLower :: "string \<Rightarrow> string" where
  "ToLower = map lower_char"

definition EqualFold :: "string \<Rightarrow> string \<Rightarrow> bool" where
  "EqualFold s t \<longleftrightarrow> ToLower s = ToLower t"

text \<open>\<open>strutil.FirstNonEmpty\<close>: the first value that is not blank.\<close>

fun FirstNonEmpty :: "string list \<Rightarrow> string" where
  "FirstNonEmpty [] = []"
| "FirstNonEmpty (v # vs) = (if TrimSpace v \<noteq> [] then v else FirstNonEmpty vs)"

lemma FirstNonEmpty_blank: "TrimSpace (FirstNonEmpty vs) = [] \<longleftrightarrow> (\<forall>v\<in>set vs. TrimSpace v = [])"
  by (induction vs) auto

lemma FirstNonEmpty_in: "FirstNonEmpty vs \<noteq> [] \<Longrightarrow> FirstNonEmpty vs \<in> set vs"
  by (induction vs) auto

subsection \<open>Sorting\<close>

text \<open>
  \<open>sort.Slice\<close> with the comparison \<open>lt\<close>: insertion from the right, as the Go library does on
  short slices. Where \<open>lt\<close> leaves two elements unordered the library promises nothing about
  their order; the lemmas below use only that the result is a permutation, sorted whenever
  \<open>lt\<close> is a strict weak order.
\<close>

fun insert_by :: "('a \<Rightarrow> 'a \<Rightarrow> bool) \<Rightarrow> 'a \<Rightarrow> 'a list \<Rightarrow> 'a list" where
  "insert_by lt x [] = [x]"
| "insert_by lt x (y # ys) = (if lt x y then x # y # ys else y # insert_by lt x ys)"

definition sort_slice :: "('a \<Rightarrow> 'a \<Rightarrow> bool) \<Rightarrow> 'a list \<Rightarrow> 'a list" where
  "sort_slice lt xs = fold (insert_by lt) xs []"

lemma mset_insert_by [simp]: "mset (insert_by lt x ys) = add_mset x (mset ys)"
  by (induction ys) auto

lemma mset_fold_insert_by: "mset (fold (insert_by lt) xs ys) = mset xs + mset ys"
  by (induction xs arbitrary: ys) auto

lemma mset_sort_slice [simp]: "mset (sort_slice lt xs) = mset xs"
  by (simp add: sort_slice_def mset_fold_insert_by)

lemma set_sort_slice [simp]: "set (sort_slice lt xs) = set xs"
  by (metis mset_sort_slice set_mset_mset)

lemma length_sort_slice [simp]: "length (sort_slice lt xs) = length xs"
  by (metis mset_sort_slice size_mset)

lemma distinct_sort_slice [simp]: "distinct (sort_slice lt xs) = distinct xs"
  by (metis mset_sort_slice mset_eq_imp_distinct_iff)

lemma sort_slice_Nil [simp]: "sort_slice lt xs = [] \<longleftrightarrow> xs = []"
  by (metis length_0_conv length_sort_slice)

definition weak_order :: "('a \<Rightarrow> 'a \<Rightarrow> bool) \<Rightarrow> bool" where
  "weak_order lt \<longleftrightarrow>
     (\<forall>x y. lt x y \<longrightarrow> \<not> lt y x) \<and> (\<forall>x y z. \<not> lt y x \<longrightarrow> \<not> lt z y \<longrightarrow> \<not> lt z x)"

lemma sorted_insert_by:
  assumes "weak_order lt" "sorted_wrt (\<lambda>x y. \<not> lt y x) ys"
  shows "sorted_wrt (\<lambda>x y. \<not> lt y x) (insert_by lt x ys)"
  using assms(2)
proof (induction ys)
  case (Cons y ys)
  have set: "set (insert_by lt x ys) = insert x (set ys)"
    using mset_insert_by [of lt x ys] by (metis set_mset_add_mset_insert set_mset_mset)
  have asym: "lt x y \<Longrightarrow> \<not> lt y x"
    and trans: "\<And>z. \<not> lt y x \<Longrightarrow> \<not> lt z y \<Longrightarrow> \<not> lt z x"
    using assms(1) unfolding weak_order_def by metis+
  show ?case
  proof (cases "lt x y")
    case True
    with Cons.prems asym trans show ?thesis by auto
  next
    case False
    with Cons set show ?thesis by auto
  qed
qed simp

lemma sorted_sort_slice:
  assumes "weak_order lt"
  shows "sorted_wrt (\<lambda>x y. \<not> lt y x) (sort_slice lt xs)"
proof -
  have "sorted_wrt (\<lambda>x y. \<not> lt y x) (fold (insert_by lt) xs ys)"
    if "sorted_wrt (\<lambda>x y. \<not> lt y x) ys" for ys
    using that by (induction xs arbitrary: ys) (auto intro: sorted_insert_by [OF assms])
  then show ?thesis by (simp add: sort_slice_def)
qed

subsection \<open>Stores that run work to an end\<close>

text \<open>
  The contract that the task queue and the agent coordinator share: an entry in a final state
  never changes again; an operation can only remove it. \<open>step\<close> is one critical section, \<open>look\<close>
  the lookup of an entry by its key.
\<close>

locale lifecycle =
  fixes step :: "'op \<Rightarrow> 's \<Rightarrow> 's"
    and look :: "'s \<Rightarrow> 'k \<Rightarrow> 'e option"
    and final :: "'e \<Rightarrow> bool"
  assumes frozen: "look s k = Some e \<Longrightarrow> final e \<Longrightarrow> look (step x s) k = None \<or> look (step x s) k = Some e"
begin

lemma run_frozen:
  assumes "look s k = Some e" "final e" "\<forall>n \<le> length xs. look (fold step (take n xs) s) k \<noteq> None"
  shows "look (fold step xs s) k = Some e"
  using assms
proof (induction xs arbitrary: s)
  case Nil
  then show ?case by simp
next
  case (Cons x xs)
  from Cons.prems(3) have present: "look (fold step (take n xs) (step x s)) k \<noteq> None"
    if "n \<le> length xs" for n
    using that by (auto dest: spec [of _ "Suc n"])
  have "look (step x s) k = Some e"
    using present [of 0] frozen [OF Cons.prems(1,2), of x] by auto
  with Cons.IH [of "step x s"] Cons.prems(2) present show ?case by simp
qed

end

end
