(* ===== verification/Task_Queue.thy ===== *)
theory Task_Queue
  imports Go_Prelude
begin

text \<open>
  The in-memory task queue of \<open>internal/queue/queue.go\<close>. \<open>qtask\<close>, \<open>qentry\<close> and \<open>qmem\<close> are the
  structs \<open>Task\<close>, \<open>Entry\<close>/\<open>entry\<close> and \<open>Memory\<close>; each method that takes the mutex is one
  definition over \<open>qmem\<close>, and \<open>queue_step\<close> interleaves them in any order, as the goroutines do.
  Callbacks are booleans that say whether one was given (\<open>Run\<close>, \<open>OnCanceled\<close>, \<open>Capacity\<close>); what
  a capacity callback answers is the argument \<open>cap\<close> of \<open>claim\<close>, by task id, and the callbacks
  \<open>claim\<close> fires are part of its result. A clock reading is an argument \<open>now\<close>. Of the goroutines
  the state keeps what the other methods can observe: the wake channel's one slot (\<open>m_wake\<close>),
  whether the dispatcher waits in its \<open>select\<close> (\<open>m_idle\<close>), the started tasks that have not
  returned (\<open>m_inFlight\<close>), the ids the expiry loop has collected and not yet finished
  (\<open>m_expiring\<close>) and the runs whose context has been canceled (\<open>m_canceledCtx\<close>).
\<close>

subsection \<open>Data\<close>

datatype qstate = StatePending | StateRunning | StateSucceeded | StateFailed | StateCanceled

record qtask =
  t_ID :: string
  t_Group :: string
  t_Name :: string
  t_Dependencies :: "string list"
  t_SoftDependencies :: "string list"
  t_LeaseTTL :: duration
  t_Run :: bool
  t_OnCanceled :: bool
  t_Pool :: string
  t_Capacity :: bool

record qentry =
  e_Task :: qtask
  e_State :: qstate
  e_LeaseDeadline :: gotime
  e_Err :: "goerr option"
  e_StartedAt :: gotime
  e_CompletedAt :: gotime
  e_cancel :: bool
  e_counted :: bool

type_synonym qentries = "string \<rightharpoonup> qentry"

record qmem =
  m_order :: "string list"
  m_entries :: qentries
  m_running :: "string \<Rightarrow> int"
  m_wake :: bool
  m_idle :: bool
  m_closed :: bool
  m_stopped :: bool
  m_expiring :: "string list"
  m_inFlight :: "string list"
  m_canceledCtx :: "string list"

definition NewMemory :: qmem where
  "NewMemory = \<lparr>m_order = [], m_entries = Map.empty, m_running = (\<lambda>_. 0), m_wake = False,
     m_idle = False, m_closed = False, m_stopped = False, m_expiring = [], m_inFlight = [],
     m_canceledCtx = []\<rparr>"

abbreviation terminal :: "qstate \<Rightarrow> bool" where
  "terminal s \<equiv> s = StateSucceeded \<or> s = StateFailed \<or> s = StateCanceled"

definition signal :: "qmem \<Rightarrow> qmem" where
  "signal m = m\<lparr>m_wake := True\<rparr>"

definition put_entry :: "string \<Rightarrow> qentry \<Rightarrow> qmem \<Rightarrow> qmem" where
  "put_entry tid e m = m\<lparr>m_entries := (m_entries m)(tid \<mapsto> e)\<rparr>"

subsection \<open>Enqueue\<close>

definition ErrDuplicateTask :: goerr where
  "ErrDuplicateTask = ErrorsNew ''duplicate task''"

fun enqueue_check :: "qmem \<Rightarrow> qtask list \<Rightarrow> goerr option" where
  "enqueue_check m [] = None"
| "enqueue_check m (t # ts) =
     (if t_ID t = [] then Some (ErrorsNew ''task id is required'')
      else if \<not> t_Run t then Some (ErrorsNew ''task run callback is required'')
      else if m_entries m (t_ID t) \<noteq> None then Some ErrDuplicateTask
      else enqueue_check m ts)"

definition new_entry :: "qtask \<Rightarrow> qentry" where
  "new_entry t = \<lparr>e_Task = t\<lparr>t_LeaseTTL := if t_LeaseTTL t \<le> 0 then 10 * second else t_LeaseTTL t\<rparr>,
     e_State = StatePending, e_LeaseDeadline = 0, e_Err = None, e_StartedAt = 0,
     e_CompletedAt = 0, e_cancel = False, e_counted = False\<rparr>"

fun enqueue_insert :: "qtask list \<Rightarrow> qmem \<Rightarrow> qmem" where
  "enqueue_insert [] m = m"
| "enqueue_insert (t # ts) m =
     enqueue_insert ts ((put_entry (t_ID t) (new_entry t) m)\<lparr>m_order := m_order m @ [t_ID t]\<rparr>)"

definition Enqueue :: "qtask list \<Rightarrow> qmem \<Rightarrow> qmem \<times> goerr option" where
  "Enqueue ts m =
     (case enqueue_check m ts of
        Some err \<Rightarrow> (m, Some err)
      | None \<Rightarrow> (signal (enqueue_insert ts m), None))"

subsection \<open>Cancelling a group\<close>

definition cancel_item :: "gotime \<Rightarrow> string \<Rightarrow> string \<Rightarrow> qmem \<Rightarrow> qmem" where
  "cancel_item now grp tid m =
     (case m_entries m tid of
        None \<Rightarrow> m
      | Some e \<Rightarrow>
          if t_Group (e_Task e) \<noteq> grp then m
          else case e_State e of
              StatePending \<Rightarrow>
                put_entry tid (e\<lparr>e_State := StateCanceled, e_CompletedAt := now,
                                e_Err := Some ContextCanceled\<rparr>) m
            | StateRunning \<Rightarrow> if e_cancel e then m\<lparr>m_canceledCtx := tid # m_canceledCtx m\<rparr> else m
            | _ \<Rightarrow> m)"

definition CancelGroup :: "gotime \<Rightarrow> string \<Rightarrow> qmem \<Rightarrow> qmem" where
  "CancelGroup now grp m = signal (fold (cancel_item now grp) (m_order m) m)"

definition cancel_running_item :: "string \<Rightarrow> string \<Rightarrow> qmem \<Rightarrow> qmem" where
  "cancel_running_item grp tid m =
     (case m_entries m tid of
        None \<Rightarrow> m
      | Some e \<Rightarrow>
          if t_Group (e_Task e) \<noteq> grp then m
          else if e_State e = StateRunning \<and> e_cancel e
          then m\<lparr>m_canceledCtx := tid # m_canceledCtx m\<rparr>
          else m)"

definition CancelRunningGroup :: "string \<Rightarrow> qmem \<Rightarrow> qmem" where
  "CancelRunningGroup grp m = fold (cancel_running_item grp) (m_order m) m"

subsection \<open>Reading\<close>

definition Snapshot :: "qmem \<Rightarrow> qentry list" where
  "Snapshot m = List.map_filter (m_entries m) (m_order m)"

definition stateTallies :: "qmem \<Rightarrow> qstate \<Rightarrow> nat" where
  "stateTallies m s = length (filter (\<lambda>e. e_State e = s) (Snapshot m))"

definition Close :: "qmem \<Rightarrow> qmem" where
  "Close m = m\<lparr>m_closed := True\<rparr>"

text \<open>\<open>Drain\<close> reports whether the in-flight tasks all return before its timeout.\<close>

definition Drain :: "qmem \<Rightarrow> bool" where
  "Drain m \<longleftrightarrow> m_inFlight m = []"

subsection \<open>Claiming the next task\<close>

datatype depcheck = DepsReady | DepsWait | DepsMissing | DepsFailed string

fun check_deps :: "qentries \<Rightarrow> string list \<Rightarrow> depcheck" where
  "check_deps es [] = DepsReady"
| "check_deps es (d # ds) =
     (case es d of
        None \<Rightarrow> DepsMissing
      | Some dep \<Rightarrow>
          (case e_State dep of
             StatePending \<Rightarrow> DepsWait
           | StateRunning \<Rightarrow> DepsWait
           | StateFailed \<Rightarrow> DepsFailed d
           | StateCanceled \<Rightarrow> DepsFailed d
           | StateSucceeded \<Rightarrow> check_deps es ds))"

fun soft_ready :: "qentries \<Rightarrow> string list \<Rightarrow> bool" where
  "soft_ready es [] = True"
| "soft_ready es (d # ds) =
     (case es d of
        None \<Rightarrow> False
      | Some dep \<Rightarrow> e_State dep \<noteq> StatePending \<and> e_State dep \<noteq> StateRunning \<and> soft_ready es ds)"

definition cancel_dependant :: "gotime \<Rightarrow> goerr \<Rightarrow> qentry \<Rightarrow> qentry" where
  "cancel_dependant now err e =
     e\<lparr>e_State := StateCanceled, e_CompletedAt := now, e_Err := Some err\<rparr>"

definition start_entry :: "gotime \<Rightarrow> qentry \<Rightarrow> qentry" where
  "start_entry now e =
     e\<lparr>e_counted := True, e_State := StateRunning, e_StartedAt := now,
       e_LeaseDeadline := now + t_LeaseTTL (e_Task e)\<rparr>"

definition callback_of :: "qentry \<Rightarrow> string list" where
  "callback_of e = (if t_OnCanceled (e_Task e) then [t_ID (e_Task e)] else [])"

text \<open>The limit the capacity callback reports; without one it is 0, which is no limit.\<close>

definition task_limit :: "(string \<Rightarrow> int) \<Rightarrow> qentry \<Rightarrow> int" where
  "task_limit cap e = (if t_Capacity (e_Task e) then cap (t_ID (e_Task e)) else 0)"

definition pool_limit :: "(string \<Rightarrow> int) \<Rightarrow> (string \<rightharpoonup> int) \<Rightarrow> qentry \<Rightarrow> int" where
  "pool_limit cap capacities e =
     (case capacities (t_Pool (e_Task e)) of Some l \<Rightarrow> l | None \<Rightarrow> task_limit cap e)"

fun claim_scan ::
  "(string \<Rightarrow> int) \<Rightarrow> gotime \<Rightarrow> string list \<Rightarrow> (string \<rightharpoonup> int) \<Rightarrow> string list \<Rightarrow> qmem
     \<Rightarrow> qmem \<times> string list \<times> qtask option" where
  "claim_scan cap now [] capacities cbs m = (m, cbs, None)"
| "claim_scan cap now (tid # ids) capacities cbs m =
     (case m_entries m tid of
        None \<Rightarrow> claim_scan cap now ids capacities cbs m
      | Some e \<Rightarrow>
          if e_State e \<noteq> StatePending then claim_scan cap now ids capacities cbs m
          else case check_deps (m_entries m) (t_Dependencies (e_Task e)) of
              DepsMissing \<Rightarrow>
                claim_scan cap now ids capacities (cbs @ callback_of e)
                  (put_entry tid (cancel_dependant now (ErrorsNew ''dependency missing'') e) m)
            | DepsFailed d \<Rightarrow>
                claim_scan cap now ids capacities (cbs @ callback_of e)
                  (put_entry tid
                    (cancel_dependant now (Errorf ''dependency %q did not succeed'' [d]) e) m)
            | DepsWait \<Rightarrow> claim_scan cap now ids capacities cbs m
            | DepsReady \<Rightarrow>
                if \<not> soft_ready (m_entries m) (t_SoftDependencies (e_Task e))
                then claim_scan cap now ids capacities cbs m
                else
                  let pool = t_Pool (e_Task e);
                      limit = pool_limit cap capacities e
                  in if 0 < limit \<and> limit \<le> m_running m pool
                     then claim_scan cap now ids (capacities(pool \<mapsto> limit)) cbs m
                     else ((put_entry tid (start_entry now e) m)
                             \<lparr>m_running := (m_running m)(pool := m_running m pool + 1)\<rparr>,
                           cbs, Some (e_Task e)))"

definition claim :: "(string \<Rightarrow> int) \<Rightarrow> gotime \<Rightarrow> qmem \<Rightarrow> qmem \<times> string list \<times> qtask option" where
  "claim cap now m = claim_scan cap now (m_order m) Map.empty [] m"

subsection \<open>Running, leases and finishing\<close>

definition attachCancel :: "string \<Rightarrow> qmem \<Rightarrow> qmem" where
  "attachCancel tid m =
     (case m_entries m tid of
        None \<Rightarrow> m\<lparr>m_canceledCtx := tid # m_canceledCtx m\<rparr>
      | Some e \<Rightarrow>
          if e_State e \<noteq> StateRunning then m\<lparr>m_canceledCtx := tid # m_canceledCtx m\<rparr>
          else put_entry tid (e\<lparr>e_cancel := True\<rparr>) m)"

text \<open>One tick of \<open>renewLease\<close>; the period between ticks is half the lease.\<close>

definition renewEvery :: "duration \<Rightarrow> duration" where
  "renewEvery ttl = (if ttl div 2 \<le> 0 then second else ttl div 2)"

definition renewLease :: "gotime \<Rightarrow> string \<Rightarrow> duration \<Rightarrow> qmem \<Rightarrow> qmem" where
  "renewLease now tid ttl m =
     (case m_entries m tid of
        None \<Rightarrow> m
      | Some e \<Rightarrow>
          if e_State e = StateRunning then put_entry tid (e\<lparr>e_LeaseDeadline := now + ttl\<rparr>) m else m)"

definition outcome :: "goerr option \<Rightarrow> qstate" where
  "outcome err =
     (case err of
        None \<Rightarrow> StateSucceeded
      | Some x \<Rightarrow> if errors_is_canceled x then StateCanceled else StateFailed)"

definition finish :: "gotime \<Rightarrow> string \<Rightarrow> goerr option \<Rightarrow> qmem \<Rightarrow> qmem" where
  "finish now tid err m =
     (case m_entries m tid of
        None \<Rightarrow> m
      | Some e \<Rightarrow>
          if terminal (e_State e) then m
          else
            let pool = t_Pool (e_Task e);
                running = (if e_counted e then (m_running m)(pool := m_running m pool - 1)
                           else m_running m)
            in signal ((put_entry tid
                 (e\<lparr>e_cancel := False, e_counted := False, e_CompletedAt := now, e_Err := err,
                    e_LeaseDeadline := 0, e_State := outcome err\<rparr>) m)\<lparr>m_running := running\<rparr>))"

definition lease_expired :: "gotime \<Rightarrow> qentries \<Rightarrow> string \<Rightarrow> bool" where
  "lease_expired now es tid =
     (case es tid of
        None \<Rightarrow> False
      | Some e \<Rightarrow> e_State e = StateRunning \<and> e_LeaseDeadline e \<noteq> 0 \<and> e_LeaseDeadline e < now)"

text \<open>
  One tick of \<open>expiryLoop\<close>: under the lock it collects the expired ids (\<open>keys\<close> is the order in
  which Go visits the map) and cancels their contexts; each id is finished later, in a critical
  section of its own (\<open>expiry_next\<close>).
\<close>

definition expiry_tick :: "gotime \<Rightarrow> string list \<Rightarrow> qmem \<Rightarrow> qmem" where
  "expiry_tick now keys m =
     (let expired = filter (lease_expired now (m_entries m)) keys;
          canceled = filter (\<lambda>tid. case m_entries m tid of None \<Rightarrow> False | Some e \<Rightarrow> e_cancel e) expired
      in m\<lparr>m_expiring := expired, m_canceledCtx := rev canceled @ m_canceledCtx m\<rparr>)"

definition expiry_next :: "gotime \<Rightarrow> qmem \<Rightarrow> qmem" where
  "expiry_next now m =
     (case m_expiring m of
        [] \<Rightarrow> m
      | tid # ids \<Rightarrow> finish now tid (Some ContextDeadlineExceeded) (m\<lparr>m_expiring := ids\<rparr>))"

subsection \<open>Pruning\<close>

definition prunable :: "string \<Rightarrow> qentries \<Rightarrow> string \<Rightarrow> bool" where
  "prunable grp es tid =
     (case es tid of None \<Rightarrow> False | Some e \<Rightarrow> t_Group (e_Task e) = grp \<and> terminal (e_State e))"

definition PruneGroup :: "string \<Rightarrow> qmem \<Rightarrow> qmem" where
  "PruneGroup grp m =
     m\<lparr>m_entries := (\<lambda>tid. if prunable grp (m_entries m) tid then None else m_entries m tid),
       m_order := filter (\<lambda>tid. \<not> prunable grp (m_entries m) tid) (m_order m)\<rparr>"

subsection \<open>The goroutines, interleaved\<close>

datatype qop =
    OpEnqueue "qtask list"
  | OpCancelGroup gotime string
  | OpCancelRunningGroup string
  | OpDispatch gotime
  | OpWake
  | OpAttachCancel string
  | OpRenewLease gotime string duration
  | OpRunReturns gotime string "goerr option"
  | OpExpiryTick gotime "string list"
  | OpExpiryNext gotime
  | OpPruneGroup string
  | OpClose
  | OpStop

text \<open>
  \<open>OpDispatch\<close> is one \<open>claim\<close> of the loop in \<open>dispatch\<close>, \<open>OpWake\<close> its receive from the wake
  channel and \<open>OpStop\<close> its return when the context is done; \<open>OpAttachCancel\<close>, \<open>OpRenewLease\<close>
  and \<open>OpRunReturns\<close> are the goroutine \<open>run\<close> of a started task.
\<close>

fun queue_step :: "(string \<Rightarrow> int) \<Rightarrow> qop \<Rightarrow> qmem \<Rightarrow> qmem" where
  "queue_step cap (OpEnqueue ts) m = fst (Enqueue ts m)"
| "queue_step cap (OpCancelGroup now g) m = CancelGroup now g m"
| "queue_step cap (OpCancelRunningGroup g) m = CancelRunningGroup g m"
| "queue_step cap (OpDispatch now) m =
     (if m_idle m \<or> m_stopped m then m
      else case claim cap now m of
          (m', _, None) \<Rightarrow> m'\<lparr>m_idle := True\<rparr>
        | (m', _, Some t) \<Rightarrow> m'\<lparr>m_inFlight := t_ID t # m_inFlight m'\<rparr>)"
| "queue_step cap OpWake m =
     (if m_idle m \<and> m_wake m \<and> \<not> m_stopped m then m\<lparr>m_idle := False, m_wake := False\<rparr> else m)"
| "queue_step cap (OpAttachCancel tid) m = (if tid \<in> set (m_inFlight m) then attachCancel tid m else m)"
| "queue_step cap (OpRenewLease now tid ttl) m =
     (if tid \<in> set (m_inFlight m) then renewLease now tid ttl m else m)"
| "queue_step cap (OpRunReturns now tid err) m =
     (if tid \<in> set (m_inFlight m)
      then finish now tid err (m\<lparr>m_inFlight := remove1 tid (m_inFlight m)\<rparr>) else m)"
| "queue_step cap (OpExpiryTick now keys) m =
     (if m_expiring m = [] then expiry_tick now keys m else m)"
| "queue_step cap (OpExpiryNext now) m = expiry_next now m"
| "queue_step cap (OpPruneGroup g) m = PruneGroup g m"
| "queue_step cap OpClose m = Close m"
| "queue_step cap OpStop m = (if m_idle m \<and> m_closed m then m\<lparr>m_stopped := True\<rparr> else m)"

inductive queue_reachable :: "qmem \<Rightarrow> bool" where
  start: "queue_reachable NewMemory"
| step: "queue_reachable m \<Longrightarrow> queue_reachable (queue_step cap op m)"

subsection \<open>The queue invariant\<close>

text \<open>
  What every critical section keeps: the order lists exactly the entries; each entry is stored
  under its task's id, is counted exactly while it runs, holds a cancel function only while it
  runs, has a positive lease, and has an error exactly when it failed or was canceled; and the
  counter of a pool is the number of its running tasks.
\<close>

definition pool_running :: "qentries \<Rightarrow> string \<Rightarrow> string set" where
  "pool_running es p =
     {i. \<exists>e. es i = Some e \<and> e_State e = StateRunning \<and> t_Pool (e_Task e) = p}"

definition entry_ok :: "string \<Rightarrow> qentry \<Rightarrow> bool" where
  "entry_ok i e \<longleftrightarrow>
     t_ID (e_Task e) = i \<and> (e_counted e \<longleftrightarrow> e_State e = StateRunning) \<and>
     (e_cancel e \<longrightarrow> e_State e = StateRunning) \<and> 0 < t_LeaseTTL (e_Task e) \<and>
     (e_Err e = None \<longleftrightarrow> e_State e \<in> {StatePending, StateRunning, StateSucceeded})"

definition queue_inv :: "qmem \<Rightarrow> bool" where
  "queue_inv m \<longleftrightarrow>
     set (m_order m) = dom (m_entries m) \<and>
     (\<forall>i e. m_entries m i = Some e \<longrightarrow> entry_ok i e) \<and>
     (\<forall>p. m_running m p = int (card (pool_running (m_entries m) p)))"

lemma queue_inv_frame [simp]:
  "queue_inv (m\<lparr>m_wake := b\<rparr>) = queue_inv m"
  "queue_inv (m\<lparr>m_idle := b\<rparr>) = queue_inv m"
  "queue_inv (m\<lparr>m_closed := b\<rparr>) = queue_inv m"
  "queue_inv (m\<lparr>m_stopped := b\<rparr>) = queue_inv m"
  "queue_inv (m\<lparr>m_expiring := ids\<rparr>) = queue_inv m"
  "queue_inv (m\<lparr>m_inFlight := ids\<rparr>) = queue_inv m"
  "queue_inv (m\<lparr>m_canceledCtx := ids\<rparr>) = queue_inv m"
  by (simp_all add: queue_inv_def)

lemma queue_inv_signal [simp]: "queue_inv (signal m) = queue_inv m"
  by (simp add: signal_def)

lemma put_entry_simps [simp]:
  "m_order (put_entry i e m) = m_order m"
  "m_entries (put_entry i e m) = (m_entries m)(i \<mapsto> e)"
  "m_running (put_entry i e m) = m_running m"
  "m_wake (put_entry i e m) = m_wake m"
  "m_idle (put_entry i e m) = m_idle m"
  "m_closed (put_entry i e m) = m_closed m"
  "m_stopped (put_entry i e m) = m_stopped m"
  "m_expiring (put_entry i e m) = m_expiring m"
  "m_inFlight (put_entry i e m) = m_inFlight m"
  by (simp_all add: put_entry_def)

lemma signal_simps [simp]:
  "m_order (signal m) = m_order m"
  "m_entries (signal m) = m_entries m"
  "m_running (signal m) = m_running m"
  "m_idle (signal m) = m_idle m"
  "m_wake (signal m) = True"
  by (simp_all add: signal_def)

lemma pool_running_upd:
  "pool_running (es(i \<mapsto> e)) p =
     (if e_State e = StateRunning \<and> t_Pool (e_Task e) = p then insert i (pool_running es p)
      else pool_running es p - {i})"
  by (auto simp: pool_running_def)

lemma finite_pool_running: "queue_inv m \<Longrightarrow> finite (pool_running (m_entries m) p)"
proof -
  assume "queue_inv m"
  then have "pool_running (m_entries m) p \<subseteq> set (m_order m)"
    by (auto simp: pool_running_def queue_inv_def)
  then show ?thesis by (rule finite_subset) simp
qed

text \<open>
  Replacing one entry by another of the same pool keeps the invariant when the pool's counter
  follows the change of state.
\<close>

lemma queue_inv_replace:
  assumes inv: "queue_inv m" and e: "m_entries m i = Some e" and ok: "entry_ok i e'"
    and pool: "t_Pool (e_Task e') = t_Pool (e_Task e)"
    and run: "running = (m_running m)(t_Pool (e_Task e) := m_running m (t_Pool (e_Task e)) +
        of_bool (e_State e' = StateRunning) - of_bool (e_State e = StateRunning))"
  shows "queue_inv ((put_entry i e' m)\<lparr>m_running := running\<rparr>)"
proof -
  let ?q = "t_Pool (e_Task e)"
  have fin: "finite (pool_running (m_entries m) p)" for p
    by (rule finite_pool_running [OF inv])
  have mem: "i \<in> pool_running (m_entries m) p \<longleftrightarrow> e_State e = StateRunning \<and> p = ?q" for p
    using e by (auto simp: pool_running_def)
  have "running p = int (card (pool_running ((m_entries m)(i \<mapsto> e')) p))" for p
  proof (cases "p = ?q")
    case True
    have "0 < card (pool_running (m_entries m) p)" if "e_State e = StateRunning"
      using that mem [of p] fin [of p] True by (auto simp: card_gt_0_iff)
    with True show ?thesis
      using inv fin [of p] mem [of p]
      by (auto simp: pool_running_upd pool run queue_inv_def insert_absorb card_Diff_singleton_if)
  next
    case False
    then show ?thesis
      using inv mem [of p] by (auto simp: pool_running_upd pool run queue_inv_def)
  qed
  with inv e ok show ?thesis by (auto simp: queue_inv_def)
qed

lemma queue_inv_put:
  assumes "queue_inv m" "m_entries m i = Some e" "entry_ok i e'"
    "t_Pool (e_Task e') = t_Pool (e_Task e)"
    "e_State e' = StateRunning \<longleftrightarrow> e_State e = StateRunning"
  shows "queue_inv (put_entry i e' m)"
  using queue_inv_replace [OF assms(1-4), of "m_running m"] assms(5)
  by (simp add: put_entry_def)

lemma queue_inv_entry: "queue_inv m \<Longrightarrow> m_entries m i = Some e \<Longrightarrow> entry_ok i e"
  by (simp add: queue_inv_def)

lemma queue_inv_NewMemory: "queue_inv NewMemory"
  by (simp add: queue_inv_def NewMemory_def pool_running_def)

lemma queue_inv_enqueue_insert:
  "queue_inv m \<Longrightarrow> \<forall>t\<in>set ts. m_entries m (t_ID t) = None \<or>
     (\<exists>e. m_entries m (t_ID t) = Some e \<and> e_State e = StatePending) \<Longrightarrow>
   queue_inv (enqueue_insert ts m)"
proof (induction ts arbitrary: m)
  case Nil
  then show ?case by simp
next
  case (Cons t ts)
  let ?m = "(put_entry (t_ID t) (new_entry t) m)\<lparr>m_order := m_order m @ [t_ID t]\<rparr>"
  have "t_ID t \<notin> pool_running (m_entries m) p" for p
    using Cons.prems(2) by (auto simp: pool_running_def)
  then have "queue_inv ?m"
    using Cons.prems(1)
    by (auto simp: queue_inv_def pool_running_upd new_entry_def entry_ok_def)
  moreover have "\<forall>u\<in>set ts. m_entries ?m (t_ID u) = None \<or>
     (\<exists>e. m_entries ?m (t_ID u) = Some e \<and> e_State e = StatePending)"
    using Cons.prems(2) by (auto simp: new_entry_def)
  ultimately show ?case by (simp add: Cons.IH)
qed

lemma enqueue_check_fresh: "enqueue_check m ts = None \<Longrightarrow> t \<in> set ts \<Longrightarrow> m_entries m (t_ID t) = None"
  by (induction ts) (auto split: if_splits)

lemma queue_inv_Enqueue: "queue_inv m \<Longrightarrow> queue_inv (fst (Enqueue ts m))"
  by (auto simp: Enqueue_def enqueue_check_fresh intro!: queue_inv_enqueue_insert split: option.split)

lemma queue_inv_cancel_item: "queue_inv m \<Longrightarrow> queue_inv (cancel_item now grp i m)"
  unfolding cancel_item_def
  by (auto split: option.split qstate.split intro!: queue_inv_put dest: queue_inv_entry
      simp: entry_ok_def)

lemma queue_inv_CancelGroup: "queue_inv m \<Longrightarrow> queue_inv (CancelGroup now grp m)"
  unfolding CancelGroup_def queue_inv_signal
  by (rule fold_invariant [where Q = "\<lambda>_. True"]) (auto intro: queue_inv_cancel_item)

lemma queue_inv_CancelRunningGroup: "queue_inv m \<Longrightarrow> queue_inv (CancelRunningGroup grp m)"
  unfolding CancelRunningGroup_def
  by (rule fold_invariant [where Q = "\<lambda>_. True"])
     (auto simp: cancel_running_item_def split: option.split)

lemma queue_inv_claim_scan:
  "queue_inv m \<Longrightarrow> queue_inv (fst (claim_scan cap now ids capacities cbs m))"
proof (induction ids arbitrary: capacities cbs m)
  case Nil
  then show ?case by simp
next
  case (Cons i ids)
  show ?case
  proof (cases "m_entries m i")
    case None
    with Cons show ?thesis by simp
  next
    case (Some e)
    note ok = queue_inv_entry [OF Cons.prems Some]
    have cancel: "queue_inv (put_entry i (cancel_dependant now err e) m)"
      if "e_State e = StatePending" for err
      using that ok
      by (intro queue_inv_put [OF Cons.prems Some]) (auto simp: cancel_dependant_def entry_ok_def)
    have start: "queue_inv ((put_entry i (start_entry now e) m)
        \<lparr>m_running := (m_running m)(t_Pool (e_Task e) := m_running m (t_Pool (e_Task e)) + 1)\<rparr>)"
      if "e_State e = StatePending"
      using that ok
      by (intro queue_inv_replace [OF Cons.prems Some]) (auto simp: start_entry_def entry_ok_def)
    show ?thesis
      using Cons.prems Some cancel start by (simp add: Let_def Cons.IH split: depcheck.split)
  qed
qed

lemma queue_inv_claim: "queue_inv m \<Longrightarrow> queue_inv (fst (claim cap now m))"
  unfolding claim_def by (rule queue_inv_claim_scan)

lemma queue_inv_claim_result: "claim cap now m = (m', r) \<Longrightarrow> queue_inv m \<Longrightarrow> queue_inv m'"
  using queue_inv_claim [of m cap now] by simp

lemma queue_inv_attachCancel: "queue_inv m \<Longrightarrow> queue_inv (attachCancel i m)"
  unfolding attachCancel_def
  by (auto split: option.split intro!: queue_inv_put dest: queue_inv_entry simp: entry_ok_def)

lemma queue_inv_renewLease: "queue_inv m \<Longrightarrow> queue_inv (renewLease now i ttl m)"
  unfolding renewLease_def
  by (auto split: option.split intro!: queue_inv_put dest: queue_inv_entry simp: entry_ok_def)

lemma outcome_terminal [simp]: "terminal (outcome err)" "outcome err \<noteq> StatePending"
  "outcome err \<noteq> StateRunning"
  by (auto simp: outcome_def split: option.split)

lemma outcome_succeeded: "outcome err = StateSucceeded \<longleftrightarrow> err = None"
  by (auto simp: outcome_def split: option.split)

lemma queue_inv_finish: "queue_inv m \<Longrightarrow> queue_inv (finish now i err m)"
proof (cases "m_entries m i")
  case (Some e)
  assume inv: "queue_inv m"
  note ok = queue_inv_entry [OF inv Some]
  show ?thesis
  proof (cases "terminal (e_State e)")
    case False
    then have "e_State e = StatePending \<or> e_State e = StateRunning" by (cases "e_State e") auto
    with ok have "queue_inv ((put_entry i
        (e\<lparr>e_cancel := False, e_counted := False, e_CompletedAt := now, e_Err := err,
           e_LeaseDeadline := 0, e_State := outcome err\<rparr>) m)
        \<lparr>m_running := if e_counted e then (m_running m)(t_Pool (e_Task e) := m_running m (t_Pool (e_Task e)) - 1)
           else m_running m\<rparr>)"
      by (intro queue_inv_replace [OF inv Some]) (auto simp: entry_ok_def outcome_succeeded)
    with False show ?thesis by (simp add: finish_def Some Let_def)
  qed (use inv in \<open>simp add: finish_def Some\<close>)
qed (simp add: finish_def)

lemma queue_inv_PruneGroup: "queue_inv m \<Longrightarrow> queue_inv (PruneGroup grp m)"
proof -
  assume inv: "queue_inv m"
  have "pool_running (m_entries (PruneGroup grp m)) p = pool_running (m_entries m) p" for p
    by (auto simp: pool_running_def PruneGroup_def prunable_def split: option.splits)
  with inv show ?thesis
    by (auto simp: queue_inv_def PruneGroup_def split: if_splits)
qed

lemma queue_inv_step: "queue_inv m \<Longrightarrow> queue_inv (queue_step cap op m)"
  by (cases op)
     (auto simp: Close_def expiry_tick_def Let_def expiry_next_def
       split: list.split prod.split option.split
       intro!: queue_inv_Enqueue queue_inv_CancelGroup queue_inv_CancelRunningGroup
         queue_inv_attachCancel queue_inv_renewLease queue_inv_finish queue_inv_PruneGroup
       dest: queue_inv_claim_result)

lemma queue_inv_reachable: "queue_reachable m \<Longrightarrow> queue_inv m"
  by (induction rule: queue_reachable.induct) (simp_all add: queue_inv_NewMemory queue_inv_step)

subsection \<open>What a claim promises\<close>

lemma check_deps_ready:
  "check_deps es ds = DepsReady \<longleftrightarrow> (\<forall>d\<in>set ds. \<exists>e. es d = Some e \<and> e_State e = StateSucceeded)"
  by (induction ds) (auto split: option.split qstate.split)

lemma soft_ready_iff:
  "soft_ready es ds \<longleftrightarrow> (\<forall>d\<in>set ds. \<exists>e. es d = Some e \<and> terminal (e_State e))"
proof (induction ds)
  case (Cons d ds)
  have "terminal s \<longleftrightarrow> s \<noteq> StatePending \<and> s \<noteq> StateRunning" for s by (cases s) auto
  with Cons show ?case by (auto split: option.split)
qed simp

lemma check_deps_cong: "(\<And>d. d \<in> set ds \<Longrightarrow> es d = es' d) \<Longrightarrow> check_deps es ds = check_deps es' ds"
  by (induction ds) (auto split: option.split qstate.split)

lemma soft_ready_cong: "(\<And>d. d \<in> set ds \<Longrightarrow> es d = es' d) \<Longrightarrow> soft_ready es ds = soft_ready es' ds"
  by (induction ds) (auto split: option.split)

lemma cancel_dependant_simps [simp]:
  "e_Task (cancel_dependant now err e) = e_Task e"
  "e_State (cancel_dependant now err e) = StateCanceled"
  "e_Task (start_entry now e) = e_Task e"
  "e_State (start_entry now e) = StateRunning"
  by (simp_all add: cancel_dependant_def start_entry_def)

text \<open>A scan touches only the ids it visits, and never changes which task is stored where.\<close>

lemma claim_scan_frame:
  "i \<notin> set ids \<Longrightarrow> m_entries (fst (claim_scan cap now ids capacities cbs m)) i = m_entries m i"
  by (induction ids arbitrary: capacities cbs m)
     (auto simp: Let_def split: option.split depcheck.split)

definition task_at :: "qentries \<Rightarrow> string \<Rightarrow> qtask option" where
  "task_at es i = map_option e_Task (es i)"

lemma task_at_upd [simp]: "task_at (es(i \<mapsto> e)) j = (if j = i then Some (e_Task e) else task_at es j)"
  by (simp add: task_at_def)

lemma task_at_Some: "es i = Some e \<Longrightarrow> task_at es i = Some (e_Task e)"
  by (simp add: task_at_def)

lemma claim_scan_static:
  "m_order (fst (claim_scan cap now ids capacities cbs m)) = m_order m"
  "m_wake (fst (claim_scan cap now ids capacities cbs m)) = m_wake m"
  "task_at (m_entries (fst (claim_scan cap now ids capacities cbs m))) = task_at (m_entries m)"
  "m_inFlight (fst (claim_scan cap now ids capacities cbs m)) = m_inFlight m"
  "m_idle (fst (claim_scan cap now ids capacities cbs m)) = m_idle m"
  by (induction ids arbitrary: capacities cbs m)
     (auto simp: Let_def fun_eq_iff task_at_Some split: option.split depcheck.split)

lemma claim_scan_none_running:
  "claim_scan cap now ids capacities cbs m = (m', cbs', None) \<Longrightarrow> m_running m' = m_running m"
  by (induction ids arbitrary: capacities cbs m)
     (auto simp: Let_def split: option.splits depcheck.splits if_splits)

text \<open>
  A started task was pending, and in the state the claim leaves behind its dependencies have all
  succeeded, its soft dependencies have all ended and the entry is running under a fresh lease.
\<close>

definition started :: "gotime \<Rightarrow> qtask \<Rightarrow> qmem \<Rightarrow> qmem \<Rightarrow> bool" where
  "started now t m m' \<longleftrightarrow>
     (\<exists>i e. m_entries m i = Some e \<and> e_State e = StatePending \<and> e_Task e = t \<and>
        m_entries m' i = Some (start_entry now e) \<and>
        (\<forall>d\<in>set (t_Dependencies t). \<exists>dep. m_entries m' d = Some dep \<and> e_State dep = StateSucceeded) \<and>
        (\<forall>d\<in>set (t_SoftDependencies t). \<exists>dep. m_entries m' d = Some dep \<and> terminal (e_State dep)))"

lemma started_now:
  assumes "m_entries m i = Some e" "e_State e = StatePending"
    "check_deps (m_entries m) (t_Dependencies (e_Task e)) = DepsReady"
    "soft_ready (m_entries m) (t_SoftDependencies (e_Task e))"
  shows "started now (e_Task e) m ((put_entry i (start_entry now e) m)\<lparr>m_running := r\<rparr>)"
  unfolding started_def
  by (rule exI [of _ i], rule exI [of _ e], use assms in \<open>auto simp: check_deps_ready soft_ready_iff\<close>)

lemma started_later:
  assumes "started now t m1 m'" "m1 = put_entry i (cancel_dependant now err e) m" "m_entries m i = Some e"
  shows "started now t m m'"
  using assms unfolding started_def by (auto split: if_splits)

lemma claim_scan_starts:
  "claim_scan cap now ids capacities cbs m = (m', cbs', Some t) \<Longrightarrow> started now t m m'"
proof (induction ids arbitrary: capacities cbs m)
  case (Cons i ids)
  show ?case
  proof (cases "m_entries m i")
    case None
    with Cons show ?thesis by simp
  next
    case (Some e)
    with Cons show ?thesis
      by (auto simp: Let_def split: if_splits depcheck.splits intro: started_now started_later)
  qed
qed simp

lemma claim_starts: "claim cap now m = (m', cbs, Some t) \<Longrightarrow> started now t m m'"
  unfolding claim_def by (rule claim_scan_starts)

subsection \<open>Pool capacity\<close>

definition op_tasks :: "qop \<Rightarrow> qtask list" where
  "op_tasks op = (case op of OpEnqueue ts \<Rightarrow> ts | _ \<Rightarrow> [])"

definition queue_run :: "(string \<Rightarrow> int) \<Rightarrow> qop list \<Rightarrow> qmem" where
  "queue_run cap ops = fold (queue_step cap) ops NewMemory"

definition declares :: "(string \<Rightarrow> int) \<Rightarrow> string \<Rightarrow> int \<Rightarrow> qtask \<Rightarrow> bool" where
  "declares cap p l t \<longleftrightarrow> (t_Pool t = p \<longrightarrow> t_Capacity t \<and> cap (t_ID t) = l)"

definition all_declare :: "(string \<Rightarrow> int) \<Rightarrow> string \<Rightarrow> int \<Rightarrow> qentries \<Rightarrow> bool" where
  "all_declare cap p l es \<longleftrightarrow> (\<forall>i t. task_at es i = Some t \<longrightarrow> declares cap p l t)"

definition cache_agrees :: "string \<Rightarrow> int \<Rightarrow> (string \<rightharpoonup> int) \<Rightarrow> bool" where
  "cache_agrees p l capacities \<longleftrightarrow> (\<forall>c. capacities p = Some c \<longrightarrow> c = l)"

lemma pool_limit_agrees:
  "all_declare cap p l es \<Longrightarrow> cache_agrees p l capacities \<Longrightarrow> es i = Some e \<Longrightarrow>
   t_Pool (e_Task e) = p \<Longrightarrow> pool_limit cap capacities e = l"
  by (auto simp: pool_limit_def task_limit_def cache_agrees_def all_declare_def declares_def
      task_at_def split: option.split)

lemma all_declare_static: "task_at es' = task_at es \<Longrightarrow> all_declare cap p l es' = all_declare cap p l es"
  by (simp add: all_declare_def)

lemma all_declare_put:
  "es i = Some e \<Longrightarrow> e_Task e' = e_Task e \<Longrightarrow> all_declare cap p l (es(i \<mapsto> e')) = all_declare cap p l es"
  by (intro all_declare_static) (auto simp: fun_eq_iff task_at_def)

lemma claim_scan_capacity:
  "all_declare cap p l (m_entries m) \<Longrightarrow> cache_agrees p l capacities \<Longrightarrow> 0 < l \<Longrightarrow>
   m_running m p \<le> l \<Longrightarrow> m_running (fst (claim_scan cap now ids capacities cbs m)) p \<le> l"
proof (induction ids arbitrary: capacities cbs m)
  case (Cons i ids)
  show ?case
  proof (cases "m_entries m i")
    case None
    with Cons show ?thesis by simp
  next
    case (Some e)
    have lim: "t_Pool (e_Task e) = p \<Longrightarrow> pool_limit cap capacities e = l"
      using Cons.prems Some by (auto intro: pool_limit_agrees)
    have cache: "cache_agrees p l (capacities(t_Pool (e_Task e) \<mapsto> pool_limit cap capacities e))"
      using Cons.prems(2) lim by (auto simp: cache_agrees_def)
    have put: "all_declare cap p l ((m_entries m)(i \<mapsto> cancel_dependant now err e))" for err
      using Cons.prems(1) Some by (simp add: all_declare_put)
    have start: "(if p = t_Pool (e_Task e) then m_running m p + 1 else m_running m p) \<le> l"
      if "\<not> (0 < pool_limit cap capacities e \<and>
           pool_limit cap capacities e \<le> m_running m (t_Pool (e_Task e)))"
      using that lim Cons.prems(3,4) by auto
    have IH: "m_running (fst (claim_scan cap now ids c cbs' m1)) p \<le> l"
      if "all_declare cap p l (m_entries m1)" "cache_agrees p l c" "m_running m1 p \<le> l" for c cbs' m1
      using Cons.IH that Cons.prems(3) by blast
    show ?thesis
    proof (cases "0 < pool_limit cap capacities e \<and>
        pool_limit cap capacities e \<le> m_running m (t_Pool (e_Task e))")
      case True
      with Cons.prems Some show ?thesis by (simp add: Let_def IH put cache split: depcheck.split)
    next
      case False
      with Cons.prems Some start [OF False] show ?thesis
        by (auto simp: Let_def IH put split: depcheck.split if_splits)
    qed
  qed
qed simp

lemma finish_running_le: "queue_inv m \<Longrightarrow> m_running (finish now i err m) p \<le> m_running m p"
  by (auto simp: finish_def Let_def split: option.split)

lemma fold_static:
  assumes "\<And>x s. f (g x s) = f s"
  shows "f (fold g xs s) = f s"
  using assms by (induction xs arbitrary: s) auto

lemma cancel_item_static:
  "m_running (cancel_item now grp i m) = m_running m"
  "m_order (cancel_item now grp i m) = m_order m"
  "task_at (m_entries (cancel_item now grp i m)) = task_at (m_entries m)"
  "m_running (cancel_running_item grp i m) = m_running m"
  "m_order (cancel_running_item grp i m) = m_order m"
  "m_entries (cancel_running_item grp i m) = m_entries m"
  "m_idle (cancel_running_item grp i m) = m_idle m"
  "m_wake (cancel_running_item grp i m) = m_wake m"
  by (auto simp: cancel_item_def cancel_running_item_def fun_eq_iff task_at_def
      split: option.split qstate.split)

lemma CancelGroup_static:
  "m_running (CancelGroup now grp m) = m_running m"
  "m_order (CancelGroup now grp m) = m_order m"
  "task_at (m_entries (CancelGroup now grp m)) = task_at (m_entries m)"
  "m_wake (CancelGroup now grp m)"
  unfolding CancelGroup_def signal_simps
  by (simp_all add: fold_static [of m_running] fold_static [of m_order]
      fold_static [of "\<lambda>m. task_at (m_entries m)"] cancel_item_static)

lemma CancelRunningGroup_static:
  "m_running (CancelRunningGroup grp m) = m_running m"
  "m_order (CancelRunningGroup grp m) = m_order m"
  "m_entries (CancelRunningGroup grp m) = m_entries m"
  "m_idle (CancelRunningGroup grp m) = m_idle m"
  "m_wake (CancelRunningGroup grp m) = m_wake m"
  unfolding CancelRunningGroup_def
  by (simp_all add: fold_static [of m_running] fold_static [of m_order] fold_static [of m_entries]
      fold_static [of m_idle] fold_static [of m_wake] cancel_item_static)

lemma finish_static:
  "m_order (finish now i err m) = m_order m"
  "task_at (m_entries (finish now i err m)) = task_at (m_entries m)"
  "m_idle (finish now i err m) = m_idle m"
  by (auto simp: finish_def Let_def fun_eq_iff task_at_def split: option.split)

lemma attach_renew_static:
  "m_order (attachCancel i m) = m_order m"
  "task_at (m_entries (attachCancel i m)) = task_at (m_entries m)"
  "m_running (attachCancel i m) = m_running m"
  "m_idle (attachCancel i m) = m_idle m"
  "m_wake (attachCancel i m) = m_wake m"
  "m_order (renewLease now i ttl m) = m_order m"
  "task_at (m_entries (renewLease now i ttl m)) = task_at (m_entries m)"
  "m_running (renewLease now i ttl m) = m_running m"
  "m_idle (renewLease now i ttl m) = m_idle m"
  "m_wake (renewLease now i ttl m) = m_wake m"
  by (auto simp: attachCancel_def renewLease_def fun_eq_iff task_at_def split: option.split)

lemma PruneGroup_tasks: "task_at (m_entries (PruneGroup grp m)) i = Some t \<Longrightarrow> task_at (m_entries m) i = Some t"
  by (simp add: PruneGroup_def task_at_def split: if_splits)

lemma enqueue_insert_tasks:
  "task_at (m_entries (enqueue_insert ts m)) i = Some t \<Longrightarrow>
   task_at (m_entries m) i = Some t \<or> (\<exists>u\<in>set ts. t = e_Task (new_entry u))"
proof (induction ts arbitrary: m)
  case (Cons u ts)
  from Cons.IH [of "(put_entry (t_ID u) (new_entry u) m)\<lparr>m_order := m_order m @ [t_ID u]\<rparr>"] Cons.prems
  show ?case by (auto simp: task_at_def split: if_splits)
qed simp

lemma enqueue_insert_static:
  "m_running (enqueue_insert ts m) = m_running m"
  "m_order (enqueue_insert ts m) = m_order m @ map t_ID ts"
  "m_idle (enqueue_insert ts m) = m_idle m"
  "m_inFlight (enqueue_insert ts m) = m_inFlight m"
  by (induction ts arbitrary: m) simp_all

lemma Enqueue_tasks:
  "task_at (m_entries (fst (Enqueue ts m))) i = Some t \<Longrightarrow>
   task_at (m_entries m) i = Some t \<or> (\<exists>u\<in>set ts. t = e_Task (new_entry u))"
  by (auto simp: Enqueue_def dest: enqueue_insert_tasks split: option.splits)

lemma declares_new_entry [simp]: "declares cap p l (e_Task (new_entry t)) = declares cap p l t"
  by (simp add: declares_def new_entry_def)

lemma queue_step_tasks:
  assumes "task_at (m_entries (queue_step cap op m)) i = Some t"
  shows "task_at (m_entries m) i = Some t \<or> (\<exists>u\<in>set (op_tasks op). t = e_Task (new_entry u))"
proof (cases op)
  case (OpEnqueue ts)
  with assms show ?thesis by (auto simp: op_tasks_def dest!: Enqueue_tasks)
next
  case (OpPruneGroup g)
  with assms show ?thesis by (auto dest: PruneGroup_tasks)
next
  case (OpDispatch now)
  have "task_at (m_entries m') = task_at (m_entries m)" if "claim cap now m = (m', r)" for m' r
    using that claim_scan_static(3) [of cap now "m_order m" Map.empty "[]" m] by (simp add: claim_def)
  with assms OpDispatch show ?thesis by (auto split: prod.splits option.splits if_splits)
qed (use assms in \<open>auto simp: CancelGroup_static CancelRunningGroup_static
      attach_renew_static finish_static expiry_next_def expiry_tick_def Let_def Close_def
      split: list.splits if_splits\<close>)

lemma all_declare_step:
  assumes "all_declare cap p l (m_entries m)" "\<forall>t\<in>set (op_tasks op). declares cap p l t"
  shows "all_declare cap p l (m_entries (queue_step cap op m))"
  using assms by (auto simp: all_declare_def dest!: queue_step_tasks)

lemma running_step_le:
  assumes inv: "queue_inv m" and decl: "all_declare cap p l (m_entries m)" and "0 < l"
    and le: "m_running m p \<le> l"
  shows "m_running (queue_step cap op m) p \<le> l"
proof (cases op)
  case (OpEnqueue ts)
  with le show ?thesis by (simp add: Enqueue_def enqueue_insert_static split: option.split)
next
  case (OpDispatch now)
  have "m_running (fst (claim cap now m)) p \<le> l"
    unfolding claim_def
    by (rule claim_scan_capacity) (use assms in \<open>auto simp: cache_agrees_def\<close>)
  with le OpDispatch show ?thesis by (auto split: prod.split option.split)
next
  case (OpRunReturns now i err)
  have "m_running (finish now i err (m\<lparr>m_inFlight := remove1 i (m_inFlight m)\<rparr>)) p \<le> m_running m p"
    using finish_running_le [of "m\<lparr>m_inFlight := remove1 i (m_inFlight m)\<rparr>"] inv by simp
  with le OpRunReturns show ?thesis by simp
next
  case (OpExpiryNext now)
  have "m_running (finish now i err (m\<lparr>m_expiring := ids\<rparr>)) p \<le> m_running m p" for i err ids
    using finish_running_le [of "m\<lparr>m_expiring := ids\<rparr>"] inv by simp
  with le OpExpiryNext show ?thesis
    by (auto simp: expiry_next_def split: list.split intro: order.trans)
qed (use le in \<open>auto simp: CancelGroup_static CancelRunningGroup_static attach_renew_static
      PruneGroup_def Close_def expiry_tick_def Let_def\<close>)

lemma queue_run_inv: "queue_inv (queue_run cap ops)"
  unfolding queue_run_def
  by (rule fold_invariant [where Q = "\<lambda>_. True"]) (auto intro: queue_inv_step queue_inv_NewMemory)

lemma queue_run_capacity:
  assumes "0 < l" "\<forall>op\<in>set ops. \<forall>t\<in>set (op_tasks op). declares cap p l t"
  shows "m_running (queue_run cap ops) p \<le> l"
proof -
  let ?P = "\<lambda>m. queue_inv m \<and> all_declare cap p l (m_entries m) \<and> m_running m p \<le> l"
  have "?P (queue_run cap ops)"
    unfolding queue_run_def
  proof (rule fold_invariant [where Q = "\<lambda>op. \<forall>t\<in>set (op_tasks op). declares cap p l t"])
    show "?P NewMemory"
      using assms(1) queue_inv_NewMemory by (simp add: NewMemory_def all_declare_def task_at_def)
  next
    fix op m
    assume "\<forall>t\<in>set (op_tasks op). declares cap p l t" "?P m"
    then show "?P (queue_step cap op m)"
      using assms(1) by (auto intro: queue_inv_step all_declare_step running_step_le)
  qed (use assms(2) in blast)
  then show ?thesis by simp
qed

subsection \<open>Terminal entries are final\<close>

text \<open>
  The contract shared by the stores of this system that run work to an end: an entry in a final
  state never changes again; it can only be removed. A client that keeps seeing the entry sees
  the same one after any further operations.
\<close>

lemma cancel_item_terminal:
  "m_entries m i = Some e \<Longrightarrow> terminal (e_State e) \<Longrightarrow> m_entries (cancel_item now grp j m) i = Some e"
  by (auto simp: cancel_item_def split: option.split qstate.split)

lemma CancelGroup_terminal:
  assumes "m_entries m i = Some e" "terminal (e_State e)"
  shows "m_entries (CancelGroup now grp m) i = Some e"
  unfolding CancelGroup_def signal_simps
  by (rule fold_invariant [where Q = "\<lambda>_. True" and P = "\<lambda>m. m_entries m i = Some e"])
     (use assms in \<open>auto intro: cancel_item_terminal\<close>)

lemma claim_scan_terminal:
  "m_entries m i = Some e \<Longrightarrow> terminal (e_State e) \<Longrightarrow>
   m_entries (fst (claim_scan cap now ids capacities cbs m)) i = Some e"
  by (induction ids arbitrary: capacities cbs m)
     (auto simp: Let_def split: option.split depcheck.split)

lemma enqueue_insert_other:
  "i \<notin> t_ID ` set ts \<Longrightarrow> m_entries (enqueue_insert ts m) i = m_entries m i"
  by (induction ts arbitrary: m) auto

lemma Enqueue_terminal:
  assumes "m_entries m i = Some e"
  shows "m_entries (fst (Enqueue ts m)) i = Some e"
proof (cases "enqueue_check m ts")
  case None
  then have "i \<notin> t_ID ` set ts" using assms enqueue_check_fresh by fastforce
  with None assms show ?thesis by (simp add: Enqueue_def enqueue_insert_other)
qed (use assms in \<open>simp add: Enqueue_def\<close>)

lemma finish_terminal:
  "m_entries m i = Some e \<Longrightarrow> terminal (e_State e) \<Longrightarrow> m_entries (finish now j err m) i = Some e"
  by (auto simp: finish_def Let_def split: option.split)

lemma queue_step_terminal:
  assumes "m_entries m i = Some e" "terminal (e_State e)"
  shows "m_entries (queue_step cap op m) i = None \<or> m_entries (queue_step cap op m) i = Some e"
proof (cases op)
  case (OpDispatch now)
  have "m_entries (fst (claim cap now m)) i = Some e"
    unfolding claim_def by (rule claim_scan_terminal [OF assms])
  with assms OpDispatch show ?thesis by (auto split: prod.split option.split)
next
  case (OpPruneGroup g)
  with assms show ?thesis by (simp add: PruneGroup_def)
qed (use assms in \<open>auto simp: Enqueue_terminal CancelGroup_terminal CancelRunningGroup_static
      attachCancel_def renewLease_def finish_terminal expiry_tick_def expiry_next_def Let_def
      Close_def split: list.split option.split\<close>)

interpretation queue_life: lifecycle "\<lambda>(cap, op). queue_step cap op" m_entries "\<lambda>e. terminal (e_State e)"
  by unfold_locales (auto dest: queue_step_terminal)


subsection \<open>The dispatcher never sleeps on work\<close>

text \<open>
  \<open>claim\<close> cancels a task whose dependency failed without waking the dispatcher again, so a task
  that comes before its dependency in the order would not be looked at once more. Batches that
  list tasks after everything they refer to are safe: \<open>batch_sorted\<close>. The other two
  conditions of \<open>disciplined\<close> say that nothing already queued refers to the new ids, that soft
  dependencies exist, and that a group is pruned only when no pending task refers to it.
\<close>

definition task_refs :: "qtask \<Rightarrow> string set" where
  "task_refs t = set (t_Dependencies t) \<union> set (t_SoftDependencies t)"

fun batch_sorted :: "qtask list \<Rightarrow> bool" where
  "batch_sorted [] \<longleftrightarrow> True"
| "batch_sorted (t # ts) \<longleftrightarrow>
     t_ID t \<notin> t_ID ` set ts \<and> task_refs t \<inter> t_ID ` set (t # ts) = {} \<and> batch_sorted ts"

fun order_sorted :: "qentries \<Rightarrow> string list \<Rightarrow> bool" where
  "order_sorted es [] \<longleftrightarrow> True"
| "order_sorted es (i # ids) \<longleftrightarrow>
     i \<notin> set ids \<and>
     (case task_at es i of None \<Rightarrow> True | Some t \<Rightarrow> task_refs t \<inter> set (i # ids) = {}) \<and>
     order_sorted es ids"

definition batch_fits :: "qmem \<Rightarrow> qtask list \<Rightarrow> bool" where
  "batch_fits m ts \<longleftrightarrow>
     batch_sorted ts \<and>
     (\<forall>i\<in>set (m_order m). \<forall>t. task_at (m_entries m) i = Some t \<longrightarrow> task_refs t \<inter> t_ID ` set ts = {}) \<and>
     (\<forall>t\<in>set ts. set (t_SoftDependencies t) \<subseteq> set (m_order m) \<union> t_ID ` set ts)"

definition prune_fits :: "qmem \<Rightarrow> string \<Rightarrow> bool" where
  "prune_fits m grp \<longleftrightarrow>
     (\<forall>i e. m_entries m i = Some e \<longrightarrow> e_State e = StatePending \<longrightarrow>
        (\<forall>d\<in>task_refs (e_Task e). \<not> prunable grp (m_entries m) d))"

definition disciplined :: "qmem \<Rightarrow> qop \<Rightarrow> bool" where
  "disciplined m op =
     (case op of OpEnqueue ts \<Rightarrow> batch_fits m ts | OpPruneGroup grp \<Rightarrow> prune_fits m grp | _ \<Rightarrow> True)"

inductive queue_disciplined :: "qmem \<Rightarrow> bool" where
  start: "queue_disciplined NewMemory"
| step: "queue_disciplined m \<Longrightarrow> disciplined m op \<Longrightarrow> queue_disciplined (queue_step cap op m)"

text \<open>
  A pending task is blocked when a dependency or a soft dependency has not ended, or when its
  pool is busy; in a quiet state every pending task is blocked.
\<close>

definition blocked :: "qmem \<Rightarrow> qtask \<Rightarrow> bool" where
  "blocked m t \<longleftrightarrow>
     check_deps (m_entries m) (t_Dependencies t) = DepsWait \<or>
     check_deps (m_entries m) (t_Dependencies t) = DepsReady \<and>
       (\<not> soft_ready (m_entries m) (t_SoftDependencies t) \<or> 0 < m_running m (t_Pool t))"

definition quiet :: "qmem \<Rightarrow> bool" where
  "quiet m \<longleftrightarrow>
     (\<forall>i e. m_entries m i = Some e \<longrightarrow> e_State e = StatePending \<longrightarrow> blocked m (e_Task e))"

definition soft_present :: "qmem \<Rightarrow> bool" where
  "soft_present m \<longleftrightarrow>
     (\<forall>i e. m_entries m i = Some e \<longrightarrow> e_State e = StatePending \<longrightarrow>
        set (t_SoftDependencies (e_Task e)) \<subseteq> dom (m_entries m))"

definition runs_in_flight :: "qmem \<Rightarrow> bool" where
  "runs_in_flight m \<longleftrightarrow>
     (\<forall>i e. m_entries m i = Some e \<longrightarrow> e_State e = StateRunning \<longrightarrow> i \<in> set (m_inFlight m))"

definition wake_inv :: "qmem \<Rightarrow> bool" where
  "wake_inv m \<longleftrightarrow>
     order_sorted (m_entries m) (m_order m) \<and> soft_present m \<and> runs_in_flight m \<and>
     (m_idle m \<longrightarrow> m_wake m \<or> quiet m)"

lemma order_sorted_static: "task_at es' = task_at es \<Longrightarrow> order_sorted es' ids = order_sorted es ids"
  by (induction ids) auto

lemma blocked_cong:
  assumes "\<And>d. d \<in> task_refs t \<Longrightarrow> m_entries m' d = m_entries m d" "m_running m' = m_running m"
  shows "blocked m' t = blocked m t"
  unfolding blocked_def
  using check_deps_cong [of "t_Dependencies t" "m_entries m'" "m_entries m"]
    soft_ready_cong [of "t_SoftDependencies t" "m_entries m'" "m_entries m"] assms
  by (simp add: task_refs_def)

lemma claim_scan_none_frame:
  assumes "claim_scan cap now ids capacities cbs m = (m', cbs', None)"
  shows "i \<notin> set ids \<Longrightarrow> m_entries m' i = m_entries m i" "m_running m' = m_running m"
  using claim_scan_frame [of i ids cap now capacities cbs m] claim_scan_none_running assms by auto

lemma claim_scan_none_blocked:
  "claim_scan cap now ids capacities cbs m = (m', cbs', None) \<Longrightarrow> order_sorted (m_entries m) ids \<Longrightarrow>
   i \<in> set ids \<Longrightarrow> m_entries m' i = Some e \<Longrightarrow> e_State e = StatePending \<Longrightarrow> blocked m' (e_Task e)"
proof (induction ids arbitrary: capacities cbs m)
  case (Cons j ids)
  show ?case
  proof (cases "m_entries m j")
    case None
    then have scan: "claim_scan cap now ids capacities cbs m = (m', cbs', None)"
      using Cons.prems(1) by simp
    show ?thesis
    proof (cases "i = j")
      case True
      with scan Cons.prems(2,4) None show ?thesis by (auto dest: claim_scan_none_frame(1))
    qed (use Cons scan in auto)
  next
    case (Some f)
    have rest: "\<exists>c cbs1 m1. claim_scan cap now ids c cbs1 m1 = (m', cbs', None) \<and>
        (m1 = m \<and> (e_State f = StatePending \<longrightarrow> blocked m (e_Task f)) \<or>
         (\<exists>err. m1 = put_entry j (cancel_dependant now err f) m))"
      using Cons.prems(1) Some
      by (simp add: Let_def blocked_def split: if_splits depcheck.splits) (blast | force)+
    then obtain c cbs1 m1 where scan: "claim_scan cap now ids c cbs1 m1 = (m', cbs', None)"
      and m1: "m1 = m \<and> (e_State f = StatePending \<longrightarrow> blocked m (e_Task f)) \<or>
         (\<exists>err. m1 = put_entry j (cancel_dependant now err f) m)"
      by blast
    have static: "task_at (m_entries m1) = task_at (m_entries m)"
      using m1 Some by (auto simp: fun_eq_iff task_at_Some)
    have sorted: "j \<notin> set ids" "task_refs (e_Task f) \<inter> set ids = {}" "order_sorted (m_entries m1) ids"
      using Cons.prems(2) Some by (auto simp: task_at_Some order_sorted_static [OF static])
    show ?thesis
    proof (cases "i = j")
      case True
      then have "m_entries m1 j = Some e"
        using claim_scan_none_frame(1) [OF scan] sorted(1) Cons.prems(4) by auto
      with m1 Some Cons.prems(5) have "m1 = m" "e = f" "blocked m (e_Task e)" by auto
      moreover have "blocked m' (e_Task e) = blocked m (e_Task e)"
        using claim_scan_none_frame [OF scan] sorted(2) \<open>m1 = m\<close> \<open>e = f\<close>
        by (intro blocked_cong) auto
      ultimately show ?thesis by simp
    next
      case False
      with Cons.prems(3-5) sorted(3) show ?thesis by (intro Cons.IH [OF scan]) auto
    qed
  qed
qed simp

lemma claim_none_quiet:
  assumes "claim cap now m = (m', cbs, None)" "queue_inv m" "order_sorted (m_entries m) (m_order m)"
  shows "quiet m'"
  unfolding quiet_def
proof (intro allI impI)
  fix i e assume e: "m_entries m' i = Some e" "e_State e = StatePending"
  have "set (m_order m') = dom (m_entries m')"
    using queue_inv_claim_result [OF assms(1,2)] by (simp add: queue_inv_def)
  moreover have "m_order m' = m_order m"
    using claim_scan_static(1) [of cap now "m_order m" Map.empty "[]" m] assms(1) by (simp add: claim_def)
  ultimately have "i \<in> set (m_order m)" using e(1) by auto
  then show "blocked m' (e_Task e)"
    using claim_scan_none_blocked assms(1,3) e unfolding claim_def by blast
qed

text \<open>
  Every critical section but \<open>Enqueue\<close> and \<open>PruneGroup\<close> advances the entries: the tasks and the
  order stay, no task becomes pending, and only a claim makes one running.
\<close>

definition advances :: "string set \<Rightarrow> qmem \<Rightarrow> qmem \<Rightarrow> bool" where
  "advances new m m' \<longleftrightarrow>
     task_at (m_entries m') = task_at (m_entries m) \<and> m_order m' = m_order m \<and>
     (\<forall>i e'. m_entries m' i = Some e' \<longrightarrow>
        (\<exists>e. m_entries m i = Some e \<and> (e_State e' = StatePending \<longrightarrow> e_State e = StatePending) \<and>
           (e_State e' = StateRunning \<longrightarrow> e_State e = StateRunning \<or> i \<in> new)))"

lemma advances_trans:
  assumes "advances new m m1" "advances new m1 m2"
  shows "advances new m m2"
  unfolding advances_def
proof (intro conjI allI impI)
  fix i e2 assume "m_entries m2 i = Some e2"
  with assms(2) obtain e1 where "m_entries m1 i = Some e1"
    "e_State e2 = StatePending \<longrightarrow> e_State e1 = StatePending"
    "e_State e2 = StateRunning \<longrightarrow> e_State e1 = StateRunning \<or> i \<in> new"
    unfolding advances_def by blast
  with assms(1) show "\<exists>e. m_entries m i = Some e \<and>
      (e_State e2 = StatePending \<longrightarrow> e_State e = StatePending) \<and>
      (e_State e2 = StateRunning \<longrightarrow> e_State e = StateRunning \<or> i \<in> new)"
    unfolding advances_def by blast
qed (use assms in \<open>simp_all add: advances_def\<close>)

lemma advances_frame [simp]:
  "advances new m (m'\<lparr>m_running := r\<rparr>) = advances new m m'"
  "advances new m (m'\<lparr>m_canceledCtx := ids\<rparr>) = advances new m m'"
  "advances new m (m'\<lparr>m_inFlight := ids\<rparr>) = advances new m m'"
  "advances new m (m'\<lparr>m_expiring := ids\<rparr>) = advances new m m'"
  "advances new m (m'\<lparr>m_idle := b\<rparr>) = advances new m m'"
  "advances new m (m'\<lparr>m_wake := b\<rparr>) = advances new m m'"
  "advances new m (m'\<lparr>m_closed := b\<rparr>) = advances new m m'"
  "advances new m (m'\<lparr>m_stopped := b\<rparr>) = advances new m m'"
  "advances new m (signal m') = advances new m m'"
  "advances new m m"
  by (simp_all add: advances_def)

lemma advances_put [simp]:
  assumes "m_entries m i = Some e" "e_Task e' = e_Task e"
    "e_State e' = StatePending \<longrightarrow> e_State e = StatePending"
    "e_State e' = StateRunning \<longrightarrow> e_State e = StateRunning \<or> i \<in> new"
  shows "advances new m (put_entry i e' m)"
  using assms by (auto simp: advances_def fun_eq_iff task_at_Some)

lemma advances_cancel_item: "advances new m (cancel_item now grp i m)"
  unfolding cancel_item_def by (simp split: option.split qstate.split)

lemma advances_fold: "(\<And>x m. advances new m (f x m)) \<Longrightarrow> advances new m (fold f xs m)"
  by (induction xs arbitrary: m) (auto intro: advances_trans)

lemma advances_CancelGroup: "advances new m (CancelGroup now grp m)"
  unfolding CancelGroup_def by (simp add: advances_fold advances_cancel_item)

lemma advances_finish: "advances new m (finish now i err m)"
  unfolding finish_def by (simp add: Let_def split: option.split)

lemma advances_attach_renew:
  "advances new m (attachCancel i m)" "advances new m (renewLease now i ttl m)"
  unfolding attachCancel_def renewLease_def by (simp_all split: option.split)

lemma advances_claim_scan:
  "claim_scan cap now ids capacities cbs m = (m', cbs', r) \<Longrightarrow>
   \<forall>i e. m_entries m i = Some e \<longrightarrow> t_ID (e_Task e) = i \<Longrightarrow>
   advances (case r of None \<Rightarrow> {} | Some t \<Rightarrow> {t_ID t}) m m'"
proof (induction ids arbitrary: capacities cbs m)
  case (Cons i ids)
  show ?case
  proof (cases "m_entries m i")
    case None
    with Cons show ?thesis by simp
  next
    case (Some e)
    let ?c = "\<lambda>err. put_entry i (cancel_dependant now err e) m"
    have "t_ID (e_Task e) = i" using Cons.prems(2) Some by blast
    then have ids: "\<forall>j f. m_entries (?c err) j = Some f \<longrightarrow> t_ID (e_Task f) = j" for err
      using Cons.prems(2) by simp
    have cancel: "advances new m (?c err)" for new err
      using Some by simp
    have IH: "claim_scan cap now ids c cbs1 (?c err) = (m', cbs', r) \<Longrightarrow>
        advances (case r of None \<Rightarrow> {} | Some t \<Rightarrow> {t_ID t}) m m'" for c cbs1 err
      by (rule advances_trans [OF cancel Cons.IH [OF _ ids]])
    show ?thesis
      using Cons.prems Some Cons.IH [of _ _ m] IH \<open>t_ID (e_Task e) = i\<close>
      by (auto simp: Let_def split: if_splits depcheck.splits)
  qed
qed simp

lemma dom_task_at: "dom (task_at es) = dom es"
  by (auto simp: task_at_def)

lemma advances_soft_present:
  assumes adv: "advances new m m'" and soft: "soft_present m"
  shows "soft_present m'"
  unfolding soft_present_def
proof (intro allI impI)
  fix i e' assume e': "m_entries m' i = Some e'" "e_State e' = StatePending"
  have static: "task_at (m_entries m') = task_at (m_entries m)"
    using adv by (simp add: advances_def)
  obtain e where e: "m_entries m i = Some e" "e_State e = StatePending"
    using adv e' unfolding advances_def by blast
  then have "set (t_SoftDependencies (e_Task e)) \<subseteq> dom (m_entries m)"
    using soft unfolding soft_present_def by blast
  moreover have "dom (m_entries m) = dom (m_entries m')"
    using static dom_task_at by metis
  moreover have "e_Task e' = e_Task e"
    using task_at_Some [of "m_entries m'", OF e'(1)] task_at_Some [of "m_entries m", OF e(1)] static by simp
  ultimately show "set (t_SoftDependencies (e_Task e')) \<subseteq> dom (m_entries m')" by simp
qed

lemma advances_runs_in_flight:
  "advances new m m' \<Longrightarrow> runs_in_flight m \<Longrightarrow> set (m_inFlight m) \<union> new \<subseteq> set (m_inFlight m') \<Longrightarrow>
   runs_in_flight m'"
  unfolding advances_def runs_in_flight_def by blast

lemma advances_order_sorted:
  "advances new m m' \<Longrightarrow> order_sorted (m_entries m) (m_order m) \<Longrightarrow> order_sorted (m_entries m') (m_order m')"
  using order_sorted_static unfolding advances_def by metis

lemma advances_wake_inv:
  assumes "advances new m m'" "wake_inv m" "set (m_inFlight m) \<union> new \<subseteq> set (m_inFlight m')"
    "m_idle m' \<Longrightarrow> m_wake m' \<or> quiet m'"
  shows "wake_inv m'"
  using assms advances_order_sorted advances_soft_present advances_runs_in_flight
  unfolding wake_inv_def by blast

lemma quiet_frame [simp]:
  "quiet (m\<lparr>m_canceledCtx := ids\<rparr>) = quiet m"
  "quiet (m\<lparr>m_inFlight := ids\<rparr>) = quiet m"
  "quiet (m\<lparr>m_expiring := ids\<rparr>) = quiet m"
  "quiet (m\<lparr>m_idle := b\<rparr>) = quiet m"
  "quiet (m\<lparr>m_closed := b\<rparr>) = quiet m"
  "quiet (m\<lparr>m_stopped := b\<rparr>) = quiet m"
  by (simp_all add: quiet_def blocked_def)

text \<open>The two operations that change which entries there are.\<close>

lemma batch_sorted_distinct: "batch_sorted ts \<Longrightarrow> distinct (map t_ID ts)"
  by (induction ts) auto

lemma enqueue_insert_entries:
  "distinct (map t_ID ts) \<Longrightarrow> t \<in> set ts \<Longrightarrow> m_entries (enqueue_insert ts m) (t_ID t) = Some (new_entry t)"
  by (induction ts arbitrary: m) (auto simp: enqueue_insert_other)

lemma new_entry_simps [simp]:
  "e_State (new_entry t) = StatePending" "task_refs (e_Task (new_entry t)) = task_refs t"
  "t_ID (e_Task (new_entry t)) = t_ID t"
  "t_SoftDependencies (e_Task (new_entry t)) = t_SoftDependencies t"
  by (simp_all add: new_entry_def task_refs_def)

lemma order_sorted_batch:
  "batch_sorted ts \<Longrightarrow> (\<And>t. t \<in> set ts \<Longrightarrow> es (t_ID t) = Some (new_entry t)) \<Longrightarrow>
   order_sorted es (map t_ID ts)"
  by (induction ts) (auto simp: task_at_def)

lemma order_sorted_append:
  "order_sorted es (xs @ ys) \<longleftrightarrow>
     order_sorted es xs \<and> order_sorted es ys \<and> set xs \<inter> set ys = {} \<and>
     (\<forall>x\<in>set xs. \<forall>t. task_at es x = Some t \<longrightarrow> task_refs t \<inter> set ys = {})"
  by (induction xs) (auto split: option.splits)

lemma order_sorted_cong:
  "(\<And>i. i \<in> set ids \<Longrightarrow> task_at es' i = task_at es i) \<Longrightarrow> order_sorted es' ids = order_sorted es ids"
  by (induction ids) auto

lemma enqueue_check_disjoint:
  "queue_inv m \<Longrightarrow> enqueue_check m ts = None \<Longrightarrow> set (m_order m) \<inter> t_ID ` set ts = {}"
  using enqueue_check_fresh by (fastforce simp: queue_inv_def)

lemma enqueue_order_sorted:
  assumes fits: "batch_fits m ts" and fresh: "set (m_order m) \<inter> t_ID ` set ts = {}"
    and sorted: "order_sorted (m_entries m) (m_order m)"
  shows "order_sorted (m_entries (enqueue_insert ts m)) (m_order m @ map t_ID ts)"
proof -
  let ?es = "m_entries (enqueue_insert ts m)"
  have old: "task_at ?es i = task_at (m_entries m) i" if "i \<in> set (m_order m)" for i
    using that fresh enqueue_insert_other [of i ts m] unfolding task_at_def by (metis disjoint_iff)
  then have "order_sorted ?es (m_order m)"
    using sorted order_sorted_cong by blast
  moreover have "order_sorted ?es (map t_ID ts)"
    using fits by (intro order_sorted_batch) (auto simp: batch_fits_def enqueue_insert_entries batch_sorted_distinct)
  ultimately show ?thesis
    using fits fresh old by (simp add: order_sorted_append batch_fits_def)
qed

lemma enqueue_soft_present:
  assumes fits: "batch_fits m ts" and soft: "soft_present m"
    and dom: "set (m_order m) = dom (m_entries m)"
  shows "soft_present (enqueue_insert ts m)"
  unfolding soft_present_def
proof (intro allI impI)
  fix i e assume e: "m_entries (enqueue_insert ts m) i = Some e" "e_State e = StatePending"
  have domins: "dom (m_entries (enqueue_insert ts m)) = set (m_order m) \<union> t_ID ` set ts"
    unfolding dom by (induction ts arbitrary: m) auto
  show "set (t_SoftDependencies (e_Task e)) \<subseteq> dom (m_entries (enqueue_insert ts m))"
  proof (cases "i \<in> t_ID ` set ts")
    case True
    then obtain t where t: "t \<in> set ts" "i = t_ID t" by blast
    with fits e(1) have "e = new_entry t" by (simp add: batch_fits_def enqueue_insert_entries batch_sorted_distinct)
    with t(1) fits show ?thesis unfolding domins batch_fits_def by simp
  next
    case False
    with e(1) have "m_entries m i = Some e" by (simp add: enqueue_insert_other)
    with e(2) soft have "set (t_SoftDependencies (e_Task e)) \<subseteq> dom (m_entries m)"
      unfolding soft_present_def by blast
    then show ?thesis unfolding domins dom by blast
  qed
qed

lemma enqueue_runs_in_flight:
  assumes "batch_fits m ts" "runs_in_flight m"
  shows "runs_in_flight (enqueue_insert ts m)"
  unfolding runs_in_flight_def
proof (intro allI impI)
  fix i e assume e: "m_entries (enqueue_insert ts m) i = Some e" "e_State e = StateRunning"
  have "i \<notin> t_ID ` set ts"
    using e assms(1) by (auto simp: batch_fits_def enqueue_insert_entries batch_sorted_distinct)
  with e assms(2) show "i \<in> set (m_inFlight (enqueue_insert ts m))"
    unfolding runs_in_flight_def by (simp add: enqueue_insert_static enqueue_insert_other)
qed

lemma wake_inv_Enqueue:
  assumes inv: "queue_inv m" and wake: "wake_inv m" and fits: "batch_fits m ts"
  shows "wake_inv (fst (Enqueue ts m))"
proof (cases "enqueue_check m ts")
  case None
  have "order_sorted (m_entries (enqueue_insert ts m)) (m_order (enqueue_insert ts m))"
    using enqueue_order_sorted [OF fits enqueue_check_disjoint [OF inv None]] wake
    by (simp add: wake_inv_def enqueue_insert_static)
  moreover have "soft_present (enqueue_insert ts m)"
    using enqueue_soft_present [OF fits] wake inv by (simp add: wake_inv_def queue_inv_def)
  moreover have "runs_in_flight (enqueue_insert ts m)"
    using enqueue_runs_in_flight [OF fits] wake by (simp add: wake_inv_def)
  ultimately show ?thesis
    using None by (simp add: Enqueue_def wake_inv_def soft_present_def runs_in_flight_def signal_def)
qed (use wake in \<open>simp add: Enqueue_def\<close>)

lemma order_sorted_filter: "order_sorted es ids \<Longrightarrow> order_sorted es (filter P ids)"
  by (induction ids) (auto split: option.splits)

lemma order_sorted_restrict:
  "(\<And>i t. task_at es' i = Some t \<Longrightarrow> task_at es i = Some t) \<Longrightarrow> order_sorted es ids \<Longrightarrow> order_sorted es' ids"
proof (induction ids)
  case (Cons i ids)
  then show ?case by (cases "task_at es' i") auto
qed simp

lemma prune_entry:
  "m_entries (PruneGroup grp m) i = (if prunable grp (m_entries m) i then None else m_entries m i)"
  by (simp add: PruneGroup_def)

lemma wake_inv_PruneGroup:
  assumes wake: "wake_inv m" and fits: "prune_fits m grp"
  shows "wake_inv (PruneGroup grp m)"
proof -
  have pending: "\<And>d. d \<in> task_refs (e_Task e) \<Longrightarrow> m_entries (PruneGroup grp m) d = m_entries m d"
    if "m_entries (PruneGroup grp m) i = Some e" "e_State e = StatePending" for i e
    using that fits unfolding prune_fits_def prune_entry by (auto split: if_splits)
  have kept: "m_entries m i = Some e" if "m_entries (PruneGroup grp m) i = Some e" for i e
    using that by (simp add: prune_entry split: if_splits)
  have "order_sorted (m_entries m) (m_order (PruneGroup grp m))"
    using wake by (simp add: wake_inv_def PruneGroup_def order_sorted_filter)
  then have "order_sorted (m_entries (PruneGroup grp m)) (m_order (PruneGroup grp m))"
    by (rule order_sorted_restrict [rotated]) (rule PruneGroup_tasks)
  moreover have "soft_present (PruneGroup grp m)"
    unfolding soft_present_def
  proof (intro allI impI subsetI)
    fix i e d assume e: "m_entries (PruneGroup grp m) i = Some e" "e_State e = StatePending"
      and d: "d \<in> set (t_SoftDependencies (e_Task e))"
    have "d \<in> dom (m_entries m)"
      using wake kept e d unfolding wake_inv_def soft_present_def by blast
    with pending [OF e] d show "d \<in> dom (m_entries (PruneGroup grp m))"
      by (simp add: task_refs_def domIff)
  qed
  moreover have "runs_in_flight (PruneGroup grp m)"
    unfolding runs_in_flight_def
  proof (intro allI impI)
    fix i e assume "m_entries (PruneGroup grp m) i = Some e" "e_State e = StateRunning"
    with kept have "m_entries m i = Some e" "e_State e = StateRunning" by blast+
    with wake have "i \<in> set (m_inFlight m)" unfolding wake_inv_def runs_in_flight_def by blast
    then show "i \<in> set (m_inFlight (PruneGroup grp m))" by (simp add: PruneGroup_def)
  qed
  moreover have "quiet (PruneGroup grp m)" if "quiet m"
    unfolding quiet_def
  proof (intro allI impI)
    fix i e assume e: "m_entries (PruneGroup grp m) i = Some e" "e_State e = StatePending"
    have "blocked (PruneGroup grp m) (e_Task e) = blocked m (e_Task e)"
      by (rule blocked_cong) (simp_all add: pending [OF e], simp add: PruneGroup_def)
    with that kept e show "blocked (PruneGroup grp m) (e_Task e)" unfolding quiet_def by blast
  qed
  moreover have "m_idle (PruneGroup grp m) = m_idle m" "m_wake (PruneGroup grp m) = m_wake m"
    by (simp_all add: PruneGroup_def)
  ultimately show ?thesis using wake unfolding wake_inv_def by auto
qed

lemma finish_same_or_wakes:
  "finish now i err m = m \<or> m_wake (finish now i err m)"
  by (auto simp: finish_def Let_def split: option.split)

lemma finish_not_running:
  "m_entries (finish now i err m) i = Some e \<Longrightarrow> e_State e \<noteq> StateRunning"
  by (auto simp: finish_def Let_def split: option.splits if_splits)

lemma finish_other: "j \<noteq> i \<Longrightarrow> m_entries (finish now i err m) j = m_entries m j"
  by (auto simp: finish_def Let_def split: option.splits)

lemma finish_inFlight: "m_inFlight (finish now i err m) = m_inFlight m"
  by (auto simp: finish_def Let_def signal_def split: option.splits)

lemma check_deps_put:
  assumes "es i = Some e" "e_State e' = e_State e"
  shows "check_deps (es(i \<mapsto> e')) ds = check_deps es ds" "soft_ready (es(i \<mapsto> e')) ds = soft_ready es ds"
  using assms by (induction ds) (auto split: option.split qstate.split)

lemma quiet_put:
  assumes "m_entries m i = Some e" "e_State e' = e_State e" "e_Task e' = e_Task e"
  shows "quiet (put_entry i e' m) = quiet m"
  using assms check_deps_put [of "m_entries m" i, OF assms(1,2)] by (auto simp: quiet_def blocked_def)

lemma quiet_attach_renew:
  "quiet (attachCancel i m) = quiet m" "quiet (renewLease now i ttl m) = quiet m"
  unfolding attachCancel_def renewLease_def
  by (simp_all add: quiet_put split: option.split)

lemma wake_inv_frame [simp]:
  "wake_inv (m\<lparr>m_closed := b\<rparr>) = wake_inv m"
  "wake_inv (m\<lparr>m_stopped := b\<rparr>) = wake_inv m"
  "wake_inv (m\<lparr>m_expiring := ids\<rparr>) = wake_inv m"
  "wake_inv (m\<lparr>m_canceledCtx := ids\<rparr>) = wake_inv m"
  by (simp_all add: wake_inv_def quiet_def blocked_def soft_present_def runs_in_flight_def)

lemma wake_inv_finish: "wake_inv m \<Longrightarrow> wake_inv (finish now i err m)"
  using finish_same_or_wakes [of now i err m]
  by (auto simp: finish_inFlight intro: advances_wake_inv [OF advances_finish [of "{}"]])

lemma wake_inv_returns:
  assumes "wake_inv m"
  shows "wake_inv (finish now i err (m\<lparr>m_inFlight := remove1 i (m_inFlight m)\<rparr>))"
proof -
  let ?before = "m\<lparr>m_inFlight := remove1 i (m_inFlight m)\<rparr>" and ?m = "finish now i err (m\<lparr>m_inFlight := remove1 i (m_inFlight m)\<rparr>)"
  have adv: "advances {} ?before ?m" by (rule advances_finish)
  have "runs_in_flight ?m"
    unfolding runs_in_flight_def
  proof (intro allI impI)
    fix j e assume e: "m_entries ?m j = Some e" "e_State e = StateRunning"
    then have "j \<noteq> i" using finish_not_running by blast
    with e assms show "j \<in> set (m_inFlight ?m)"
      by (auto simp: finish_other finish_inFlight wake_inv_def runs_in_flight_def in_set_remove1)
  qed
  moreover have "m_idle ?m \<longrightarrow> m_wake ?m \<or> quiet ?m"
  proof (cases "?m = ?before")
    case True
    with assms show ?thesis by (simp add: wake_inv_def)
  qed (use finish_same_or_wakes [of now i err ?before] in blast)
  moreover have "soft_present ?before" "order_sorted (m_entries ?before) (m_order ?before)"
    using assms by (simp_all add: wake_inv_def soft_present_def)
  ultimately show ?thesis
    using advances_soft_present [OF adv] advances_order_sorted [OF adv] unfolding wake_inv_def by blast
qed

lemma wake_inv_dispatch:
  assumes inv: "queue_inv m" and wake: "wake_inv m" and idle: "\<not> m_idle m"
    and claim: "claim cap now m = (m', cbs, r)"
  shows "wake_inv (case r of None \<Rightarrow> m'\<lparr>m_idle := True\<rparr> | Some t \<Rightarrow> m'\<lparr>m_inFlight := t_ID t # m_inFlight m'\<rparr>)"
proof -
  have adv: "advances (case r of None \<Rightarrow> {} | Some t \<Rightarrow> {t_ID t}) m m'"
    using claim queue_inv_entry [OF inv] unfolding claim_def entry_ok_def
    by (intro advances_claim_scan) auto
  have same: "m_inFlight m' = m_inFlight m" "m_idle m' = m_idle m"
    using claim_scan_static(4,5) [of cap now "m_order m" Map.empty "[]" m] claim by (simp_all add: claim_def)
  show ?thesis
  proof (cases r)
    case None
    then have "quiet m'" using claim_none_quiet claim inv wake by (auto simp: wake_inv_def)
    with None adv same show ?thesis by (simp add: advances_wake_inv [OF _ wake, of "{}"])
  next
    case (Some t)
    with adv same idle show ?thesis
      by simp (rule advances_wake_inv [OF _ wake, of "{t_ID t}"], simp_all)
  qed
qed

lemma advances_idle_frame:
  assumes "advances {} m m'" "wake_inv m" "m_inFlight m' = m_inFlight m" "m_idle m' = m_idle m"
    "m_wake m' \<or> m_wake m' = m_wake m \<and> quiet m' = quiet m"
  shows "wake_inv m'"
  using assms by (intro advances_wake_inv [OF assms(1,2)]) (auto simp: wake_inv_def)

lemma cancel_item_flags:
  "m_inFlight (cancel_item now grp i m) = m_inFlight m" "m_idle (cancel_item now grp i m) = m_idle m"
  "m_inFlight (cancel_running_item grp i m) = m_inFlight m"
  by (auto simp: cancel_item_def cancel_running_item_def split: option.split qstate.split)

lemma CancelGroup_flags:
  "m_inFlight (CancelGroup now grp m) = m_inFlight m" "m_idle (CancelGroup now grp m) = m_idle m"
  "m_inFlight (CancelRunningGroup grp m) = m_inFlight m"
  unfolding CancelGroup_def CancelRunningGroup_def signal_def
  by (simp_all add: fold_static [of m_inFlight] fold_static [of m_idle] cancel_item_flags)

lemma attach_renew_inFlight:
  "m_inFlight (attachCancel i m) = m_inFlight m" "m_inFlight (renewLease now i ttl m) = m_inFlight m"
  by (auto simp: attachCancel_def renewLease_def split: option.split)

lemma wake_inv_cancel:
  assumes "wake_inv m"
  shows "wake_inv (CancelGroup now grp m)" "wake_inv (CancelRunningGroup grp m)"
proof -
  show "wake_inv (CancelGroup now grp m)"
    by (rule advances_idle_frame [OF advances_CancelGroup assms])
       (simp_all add: CancelGroup_flags CancelGroup_static)
  have "quiet (CancelRunningGroup grp m) = quiet m"
    unfolding quiet_def blocked_def CancelRunningGroup_static ..
  moreover have "advances {} m (CancelRunningGroup grp m)"
    by (simp add: advances_def CancelRunningGroup_static)
  ultimately show "wake_inv (CancelRunningGroup grp m)"
    using assms by (intro advances_idle_frame [OF _ assms])
      (simp_all add: CancelGroup_flags CancelRunningGroup_static)
qed

lemma wake_inv_attach_renew:
  assumes "wake_inv m"
  shows "wake_inv (attachCancel i m)" "wake_inv (renewLease now i ttl m)"
  by (rule advances_idle_frame [OF advances_attach_renew(1) assms]
      advances_idle_frame [OF advances_attach_renew(2) assms];
      simp add: attach_renew_static attach_renew_inFlight quiet_attach_renew)+

lemma wake_inv_NewMemory: "wake_inv NewMemory"
  by (simp add: wake_inv_def NewMemory_def soft_present_def runs_in_flight_def)

lemma wake_inv_expiry: "wake_inv m \<Longrightarrow> wake_inv (expiry_tick now keys m)"
  "wake_inv m \<Longrightarrow> wake_inv (expiry_next now m)"
  by (auto simp: expiry_tick_def expiry_next_def Let_def wake_inv_finish split: list.split)

lemma wake_inv_wake: "wake_inv m \<Longrightarrow> wake_inv (m\<lparr>m_idle := False, m_wake := b\<rparr>)"
  by (simp add: wake_inv_def soft_present_def runs_in_flight_def)

lemma wake_inv_step:
  assumes "queue_inv m" "wake_inv m" "disciplined m op"
  shows "wake_inv (queue_step cap op m)"
proof (cases op)
  case (OpDispatch now)
  with assms show ?thesis
    using wake_inv_dispatch [OF assms(1,2), of cap now] by (auto split: prod.split option.splits)
qed (use assms in \<open>simp_all add: disciplined_def wake_inv_Enqueue wake_inv_PruneGroup wake_inv_cancel
      wake_inv_attach_renew wake_inv_returns wake_inv_expiry wake_inv_wake Close_def\<close>)

lemma queue_disciplined_reachable: "queue_disciplined m \<Longrightarrow> queue_reachable m"
  by (induction rule: queue_disciplined.induct) (auto intro: queue_reachable.intros)

lemma wake_inv_disciplined: "queue_disciplined m \<Longrightarrow> wake_inv m"
  by (induction rule: queue_disciplined.induct)
     (simp_all add: wake_inv_NewMemory wake_inv_step queue_inv_reachable queue_disciplined_reachable)

lemma waits_for:
  assumes "check_deps es ds = DepsWait"
  obtains d e where "d \<in> set ds" "es d = Some e" "e_State e = StatePending \<or> e_State e = StateRunning"
proof -
  from assms have "\<exists>d\<in>set ds. \<exists>e. es d = Some e \<and> (e_State e = StatePending \<or> e_State e = StateRunning)"
    by (induction ds) (auto split: option.splits qstate.splits)
  with that show ?thesis by blast
qed

lemma waits_for_soft:
  assumes "\<not> soft_ready es ds" "set ds \<subseteq> dom es"
  obtains d e where "d \<in> set ds" "es d = Some e" "e_State e = StatePending \<or> e_State e = StateRunning"
proof -
  from assms have "\<exists>d\<in>set ds. \<exists>e. es d = Some e \<and> (e_State e = StatePending \<or> e_State e = StateRunning)"
    by (induction ds) (auto split: option.splits)
  with that show ?thesis by blast
qed

lemma blocked_waits_for:
  assumes "blocked m t" "set (t_SoftDependencies t) \<subseteq> dom (m_entries m)" "queue_inv m"
    "\<forall>i e. m_entries m i = Some e \<longrightarrow> e_State e \<noteq> StateRunning"
  shows "\<exists>d\<in>task_refs t. \<exists>e. m_entries m d = Some e \<and> e_State e = StatePending"
proof -
  have "pool_running (m_entries m) (t_Pool t) = {}"
    using assms(4) by (auto simp: pool_running_def)
  then have "m_running m (t_Pool t) = 0" using assms(3) by (simp add: queue_inv_def)
  with assms(1) have "check_deps (m_entries m) (t_Dependencies t) = DepsWait \<or>
      \<not> soft_ready (m_entries m) (t_SoftDependencies t)"
    unfolding blocked_def by auto
  then show ?thesis
  proof
    assume "check_deps (m_entries m) (t_Dependencies t) = DepsWait"
    then show ?thesis by (rule waits_for) (use assms(4) in \<open>auto simp: task_refs_def\<close>)
  next
    assume "\<not> soft_ready (m_entries m) (t_SoftDependencies t)"
    then show ?thesis
      using assms(2) by (rule waits_for_soft) (use assms(4) in \<open>auto simp: task_refs_def\<close>)
  qed
qed

lemma disciplined_quiescent:
  assumes "queue_disciplined m" "m_idle m" "\<not> m_wake m" "m_inFlight m = []" "m_entries m i = Some e"
  shows "terminal (e_State e)"
proof (rule ccontr)
  assume "\<not> terminal (e_State e)"
  have inv: "queue_inv m" and wake: "wake_inv m"
    using assms(1) queue_inv_reachable queue_disciplined_reachable wake_inv_disciplined by blast+
  have idle: "\<forall>i e. m_entries m i = Some e \<longrightarrow> e_State e \<noteq> StateRunning"
    using wake assms(4) unfolding wake_inv_def runs_in_flight_def by auto
  let ?pending = "\<lambda>i. \<exists>e. m_entries m i = Some e \<and> e_State e = StatePending"
  have "?pending i" using assms(5) idle \<open>\<not> terminal (e_State e)\<close> by (cases "e_State e") auto
  moreover have "i \<in> set (m_order m)" using assms(5) inv by (auto simp: queue_inv_def)
  ultimately have "\<exists>i\<in>set (m_order m). ?pending i" by blast
  then obtain us j vs where split: "m_order m = us @ j # vs" "?pending j" "\<forall>u\<in>set us. \<not> ?pending u"
    using split_list_first_prop [of "m_order m" ?pending] by blast
  then obtain f where f: "m_entries m j = Some f" "e_State f = StatePending" by blast
  have "blocked m (e_Task f)" "set (t_SoftDependencies (e_Task f)) \<subseteq> dom (m_entries m)"
    using wake f assms(2,3) unfolding wake_inv_def quiet_def soft_present_def by blast+
  then obtain d where d: "d \<in> task_refs (e_Task f)" "?pending d"
    using blocked_waits_for inv idle by blast
  have "order_sorted (m_entries m) (j # vs)"
    using wake split(1) by (simp add: wake_inv_def order_sorted_append)
  then have "d \<notin> set (j # vs)" using d(1) f(1) by (auto simp: task_at_Some)
  moreover have "d \<in> set (m_order m)" using d(2) inv by (auto simp: queue_inv_def)
  ultimately show False using split d(2) by auto
qed

subsection \<open>Properties\<close>

definition plain_task :: "string \<Rightarrow> string list \<Rightarrow> qtask" where
  "plain_task i ds = \<lparr>t_ID = i, t_Group = ''run-1'', t_Name = i, t_Dependencies = ds,
     t_SoftDependencies = [], t_LeaseTTL = 0, t_Run = True, t_OnCanceled = False, t_Pool = ''local'',
     t_Capacity = True\<rparr>"

text \<open>C6. In every state the queue can reach, in any interleaving of its methods and goroutines
  and whatever the capacity callbacks answer, the queue invariant holds; in particular the
  counter of each pool is the number of its running entries, so a slot is released exactly once
  however a task ends (return, lease expiry, or both).\<close>

theorem queue_invariant: "queue_reachable m \<Longrightarrow> queue_inv m"
  by (rule queue_inv_reachable)

theorem queue_invariant_witness:
  "queue_inv (queue_step (\<lambda>_. 1) (OpDispatch 5) (queue_step (\<lambda>_. 1) (OpEnqueue [plain_task ''a'' []]) NewMemory))"
  by (rule queue_invariant) (intro queue_reachable.intros)

text \<open>C7. A task that \<open>claim\<close> starts was pending; afterwards it is running with a fresh lease, all
  its dependencies have succeeded and all its soft dependencies have ended.\<close>

theorem claim_respects_dependencies:
  assumes "queue_reachable m" "claim cap now m = (m', cbs, Some t)"
  shows "\<exists>e. m_entries m (t_ID t) = Some e \<and> e_State e = StatePending \<and> e_Task e = t \<and>
      m_entries m' (t_ID t) = Some (start_entry now e) \<and>
      (\<forall>d\<in>set (t_Dependencies t). \<exists>dep. m_entries m' d = Some dep \<and> e_State dep = StateSucceeded) \<and>
      (\<forall>d\<in>set (t_SoftDependencies t). \<exists>dep. m_entries m' d = Some dep \<and> terminal (e_State dep))"
proof -
  have "\<And>i e. m_entries m i = Some e \<Longrightarrow> t_ID (e_Task e) = i"
    using queue_inv_entry [OF queue_inv_reachable [OF assms(1)]] by (simp add: entry_ok_def)
  then show ?thesis using claim_starts [OF assms(2)] unfolding started_def by blast
qed

theorem claim_respects_dependencies_witness:
  "\<exists>e. m_entries (queue_step (\<lambda>_. 1) (OpEnqueue [plain_task ''a'' []]) NewMemory) ''a'' = Some e \<and>
     e_State e = StatePending"
proof -
  let ?m = "queue_step (\<lambda>_. 1) (OpEnqueue [plain_task ''a'' []]) NewMemory"
  let ?t = "e_Task (new_entry (plain_task ''a'' []))"
  have "queue_reachable ?m" by (intro queue_reachable.intros)
  moreover have "snd (snd (claim (\<lambda>_. 1) 5 ?m)) = Some ?t" by code_simp
  then obtain m' cbs where "claim (\<lambda>_. 1) 5 ?m = (m', cbs, Some ?t)"
    by (cases "claim (\<lambda>_. 1) 5 ?m") auto
  moreover have "t_ID ?t = ''a''" by code_simp
  ultimately show ?thesis using claim_respects_dependencies [of ?m "\<lambda>_. 1" 5 m' cbs ?t] by auto
qed

text \<open>C8. When every task of a pool reports the same positive capacity, no more tasks of that pool
  than this ever run at the same time, in any interleaving.\<close>

theorem pool_capacity_respected:
  assumes "0 < l" "\<forall>op\<in>set ops. \<forall>t\<in>set (op_tasks op). declares cap p l t"
  shows "int (card (pool_running (m_entries (queue_run cap ops)) p)) \<le> l"
  using queue_run_capacity [OF assms] queue_run_inv [of cap ops] by (simp add: queue_inv_def)

theorem pool_capacity_respected_witness:
  "int (card (pool_running (m_entries (queue_run (\<lambda>_. 1)
      [OpEnqueue [plain_task ''a'' [], plain_task ''b'' []], OpDispatch 1, OpDispatch 2])) ''local'')) \<le> 1"
  by (rule pool_capacity_respected) (simp_all add: op_tasks_def declares_def plain_task_def)

text \<open>An entry that has ended keeps its state, error and times through any further operations
  for as long as it is stored: a late return, a lease expiry or a cancellation cannot change it.\<close>

theorem ended_entries_stay:
  assumes "m_entries m i = Some e" "terminal (e_State e)"
    "\<forall>n \<le> length ops. m_entries (fold (queue_step cap) (take n ops) m) i \<noteq> None"
  shows "m_entries (fold (queue_step cap) ops m) i = Some e"
proof -
  have eq: "fold (queue_step cap) xs m = fold (\<lambda>(cap, op). queue_step cap op) (map (Pair cap) xs) m" for xs
    by (simp add: fold_map comp_def)
  show ?thesis
    unfolding eq by (rule queue_life.run_frozen) (use assms in \<open>simp_all add: eq take_map\<close>)
qed

theorem ended_entries_stay_witness:
  "let m = queue_run (\<lambda>_. 1) [OpEnqueue [plain_task ''a'' []], OpCancelGroup 3 ''run-1''] in
   m_entries (fold (queue_step (\<lambda>_. 1)) [OpDispatch 4] m) ''a'' = m_entries m ''a'' \<and>
   m_entries m ''a'' \<noteq> None"
proof -
  let ?m = "queue_run (\<lambda>_. 1) [OpEnqueue [plain_task ''a'' []], OpCancelGroup 3 ''run-1'']"
  have run: "map_option e_State (m_entries ?m ''a'') = Some StateCanceled"
    "map_option e_State (m_entries (queue_step (\<lambda>_. 1) (OpDispatch 4) ?m) ''a'') = Some StateCanceled"
    by code_simp+
  then obtain e where e: "m_entries ?m ''a'' = Some e" "terminal (e_State e)" by auto
  have "\<forall>n \<le> length [OpDispatch 4]. m_entries (fold (queue_step (\<lambda>_. 1)) (take n [OpDispatch 4]) ?m) ''a'' \<noteq> None"
    using run by (auto simp: le_Suc_eq)
  from ended_entries_stay [OF e this] e show ?thesis by simp
qed

text \<open>No lost wakeup: under the discipline the callers keep (batches in dependency order, a
  group pruned only when no pending task refers to it), whenever the dispatcher waits and no
  wakeup is buffered, no pending task can be started or has to be canceled: each waits for a
  dependency or for a running task of its pool. Capacities may change between any two steps.\<close>

theorem no_lost_wakeup:
  assumes "queue_disciplined m" "m_idle m" "\<not> m_wake m"
    "m_entries m i = Some e" "e_State e = StatePending"
  shows "check_deps (m_entries m) (t_Dependencies (e_Task e)) = DepsWait \<or>
    check_deps (m_entries m) (t_Dependencies (e_Task e)) = DepsReady \<and>
      (\<not> soft_ready (m_entries m) (t_SoftDependencies (e_Task e)) \<or>
       pool_running (m_entries m) (t_Pool (e_Task e)) \<noteq> {})"
proof -
  have inv: "queue_inv m" and "wake_inv m"
    using assms(1) queue_inv_reachable queue_disciplined_reachable wake_inv_disciplined by blast+
  then have "blocked m (e_Task e)" using assms(2-) unfolding wake_inv_def quiet_def by blast
  then show ?thesis using inv unfolding blocked_def queue_inv_def by (auto simp: card_gt_0_iff)
qed


lemma Enqueue_Snapshot:
  assumes "queue_inv m" "enqueue_check m ts = None" "distinct (map t_ID ts)"
  shows "Snapshot (enqueue_insert ts m) = Snapshot m @ map new_entry ts"
proof -
  let ?es = "m_entries (enqueue_insert ts m)"
  have "\<forall>i\<in>set (m_order m). ?es i = m_entries m i"
    using enqueue_check_disjoint [OF assms(1,2)] by (auto intro: enqueue_insert_other)
  then have "List.map_filter ?es (m_order m) = List.map_filter (m_entries m) (m_order m)"
    by (auto simp: List.map_filter_def intro!: map_cong filter_cong)
  moreover have "List.map_filter ?es (map t_ID us) = map new_entry us" if "set us \<subseteq> set ts" for us
    using that assms(3) by (induction us) (simp_all add: List.map_filter_simps enqueue_insert_entries)
  ultimately show ?thesis
    by (simp add: Snapshot_def enqueue_insert_static List.map_filter_def)
qed

lemma queue_disciplined_fold:
  "queue_disciplined m \<Longrightarrow> \<forall>op\<in>set ops. \<forall>m. disciplined m op \<Longrightarrow>
   queue_disciplined (fold (queue_step cap) ops m)"
  by (induction ops arbitrary: m) (simp_all add: queue_disciplined.step)

definition two_tasks :: qmem where
  "two_tasks = fst (Enqueue [plain_task ''a'' [], plain_task ''b'' [''a'']] NewMemory)"

lemma two_tasks_disciplined: "queue_disciplined two_tasks"
proof -
  have "disciplined NewMemory (OpEnqueue [plain_task ''a'' [], plain_task ''b'' [''a'']])"
    by (simp add: disciplined_def batch_fits_def plain_task_def task_refs_def NewMemory_def)
  from queue_disciplined.step [OF queue_disciplined.start this] show ?thesis
    by (simp add: two_tasks_def)
qed

definition first_running :: qmem where
  "first_running = fold (queue_step (\<lambda>_. 1)) [OpDispatch 1, OpDispatch 2, OpWake, OpDispatch 3] two_tasks"

definition both_ended :: qmem where
  "both_ended = fold (queue_step (\<lambda>_. 1)) [OpDispatch 1, OpRunReturns 2 ''a'' None, OpDispatch 3,
     OpRunReturns 4 ''b'' (Some ContextCanceled), OpDispatch 5, OpWake, OpDispatch 6] two_tasks"

lemma example_states_disciplined: "queue_disciplined first_running" "queue_disciplined both_ended"
  unfolding first_running_def both_ended_def
  by (rule queue_disciplined_fold [OF two_tasks_disciplined], simp add: disciplined_def)+

theorem no_lost_wakeup_witness: "check_deps (m_entries first_running) [''a''] \<noteq> DepsMissing"
proof -
  have flags: "m_idle first_running" "\<not> m_wake first_running" by code_simp+
  have "map_option (\<lambda>e. (e_State e, t_Dependencies (e_Task e))) (m_entries first_running ''b'') =
      Some (StatePending, [''a''])"
    by code_simp
  then obtain e where e: "m_entries first_running ''b'' = Some e" "e_State e = StatePending"
    "t_Dependencies (e_Task e) = [''a'']" by blast
  show ?thesis
    using no_lost_wakeup [OF example_states_disciplined(1) flags e(1,2)] unfolding e(3) by auto
qed


text \<open>\<open>Enqueue\<close> is all or nothing: when it reports an error the queue is unchanged; when it
  accepts a batch of distinct ids, the snapshot gains exactly the batch, in order, as pending
  entries, and the dispatcher is woken.\<close>

theorem Enqueue_all_or_nothing:
  assumes "queue_reachable m"
  shows "case Enqueue ts m of
      (m', Some err) \<Rightarrow> m' = m
    | (m', None) \<Rightarrow> distinct (map t_ID ts) \<longrightarrow>
        Snapshot m' = Snapshot m @ map new_entry ts \<and> m_wake m'"
  using Enqueue_Snapshot [OF queue_inv_reachable [OF assms], of ts]
  by (simp add: Enqueue_def Snapshot_def split: option.split)

theorem Enqueue_all_or_nothing_witness:
  "Snapshot two_tasks = map new_entry [plain_task ''a'' [], plain_task ''b'' [''a'']]"
  using Enqueue_all_or_nothing [OF queue_reachable.start, of "[plain_task ''a'' [], plain_task ''b'' [''a'']]"]
  by (simp add: two_tasks_def Enqueue_def plain_task_def NewMemory_def Snapshot_def List.map_filter_def)

text \<open>\<open>Enqueue\<close> accepts a batch that contains an id twice: the check only looks at the ids
  stored before the batch. The order then lists the id twice and the first task is lost.\<close>

theorem Enqueue_accepts_duplicate_in_batch:
  assumes "t_ID t = t_ID u" "t_ID t \<noteq> []" "t_Run t" "t_Run u" "m_entries m (t_ID t) = None"
  shows "snd (Enqueue [t, u] m) = None \<and>
    m_order (fst (Enqueue [t, u] m)) = m_order m @ [t_ID t, t_ID t] \<and>
    m_entries (fst (Enqueue [t, u] m)) (t_ID t) = Some (new_entry u)"
  using assms by (simp add: Enqueue_def)

theorem Enqueue_accepts_duplicate_in_batch_witness:
  "snd (Enqueue [plain_task ''a'' [''x''], plain_task ''a'' []] NewMemory) = None"
  using Enqueue_accepts_duplicate_in_batch [of "plain_task ''a'' [''x'']" "plain_task ''a'' []" NewMemory]
  by (simp add: plain_task_def NewMemory_def)

end
