(* ===== verification/Suite_Types.thy ===== *)
theory Suite_Types
  imports Go_Prelude "HOL-Library.Word"
begin

text \<open>
  The data of a suite: \<open>internal/suites/types.go\<close>, \<open>load_spec.go\<close>, \<open>security_types.go\<close> and
  \<open>plugin_types.go\<close>, one record per struct with the struct's fields. A pointer is an option, a
  \<open>map[string]string\<close> a partial function, a \<open>float64\<close> its 64-bit pattern (nothing in the model
  computes with one), and an \<open>any\<close> a value of \<open>goany\<close>. The deep copies of \<open>clone.go\<close> are the
  identity on values and have no definition of their own.
\<close>

type_synonym float64 = "64 word"
type_synonym gomap = "string \<rightharpoonup> string"

datatype goany =
    AnyNil
  | AnyBool bool
  | AnyInt int
  | AnyFloat float64
  | AnyString string
  | AnyList "goany list"
  | AnyMap "(string \<times> goany) list"

record source_file =
  f_Path :: string
  f_Language :: string
  f_Content :: string

record profile_option =
  p_FileName :: string
  p_Label :: string
  p_Description :: string
  p_Default :: bool
  p_Content :: string

record artifact_export =
  x_Path :: string
  x_Name :: string
  x_On :: string
  x_Format :: string

record step_evaluation =
  ev_ExpectExit :: "int option"
  ev_ExpectLogs :: "string list"
  ev_FailOnLogs :: "string list"

record load_threshold =
  lt_Metric :: string
  lt_Op :: string
  lt_Value :: float64
  lt_Sampler :: string

record load_request =
  lr_Method :: string
  lr_Path :: string
  lr_Name :: string
  lr_Headers :: gomap
  lr_Body :: string
  lr_Checks :: "load_threshold list"

record load_task =
  lk_ID :: string
  lk_Name :: string
  lk_Weight :: int
  lk_Request :: load_request
  lk_Checks :: "load_threshold list"

record load_wait =
  lw_Mode :: string
  lw_Seconds :: float64
  lw_MinSeconds :: float64
  lw_MaxSeconds :: float64

record load_user =
  lu_ID :: string
  lu_Name :: string
  lu_Weight :: int
  lu_Wait :: load_wait
  lu_Tasks :: "load_task list"

record load_stage =
  ls_Duration :: duration
  ls_Users :: int
  ls_SpawnRate :: float64
  ls_Stop :: bool

record load_spec =
  l_Variant :: string
  l_PlanPath :: string
  l_Target :: string
  l_RequestsPerS :: float64
  l_ArrivalRate :: float64
  l_Users :: "load_user list"
  l_Stages :: "load_stage list"
  l_Thresholds :: "load_threshold list"

record security_threshold =
  st_Metric :: string
  st_Operator :: string
  st_Value :: float64

record security_spec =
  sec_Variant :: string
  sec_Target :: string
  sec_Technique :: string
  sec_FloodPath :: string
  sec_FloodRate :: float64
  sec_FloodDuration :: float64
  sec_FloodThrottle :: bool
  sec_Thresholds :: "security_threshold list"

record plugin_spec =
  pl_Name :: string
  pl_Op :: string
  pl_Config :: goany

record topology_node =
  n_ID :: string
  n_Name :: string
  n_Kind :: string
  n_Variant :: string
  n_Load :: "load_spec option"
  n_Security :: "security_spec option"
  n_Plugin :: "plugin_spec option"
  n_Message :: string
  n_Harden :: bool
  n_Image :: string
  n_File :: string
  n_Commands :: "string list"
  n_DependsOn :: "string list"
  n_ResetMocks :: "string list"
  n_OnFailure :: "string list"
  n_ContinueOnFailure :: bool
  n_Evaluation :: "step_evaluation option"
  n_ArtifactExports :: "artifact_export list"
  n_Level :: int
  n_SourceSuiteID :: string
  n_SourceSuiteTitle :: string
  n_SourceRepository :: string
  n_SourceVersion :: string
  n_DependencyAlias :: string
  n_ResolvedRef :: string
  n_Digest :: string
  n_RuntimeProfile :: string
  n_RuntimeEnv :: gomap
  n_RuntimeHeaders :: gomap
  n_Order :: int

text \<open>The zero value of a node, the base of every composite literal in the source.\<close>

definition zero_node :: topology_node where
  "zero_node = \<lparr>n_ID = [], n_Name = [], n_Kind = [], n_Variant = [], n_Load = None,
     n_Security = None, n_Plugin = None, n_Message = [], n_Harden = False, n_Image = [],
     n_File = [], n_Commands = [], n_DependsOn = [], n_ResetMocks = [], n_OnFailure = [],
     n_ContinueOnFailure = False, n_Evaluation = None, n_ArtifactExports = [], n_Level = 0,
     n_SourceSuiteID = [], n_SourceSuiteTitle = [], n_SourceRepository = [], n_SourceVersion = [],
     n_DependencyAlias = [], n_ResolvedRef = [], n_Digest = [], n_RuntimeProfile = [],
     n_RuntimeEnv = Map.empty, n_RuntimeHeaders = Map.empty, n_Order = 0\<rparr>"

record folder_entry =
  fe_Name :: string
  fe_Role :: string
  fe_Description :: string
  fe_Files :: "string list"

record resolved_dependency =
  d_Alias :: string
  d_Ref :: string
  d_Version :: string
  d_Resolved :: string
  d_Digest :: string
  d_Profile :: string
  d_Inputs :: gomap
  d_SuiteID :: string
  d_SuiteTitle :: string
  d_Repository :: string
  d_SourceFiles :: "source_file list"

text \<open>
  \<open>Definition\<close> without the fields that only describe a suite to a reader (owner, labels, tags,
  commands, contracts, API surfaces): no modelled function reads them.
\<close>

record suite_definition =
  g_ID :: string
  g_Title :: string
  g_Repository :: string
  g_Version :: string
  g_SuiteStar :: string
  g_Profiles :: "profile_option list"
  g_Folders :: "folder_entry list"
  g_SeedSources :: "source_file list"
  g_SourceFiles :: "source_file list"
  g_Topology :: "topology_node list"
  g_TopologyError :: string
  g_ResolvedDependencies :: "resolved_dependency list"

end
