(* ===== verification/Topology_Order.thy ===== *)
theory Topology_Order
  imports Suite_Types "HOL-Library.AList"
begin

text \<open>
  Ordering the nodes of a suite: \<open>resolveTopology\<close>, \<open>sortTopologyIDs\<close> and \<open>normalizeDependencies\<close>
  of \<open>internal/suites/topology.go\<close>, and their counterparts with \<open>findTopologyCycle\<close> in
  \<open>internal/execution/topology.go\<close>. Both functions sort the nodes level by level (the same loop,
  \<open>kahn\<close>) and differ in how they normalise dependencies, in the checks before the loop and in the
  error they report for a cycle. The Go map \<open>indegree\<close> is an association list, the map
  \<open>dependants\<close> a function with the empty list for an absent key.
\<close>

subsection \<open>Dependencies of a node\<close>

fun normalize_loop :: "string list \<Rightarrow> string list \<Rightarrow> string list" where
  "normalize_loop seen [] = []"
| "normalize_loop seen (d # ds) =
     (let trimmed = TrimSpace d in
      if trimmed = [] then normalize_loop seen ds
      else if trimmed \<in> set seen then normalize_loop seen ds
      else trimmed # normalize_loop (trimmed # seen) ds)"

definition normalizeDependencies :: "string list \<Rightarrow> string list" where
  "normalizeDependencies dependsOn = (if dependsOn = [] then [] else normalize_loop [] dependsOn)"

fun normalize_topology_loop :: "string list \<Rightarrow> string list \<Rightarrow> string list" where
  "normalize_topology_loop result [] = result"
| "normalize_topology_loop result (d # ds) =
     normalize_topology_loop (if d \<in> set result then result else result @ [d]) ds"

definition normalizeTopologyDependencies :: "string list \<Rightarrow> string list" where
  "normalizeTopologyDependencies dependsOn = normalize_topology_loop [] dependsOn"

subsection \<open>Lookup and order of the ready steps\<close>

type_synonym node_index = "string \<rightharpoonup> topology_node"

definition byID :: "topology_node list \<Rightarrow> node_index" where
  "byID nodes = map_of (map (\<lambda>n. (n_ID n, n)) nodes)"

definition topology_less :: "node_index \<Rightarrow> string \<Rightarrow> string \<Rightarrow> bool" where
  "topology_less ix i j =
     (case (ix i, ix j) of
        (Some left, Some right) \<Rightarrow>
          if n_Order left \<noteq> n_Order right then n_Order left < n_Order right
          else n_Name left < n_Name right
      | _ \<Rightarrow> i < j)"

definition sortTopologyIDs :: "node_index \<Rightarrow> string list \<Rightarrow> string list" where
  "sortTopologyIDs ix ids = sort_slice (topology_less ix) ids"

subsection \<open>The level loop\<close>

type_synonym degrees = "(string \<times> int) list"

definition degree :: "degrees \<Rightarrow> string \<Rightarrow> int" where
  "degree m i = (case map_of m i of None \<Rightarrow> 0 | Some v \<Rightarrow> v)"

fun release :: "string list \<Rightarrow> degrees \<Rightarrow> string list \<Rightarrow> degrees \<times> string list" where
  "release [] m nextReady = (m, nextReady)"
| "release (d # ds) m nextReady =
     (let v = degree m d - 1 in
      release ds (AList.update d v m) (if v = 0 then nextReady @ [d] else nextReady))"

fun level_pass ::
  "node_index \<Rightarrow> (string \<Rightarrow> string list) \<Rightarrow> int \<Rightarrow> string list \<Rightarrow> degrees \<Rightarrow> string list \<Rightarrow>
   topology_node list \<Rightarrow> degrees \<times> string list \<times> topology_node list" where
  "level_pass ix dependants level [] m nextReady ordered = (m, nextReady, ordered)"
| "level_pass ix dependants level (i # ids) m nextReady ordered =
     (let (m', nextReady') = release (dependants i) m nextReady in
      level_pass ix dependants level ids m' nextReady'
        (ordered @ (case ix i of None \<Rightarrow> [] | Some n \<Rightarrow> [n\<lparr>n_Level := level\<rparr>])))"

definition positives :: "degrees \<Rightarrow> nat" where
  "positives m = length (filter (\<lambda>(_, v). 0 < v) m)"

lemma positives_update:
  "positives (AList.update d (degree m d - 1) m) \<le> positives m \<and>
   (degree m d = 1 \<longrightarrow> positives (AList.update d (degree m d - 1) m) < positives m)"
proof -
  have upd: "positives (AList.update d w m) \<le> positives m \<and>
      (0 < v \<and> w \<le> 0 \<longrightarrow> positives (AList.update d w m) < positives m)"
    if "map_of m d = Some v" "w \<le> v" for v w
    using that by (induction m) (auto simp: positives_def split: if_splits)
  have new: "positives (AList.update d w m) \<le> positives m" if "map_of m d = None" "w \<le> 0" for w
    using that by (induction m) (auto simp: positives_def split: if_splits)
  show ?thesis
  proof (cases "map_of m d")
    case None
    with new [of "-1"] show ?thesis by (simp add: degree_def)
  next
    case (Some v)
    with upd [of v "v - 1"] show ?thesis by (auto simp: degree_def)
  qed
qed

lemma release_positives:
  "release ds m nr = (m', nr') \<Longrightarrow>
   positives m' \<le> positives m \<and> (nr' \<noteq> nr \<longrightarrow> positives m' < positives m)"
proof (induction ds arbitrary: m nr)
  case (Cons d ds)
  let ?m = "AList.update d (degree m d - 1) m"
  from Cons.prems have "release ds ?m (if degree m d = 1 then nr @ [d] else nr) = (m', nr')"
    by (simp add: Let_def split: if_splits)
  from Cons.IH [OF this] positives_update [of d m] show ?case by (auto split: if_splits)
qed simp

lemma level_pass_positives:
  "level_pass ix dep level ids m nr ord = (m', nr', ord') \<Longrightarrow>
   positives m' \<le> positives m \<and> (nr' \<noteq> nr \<longrightarrow> positives m' < positives m)"
proof (induction ids arbitrary: m nr ord)
  case (Cons i ids)
  obtain m1 nr1 where rel: "release (dep i) m nr = (m1, nr1)" by fastforce
  with Cons.prems have "level_pass ix dep level ids m1 nr1
      (ord @ (case ix i of None \<Rightarrow> [] | Some n \<Rightarrow> [n\<lparr>n_Level := level\<rparr>])) = (m', nr', ord')"
    by simp
  from Cons.IH [OF this] release_positives [OF rel] show ?case by auto
qed simp

text \<open>
  The outer loop ends because every step that becomes ready has used up the last of a positive
  number of open dependencies.
\<close>

function kahn ::
  "node_index \<Rightarrow> (string \<Rightarrow> string list) \<Rightarrow> int \<Rightarrow> string list \<Rightarrow> degrees \<Rightarrow> topology_node list \<Rightarrow>
   topology_node list" where
  "kahn ix dependants level ready m ordered =
     (if ready = [] then ordered
      else case level_pass ix dependants level ready m [] ordered of
        (m', nextReady, ordered') \<Rightarrow>
          kahn ix dependants (level + 1) (sortTopologyIDs ix nextReady) m' ordered')"
  by pat_completeness auto
termination
  by (relation "measure (\<lambda>(ix, dep, level, ready, m, ord). 2 * positives m + (if ready = [] then 0 else 1))")
     (auto simp: sortTopologyIDs_def dest!: level_pass_positives level_pass_positives [OF sym])

declare kahn.simps [simp del]

subsection \<open>resolveTopology of the suites package\<close>

datatype topology_error =
    DuplicateStep string
  | ResetMocksOnlyOnTests
  | ResetsMissingMock string string
  | ResetTargetNotMock string string
  | MissingDependency string string
  | LinearCycle

definition normalize_node :: "topology_node \<Rightarrow> topology_node" where
  "normalize_node n = n\<lparr>n_DependsOn := normalizeDependencies (n_DependsOn n),
     n_ResetMocks := normalizeDependencies (n_ResetMocks n)\<rparr>"

fun duplicate_step :: "string list \<Rightarrow> topology_node list \<Rightarrow> string option" where
  "duplicate_step seen [] = None"
| "duplicate_step seen (n # ns) =
     (if n_ID n \<in> set seen then Some (n_ID n) else duplicate_step (n_ID n # seen) ns)"

fun reset_targets :: "node_index \<Rightarrow> string \<Rightarrow> string list \<Rightarrow> topology_error option" where
  "reset_targets ix i [] = None"
| "reset_targets ix i (target # targets) =
     (case ix target of
        None \<Rightarrow> Some (ResetsMissingMock i target)
      | Some dependency \<Rightarrow>
          if n_Kind dependency \<noteq> ''mock'' then Some (ResetTargetNotMock i target)
          else reset_targets ix i targets)"

fun reset_check :: "node_index \<Rightarrow> topology_node list \<Rightarrow> topology_error option" where
  "reset_check ix [] = None"
| "reset_check ix (n # ns) =
     (if n_ResetMocks n = [] then reset_check ix ns
      else if n_Kind n \<noteq> ''test'' then Some ResetMocksOnlyOnTests
      else case reset_targets ix (n_ID n) (n_ResetMocks n) of
          Some err \<Rightarrow> Some err
        | None \<Rightarrow> reset_check ix ns)"

fun missing_dependency :: "node_index \<Rightarrow> topology_node list \<Rightarrow> (string \<times> string) option" where
  "missing_dependency ix [] = None"
| "missing_dependency ix (n # ns) =
     (case find (\<lambda>d. ix d = None) (n_DependsOn n) of
        Some d \<Rightarrow> Some (n_ID n, d)
      | None \<Rightarrow> missing_dependency ix ns)"

definition dependants_of :: "topology_node list \<Rightarrow> string \<Rightarrow> string list" where
  "dependants_of nodes d =
     concat (map (\<lambda>n. map (\<lambda>_. n_ID n) (filter (\<lambda>x. x = d) (n_DependsOn n))) nodes)"

definition initial_degrees :: "topology_node list \<Rightarrow> degrees" where
  "initial_degrees nodes = fold (\<lambda>n. AList.update (n_ID n) (int (length (n_DependsOn n)))) nodes []"

definition order_levels :: "topology_node list \<Rightarrow> topology_node list" where
  "order_levels nodes =
     (let ix = byID nodes;
          m = initial_degrees nodes;
          ready = map n_ID (filter (\<lambda>n. degree m (n_ID n) = 0) nodes)
      in kahn ix (dependants_of nodes) 0 (sortTopologyIDs ix ready) m [])"

definition resolveTopology :: "topology_node list \<Rightarrow> topology_error + topology_node list" where
  "resolveTopology input =
     (if input = [] then Inr []
      else
        let nodes = map normalize_node input; ix = byID nodes in
        case duplicate_step [] nodes of
          Some i \<Rightarrow> Inl (DuplicateStep i)
        | None \<Rightarrow>
            (case reset_check ix nodes of
               Some err \<Rightarrow> Inl err
             | None \<Rightarrow>
                 (case missing_dependency ix nodes of
                    Some (n, d) \<Rightarrow> Inl (MissingDependency n d)
                  | None \<Rightarrow>
                      let ordered = order_levels nodes in
                      if length ordered \<noteq> length nodes then Inl LinearCycle else Inr ordered)))"

subsection \<open>resolveTopology of the execution package\<close>

text \<open>
  \<open>visit\<close> is the closure of \<open>findTopologyCycle\<close> with the variables it captures as the record
  \<open>search\<close>, and \<open>visit_deps\<close> its loop over the dependencies. The recursion is bounded by fuel;
  \<open>OutOfFuel\<close> marks a search that needed more.
\<close>

datatype visit_result = OutOfFuel | NoCycle | Cycle "string list"

record search =
  s_visiting :: "string list"
  s_visited :: "string list"
  s_path :: "string list"

definition cycle_path :: "string list \<Rightarrow> string \<Rightarrow> string list" where
  "cycle_path path d = (if d \<in> set path then dropWhile (\<lambda>x. x \<noteq> d) path else path) @ [d]"

function visit :: "nat \<Rightarrow> node_index \<Rightarrow> string \<Rightarrow> search \<Rightarrow> visit_result \<times> search"
  and visit_deps :: "nat \<Rightarrow> node_index \<Rightarrow> string list \<Rightarrow> search \<Rightarrow> visit_result \<times> search" where
  "visit 0 ix i st = (OutOfFuel, st)"
| "visit (Suc k) ix i st =
     (let st1 = st\<lparr>s_visited := i # s_visited st, s_visiting := i # s_visiting st, s_path := s_path st @ [i]\<rparr> in
      case visit_deps k ix (case ix i of None \<Rightarrow> [] | Some node \<Rightarrow> n_DependsOn node) st1 of
        (NoCycle, st2) \<Rightarrow>
          (NoCycle, st2\<lparr>s_visiting := filter (\<lambda>x. x \<noteq> i) (s_visiting st2), s_path := butlast (s_path st2)\<rparr>)
      | r \<Rightarrow> r)"
| "visit_deps k ix [] st = (NoCycle, st)"
| "visit_deps k ix (d # ds) st =
     (if d \<notin> set (s_visited st) then
        (case visit k ix d st of
           (NoCycle, st') \<Rightarrow> visit_deps k ix ds st'
         | r \<Rightarrow> r)
      else if d \<notin> set (s_visiting st) then visit_deps k ix ds st
      else (Cycle (cycle_path (s_path st) d), st))"
  by pat_completeness auto
termination
  by (relation "inv_image (less_than <*lex*> less_than)
      (\<lambda>x. case x of Inl (k, ix, i, st) \<Rightarrow> (2 * k, 0) | Inr (k, ix, ds, st) \<Rightarrow> (2 * k + 1, length ds))") auto

fun visit_all :: "nat \<Rightarrow> node_index \<Rightarrow> topology_node list \<Rightarrow> search \<Rightarrow> visit_result" where
  "visit_all k ix [] st = NoCycle"
| "visit_all k ix (n # ns) st =
     (if n_ID n \<in> set (s_visited st) then visit_all k ix ns st
      else case visit k ix (n_ID n) st of
          (NoCycle, st') \<Rightarrow> visit_all k ix ns st'
        | (r, _) \<Rightarrow> r)"

definition findTopologyCycle :: "topology_node list \<Rightarrow> visit_result" where
  "findTopologyCycle nodes =
     visit_all (Suc (length nodes)) (byID nodes) nodes \<lparr>s_visiting = [], s_visited = [], s_path = []\<rparr>"

datatype exec_topology_error =
    TopologyDuplicateNode string
  | TopologyMissingDependency string string
  | TopologyCycle visit_result

definition normalize_exec_node :: "topology_node \<Rightarrow> topology_node" where
  "normalize_exec_node n = n\<lparr>n_DependsOn := normalizeTopologyDependencies (n_DependsOn n)\<rparr>"

definition exec_resolveTopology :: "topology_node list \<Rightarrow> exec_topology_error + topology_node list" where
  "exec_resolveTopology input =
     (if input = [] then Inr []
      else
        let nodes = map normalize_exec_node input in
        case duplicate_step [] nodes of
          Some i \<Rightarrow> Inl (TopologyDuplicateNode i)
        | None \<Rightarrow>
            (case missing_dependency (byID nodes) nodes of
               Some (n, d) \<Rightarrow> Inl (TopologyMissingDependency n d)
             | None \<Rightarrow>
                 let ordered = order_levels nodes in
                 if length ordered \<noteq> length nodes then Inl (TopologyCycle (findTopologyCycle nodes))
                 else Inr ordered))"

subsection \<open>Correctness of the level loop\<close>

text \<open>The graph of a node list that passed the checks: distinct ids, dependencies among them.\<close>

definition step_ids :: "topology_node list \<Rightarrow> string set" where
  "step_ids nodes = n_ID ` set nodes"

definition deps_of :: "topology_node list \<Rightarrow> string \<Rightarrow> string set" where
  "deps_of nodes i = (case byID nodes i of None \<Rightarrow> {} | Some n \<Rightarrow> set (n_DependsOn n))"

definition valid_nodes :: "topology_node list \<Rightarrow> bool" where
  "valid_nodes nodes \<longleftrightarrow>
     distinct (map n_ID nodes) \<and> (\<forall>n\<in>set nodes. distinct (n_DependsOn n)) \<and>
     (\<forall>n\<in>set nodes. set (n_DependsOn n) \<subseteq> step_ids nodes)"

lemma byID_Some: "byID nodes i = Some n \<Longrightarrow> n \<in> set nodes \<and> n_ID n = i"
  by (auto simp: byID_def dest: map_of_SomeD)

lemma byID_None: "byID nodes i = None \<longleftrightarrow> i \<notin> step_ids nodes"
  by (auto simp: byID_def step_ids_def map_of_eq_None_iff image_image)

lemma byID_node: "distinct (map n_ID nodes) \<Longrightarrow> n \<in> set nodes \<Longrightarrow> byID nodes (n_ID n) = Some n"
  by (auto simp: byID_def comp_def intro!: map_of_is_SomeI)

lemma deps_of_node:
  "distinct (map n_ID nodes) \<Longrightarrow> n \<in> set nodes \<Longrightarrow> deps_of nodes (n_ID n) = set (n_DependsOn n)"
  by (simp add: deps_of_def byID_node)

lemma finite_deps_of [simp]: "finite (deps_of nodes i)"
  by (simp add: deps_of_def split: option.split)

lemma deps_of_subset: "valid_nodes nodes \<Longrightarrow> deps_of nodes i \<subseteq> step_ids nodes"
  by (auto simp: deps_of_def valid_nodes_def dest!: byID_Some split: option.splits)

lemma deps_of_step: "d \<in> deps_of nodes i \<Longrightarrow> i \<in> step_ids nodes"
  by (auto simp: deps_of_def step_ids_def dest!: byID_Some split: option.splits)

lemma filter_eq_distinct: "distinct xs \<Longrightarrow> filter (\<lambda>x. x = d) xs = (if d \<in> set xs then [d] else [])"
  by (induction xs) auto

lemma dependants_of_filter:
  assumes "valid_nodes nodes"
  shows "dependants_of nodes d = map n_ID (filter (\<lambda>n. d \<in> set (n_DependsOn n)) nodes)"
proof -
  have "\<forall>n\<in>set nodes. distinct (n_DependsOn n)" using assms by (simp add: valid_nodes_def)
  then show ?thesis
    unfolding dependants_of_def by (induction nodes) (auto simp: filter_eq_distinct)
qed

lemma dependants_of_spec:
  assumes "valid_nodes nodes"
  shows "distinct (dependants_of nodes d)" "set (dependants_of nodes d) = {i. d \<in> deps_of nodes i}"
proof -
  have ids: "distinct (map n_ID nodes)" using assms by (simp add: valid_nodes_def)
  then show "distinct (dependants_of nodes d)"
    by (simp add: dependants_of_filter [OF assms] distinct_map inj_on_def)
  show "set (dependants_of nodes d) = {i. d \<in> deps_of nodes i}"
    using deps_of_node [OF ids] byID_Some
    by (fastforce simp: dependants_of_filter [OF assms] deps_of_def split: option.splits)
qed

lemma degree_update [simp]: "degree (AList.update k v m) i = (if i = k then v else degree m i)"
  by (simp add: degree_def update_conv')

lemma initial_degrees_fold:
  "distinct (map n_ID nodes) \<Longrightarrow>
   degree (fold (\<lambda>n. AList.update (n_ID n) (int (length (n_DependsOn n)))) nodes m) i =
     (case byID nodes i of None \<Rightarrow> degree m i | Some n \<Rightarrow> int (length (n_DependsOn n)))"
proof (induction nodes arbitrary: m)
  case (Cons n ns)
  then have "byID ns (n_ID n) = None" by (auto simp: byID_None step_ids_def)
  with Cons show ?case by (auto simp: byID_def split: option.split)
qed (simp add: byID_def)

lemma initial_degrees:
  assumes "valid_nodes nodes"
  shows "degree (initial_degrees nodes) i = int (card (deps_of nodes i))"
proof -
  have "degree (initial_degrees nodes) i =
      (case byID nodes i of None \<Rightarrow> 0 | Some n \<Rightarrow> int (length (n_DependsOn n)))"
    using assms initial_degrees_fold [of nodes "[]" i]
    by (simp add: initial_degrees_def valid_nodes_def degree_def split: option.split)
  also have "\<dots> = int (card (deps_of nodes i))"
    using assms byID_Some [of nodes i]
    by (auto simp: deps_of_def valid_nodes_def distinct_card split: option.split)
  finally show ?thesis .
qed

lemma release_distinct:
  "distinct ds \<Longrightarrow> release ds m nr = (m', nr') \<Longrightarrow>
   (\<forall>i. degree m' i = degree m i - of_bool (i \<in> set ds)) \<and>
   nr' = nr @ filter (\<lambda>i. degree m i = 1) ds"
proof (induction ds arbitrary: m nr)
  case (Cons d ds)
  let ?m = "AList.update d (degree m d - 1) m"
  from Cons.prems have rel: "release ds ?m (if degree m d = 1 then nr @ [d] else nr) = (m', nr')"
    and "distinct ds" "d \<notin> set ds"
    by (simp_all add: Let_def split: if_splits)
  moreover have "filter (\<lambda>i. degree ?m i = 1) ds = filter (\<lambda>i. degree m i = 1) ds"
    using \<open>d \<notin> set ds\<close> by (auto intro!: filter_cong)
  ultimately show ?case
    using Cons.IH [of ?m "if degree m d = 1 then nr @ [d] else nr"] by auto
qed simp

text \<open>\<open>open_deps nodes P m\<close>: the degree of a step is the number of its dependencies outside \<open>P\<close>.\<close>

definition open_deps :: "topology_node list \<Rightarrow> string set \<Rightarrow> degrees \<Rightarrow> bool" where
  "open_deps nodes P m \<longleftrightarrow> (\<forall>i. degree m i = int (card (deps_of nodes i - P)))"

lemma release_step:
  assumes valid: "valid_nodes nodes" and opn: "open_deps nodes P m" and x: "x \<notin> P"
    and rel: "release (dependants_of nodes x) m nr = (m', nr')"
  shows "open_deps nodes (insert x P) m' \<and>
    nr' = nr @ filter (\<lambda>i. deps_of nodes i \<subseteq> insert x P) (dependants_of nodes x)"
proof
  note rd = release_distinct [OF dependants_of_spec(1) [OF valid] rel]
  note mem = dependants_of_spec(2) [OF valid, of x]
  have card: "card (deps_of nodes i - P) = Suc (card (deps_of nodes i - insert x P))"
    if "x \<in> deps_of nodes i" for i
  proof -
    have "deps_of nodes i - P = insert x (deps_of nodes i - insert x P)" using that x by blast
    then show ?thesis by (metis Diff_iff card_insert_disjoint finite_Diff finite_deps_of insertI1)
  qed
  have other: "deps_of nodes i - insert x P = deps_of nodes i - P" if "x \<notin> deps_of nodes i" for i
    using that by blast
  show "open_deps nodes (insert x P) m'"
    unfolding open_deps_def
  proof
    fix i show "degree m' i = int (card (deps_of nodes i - insert x P))"
      using rd opn mem card [of i] other [of i] by (cases "x \<in> deps_of nodes i") (auto simp: open_deps_def)
  qed
  have "degree m i = 1 \<longleftrightarrow> deps_of nodes i \<subseteq> insert x P" if "i \<in> set (dependants_of nodes x)" for i
    using that mem card [of i] opn by (auto simp: open_deps_def)
  then have "filter (\<lambda>i. degree m i = 1) (dependants_of nodes x) =
      filter (\<lambda>i. deps_of nodes i \<subseteq> insert x P) (dependants_of nodes x)"
    by (rule filter_cong [OF refl])
  with rd show "nr' = nr @ filter (\<lambda>i. deps_of nodes i \<subseteq> insert x P) (dependants_of nodes x)" by simp
qed

definition at_level :: "topology_node list \<Rightarrow> int \<Rightarrow> string \<Rightarrow> topology_node" where
  "at_level nodes level i = (the (byID nodes i))\<lparr>n_Level := level\<rparr>"

lemma level_pass_spec:
  assumes valid: "valid_nodes nodes"
  shows "open_deps nodes P m \<Longrightarrow> distinct cur \<Longrightarrow> set cur \<inter> P = {} \<Longrightarrow> set cur \<subseteq> step_ids nodes \<Longrightarrow>
    distinct nr \<Longrightarrow> \<forall>i\<in>set nr. deps_of nodes i \<subseteq> P \<Longrightarrow>
    level_pass (byID nodes) (dependants_of nodes) level cur m nr ord = (m', nr', ord') \<Longrightarrow>
    open_deps nodes (P \<union> set cur) m' \<and> distinct nr' \<and>
    set nr' = set nr \<union> {i. deps_of nodes i \<subseteq> P \<union> set cur \<and> \<not> deps_of nodes i \<subseteq> P} \<and>
    ord' = ord @ map (at_level nodes level) cur"
proof (induction cur arbitrary: P m nr ord)
  case (Cons x cur)
  obtain m1 nr1 where rel: "release (dependants_of nodes x) m nr = (m1, nr1)" by fastforce
  note step = release_step [OF valid Cons.prems(1) _ rel]
  have opn: "open_deps nodes (insert x P) m1"
    and nr1: "nr1 = nr @ filter (\<lambda>i. deps_of nodes i \<subseteq> insert x P) (dependants_of nodes x)"
    using step Cons.prems(3) by auto
  obtain n where n: "byID nodes x = Some n" using Cons.prems(4) byID_None [of nodes x] by auto
  have run: "level_pass (byID nodes) (dependants_of nodes) level cur m1 nr1 (ord @ [at_level nodes level x]) = (m', nr', ord')"
    using Cons.prems(7) rel n by (simp add: at_level_def)
  have new: "\<not> deps_of nodes i \<subseteq> P" if "i \<in> set (dependants_of nodes x)" for i
    using that dependants_of_spec(2) [OF valid] Cons.prems(3) by auto
  have "distinct nr1"
    using nr1 Cons.prems(5,6) new dependants_of_spec(1) [OF valid] by auto
  moreover have "\<forall>i\<in>set nr1. deps_of nodes i \<subseteq> insert x P"
    using nr1 Cons.prems(6) by auto
  moreover have "set cur \<inter> insert x P = {}" "distinct cur" "set cur \<subseteq> step_ids nodes"
    using Cons.prems(2-4) by auto
  ultimately have IH: "open_deps nodes (insert x P \<union> set cur) m' \<and> distinct nr' \<and>
    set nr' = set nr1 \<union> {i. deps_of nodes i \<subseteq> insert x P \<union> set cur \<and> \<not> deps_of nodes i \<subseteq> insert x P} \<and>
    ord' = (ord @ [at_level nodes level x]) @ map (at_level nodes level) cur"
    using Cons.IH [OF opn] run by blast
  moreover have "set nr1 = set nr \<union> {i. deps_of nodes i \<subseteq> insert x P \<and> \<not> deps_of nodes i \<subseteq> P}"
    using nr1 dependants_of_spec(2) [OF valid, of x] Cons.prems(3) by auto
  moreover have "insert x P \<union> set cur = P \<union> set (x # cur)" by auto
  ultimately show ?case by auto
qed auto

text \<open>
  A list is in dependency order when every node comes after all its dependencies; levels are
  right when a node's level is one more than the greatest level of its dependencies.
\<close>

fun deps_before :: "string set \<Rightarrow> topology_node list \<Rightarrow> bool" where
  "deps_before seen [] \<longleftrightarrow> True"
| "deps_before seen (n # ns) \<longleftrightarrow>
     set (n_DependsOn n) \<subseteq> seen \<and> n_ID n \<notin> seen \<and> deps_before (insert (n_ID n) seen) ns"

definition levels_ok :: "topology_node list \<Rightarrow> bool" where
  "levels_ok out \<longleftrightarrow>
     (\<forall>n\<in>set out. 0 \<le> n_Level n \<and>
        (n_DependsOn n = [] \<longrightarrow> n_Level n = 0) \<and>
        (\<forall>d\<in>set out. n_ID d \<in> set (n_DependsOn n) \<longrightarrow> n_Level d < n_Level n) \<and>
        (n_DependsOn n \<noteq> [] \<longrightarrow> (\<exists>d\<in>set out. n_ID d \<in> set (n_DependsOn n) \<and> n_Level n = n_Level d + 1)))"

lemma deps_before_append:
  "deps_before seen (xs @ ys) \<longleftrightarrow> deps_before seen xs \<and> deps_before (seen \<union> n_ID ` set xs) ys"
  by (induction xs arbitrary: seen) auto

lemma deps_before_flat:
  "\<forall>n\<in>set ns. set (n_DependsOn n) \<subseteq> seen \<Longrightarrow> distinct (map n_ID ns) \<Longrightarrow>
   seen \<inter> n_ID ` set ns = {} \<Longrightarrow> deps_before seen ns"
proof (induction ns arbitrary: seen)
  case (Cons n ns)
  then have "deps_before (insert (n_ID n) seen) ns" by (intro Cons.IH) auto
  with Cons.prems show ?case by auto
qed simp

definition leveled :: "topology_node list \<Rightarrow> topology_node \<Rightarrow> bool" where
  "leveled nodes n \<longleftrightarrow> n = at_level nodes (n_Level n) (n_ID n)"

text \<open>The invariant of the outer loop.\<close>

definition kahn_inv :: "topology_node list \<Rightarrow> int \<Rightarrow> string list \<Rightarrow> degrees \<Rightarrow> topology_node list \<Rightarrow> bool" where
  "kahn_inv nodes level ready m out \<longleftrightarrow>
     (let P = step_ids out in
      open_deps nodes P m \<and> distinct ready \<and>
      set ready = {i \<in> step_ids nodes. i \<notin> P \<and> deps_of nodes i \<subseteq> P} \<and>
      deps_before {} out \<and> P \<subseteq> step_ids nodes \<and> levels_ok out \<and> 0 \<le> level \<and>
      (\<forall>n\<in>set out. n_Level n < level \<and> leveled nodes n) \<and>
      (\<forall>i\<in>set ready. if level = 0 then deps_of nodes i = {}
         else \<exists>n\<in>set out. n_ID n \<in> deps_of nodes i \<and> n_Level n = level - 1))"

lemma at_level_simps:
  assumes "i \<in> step_ids nodes"
  shows "n_ID (at_level nodes level i) = i" "n_Level (at_level nodes level i) = level"
    "set (n_DependsOn (at_level nodes level i)) = deps_of nodes i"
proof -
  obtain n where "byID nodes i = Some n" "n_ID n = i"
    using assms byID_None [of nodes i] byID_Some by fastforce
  then show "n_ID (at_level nodes level i) = i" "n_Level (at_level nodes level i) = level"
    "set (n_DependsOn (at_level nodes level i)) = deps_of nodes i"
    by (simp_all add: at_level_def deps_of_def)
qed

lemma deps_before_closed:
  "deps_before seen out \<Longrightarrow> n \<in> set out \<Longrightarrow> set (n_DependsOn n) \<subseteq> seen \<union> step_ids out"
  by (induction out arbitrary: seen) (fastforce simp: step_ids_def)+

definition new_at_level :: "topology_node list \<Rightarrow> int \<Rightarrow> topology_node \<Rightarrow> bool" where
  "new_at_level out level n \<longleftrightarrow> n_Level n = level \<and> set (n_DependsOn n) \<subseteq> step_ids out \<and>
     (if level = 0 then n_DependsOn n = []
      else \<exists>d\<in>set out. n_ID d \<in> set (n_DependsOn n) \<and> n_Level d = level - 1)"

lemma at_level_new:
  assumes "i \<in> step_ids nodes" "deps_of nodes i \<subseteq> step_ids out"
    "if level = 0 then deps_of nodes i = {}
     else \<exists>n\<in>set out. n_ID n \<in> deps_of nodes i \<and> n_Level n = level - 1"
  shows "new_at_level out level (at_level nodes level i)"
  using assms at_level_simps [OF assms(1), of level]
  by (cases "level = 0") (simp_all add: new_at_level_def flip: set_empty)

lemma levels_ok_append:
  assumes old: "levels_ok out" and closed: "\<forall>n\<in>set out. set (n_DependsOn n) \<subseteq> step_ids out"
    and fresh: "step_ids out \<inter> step_ids new = {}" and "0 \<le> level"
    and below: "\<forall>n\<in>set out. n_Level n < level"
    and new: "\<forall>n\<in>set new. new_at_level out level n"
  shows "levels_ok (out @ new)"
  unfolding levels_ok_def
proof (intro ballI conjI impI)
  note new = new [unfolded new_at_level_def]
  fix n assume n: "n \<in> set (out @ new)"
  have deps: "set (n_DependsOn n) \<subseteq> step_ids out" using n closed new by auto
  show "0 \<le> n_Level n" using n old new \<open>0 \<le> level\<close> by (auto simp: levels_ok_def)
  show "n_Level n = 0" if "n_DependsOn n = []"
    using n that old new by (auto simp: levels_ok_def split: if_splits)
  show "n_Level d < n_Level n" if d: "d \<in> set (out @ new)" "n_ID d \<in> set (n_DependsOn n)" for d
  proof -
    have "n_ID d \<in> step_ids out" using d(2) deps by blast
    then have "d \<in> set out" using d(1) fresh by (auto simp: step_ids_def)
    then show ?thesis using n d(2) old new below by (auto simp: levels_ok_def)
  qed
  show "\<exists>d\<in>set (out @ new). n_ID d \<in> set (n_DependsOn n) \<and> n_Level n = n_Level d + 1"
    if "n_DependsOn n \<noteq> []"
  proof (cases "n \<in> set out")
    case True
    with old that show ?thesis unfolding levels_ok_def by auto
  next
    case False
    with n new that obtain d where "d \<in> set out" "n_ID d \<in> set (n_DependsOn n)"
      "n_Level d = level - 1" "n_Level n = level" by (auto split: if_splits)
    then show ?thesis by (auto intro!: bexI [of _ d])
  qed
qed

lemma kahn_inv_step:
  assumes valid: "valid_nodes nodes" and inv: "kahn_inv nodes level ready m out"
    and pass: "level_pass (byID nodes) (dependants_of nodes) level ready m [] out = (m', nr, out')"
  shows "kahn_inv nodes (level + 1) (sortTopologyIDs (byID nodes) nr) m' out'"
proof -
  let ?P = "step_ids out" and ?R = "set ready" and ?new = "map (at_level nodes level) ready"
  have R: "?R = {i \<in> step_ids nodes. i \<notin> ?P \<and> deps_of nodes i \<subseteq> ?P}" and dist: "distinct ready"
    and before: "deps_before {} out" and P: "?P \<subseteq> step_ids nodes" and lev: "levels_ok out" "0 \<le> level"
    and nodes: "\<forall>n\<in>set out. n_Level n < level \<and> leveled nodes n"
    and ready: "\<forall>i\<in>?R. if level = 0 then deps_of nodes i = {}
         else \<exists>n\<in>set out. n_ID n \<in> deps_of nodes i \<and> n_Level n = level - 1"
    and opn: "open_deps nodes ?P m"
    using inv unfolding kahn_inv_def Let_def by blast+
  have "?R \<subseteq> step_ids nodes" "?R \<inter> ?P = {}" using R by auto
  then have ps: "open_deps nodes (?P \<union> ?R) m' \<and> distinct nr \<and>
      set nr = {i. deps_of nodes i \<subseteq> ?P \<union> ?R \<and> \<not> deps_of nodes i \<subseteq> ?P} \<and> out' = out @ ?new"
    using level_pass_spec [OF valid opn dist _ _ _ _ pass] by simp
  note al = at_level_simps [of _ nodes level]
  have ids: "map n_ID ?new = ready" using R al(1) by (auto intro!: map_idI)
  have new_ids: "step_ids ?new = ?R" unfolding step_ids_def using ids by (metis set_map)
  have out': "step_ids out' = ?P \<union> ?R" using ps new_ids by (simp add: step_ids_def image_Un)
  have closed: "\<forall>n\<in>set out. set (n_DependsOn n) \<subseteq> ?P" using deps_before_closed [OF before] by auto
  have closed_ids: "deps_of nodes i \<subseteq> ?P" if "i \<in> ?P" for i
  proof -
    from that obtain n where n: "n \<in> set out" "n_ID n = i" by (auto simp: step_ids_def)
    then have "n = at_level nodes (n_Level n) i" using nodes by (auto simp: leveled_def)
    then have "set (n_DependsOn n) = deps_of nodes i"
      using at_level_simps(3) P that by (metis subsetD)
    with closed n(1) show ?thesis by blast
  qed
  have nr: "set nr = {i \<in> step_ids nodes. i \<notin> ?P \<union> ?R \<and> deps_of nodes i \<subseteq> ?P \<union> ?R}"
    using ps R closed_ids deps_of_step by blast
  have "deps_before ?P ?new"
    using R al ids dist new_ids by (intro deps_before_flat) (auto simp: step_ids_def)
  then have before': "deps_before {} out'" using ps before by (simp add: deps_before_append step_ids_def)
  have new: "\<forall>n\<in>set ?new. new_at_level out level n"
    using R ready at_level_new by fastforce
  have levels': "levels_ok out'"
    using levels_ok_append [OF lev(1) closed _ lev(2) _ new] nodes new_ids R ps by auto
  have "n_Level n < level + 1 \<and> leveled nodes n" if "n \<in> set out'" for n
  proof (cases "n \<in> set out")
    case False
    with that ps obtain i where "n = at_level nodes level i" "i \<in> step_ids nodes" using R by auto
    with al show ?thesis by (simp add: leveled_def)
  qed (use nodes in force)
  moreover have "\<exists>n\<in>set out'. n_ID n \<in> deps_of nodes i \<and> n_Level n = level" if "i \<in> set nr" for i
  proof -
    from that ps R obtain r where r: "r \<in> deps_of nodes i" "r \<in> ?R" by blast
    then have "r \<in> step_ids nodes" using R by blast
    with r al show ?thesis using ps by (intro bexI [of _ "at_level nodes level r"]) auto
  qed
  ultimately show ?thesis
    using ps nr before' levels' out' P R lev(2)
    by (auto simp: kahn_inv_def Let_def sortTopologyIDs_def)
qed

lemma kahn_final:
  assumes "valid_nodes nodes"
  shows "kahn_inv nodes level ready m out \<Longrightarrow>
    \<exists>level' m'. kahn_inv nodes level' [] m' (kahn (byID nodes) (dependants_of nodes) level ready m out)"
proof (induction "byID nodes" "dependants_of nodes" level ready m out rule: kahn.induct)
  case (1 level ready m out)
  show ?case
  proof (cases "ready = []")
    case True
    with "1.prems" show ?thesis by (auto simp: kahn.simps)
  next
    case False
    obtain m' nr out' where pass:
      "level_pass (byID nodes) (dependants_of nodes) level ready m [] out = (m', nr, out')"
      by (metis prod_cases3)
    from "1.hyps" [OF False pass [symmetric] refl kahn_inv_step [OF assms "1.prems" pass]] False pass
    show ?thesis by (simp add: kahn.simps [of _ _ level])
  qed
qed

lemma order_levels_inv:
  assumes valid: "valid_nodes nodes"
  shows "\<exists>level m. kahn_inv nodes level [] m (order_levels nodes)"
proof -
  let ?m = "initial_degrees nodes"
  let ?ready = "map n_ID (filter (\<lambda>n. degree ?m (n_ID n) = 0) nodes)"
  have ids: "distinct (map n_ID nodes)" using valid by (simp add: valid_nodes_def)
  have deg: "degree ?m i = int (card (deps_of nodes i))" for i by (rule initial_degrees [OF valid])
  have "set ?ready = {i \<in> step_ids nodes. deps_of nodes i = {}}"
    by (auto simp: deg step_ids_def)
  moreover have "distinct ?ready" using ids by (simp add: distinct_map inj_on_def)
  ultimately have "kahn_inv nodes 0 (sortTopologyIDs (byID nodes) ?ready) ?m []"
    by (auto simp: kahn_inv_def Let_def sortTopologyIDs_def step_ids_def open_deps_def deg levels_ok_def)
  from kahn_final [OF valid this] show ?thesis by (simp add: order_levels_def Let_def)
qed

definition dep_edges :: "topology_node list \<Rightarrow> (string \<times> string) set" where
  "dep_edges nodes = {(d, i). d \<in> deps_of nodes i}"

lemma finite_dep_edges: "valid_nodes nodes \<Longrightarrow> finite (dep_edges nodes)"
proof -
  assume valid: "valid_nodes nodes"
  have "dep_edges nodes \<subseteq> step_ids nodes \<times> step_ids nodes"
    using deps_of_subset [OF valid] deps_of_step by (fastforce simp: dep_edges_def)
  then show ?thesis by (rule finite_subset) (simp add: step_ids_def)
qed

lemma deps_before_distinct: "deps_before seen out \<Longrightarrow> distinct (map n_ID out) \<and> step_ids out \<inter> seen = {}"
  by (induction out arbitrary: seen) (fastforce simp: step_ids_def)+

text \<open>
  What is left when the loop ends: nothing, or a set of steps each of which depends on another
  step of the set, so the steps cannot be ordered.
\<close>

lemma acyclic_no_core:
  assumes "finite r" "acyclic r" "\<And>i. i \<in> C \<Longrightarrow> \<exists>d\<in>C. (d, i) \<in> r"
  shows "C = {}"
proof (rule ccontr)
  assume "C \<noteq> {}"
  have "wf r" using assms(1,2) by (rule finite_acyclic_wf)
  with \<open>C \<noteq> {}\<close> obtain i where "i \<in> C" "\<And>d. (d, i) \<in> r \<Longrightarrow> d \<notin> C" by (metis ex_in_conv wfE_min)
  with assms(3) show False by blast
qed

lemma leveled_deps: "leveled nodes n \<Longrightarrow> n_ID n \<in> step_ids nodes \<Longrightarrow> set (n_DependsOn n) = deps_of nodes (n_ID n)"
  unfolding leveled_def using at_level_simps(3) by metis

lemma order_levels_spec:
  assumes valid: "valid_nodes nodes"
  defines "out \<equiv> order_levels nodes"
  shows "deps_before {} out" "levels_ok out" "\<forall>n\<in>set out. leveled nodes n"
    "step_ids out \<subseteq> step_ids nodes"
    "length out = length nodes \<longleftrightarrow> step_ids out = step_ids nodes"
    "length out = length nodes \<longleftrightarrow> acyclic (dep_edges nodes)"
proof -
  from order_levels_inv [OF valid] obtain level m where inv: "kahn_inv nodes level [] m out"
    unfolding out_def by blast
  then show before: "deps_before {} out" and lev: "levels_ok out"
    and nodes: "\<forall>n\<in>set out. leveled nodes n" and sub: "step_ids out \<subseteq> step_ids nodes"
    unfolding kahn_inv_def Let_def by blast+
  have stuck: "\<not> deps_of nodes i \<subseteq> step_ids out" if "i \<in> step_ids nodes - step_ids out" for i
    using that inv unfolding kahn_inv_def Let_def by auto
  have dist: "distinct (map n_ID out)" "distinct (map n_ID nodes)"
    using deps_before_distinct [OF before] valid by (simp_all add: valid_nodes_def)
  have card: "card (step_ids out) = length out" "card (step_ids nodes) = length nodes"
    using dist distinct_card [of "map n_ID out"] distinct_card [of "map n_ID nodes"]
    by (simp_all add: step_ids_def)
  show len: "length out = length nodes \<longleftrightarrow> step_ids out = step_ids nodes"
    using card sub by (metis card_subset_eq finite_imageI finite_set step_ids_def)
  show "length out = length nodes \<longleftrightarrow> acyclic (dep_edges nodes)"
  proof
    assume "length out = length nodes"
    then have all: "step_ids out = step_ids nodes" using len by simp
    let ?lev = "\<lambda>i. nat (n_Level (the (byID out i)))"
    have "dep_edges nodes \<subseteq> measure ?lev"
    proof
      fix e assume "e \<in> dep_edges nodes"
      then obtain d i where e: "e = (d, i)" "d \<in> deps_of nodes i" by (auto simp: dep_edges_def)
      then have "d \<in> step_ids out" "i \<in> step_ids out"
        using all deps_of_subset [OF valid] deps_of_step by blast+
      then obtain x y where "x \<in> set out" "n_ID x = d" "y \<in> set out" "n_ID y = i"
        by (auto simp: step_ids_def)
      moreover have "set (n_DependsOn y) = deps_of nodes i"
        using calculation nodes all \<open>i \<in> step_ids out\<close> leveled_deps by metis
      ultimately have "n_Level x < n_Level y" "0 \<le> n_Level x" "byID out d = Some x" "byID out i = Some y"
        using lev e(2) byID_node [OF dist(1)] by (auto simp: levels_ok_def)
      then show "e \<in> measure ?lev" by (simp add: e(1))
    qed
    then show "acyclic (dep_edges nodes)" by (meson acyclic_subset wf_acyclic wf_measure)
  next
    assume "acyclic (dep_edges nodes)"
    moreover have "\<exists>d\<in>step_ids nodes - step_ids out. (d, i) \<in> dep_edges nodes"
      if "i \<in> step_ids nodes - step_ids out" for i
      using stuck [OF that] deps_of_subset [OF valid] by (auto simp: dep_edges_def)
    ultimately have "step_ids nodes - step_ids out = {}"
      by (intro acyclic_no_core [OF finite_dep_edges [OF valid]])
    with sub show "length out = length nodes" using len by blast
  qed
qed

subsection \<open>The checks before the loop\<close>

lemma set_normalize_loop:
  "set (normalize_loop seen ds) = (TrimSpace ` set ds - {[]}) - set seen"
  by (induction ds arbitrary: seen) (auto simp: Let_def)

lemma distinct_normalize_loop: "distinct (normalize_loop seen ds)"
  by (induction ds arbitrary: seen) (auto simp: Let_def set_normalize_loop)

lemma set_normalizeDependencies: "set (normalizeDependencies ds) = TrimSpace ` set ds - {[]}"
  by (auto simp: normalizeDependencies_def set_normalize_loop)

lemma distinct_normalizeDependencies [simp]: "distinct (normalizeDependencies ds)"
  by (simp add: normalizeDependencies_def distinct_normalize_loop)

lemma normalize_loop_id:
  "distinct ds \<Longrightarrow> \<forall>d\<in>set ds. TrimSpace d = d \<and> d \<noteq> [] \<Longrightarrow> set seen \<inter> set ds = {} \<Longrightarrow>
   normalize_loop seen ds = ds"
  by (induction ds arbitrary: seen) (auto simp: Let_def)

lemma normalizeDependencies_idem [simp]:
  "normalizeDependencies (normalizeDependencies ds) = normalizeDependencies ds"
proof -
  have "normalize_loop [] (normalizeDependencies ds) = normalizeDependencies ds"
    by (rule normalize_loop_id) (auto simp: set_normalizeDependencies)
  then show ?thesis by (subst normalizeDependencies_def) simp
qed

lemma normalize_topology_loop_spec:
  "distinct result \<Longrightarrow> distinct (normalize_topology_loop result ds) \<and>
   set (normalize_topology_loop result ds) = set result \<union> set ds"
  by (induction ds arbitrary: result) auto

lemma duplicate_step_None:
  "duplicate_step seen ns = None \<longleftrightarrow> distinct (map n_ID ns) \<and> set seen \<inter> n_ID ` set ns = {}"
  by (induction ns arbitrary: seen) auto

lemma missing_dependency_None:
  "missing_dependency ix ns = None \<longleftrightarrow> (\<forall>n\<in>set ns. \<forall>d\<in>set (n_DependsOn n). ix d \<noteq> None)"
  by (induction ns) (auto simp: find_None_iff find_Some_iff split: option.split)

lemma checks_valid:
  assumes "duplicate_step [] nodes = None" "missing_dependency (byID nodes) nodes = None"
    "\<forall>n\<in>set nodes. distinct (n_DependsOn n)"
  shows "valid_nodes nodes"
  using assms byID_None [of nodes] unfolding valid_nodes_def duplicate_step_None missing_dependency_None
  by blast

lemma reset_targets_error: "reset_targets ix i ts \<noteq> Some LinearCycle"
  by (induction ts) (auto split: option.split)

lemma reset_check_error: "reset_check ix ns \<noteq> Some LinearCycle"
  using reset_targets_error by (induction ns) (auto split: option.split)

lemma order_levels_Nil [simp]: "order_levels [] = []" "valid_nodes []"
  by (simp_all add: order_levels_def Let_def sortTopologyIDs_def sort_slice_def kahn.simps valid_nodes_def)

lemma normalize_node_simps [simp]:
  "n_ID (normalize_node n) = n_ID n" "distinct (n_DependsOn (normalize_node n))"
  "n_ID (normalize_exec_node n) = n_ID n" "distinct (n_DependsOn (normalize_exec_node n))"
  by (simp_all add: normalize_node_def normalize_exec_node_def normalizeTopologyDependencies_def
      normalize_topology_loop_spec)

subsection \<open>The contract both packages rely on\<close>

text \<open>
  A resolver of topologies normalises the nodes one by one and, on success, returns them in
  levels. Clients (the task queue is fed in this order) use only the lemmas of this locale.
\<close>

locale topology_resolver =
  fixes resolve :: "topology_node list \<Rightarrow> 'e + topology_node list"
    and norm :: "topology_node \<Rightarrow> topology_node"
    and is_cycle :: "'e \<Rightarrow> bool"
  assumes norm_id: "n_ID (norm n) = n_ID n"
    and success: "resolve ns = Inr out \<Longrightarrow>
      valid_nodes (map norm ns) \<and> out = order_levels (map norm ns) \<and> length out = length ns"
    and cycle: "resolve ns = Inl e \<Longrightarrow> is_cycle e \<Longrightarrow>
      valid_nodes (map norm ns) \<and> length (order_levels (map norm ns)) \<noteq> length ns"
begin

lemma ordered: "resolve ns = Inr out \<Longrightarrow> deps_before {} out"
  using order_levels_spec(1) success by blast

lemma levels: "resolve ns = Inr out \<Longrightarrow> levels_ok out"
  using order_levels_spec(2) success by blast

lemma ids: "resolve ns = Inr out \<Longrightarrow> mset (map n_ID out) = mset (map n_ID ns)"
proof -
  assume out: "resolve ns = Inr out"
  note s = success [OF this]
  have "step_ids out = step_ids (map norm ns)"
    using order_levels_spec(5) [of "map norm ns"] s by auto
  then have "set (map n_ID out) = set (map n_ID ns)"
    by (simp add: step_ids_def image_image norm_id)
  moreover have "distinct (map n_ID out)" using deps_before_distinct ordered [OF out] by blast
  moreover have "distinct (map n_ID ns)"
    using s by (simp add: valid_nodes_def comp_def norm_id)
  ultimately show ?thesis by (metis set_eq_iff_mset_eq_distinct)
qed

lemma nodes:
  assumes out: "resolve ns = Inr out" and n: "n \<in> set out"
  shows "\<exists>src\<in>set ns. n = (norm src)\<lparr>n_Level := n_Level n\<rparr>"
proof -
  note s = success [OF out]
  have "leveled (map norm ns) n" "n_ID n \<in> step_ids (map norm ns)"
    using order_levels_spec(3,4) [of "map norm ns"] s n by (auto simp: step_ids_def)
  then obtain m where "byID (map norm ns) (n_ID n) = Some m" "n = m\<lparr>n_Level := n_Level n\<rparr>"
    using byID_None [of "map norm ns" "n_ID n"] by (auto simp: leveled_def at_level_def)
  then show ?thesis using byID_Some [of "map norm ns"] by fastforce
qed

lemma acyclic_iff:
  "resolve ns = Inr out \<Longrightarrow> acyclic (dep_edges (map norm ns))"
  "resolve ns = Inl e \<Longrightarrow> is_cycle e \<Longrightarrow> \<not> acyclic (dep_edges (map norm ns))"
  using order_levels_spec(6) success cycle by (metis length_map)+

end

interpretation suites_order: topology_resolver resolveTopology normalize_node "\<lambda>e. e = LinearCycle"
  using reset_check_error
  by unfold_locales
     (auto simp: resolveTopology_def Let_def checks_valid split: if_splits option.splits)

interpretation exec_order: topology_resolver exec_resolveTopology normalize_exec_node
  "\<lambda>e. \<exists>c. e = TopologyCycle c"
  by unfold_locales
     (auto simp: exec_resolveTopology_def Let_def checks_valid split: if_splits option.splits)

subsection \<open>The cycle search finds a cycle\<close>

text \<open>
  The usual colours: a step on the path is grey, a visited step off the path is black. Black
  steps depend only on black steps, and the dependencies among them have no cycle.
\<close>

definition black :: "search \<Rightarrow> string set" where
  "black st = set (s_visited st) - set (s_path st)"

fun linked :: "topology_node list \<Rightarrow> string list \<Rightarrow> bool" where
  "linked nodes (i # j # path) \<longleftrightarrow> j \<in> deps_of nodes i \<and> linked nodes (j # path)"
| "linked nodes path \<longleftrightarrow> True"

definition real_cycle :: "topology_node list \<Rightarrow> string list \<Rightarrow> bool" where
  "real_cycle nodes c \<longleftrightarrow> 2 \<le> length c \<and> hd c = last c \<and> linked nodes c"

definition search_inv :: "topology_node list \<Rightarrow> search \<Rightarrow> bool" where
  "search_inv nodes st \<longleftrightarrow>
     set (s_visiting st) = set (s_path st) \<and> set (s_path st) \<subseteq> set (s_visited st) \<and>
     distinct (s_path st) \<and> set (s_visited st) \<subseteq> step_ids nodes \<and> linked nodes (s_path st) \<and>
     (\<forall>i\<in>black st. deps_of nodes i \<subseteq> black st) \<and>
     acyclic {(d, i). d \<in> deps_of nodes i \<and> i \<in> black st}"

definition unvisited :: "topology_node list \<Rightarrow> search \<Rightarrow> nat" where
  "unvisited nodes st = card (step_ids nodes - set (s_visited st))"

text \<open>The outcome of a search from \<open>st\<close>: a cycle, or the same path with more steps visited.\<close>

definition search_ok :: "topology_node list \<Rightarrow> search \<Rightarrow> string set \<Rightarrow> visit_result \<times> search \<Rightarrow> bool" where
  "search_ok nodes st seen r =
     (case r of
        (OutOfFuel, _) \<Rightarrow> False
      | (Cycle c, _) \<Rightarrow> real_cycle nodes c
      | (NoCycle, st') \<Rightarrow>
          search_inv nodes st' \<and> s_path st' = s_path st \<and>
          set (s_visited st) \<subseteq> set (s_visited st') \<and> seen \<subseteq> black st')"

lemma linked_append:
  "linked nodes (xs @ ys) \<longleftrightarrow>
     linked nodes xs \<and> linked nodes ys \<and> (xs = [] \<or> ys = [] \<or> hd ys \<in> deps_of nodes (last xs))"
proof (induction xs)
  case (Cons x xs)
  then show ?case by (cases xs; cases ys) auto
qed simp

lemma linked_snoc: "linked nodes (xs @ [y]) \<longleftrightarrow> linked nodes xs \<and> (xs = [] \<or> y \<in> deps_of nodes (last xs))"
  by (simp add: linked_append)

lemma dropWhile_hd: "d \<in> set xs \<Longrightarrow> \<exists>ys zs. xs = ys @ d # zs \<and> dropWhile (\<lambda>x. x \<noteq> d) xs = d # zs"
proof -
  assume "d \<in> set xs"
  then obtain ys zs where "xs = ys @ d # zs" "d \<notin> set ys" by (meson split_list_first)
  moreover have "dropWhile (\<lambda>x. x \<noteq> d) (ys @ d # zs) = d # zs"
    using \<open>d \<notin> set ys\<close> by (induction ys) auto
  ultimately show ?thesis by blast
qed

lemma real_cycle_path:
  assumes "linked nodes path" "d \<in> set path" "d \<in> deps_of nodes (last path)"
  shows "real_cycle nodes (cycle_path path d)"
proof -
  obtain ys zs where split: "path = ys @ d # zs" "dropWhile (\<lambda>x. x \<noteq> d) path = d # zs"
    using dropWhile_hd [OF assms(2)] by blast
  then have "linked nodes (d # zs)" using assms(1) by (simp add: linked_append)
  moreover have "last (d # zs) = last path" using split(1) by simp
  ultimately have "linked nodes ((d # zs) @ [d])"
    unfolding linked_snoc using assms(3) by simp
  then show ?thesis using assms(2) split(2) by (simp add: real_cycle_def cycle_path_def)
qed

lemma acyclic_add_source:
  assumes acyc: "acyclic {(d, i). d \<in> D i \<and> i \<in> B}" and closed: "\<forall>i\<in>B. D i \<subseteq> B"
    and x: "x \<notin> B" "D x \<subseteq> B"
  shows "acyclic {(d, i). d \<in> D i \<and> i \<in> insert x B}"
proof -
  let ?r = "{(d, i). d \<in> D i \<and> i \<in> B}" and ?s = "{(d, i). d \<in> D i \<and> i \<in> insert x B}"
  have into: "b \<in> B \<and> (a, b) \<in> ?r\<^sup>+ \<or> b = x \<and> a \<in> B" if "(a, b) \<in> ?s\<^sup>+" for a b
    using that
  proof (induction rule: trancl_induct)
    case (base y)
    then show ?case using x by auto
  next
    case (step y z)
    have "y \<in> B" using step.hyps(2) closed x by auto
    with step.IH x(1) have y: "(a, y) \<in> ?r\<^sup>+" by auto
    show ?case
    proof (cases "z = x")
      case True
      have "a \<in> B" using y closed by (auto elim: tranclE dest!: tranclD)
      with True show ?thesis by simp
    next
      case False
      then have "(y, z) \<in> ?r" "z \<in> B" using step.hyps(2) by auto
      with y show ?thesis by (meson trancl.trancl_into_trancl)
    qed
  qed
  show ?thesis
    unfolding acyclic_def
  proof (intro allI notI)
    fix a assume "(a, a) \<in> ?s\<^sup>+"
    from into [OF this] acyc x show False by (auto simp: acyclic_def)
  qed
qed

lemma search_enter:
  assumes inv: "search_inv nodes st" and i: "i \<in> step_ids nodes" "i \<notin> set (s_visited st)"
    and path: "s_path st = [] \<or> i \<in> deps_of nodes (last (s_path st))"
  defines "st1 \<equiv> st\<lparr>s_visited := i # s_visited st, s_visiting := i # s_visiting st, s_path := s_path st @ [i]\<rparr>"
  shows "search_inv nodes st1" "unvisited nodes st = Suc (unvisited nodes st1)"
proof -
  have "i \<notin> set (s_path st)" using inv i(2) by (auto simp: search_inv_def)
  then have "black st1 = black st" using i(2) by (auto simp: black_def st1_def)
  with inv i path \<open>i \<notin> set (s_path st)\<close> show "search_inv nodes st1"
    by (auto simp: search_inv_def st1_def linked_snoc)
  have "step_ids nodes - set (s_visited st) = insert i (step_ids nodes - set (s_visited st1))"
    using i by (auto simp: st1_def)
  moreover have "i \<notin> step_ids nodes - set (s_visited st1)" by (simp add: st1_def)
  ultimately show "unvisited nodes st = Suc (unvisited nodes st1)"
    by (simp add: unvisited_def step_ids_def)
qed

lemma search_leave:
  assumes inv: "search_inv nodes st" and path: "s_path st = p @ [i]" and deps: "deps_of nodes i \<subseteq> black st"
  defines "st1 \<equiv> st\<lparr>s_visiting := filter (\<lambda>x. x \<noteq> i) (s_visiting st), s_path := butlast (s_path st)\<rparr>"
  shows "search_inv nodes st1" "black st1 = insert i (black st)"
proof -
  have i: "i \<notin> set p" "i \<in> set (s_visited st)" "i \<notin> black st"
    using inv path by (auto simp: search_inv_def black_def)
  then show b: "black st1 = insert i (black st)" using path by (auto simp: black_def st1_def)
  have closed: "\<forall>j\<in>black st. deps_of nodes j \<subseteq> black st"
    and acyc: "acyclic {(d, j). d \<in> deps_of nodes j \<and> j \<in> black st}"
    using inv unfolding search_inv_def by blast+
  have "acyclic {(d, j). d \<in> deps_of nodes j \<and> j \<in> insert i (black st)}"
    by (rule acyclic_add_source [OF acyc closed i(3) deps])
  moreover have "\<forall>j\<in>insert i (black st). deps_of nodes j \<subseteq> insert i (black st)"
    using closed deps by blast
  ultimately show "search_inv nodes st1"
    using inv path i(1) unfolding search_inv_def b by (auto simp: st1_def linked_snoc)
qed

lemma deps_of_list: "set (case byID nodes i of None \<Rightarrow> [] | Some node \<Rightarrow> n_DependsOn node) = deps_of nodes i"
  by (simp add: deps_of_def split: option.split)

lemma visit_correct:
  assumes valid: "valid_nodes nodes"
  shows "search_inv nodes st \<Longrightarrow> i \<in> step_ids nodes \<Longrightarrow> i \<notin> set (s_visited st) \<Longrightarrow>
      s_path st = [] \<or> i \<in> deps_of nodes (last (s_path st)) \<Longrightarrow> unvisited nodes st \<le> k \<Longrightarrow>
      search_ok nodes st {i} (visit k (byID nodes) i st)"
    and "search_inv nodes st \<Longrightarrow> s_path st \<noteq> [] \<Longrightarrow> set ds \<subseteq> deps_of nodes (last (s_path st)) \<Longrightarrow>
      unvisited nodes st \<le> k \<Longrightarrow> search_ok nodes st (set ds) (visit_deps k (byID nodes) ds st)"
proof (induction k "byID nodes" i st and k "byID nodes" ds st rule: visit_visit_deps.induct)
  case (1 i st)
  then show ?case using search_enter(2) [OF "1.prems"(1-4)] by simp
next
  case (2 k i st)
  let ?st1 = "st\<lparr>s_visited := i # s_visited st, s_visiting := i # s_visiting st, s_path := s_path st @ [i]\<rparr>"
  let ?ds = "case byID nodes i of None \<Rightarrow> [] | Some node \<Rightarrow> n_DependsOn node"
  note enter = search_enter [OF "2.prems"(1-4)]
  have ok: "search_ok nodes ?st1 (deps_of nodes i) (visit_deps k (byID nodes) ?ds ?st1)"
    using "2.hyps" [OF refl enter(1)] enter(2) "2.prems"(5) by (simp add: deps_of_list)
  obtain r st2 where run: "visit_deps k (byID nodes) ?ds ?st1 = (r, st2)" by fastforce
  show ?case
  proof (cases r)
    case NoCycle
    with ok run have st2: "search_inv nodes st2" "s_path st2 = s_path st @ [i]"
      "insert i (set (s_visited st)) \<subseteq> set (s_visited st2)" "deps_of nodes i \<subseteq> black st2"
      by (simp_all add: search_ok_def)
    from search_leave [OF st2(1,2,4)] st2 NoCycle run show ?thesis
      by (simp add: search_ok_def Let_def)
  qed (use ok run in \<open>simp_all add: search_ok_def Let_def\<close>)
next
  case (3 k st)
  then show ?case by (simp add: search_ok_def)
next
  case (4 k d ds st)
  have d: "d \<in> deps_of nodes (last (s_path st))" "d \<in> step_ids nodes"
    using "4.prems"(3) deps_of_subset [OF valid] by auto
  have ds: "set ds \<subseteq> deps_of nodes (last (s_path st))" using "4.prems"(3) by simp
  show ?case
  proof (cases "d \<in> set (s_visited st)")
    case False
    have ok: "search_ok nodes st {d} (visit k (byID nodes) d st)"
      using "4.hyps"(1) [OF False] "4.prems" d False by blast
    obtain r st' where run: "visit k (byID nodes) d st = (r, st')" by fastforce
    show ?thesis
    proof (cases r)
      case NoCycle
      with ok run have st': "search_inv nodes st'" "s_path st' = s_path st"
        "set (s_visited st) \<subseteq> set (s_visited st')" "d \<in> black st'"
        by (simp_all add: search_ok_def)
      have "unvisited nodes st' \<le> unvisited nodes st"
        unfolding unvisited_def by (rule card_mono) (use st'(3) in \<open>auto simp: step_ids_def\<close>)
      then have "search_ok nodes st' (set ds) (visit_deps k (byID nodes) ds st')"
        using "4.hyps"(2) [OF False run [symmetric] NoCycle] st' "4.prems"(2,4) ds by auto
      moreover have "d \<in> black st''" if "s_path st'' = s_path st'" "set (s_visited st') \<subseteq> set (s_visited st'')" for st''
        using that st'(4) by (auto simp: black_def)
      ultimately show ?thesis
        using False run NoCycle st'(2,3) by (auto simp: search_ok_def split: visit_result.splits)
    qed (use ok run False in \<open>simp_all add: search_ok_def\<close>)
  next
    case True
    show ?thesis
    proof (cases "d \<in> set (s_visiting st)")
      case False
      with True "4.prems"(1) have "d \<in> black st" by (auto simp: black_def search_inv_def)
      moreover have "search_ok nodes st (set ds) (visit_deps k (byID nodes) ds st)"
        using "4.hyps"(3) True False "4.prems"(1,2,4) ds by auto
      ultimately show ?thesis
        using True False by (auto simp: search_ok_def black_def split: visit_result.splits)
    next
      case grey: True
      then have "real_cycle nodes (cycle_path (s_path st) d)"
        using "4.prems"(1) d(1) by (intro real_cycle_path) (auto simp: search_inv_def)
      with True grey show ?thesis by (simp add: search_ok_def)
    qed
  qed
qed

lemma visit_all_correct:
  assumes valid: "valid_nodes nodes"
  shows "search_inv nodes st \<Longrightarrow> s_path st = [] \<Longrightarrow> set ns \<subseteq> set nodes \<Longrightarrow> unvisited nodes st \<le> k \<Longrightarrow>
    (case visit_all k (byID nodes) ns st of
       OutOfFuel \<Rightarrow> False
     | Cycle c \<Rightarrow> real_cycle nodes c
     | NoCycle \<Rightarrow> \<exists>st'. search_inv nodes st' \<and> s_path st' = [] \<and> set (s_visited st) \<union> step_ids ns \<subseteq> set (s_visited st'))"
proof (induction ns arbitrary: st)
  case Nil
  then show ?case by (auto simp: step_ids_def)
next
  case (Cons n ns)
  show ?case
  proof (cases "n_ID n \<in> set (s_visited st)")
    case True
    with Cons.IH [OF Cons.prems(1,2)] Cons.prems(3,4) show ?thesis
      by (auto simp: step_ids_def split: visit_result.splits)
  next
    case False
    have "n_ID n \<in> step_ids nodes" using Cons.prems(3) by (auto simp: step_ids_def)
    with False Cons.prems have ok: "search_ok nodes st {n_ID n} (visit k (byID nodes) (n_ID n) st)"
      by (intro visit_correct(1) [OF valid]) auto
    obtain r st' where run: "visit k (byID nodes) (n_ID n) st = (r, st')" by fastforce
    show ?thesis
    proof (cases r)
      case NoCycle
      with ok run have st': "search_inv nodes st'" "s_path st' = []"
        "set (s_visited st) \<subseteq> set (s_visited st')" "n_ID n \<in> set (s_visited st')"
        using Cons.prems(2) by (auto simp: search_ok_def black_def)
      have "unvisited nodes st' \<le> unvisited nodes st"
        unfolding unvisited_def by (rule card_mono) (use st'(3) in \<open>auto simp: step_ids_def\<close>)
      with Cons.IH [OF st'(1,2)] Cons.prems(3,4) st'(3,4) run NoCycle False show ?thesis
        by (auto simp: step_ids_def split: visit_result.splits)
    qed (use ok run False in \<open>simp_all add: search_ok_def\<close>)
  qed
qed

lemma findTopologyCycle_correct:
  assumes valid: "valid_nodes nodes"
  shows "case findTopologyCycle nodes of
      OutOfFuel \<Rightarrow> False | Cycle c \<Rightarrow> real_cycle nodes c | NoCycle \<Rightarrow> acyclic (dep_edges nodes)"
proof -
  let ?st = "\<lparr>s_visiting = [], s_visited = [], s_path = []\<rparr>"
  have "search_inv nodes ?st" by (simp add: search_inv_def black_def acyclic_def)
  moreover have "unvisited nodes ?st \<le> Suc (length nodes)"
    using card_image_le [of "set nodes" n_ID] card_length [of nodes]
    by (simp add: unvisited_def step_ids_def)
  ultimately have run: "case findTopologyCycle nodes of
       OutOfFuel \<Rightarrow> False
     | Cycle c \<Rightarrow> real_cycle nodes c
     | NoCycle \<Rightarrow> \<exists>st'. search_inv nodes st' \<and> s_path st' = [] \<and> set (s_visited ?st) \<union> step_ids nodes \<subseteq> set (s_visited st')"
    unfolding findTopologyCycle_def by (intro visit_all_correct [OF valid]) simp_all
  have "acyclic (dep_edges nodes)"
    if "search_inv nodes st" "s_path st = []" "step_ids nodes \<subseteq> set (s_visited st)" for st
  proof -
    have "dep_edges nodes \<subseteq> {(d, i). d \<in> deps_of nodes i \<and> i \<in> black st}"
      using that(2,3) deps_of_step by (auto simp: dep_edges_def black_def)
    with that(1) show ?thesis unfolding search_inv_def by (meson acyclic_subset)
  qed
  with run show ?thesis by (auto split: visit_result.splits)
qed

lemma real_cycle_not_acyclic: "real_cycle nodes c \<Longrightarrow> \<not> acyclic (dep_edges nodes)"
proof -
  assume c: "real_cycle nodes c"
  have path: "linked nodes (i # p) \<Longrightarrow> p \<noteq> [] \<Longrightarrow> (last p, i) \<in> (dep_edges nodes)\<^sup>+" for i p
  proof (induction p arbitrary: i)
    case (Cons j p)
    then have e: "(j, i) \<in> dep_edges nodes" by (simp add: dep_edges_def)
    show ?case
    proof (cases "p = []")
      case False
      with Cons have "(last p, j) \<in> (dep_edges nodes)\<^sup>+" by simp
      with e False show ?thesis by (auto intro: trancl.trancl_into_trancl)
    qed (use e in auto)
  qed simp
  obtain i p where "c = i # p" "p \<noteq> []" "last p = i"
    using c by (cases c; cases "tl c") (auto simp: real_cycle_def)
  with path [of i p] c show ?thesis by (auto simp: real_cycle_def acyclic_def)
qed

subsection \<open>Properties\<close>

definition plain_step :: "string \<Rightarrow> string list \<Rightarrow> topology_node" where
  "plain_step i ds = zero_node\<lparr>n_ID := i, n_Name := i, n_Kind := ''task'', n_DependsOn := ds\<rparr>"

definition diamond :: "topology_node list" where
  "diamond = [plain_step ''d'' [''b'', '' c ''], plain_step ''b'' [''a''], plain_step ''c'' [''a'', ''a''], plain_step ''a'' []]"

definition loop_nodes :: "topology_node list" where
  "loop_nodes = [plain_step ''a'' [''b''], plain_step ''b'' [''c''], plain_step ''c'' [''b'']]"

lemma TrimSpace_examples:
  "TrimSpace ''a'' = ''a''" "TrimSpace ''b'' = ''b''" "TrimSpace ''c'' = ''c''" "TrimSpace '' c '' = ''c''"
  by code_simp+

lemma diamond_resolves: "\<exists>out. resolveTopology diamond = Inr out"
proof -
  have "(case resolveTopology diamond of Inl _ \<Rightarrow> False | Inr _ \<Rightarrow> True)" by code_simp
  then show ?thesis by (auto split: sum.splits)
qed

text \<open>C9. A resolved topology contains exactly the given steps, each one unchanged except for its
  normalised references and its level, in an order where every step follows all its
  dependencies; the level of a step is 0 without dependencies and otherwise one more than the
  greatest level of its dependencies.\<close>

theorem resolveTopology_orders:
  assumes "resolveTopology ns = Inr out"
  shows "deps_before {} out \<and> levels_ok out \<and> mset (map n_ID out) = mset (map n_ID ns) \<and>
    (\<forall>n\<in>set out. \<exists>src\<in>set ns. n = (normalize_node src)\<lparr>n_Level := n_Level n\<rparr>)"
  using suites_order.ordered [OF assms] suites_order.levels [OF assms] suites_order.ids [OF assms]
    suites_order.nodes [OF assms] by blast

theorem resolveTopology_orders_witness:
  "\<exists>out. resolveTopology diamond = Inr out \<and> deps_before {} out \<and> levels_ok out"
  using diamond_resolves resolveTopology_orders by blast

text \<open>The verdict on cycles is exact: a topology that resolves has no dependency cycle, and one
  that is refused with the cycle error has one.\<close>

theorem resolveTopology_cycle_exact:
  "(\<forall>out. resolveTopology ns = Inr out \<longrightarrow> acyclic (dep_edges (map normalize_node ns))) \<and>
   (resolveTopology ns = Inl LinearCycle \<longrightarrow> \<not> acyclic (dep_edges (map normalize_node ns)))"
  using suites_order.acyclic_iff by blast

theorem resolveTopology_cycle_exact_witness:
  "acyclic (dep_edges (map normalize_node diamond)) \<and> \<not> acyclic (dep_edges (map normalize_node loop_nodes))"
proof -
  have "(case resolveTopology loop_nodes of Inl LinearCycle \<Rightarrow> True | _ \<Rightarrow> False)" by code_simp
  then have "resolveTopology loop_nodes = Inl LinearCycle" by (auto split: sum.splits topology_error.splits)
  with diamond_resolves resolveTopology_cycle_exact show ?thesis by blast
qed

lemma duplicate_step_Some:
  "duplicate_step seen ns = Some i \<Longrightarrow> i \<in> n_ID ` set ns \<and> (i \<in> set seen \<or> \<not> distinct (map n_ID ns))"
proof (induction ns arbitrary: seen)
  case (Cons n ns)
  then show ?case using Cons.IH [of "n_ID n # seen"] by (auto split: if_splits)
qed simp

lemma missing_dependency_Some:
  "missing_dependency ix ns = Some (i, d) \<Longrightarrow> \<exists>n\<in>set ns. n_ID n = i \<and> d \<in> set (n_DependsOn n) \<and> ix d = None"
  by (induction ns) (auto simp: find_Some_iff split: option.splits)

lemma reset_targets_Some:
  "reset_targets ix i ts = Some e \<Longrightarrow>
   \<exists>t\<in>set ts. (ix t = None \<and> e = ResetsMissingMock i t) \<or>
      (\<exists>n. ix t = Some n \<and> n_Kind n \<noteq> ''mock'' \<and> e = ResetTargetNotMock i t)"
  by (induction ts) (auto split: option.splits if_splits)

lemma reset_check_Some:
  "reset_check ix ns = Some e \<Longrightarrow>
   \<exists>n\<in>set ns. n_ResetMocks n \<noteq> [] \<and>
     (n_Kind n \<noteq> ''test'' \<and> e = ResetMocksOnlyOnTests \<or>
      (\<exists>t\<in>set (n_ResetMocks n). (ix t = None \<and> e = ResetsMissingMock (n_ID n) t) \<or>
        (\<exists>m. ix t = Some m \<and> n_Kind m \<noteq> ''mock'' \<and> e = ResetTargetNotMock (n_ID n) t)))"
proof (induction ns)
  case (Cons n ns)
  then show ?case
    using reset_targets_Some [of ix "n_ID n" "n_ResetMocks n" e]
    by (auto split: option.splits if_splits)
qed simp



text \<open>When the execution package refuses a topology for a cycle, the path it reports is a real
  cycle: it starts and ends at the same step and each step on it depends on the next one.\<close>

theorem reported_cycle_is_real:
  assumes "exec_resolveTopology ns = Inl (TopologyCycle r)"
  shows "\<exists>c. r = Cycle c \<and> real_cycle (map normalize_exec_node ns) c"
proof -
  have valid: "valid_nodes (map normalize_exec_node ns)"
    and cyc: "\<not> acyclic (dep_edges (map normalize_exec_node ns))"
    using exec_order.cycle [OF assms] exec_order.acyclic_iff(2) [OF assms] by auto
  have "r = findTopologyCycle (map normalize_exec_node ns)"
    using assms by (auto simp: exec_resolveTopology_def Let_def split: if_splits option.splits)
  with findTopologyCycle_correct [OF valid] cyc show ?thesis by (auto split: visit_result.splits)
qed

theorem reported_cycle_is_real_witness:
  "\<exists>c. findTopologyCycle (map normalize_exec_node loop_nodes) = Cycle c \<and>
     real_cycle (map normalize_exec_node loop_nodes) c"
proof -
  have "(case exec_resolveTopology loop_nodes of Inl (TopologyCycle _) \<Rightarrow> True | _ \<Rightarrow> False)" by code_simp
  then obtain r where r: "exec_resolveTopology loop_nodes = Inl (TopologyCycle r)"
    by (auto split: sum.splits exec_topology_error.splits)
  then have "r = findTopologyCycle (map normalize_exec_node loop_nodes)"
    by (auto simp: exec_resolveTopology_def Let_def split: if_splits option.splits)
  with reported_cycle_is_real [OF r] show ?thesis by simp
qed

lemma normalize_loop_seen: "set seen = set seen' \<Longrightarrow> normalize_loop seen ds = normalize_loop seen' ds"
proof (induction ds arbitrary: seen seen')
  case (Cons d ds)
  have "normalize_loop (TrimSpace d # seen) ds = normalize_loop (TrimSpace d # seen') ds"
    by (rule Cons.IH) (use Cons.prems in simp)
  moreover have "normalize_loop seen ds = normalize_loop seen' ds" by (rule Cons.IH [OF Cons.prems])
  moreover have "TrimSpace d \<in> set seen \<longleftrightarrow> TrimSpace d \<in> set seen'" using Cons.prems by simp
  ultimately show ?case by (simp add: Let_def)
qed simp

lemma normalize_loops_agree:
  "\<forall>d\<in>set ds. TrimSpace d = d \<and> d \<noteq> [] \<Longrightarrow>
   normalize_topology_loop result ds = result @ normalize_loop result ds"
proof (induction ds arbitrary: result)
  case (Cons d ds)
  have "normalize_loop (result @ [d]) ds = normalize_loop (d # result) ds"
    by (rule normalize_loop_seen) auto
  with Cons show ?case by (simp add: Let_def)
qed simp

lemma normalize_agree:
  "\<forall>d\<in>set ds. TrimSpace d = d \<and> d \<noteq> [] \<Longrightarrow> normalizeTopologyDependencies ds = normalizeDependencies ds"
  using normalize_loops_agree [of ds "[]"]
  by (simp add: normalizeTopologyDependencies_def normalizeDependencies_def)



end
