(* ===== verification/Go_Strings.thy ===== *)
theory Go_Strings
  imports Go_Prelude
begin

text \<open>
  The functions of the Go packages \<open>strings\<close>, \<open>path\<close>, \<open>path/filepath\<close>, \<open>unicode/utf8\<close> and
  \<open>fmt\<close> that the components call, on byte strings. Separators and cut sets are always a single ASCII byte in the
  sources, so they are a character here.
\<close>

text \<open>An identifier that \<open>strings.TrimSpace\<close> leaves as it is.\<close>

definition trimmed_id :: "string \<Rightarrow> bool" where
  "trimmed_id i \<longleftrightarrow> TrimSpace i = i \<and> i \<noteq> []"

subsection \<open>Searching, cutting and splitting\<close>

definition HasPrefix :: "string \<Rightarrow> string \<Rightarrow> bool" where
  "HasPrefix s p = prefix p s"

definition HasSuffix :: "string \<Rightarrow> string \<Rightarrow> bool" where
  "HasSuffix s p = suffix p s"

definition TrimSuffix :: "string \<Rightarrow> string \<Rightarrow> string" where
  "TrimSuffix s p = (if suffix p s then take (length s - length p) s else s)"

definition Contains :: "string \<Rightarrow> string \<Rightarrow> bool" where
  "Contains s p = list_ex (prefix p) (suffixes s)"

definition ToUpper :: "string \<Rightarrow> string" where
  "ToUpper = map (\<lambda>c. let n = (of_char c :: nat) in if 97 \<le> n \<and> n \<le> 122 then char_of (n - 32) else c)"

text \<open>\<open>strings.FieldsFunc\<close>: the runs of characters for which the predicate fails.\<close>

fun FieldsFunc :: "(char \<Rightarrow> bool) \<Rightarrow> string \<Rightarrow> string \<Rightarrow> string list" where
  "FieldsFunc p acc [] = (if acc = [] then [] else [rev acc])"
| "FieldsFunc p acc (c # s) =
     (if p c then (if acc = [] then FieldsFunc p [] s else rev acc # FieldsFunc p [] s)
      else FieldsFunc p (c # acc) s)"

definition TrimPrefix :: "string \<Rightarrow> string \<Rightarrow> string" where
  "TrimPrefix s p = (if prefix p s then drop (length p) s else s)"

definition TrimByte :: "string \<Rightarrow> char \<Rightarrow> string" where
  "TrimByte s c = rev (dropWhile (\<lambda>x. x = c) (rev (dropWhile (\<lambda>x. x = c) s)))"

definition ReplaceByte :: "string \<Rightarrow> char \<Rightarrow> char \<Rightarrow> string" where
  "ReplaceByte s old new = map (\<lambda>x. if x = old then new else x) s"

text \<open>\<open>strings.Cut\<close>: the parts before and after the first separator, if there is one.\<close>

definition Cut :: "string \<Rightarrow> char \<Rightarrow> string \<times> string \<times> bool" where
  "Cut s c = (let before = takeWhile (\<lambda>x. x \<noteq> c) s in
     if c \<in> set s then (before, drop (Suc (length before)) s, True) else (s, [], False))"

text \<open>\<open>strings.LastIndex\<close>, -1 when absent.\<close>

definition LastIndex :: "string \<Rightarrow> char \<Rightarrow> int" where
  "LastIndex s c =
     (if c \<in> set s then int (length s) - 1 - int (length (takeWhile (\<lambda>x. x \<noteq> c) (rev s))) else -1)"

fun SplitByte :: "string \<Rightarrow> char \<Rightarrow> string list" where
  "SplitByte [] c = [[]]"
| "SplitByte (x # xs) c =
     (if x = c then [] # SplitByte xs c
      else case SplitByte xs c of [] \<Rightarrow> [[x]] | w # ws \<Rightarrow> (x # w) # ws)"

fun Join :: "string list \<Rightarrow> string \<Rightarrow> string" where
  "Join [] sep = []"
| "Join [w] sep = w"
| "Join (w # v # ws) sep = w @ sep @ Join (v # ws) sep"

lemma SplitByte_not_Nil [simp]: "SplitByte s c \<noteq> []"
  by (induction s) (auto split: list.split)

lemma SplitByte_no_sep: "w \<in> set (SplitByte s c) \<Longrightarrow> c \<notin> set w"
proof (induction s arbitrary: w)
  case (Cons x xs)
  show ?case
  proof (cases "SplitByte xs c")
    case Nil
    then show ?thesis by simp
  next
    case (Cons v vs)
    with Cons.prems Cons.IH show ?thesis by (auto split: if_splits)
  qed
qed simp

lemma Join_SplitByte: "Join (SplitByte s c) [c] = s"
proof (induction s)
  case (Cons x xs)
  obtain v vs where v: "SplitByte xs c = v # vs" by (cases "SplitByte xs c") auto
  with Cons show ?case by (cases vs) auto
qed simp

lemma SplitByte_word: "c \<notin> set w \<Longrightarrow> SplitByte w c = [w]"
  by (induction w) auto

lemma SplitByte_append: "c \<notin> set w \<Longrightarrow> SplitByte (w @ c # s) c = w # SplitByte s c"
  by (induction w) auto

lemma SplitByte_Join:
  "ws \<noteq> [] \<Longrightarrow> \<forall>w\<in>set ws. c \<notin> set w \<Longrightarrow> SplitByte (Join ws [c]) c = ws"
  by (induction ws "[c]" rule: Join.induct) (auto simp: SplitByte_word SplitByte_append)

lemma Cut_True: "Cut s c = (a, b, True) \<longleftrightarrow> s = a @ c # b \<and> c \<notin> set a"
proof
  assume cut: "Cut s c = (a, b, True)"
  then have "c \<in> set s" by (auto simp: Cut_def Let_def split: if_splits)
  then obtain x y where s: "s = x @ c # y" "c \<notin> set x" by (meson split_list_first)
  have "takeWhile (\<lambda>z. z \<noteq> c) (x @ c # y) = x" using s(2) by (induction x) auto
  with cut s \<open>c \<in> set s\<close> show "s = a @ c # b \<and> c \<notin> set a" by (auto simp: Cut_def)
next
  assume s: "s = a @ c # b \<and> c \<notin> set a"
  have "takeWhile (\<lambda>z. z \<noteq> c) (a @ c # b) = a" using s by (induction a arbitrary: s) auto
  with s show "Cut s c = (a, b, True)" by (simp add: Cut_def)
qed

lemma Cut_False: "Cut s c = (a, b, False) \<longleftrightarrow> a = s \<and> b = [] \<and> c \<notin> set s"
  by (auto simp: Cut_def Let_def)

lemma LastIndex_split: "c \<notin> set b \<Longrightarrow> LastIndex (a @ c # b) c = int (length a)"
proof -
  assume b: "c \<notin> set b"
  have "takeWhile (\<lambda>x. x \<noteq> c) (rev b @ c # rev a) = rev b" using b by (simp add: takeWhile_append)
  then show ?thesis by (simp add: LastIndex_def)
qed

lemma LastIndex_absent: "LastIndex s c = -1 \<longleftrightarrow> c \<notin> set s"
proof (cases "c \<in> set s")
  case True
  then obtain a b where "s = a @ c # b" "c \<notin> set b" by (meson split_list_last)
  then show ?thesis using True LastIndex_split [of c b a] by simp
qed (simp add: LastIndex_def)

subsection \<open>Paths\<close>

text \<open>
  \<open>path.Clean\<close>: the elements between slashes are processed from the left; empty elements and dots
  vanish, two dots remove the element before them or, at the start, stay (relative path) or
  vanish (rooted path). \<open>clean_elems\<close> keeps the processed elements in reverse.
\<close>

fun clean_elems :: "bool \<Rightarrow> string list \<Rightarrow> string list \<Rightarrow> string list" where
  "clean_elems rooted acc [] = rev acc"
| "clean_elems rooted acc (w # ws) =
     (if w = [] \<or> w = ''.'' then clean_elems rooted acc ws
      else if w = ''..'' then
        (case acc of
           [] \<Rightarrow> clean_elems rooted (if rooted then [] else [''..'']) ws
         | v # vs \<Rightarrow> clean_elems rooted (if v = ''..'' then ''..'' # acc else vs) ws)
      else clean_elems rooted (w # acc) ws)"

definition Clean :: "string \<Rightarrow> string" where
  "Clean p =
     (if p = [] then ''.''
      else
        let rooted = (hd p = CHR ''/'');
            body = Join (clean_elems rooted [] (SplitByte p (CHR ''/''))) ''/''
        in if rooted then CHR ''/'' # body else if body = [] then ''.'' else body)"

definition proper_elem :: "string \<Rightarrow> bool" where
  "proper_elem w \<longleftrightarrow> w \<noteq> [] \<and> w \<noteq> ''.'' \<and> w \<noteq> ''..'' \<and> CHR ''/'' \<notin> set w"

lemma clean_elems_proper: "\<forall>w\<in>set ws. proper_elem w \<Longrightarrow> clean_elems rooted acc ws = rev acc @ ws"
  by (induction ws arbitrary: acc) (auto simp: proper_elem_def)

lemma Join_append: "ws \<noteq> [] \<Longrightarrow> vs \<noteq> [] \<Longrightarrow> Join (ws @ vs) sep = Join ws sep @ sep @ Join vs sep"
  by (induction ws sep rule: Join.induct) (auto simp: neq_Nil_conv)

lemma Clean_rooted:
  assumes "ws \<noteq> []" "\<forall>w\<in>set ws. proper_elem w"
  shows "Clean (CHR ''/'' # Join ws ''/'') = CHR ''/'' # Join ws ''/''"
proof -
  have "SplitByte (Join ws ''/'') (CHR ''/'') = ws"
    using assms by (intro SplitByte_Join) (auto simp: proper_elem_def)
  with assms(2) show ?thesis by (simp add: Clean_def clean_elems_proper)
qed

text \<open>\<open>filepath.Ext\<close>: from the last dot of the last element, or nothing.\<close>

definition Ext :: "string \<Rightarrow> string" where
  "Ext p =
     (let tail = takeWhile (\<lambda>x. x \<noteq> CHR ''/'') (rev p) in
      if CHR ''.'' \<in> set tail then CHR ''.'' # rev (takeWhile (\<lambda>x. x \<noteq> CHR ''.'') tail) else [])"

subsection \<open>UTF-8\<close>

definition byte_in :: "nat \<Rightarrow> nat \<Rightarrow> char \<Rightarrow> bool" where
  "byte_in lo hi c \<longleftrightarrow> lo \<le> of_char c \<and> of_char c \<le> hi"

text \<open>\<open>utf8.ValidString\<close>: the byte sequences of table 3-7 of the Unicode standard, as Go checks them.\<close>

fun ValidUTF8 :: "string \<Rightarrow> bool" where
  "ValidUTF8 [] = True"
| "ValidUTF8 (a # s) =
     (if byte_in 0 0x7F a then ValidUTF8 s
      else case s of
          [] \<Rightarrow> False
        | b # s' \<Rightarrow>
            if byte_in 0xC2 0xDF a then byte_in 0x80 0xBF b \<and> ValidUTF8 s'
            else case s' of
                [] \<Rightarrow> False
              | c # s'' \<Rightarrow>
                  if byte_in 0xE0 0xEF a then
                    byte_in (if byte_in 0xE0 0xE0 a then 0xA0 else 0x80)
                      (if byte_in 0xED 0xED a then 0x9F else 0xBF) b \<and>
                    byte_in 0x80 0xBF c \<and> ValidUTF8 s''
                  else case s'' of
                      [] \<Rightarrow> False
                    | d # s''' \<Rightarrow>
                        byte_in 0xF0 0xF4 a \<and>
                        byte_in (if byte_in 0xF0 0xF0 a then 0x90 else 0x80)
                          (if byte_in 0xF4 0xF4 a then 0x8F else 0xBF) b \<and>
                        byte_in 0x80 0xBF c \<and> byte_in 0x80 0xBF d \<and> ValidUTF8 s''')"

subsection \<open>Formatting\<close>

text \<open>
  \<open>fmt.Sprintf\<close> and \<open>fmt.Errorf\<close> for the verbs the sources use on strings and errors: \<open>%s\<close> and \<open>%v\<close>
  insert the argument, \<open>%q\<close> its quoted form and \<open>%w\<close> the text of the wrapped error. \<open>Quote\<close> escapes what
  \<open>strconv.Quote\<close> escapes in ASCII; it keeps the bytes above 0x7F, as Go keeps every printable
  rune.
\<close>

definition hex_digit :: "nat \<Rightarrow> char" where
  "hex_digit n = (''0123456789abcdef'') ! (n mod 16)"

definition quote_byte :: "char \<Rightarrow> string" where
  "quote_byte c =
     (let n = of_char c :: nat in
      if n = 0x22 then [CHR 0x5C, CHR 0x22]
      else if n = 0x5C then [CHR 0x5C, CHR 0x5C]
      else if 7 \<le> n \<and> n \<le> 13 then [CHR 0x5C, (''abtnvfr'') ! (n - 7)]
      else if n < 0x20 \<or> n = 0x7F then [CHR 0x5C, CHR ''x'', hex_digit (n div 16), hex_digit n]
      else [c])"

definition Quote :: "string \<Rightarrow> string" where
  "Quote s = [CHR 0x22] @ concat (map quote_byte s) @ [CHR 0x22]"

fun Sprintw :: "string \<Rightarrow> string \<Rightarrow> string list \<Rightarrow> string" where
  "Sprintw w [] as = []"
| "Sprintw w (c # f) as =
     (if c \<noteq> CHR ''%'' then c # Sprintw w f as
      else case f of
          [] \<Rightarrow> ''%!(NOVERB)''
        | v # f' \<Rightarrow>
            if v = CHR ''%'' then CHR ''%'' # Sprintw w f' as
            else if v = CHR ''w'' then w @ Sprintw w f' as
            else case as of
                [] \<Rightarrow> ''%!'' @ v # ''(MISSING)'' @ Sprintw w f' []
              | a # as' \<Rightarrow> (if v = CHR ''q'' then Quote a else a) @ Sprintw w f' as')"

declare Sprintw.simps [simp del]

definition Sprintf :: "string \<Rightarrow> string list \<Rightarrow> string" where
  "Sprintf f as = Sprintw [] f as"

fun Itoa :: "nat \<Rightarrow> string" where
  "Itoa n = (if n < 10 then [hex_digit n] else Itoa (n div 10) @ [hex_digit (n mod 10)])"

declare Itoa.simps [simp del]

lemma hex_digit_inj: "a < 10 \<Longrightarrow> b < 10 \<Longrightarrow> hex_digit a = hex_digit b \<Longrightarrow> a = b"
proof -
  assume ab: "a < 10" "b < 10" and eq: "hex_digit a = hex_digit b"
  have "distinct ''0123456789abcdef''" by simp
  moreover have "a mod 16 < length ''0123456789abcdef''" "b mod 16 < length ''0123456789abcdef''" using ab by simp_all
  ultimately have "a mod 16 = b mod 16" using eq unfolding hex_digit_def by (metis nth_eq_iff_index_eq)
  then show "a = b" using ab by simp
qed

lemma Itoa_not_Nil: "Itoa n \<noteq> []"
  by (subst Itoa.simps) simp

lemma Itoa_inj: "Itoa a = Itoa b \<Longrightarrow> a = b"
proof (induction a arbitrary: b rule: less_induct)
  case (less a)
  have digits: "Itoa n = (if n < 10 then [hex_digit n] else Itoa (n div 10) @ [hex_digit (n mod 10)])" for n
    by (rule Itoa.simps)
  show ?case
  proof (cases "a < 10 \<or> b < 10")
    case True
    then show ?thesis
      using less.prems Itoa_not_Nil [of "a div 10"] Itoa_not_Nil [of "b div 10"] hex_digit_inj [of a b]
      by (simp add: digits [of a] digits [of b] split: if_splits)
  next
    case False
    then have "Itoa (a div 10) = Itoa (b div 10)" "hex_digit (a mod 10) = hex_digit (b mod 10)"
      using less.prems by (simp_all add: digits [of a] digits [of b])
    then have "a div 10 = b div 10" "a mod 10 = b mod 10"
      using less.IH [of "a div 10" "b div 10"] False hex_digit_inj [of "a mod 10" "b mod 10"] by auto
    then show ?thesis by (metis div_mult_mod_eq)
  qed
qed

text \<open>The verb \<open>%02d\<close> on a number that is not negative.\<close>

definition Pad2 :: "nat \<Rightarrow> string" where
  "Pad2 n = (if n < 10 then CHR ''0'' # Itoa n else Itoa n)"

text \<open>
  \<open>time.Duration.String\<close>: below a second in the largest unit that keeps a whole part, otherwise
  hours, minutes and seconds without leading zero units; a fraction has no trailing zeros.
\<close>

fun frac_digits :: "nat \<Rightarrow> int \<Rightarrow> string" where
  "frac_digits 0 n = []"
| "frac_digits (Suc k) n =
     (let rest = frac_digits k (n div 10)
      in rest @ [hex_digit (nat (n mod 10))])"

definition duration_frac :: "nat \<Rightarrow> int \<Rightarrow> string" where
  "duration_frac k n =
     (let ds = rev (dropWhile (\<lambda>c. c = CHR ''0'') (rev (frac_digits k n)))
      in if ds = [] then [] else CHR ''.'' # ds)"

definition DurationString :: "duration \<Rightarrow> string" where
  "DurationString d =
     (if d = 0 then ''0s''
      else
        let u = \<bar>d\<bar>;
            secs = u div 1000000000;
            mins = secs div 60;
            hrs = mins div 60;
            text =
              (if u < 1000 then Itoa (nat u) @ ''ns''
               else if u < 1000000 then Itoa (nat (u div 1000)) @ duration_frac 3 u @ [CHR 0xC2, CHR 0xB5, CHR ''s'']
               else if u < 1000000000 then Itoa (nat (u div 1000000)) @ duration_frac 6 u @ ''ms''
               else (if hrs = 0 then [] else Itoa (nat hrs) @ ''h'') @
                 (if mins = 0 then [] else Itoa (nat (mins mod 60)) @ ''m'') @
                 Itoa (nat (secs mod 60)) @ duration_frac 9 u @ ''s'')
        in if d < 0 then CHR ''-'' # text else text)"

text \<open>The \<open>Error\<close> method: the arguments of a wrapping error are those of its other verbs.\<close>

fun Error :: "goerr \<Rightarrow> string" where
  "Error ContextCanceled = ''context canceled''"
| "Error ContextDeadlineExceeded = ''context deadline exceeded''"
| "Error (ErrorsNew t) = t"
| "Error (Errorf f as) = Sprintf f as"
| "Error (ErrorfWrap f as e) = Sprintw (Error e) f as"

end
