(* ===== verification/Suite_Validation.thy ===== *)
theory Suite_Validation
  imports Suite_Types Go_Strings
begin

text \<open>
  Validation of a suite package, \<open>internal/suites/validation.go\<close>: the allowed files, folders and
  extensions, the checks of one path, and \<open>ValidateDefinition\<close>. The Go sets are lists of their
  keys. An error is the format string of the source with its arguments.
\<close>

subsection \<open>The tables\<close>

definition maxSuiteSourceFiles :: int where "maxSuiteSourceFiles = 512"
definition maxSuiteSourceBytes :: int where "maxSuiteSourceBytes = 2097152"

definition allowedSuiteRootFiles :: "string list" where
  "allowedSuiteRootFiles =
     [''suite.star'', ''pre-hook.star'', ''metadata.yaml'', ''metadata.yml'', ''README.md'',
      ''dependencies.yaml'', ''dependencies.yml'', ''dependencies.lock.yaml'', ''dependencies.lock.yml'']"

definition allowedSuiteFolders :: "string list" where
  "allowedSuiteFolders =
     [''api'', ''artifacts'', ''certs'', ''compat'', ''dashboards'', ''fixtures'', ''gateway'',
      ''load'', ''mock'', ''policies'', ''profiles'', ''scenarios'', ''scripts'', ''service'',
      ''services'', ''tasks'', ''tests'', ''traffic'', ''resources'', ''sql'']"

definition allowedSuiteExtensions :: "string list" where
  "allowedSuiteExtensions =
     [''.csv'', ''.cue'', ''.feature'', ''.go'', ''.gql'', ''.graphql'', ''.hurl'', ''.jmx'', ''.js'',
      ''.json'', ''.md'', ''.ndjson'', ''.proto'', ''.ps1'', ''.py'', ''.rego'', ''.sh'', ''.sql'',
      ''.star'', ''.ts'', ''.txt'', ''.wsdl'', ''.xml'', ''.xsd'', ''.yaml'', ''.yml'']"

definition blockedSuiteExtensions :: "string list" where
  "blockedSuiteExtensions =
     [''.7z'', ''.bin'', ''.com'', ''.dll'', ''.dmg'', ''.exe'', ''.gz'', ''.iso'', ''.jar'', ''.msi'',
      ''.rar'', ''.so'', ''.tar'', ''.tgz'', ''.xz'', ''.zip'', ''.dylib'']"

subsection \<open>Paths\<close>

definition slash :: char where "slash = CHR ''/''"

fun invalid_segment :: "string \<Rightarrow> string list \<Rightarrow> goerr option" where
  "invalid_segment p [] = None"
| "invalid_segment p (w # ws) =
     (if w = [] \<or> w = ''.'' \<or> w = ''..'' then Some (Errorf ''source path %q contains an invalid segment'' [p])
      else if HasPrefix w ''.'' then Some (Errorf ''source path %q contains a hidden segment'' [p])
      else invalid_segment p ws)"

definition validateSuiteSourcePath :: "string \<Rightarrow> goerr + string" where
  "validateSuiteSourcePath filePath =
     (let trimmed = TrimSpace (ReplaceByte filePath (CHR 0x5C) slash); cleaned = Clean trimmed in
      if trimmed = [] then Inl (ErrorsNew ''source path cannot be empty'')
      else if HasPrefix trimmed ''/'' then Inl (Errorf ''source path %q must be relative'' [trimmed])
      else if CHR 0x00 \<in> set trimmed then Inl (Errorf ''source path %q contains invalid bytes'' [trimmed])
      else if cleaned = ''.'' \<or> cleaned = ''..'' \<or> HasPrefix cleaned ''../'' \<or> sublist ''/../'' cleaned
        then Inl (Errorf ''source path %q escapes the suite root'' [trimmed])
      else if cleaned \<noteq> trimmed then Inl (Errorf ''source path %q must be normalized'' [trimmed])
      else case invalid_segment trimmed (SplitByte cleaned slash) of
          Some err \<Rightarrow> Inl err
        | None \<Rightarrow>
            let extension = ToLower (Ext cleaned) in
            if extension \<in> set blockedSuiteExtensions
            then Inl (Errorf ''source path %q uses a blocked file type'' [trimmed])
            else if extension \<noteq> [] \<and> extension \<notin> set allowedSuiteExtensions
            then Inl (Errorf ''source path %q uses an unsupported file type'' [trimmed])
            else Inr cleaned)"

definition validateSuiteSourcePlacement :: "string \<Rightarrow> goerr option" where
  "validateSuiteSourcePlacement filePath =
     (case Cut filePath slash of
        (topLevel, _, hasNestedPath) \<Rightarrow>
          if \<not> hasNestedPath then
            (if filePath \<in> set allowedSuiteRootFiles then None
             else Some (Errorf ''root file %q is not allowed in a suite package'' [filePath]))
          else if topLevel \<in> set allowedSuiteFolders then None
          else Some (Errorf ''top-level folder %q is not allowed in a suite package'' [topLevel]))"

definition validateSuiteSourceContent :: "string \<Rightarrow> string \<Rightarrow> goerr option" where
  "validateSuiteSourceContent filePath content =
     (if maxSuiteSourceBytes < int (length content) then Some (Errorf ''source file %q exceeds the %d byte limit'' [filePath])
      else if CHR 0x00 \<in> set content then Some (Errorf ''source file %q appears to contain binary content'' [filePath])
      else if \<not> ValidUTF8 content then Some (Errorf ''source file %q is not valid UTF-8 text'' [filePath])
      else None)"

subsection \<open>Folders and packages\<close>

definition normalizeSourcePath :: "string \<Rightarrow> string \<Rightarrow> string" where
  "normalizeSourcePath folderName file =
     TrimByte (TrimSpace folderName @ ''/'' @ TrimByte (TrimSpace file) slash) slash"

fun folder_files :: "string \<Rightarrow> string list \<Rightarrow> goerr option" where
  "folder_files name [] = None"
| "folder_files name (file # files) =
     (case validateSuiteSourcePath (normalizeSourcePath name file) of
        Inl err \<Rightarrow> Some err
      | Inr normalized \<Rightarrow>
          if \<not> HasPrefix normalized (name @ ''/'') then Some (Errorf ''file %q escapes the %q folder'' [file, name])
          else case validateSuiteSourcePlacement normalized of
              Some err \<Rightarrow> Some err
            | None \<Rightarrow> folder_files name files)"

definition validateSuiteFolder :: "folder_entry \<Rightarrow> goerr option" where
  "validateSuiteFolder folder =
     (let name = TrimSpace (fe_Name folder) in
      if name \<notin> set allowedSuiteFolders
      then Some (Errorf ''top-level folder %q is not allowed in a suite package'' [name])
      else folder_files name (fe_Files folder))"

fun seed_sources :: "source_file list \<Rightarrow> goerr option" where
  "seed_sources [] = None"
| "seed_sources (file # files) =
     (case validateSuiteSourcePath (f_Path file) of
        Inl err \<Rightarrow> Some err
      | Inr normalizedPath \<Rightarrow>
          (case validateSuiteSourcePlacement normalizedPath of
             Some err \<Rightarrow> Some err
           | None \<Rightarrow> seed_sources files))"

fun folders_ok :: "folder_entry list \<Rightarrow> goerr option" where
  "folders_ok [] = None"
| "folders_ok (folder # folders) =
     (case validateSuiteFolder folder of Some err \<Rightarrow> Some err | None \<Rightarrow> folders_ok folders)"

fun source_files :: "string list \<Rightarrow> source_file list \<Rightarrow> goerr option" where
  "source_files seenPaths [] = None"
| "source_files seenPaths (file # files) =
     (case validateSuiteSourcePath (f_Path file) of
        Inl err \<Rightarrow> Some err
      | Inr normalizedPath \<Rightarrow>
          if normalizedPath \<in> set seenPaths then Some (Errorf ''duplicate source path %q'' [normalizedPath])
          else case validateSuiteSourcePlacement normalizedPath of
              Some err \<Rightarrow> Some err
            | None \<Rightarrow>
                (case validateSuiteSourceContent normalizedPath (f_Content file) of
                   Some err \<Rightarrow> Some err
                 | None \<Rightarrow> source_files (normalizedPath # seenPaths) files))"

definition ValidateDefinition :: "suite_definition \<Rightarrow> goerr option" where
  "ValidateDefinition suite =
     (if TrimSpace (g_ID suite) = [] then Some (ErrorsNew ''suite ID is required'')
      else if TrimSpace (g_SuiteStar suite) = [] then Some (ErrorsNew ''suite.star is required'')
      else if maxSuiteSourceFiles < int (length (g_SourceFiles suite))
      then Some (Errorf ''suite has too many source files (%d > %d)'' [])
      else case seed_sources (g_SeedSources suite) of
          Some err \<Rightarrow> Some err
        | None \<Rightarrow>
            (case folders_ok (g_Folders suite) of
               Some err \<Rightarrow> Some err
             | None \<Rightarrow> source_files [] (g_SourceFiles suite)))"

subsection \<open>Accepted paths stay inside the package\<close>

lemma invalid_segment_None:
  "invalid_segment p ws = None \<longleftrightarrow> (\<forall>w\<in>set ws. w \<noteq> [] \<and> w \<noteq> ''.'' \<and> w \<noteq> ''..'' \<and> \<not> HasPrefix w ''.'')"
  by (induction ws) auto

lemma validated_path:
  assumes "validateSuiteSourcePath p = Inr q"
  shows "q = TrimSpace (ReplaceByte p (CHR 0x5C) slash)" "Clean q = q" "CHR 0x00 \<notin> set q" "q \<noteq> []"
    "\<forall>w\<in>set (SplitByte q slash). proper_elem w \<and> \<not> HasPrefix w ''.''"
    "ToLower (Ext q) \<notin> set blockedSuiteExtensions"
    "ToLower (Ext q) = [] \<or> ToLower (Ext q) \<in> set allowedSuiteExtensions"
  using assms SplitByte_no_sep [of _ q slash]
  by (auto simp: validateSuiteSourcePath_def Let_def invalid_segment_None proper_elem_def slash_def
      split: if_splits option.splits)

lemma Clean_under:
  assumes q: "\<forall>w\<in>set (SplitByte q slash). proper_elem w"
    and root: "ws \<noteq> []" "\<forall>w\<in>set ws. proper_elem w"
  shows "Clean (''/'' @ Join ws ''/'' @ ''/'' @ q) = ''/'' @ Join ws ''/'' @ ''/'' @ q"
proof -
  have "Join (SplitByte q slash) ''/'' = q" using Join_SplitByte [of q slash] by (simp add: slash_def)
  then have "''/'' @ Join ws ''/'' @ ''/'' @ q = CHR ''/'' # Join (ws @ SplitByte q slash) ''/''"
    using root(1) by (simp add: Join_append)
  then show ?thesis using Clean_rooted [of "ws @ SplitByte q slash"] q root by auto
qed

lemma source_files_None:
  "source_files seen files = None \<Longrightarrow>
   (\<forall>f\<in>set files. \<exists>q. validateSuiteSourcePath (f_Path f) = Inr q \<and> q \<notin> set seen \<and>
      validateSuiteSourcePlacement q = None \<and> validateSuiteSourceContent q (f_Content f) = None) \<and>
   distinct (map (validateSuiteSourcePath \<circ> f_Path) files)"
proof (induction files arbitrary: seen)
  case (Cons f files)
  then obtain q where q: "validateSuiteSourcePath (f_Path f) = Inr q" "q \<notin> set seen"
    "validateSuiteSourcePlacement q = None" "validateSuiteSourceContent q (f_Content f) = None"
    "source_files (q # seen) files = None"
    by (auto split: sum.splits if_splits option.splits)
  with Cons.IH [OF q(5)] show ?case by fastforce
qed simp

subsection \<open>Properties\<close>

text \<open>C15. A source path that validation accepts cannot leave the package: below any cleaned
  absolute directory, joining and cleaning the path gives exactly that directory followed by the
  path, and no element of it is hidden.\<close>

theorem accepted_path_contained:
  assumes "validateSuiteSourcePath p = Inr q" "ws \<noteq> []" "\<forall>w\<in>set ws. proper_elem w"
  shows "Clean (''/'' @ Join ws ''/'' @ ''/'' @ q) = ''/'' @ Join ws ''/'' @ ''/'' @ q \<and>
    (\<forall>w\<in>set (SplitByte q slash). proper_elem w \<and> \<not> HasPrefix w ''.'')"
  using validated_path(5) [OF assms(1)] Clean_under [OF _ assms(2,3)] by blast

theorem accepted_path_contained_witness:
  "Clean ''/suites/demo/api/openapi.yaml'' = ''/suites/demo/api/openapi.yaml''"
proof -
  have "validateSuiteSourcePath '' api/openapi.yaml'' = Inr ''api/openapi.yaml''" by code_simp
  from accepted_path_contained [OF this, of "[''suites'', ''demo'']"] show ?thesis
    by (simp add: proper_elem_def)
qed


definition tiny_suite :: suite_definition where
  "tiny_suite = \<lparr>g_ID = ''demo'', g_Title = ''Demo'', g_Repository = ''r/demo'', g_Version = ''1.0.0'',
     g_SuiteStar = ''x'', g_Profiles = [], g_Folders = [], g_SeedSources = [],
     g_SourceFiles = [\<lparr>f_Path = ''tests/a.py'', f_Language = ''python'', f_Content = ''x''\<rparr>],
     g_Topology = [], g_TopologyError = [], g_ResolvedDependencies = []\<rparr>"


end
