(* ===== verification/Suite_Resolver.thy ===== *)
theory Suite_Resolver
  imports Topology_Order Suite_Validation
begin

text \<open>
  Resolving a suite with its nested suites: \<open>internal/suites/topology.go\<close> from \<open>ResolveTopology\<close>
  to \<open>resolveAssignmentDependencies\<close>, \<open>dependency_runtime.go\<close> and \<open>pre_hook.go\<close>.

  What the code gets from third-party packages is the argument \<open>env\<close>: the evaluation of a
  Starlark source to raw nodes (\<open>v_parseRaw\<close>), the decoding of YAML documents (\<open>v_yaml\<dots>\<close>), the
  rendering of a decoded value by \<open>fmt.Sprint\<close> (\<open>v_sprint\<close>), and the parsing of a traffic plan
  (\<open>v_loadSpec\<close>). A decoded YAML mapping is a list of its pairs in the order in which Go visits
  them. The recursion into nested suites is bounded by fuel, \<open>NeedsFuel\<close> marks that it ran out.
\<close>

subsection \<open>Data\<close>

record raw_node =
  r_Assignment :: string
  r_ID :: string
  r_Name :: string
  r_Kind :: string
  r_Variant :: string
  r_Image :: string
  r_File :: string
  r_Commands :: "string list"
  r_Arguments :: string
  r_Ref :: string
  r_Target :: string
  r_Technique :: string
  r_FloodPath :: string
  r_FloodRate :: float64
  r_FloodDuration :: float64
  r_FloodThrottle :: bool
  r_Message :: string
  r_Harden :: bool
  r_DependsOn :: "string list"
  r_ResetMocks :: "string list"
  r_OnFailure :: "string list"
  r_ContinueOnFailure :: bool
  r_Evaluation :: "step_evaluation option"
  r_Exports :: "artifact_export list"
  r_Env :: gomap
  r_PluginOp :: string
  r_PluginConfig :: "(string \<times> goany) list"
  r_Order :: int

record dependency_entry =
  de_Ref :: string
  de_Version :: string
  de_Profile :: string
  de_Inputs :: gomap

record dependency_lock_entry =
  lo_Ref :: string
  lo_Version :: string
  lo_Resolved :: string
  lo_Digest :: string
  lo_Profile :: string
  lo_Inputs :: gomap

record topology_import =
  im_EntryIDs :: "string list"
  im_ExitIDs :: "string list"
  im_MockIDs :: "string list"
  im_Nodes :: "topology_node list"

record resolved_topology =
  rt_Nodes :: "topology_node list"
  rt_Dependencies :: "resolved_dependency list"

record profile_runtime =
  pr_Env :: gomap
  pr_Services :: "string \<rightharpoonup> gomap"

record resolver_env =
  v_parseRaw :: "string \<Rightarrow> goerr + raw_node list"
  v_yamlDependencies :: "string \<Rightarrow> goerr + (string \<times> dependency_entry) list"
  v_yamlLocks :: "string \<Rightarrow> goerr + (string \<times> dependency_lock_entry) list"
  v_yamlDocument :: "string \<Rightarrow> goerr + (string \<times> goany) list"
  v_sprint :: "goany \<Rightarrow> string"
  v_loadSpec :: "raw_node \<Rightarrow> source_file list \<Rightarrow> goerr + load_spec"

datatype suite_error =
    InvalidPackage goerr
  | NestedSuiteCycle "string list"
  | ParseFailed goerr
  | ManifestUnreadable string goerr
  | MissingAlias string
  | DependencyWithoutRef string
  | MismatchedVersion string string string
  | MustPinVersion string
  | RefNotResolved string
  | VersionNotResolved string string
  | ProfileNotFound string string
  | TopologyRefused topology_error
  | PreHookInvalid suite_error
  | PreHookImportsSuite
  | PreHookEmpty
  | NeedsFuel

type_synonym imports_map = "string \<rightharpoonup> topology_import"

definition empty_import :: topology_import where
  "empty_import = \<lparr>im_EntryIDs = [], im_ExitIDs = [], im_MockIDs = [], im_Nodes = []\<rparr>"

subsection \<open>References to dependencies\<close>

definition splitDependencyRef :: "string \<Rightarrow> string \<times> string" where
  "splitDependencyRef value =
     (let trimmed = TrimSpace value in
      if trimmed = [] then ([], [])
      else case Cut trimmed (CHR ''@'') of
          (repository, digest, True) \<Rightarrow> (repository, digest)
        | _ \<Rightarrow>
            let lastSlash = LastIndex trimmed (CHR ''/''); lastColon = LastIndex trimmed (CHR '':'') in
            if lastSlash < lastColon then (take (nat lastColon) trimmed, drop (nat lastColon + 1) trimmed)
            else (trimmed, []))"

definition dependencyDigest :: "string \<Rightarrow> string" where
  "dependencyDigest value =
     (let suffix = TrimSpace (snd (splitDependencyRef value)) in
      if HasPrefix suffix ''sha256:'' then suffix else [])"

definition dependencyHasPinnedDigest :: "string \<Rightarrow> bool" where
  "dependencyHasPinnedDigest value \<longleftrightarrow> dependencyDigest value \<noteq> []"

definition dependencyUsesLatest :: "string \<Rightarrow> bool" where
  "dependencyUsesLatest value = EqualFold (TrimSpace (snd (splitDependencyRef value))) ''latest''"

definition mergeStringMaps :: "gomap \<Rightarrow> gomap list \<Rightarrow> gomap" where
  "mergeStringMaps base overlays = foldl (++) base overlays"

subsection \<open>Profiles\<close>

definition suiteHasProfileOption :: "profile_option list \<Rightarrow> string \<Rightarrow> bool" where
  "suiteHasProfileOption profiles fileName =
     list_ex (\<lambda>p. TrimSpace (p_FileName p) = TrimSpace fileName) profiles"

definition defaultLaunchProfile :: "profile_option list \<Rightarrow> string" where
  "defaultLaunchProfile profiles =
     (case find p_Default profiles of
        Some p \<Rightarrow> TrimSpace (p_FileName p)
      | None \<Rightarrow> (case profiles of [] \<Rightarrow> [] | p # _ \<Rightarrow> TrimSpace (p_FileName p)))"

definition resolveDependencyProfile :: "suite_definition \<Rightarrow> string \<Rightarrow> suite_error + string" where
  "resolveDependencyProfile suite requested =
     (let profile = TrimSpace requested in
      if profile = [] then Inr (defaultLaunchProfile (g_Profiles suite))
      else if \<not> suiteHasProfileOption (g_Profiles suite) profile then Inl (ProfileNotFound profile (g_ID suite))
      else Inr profile)"

text \<open>\<open>scalarStringMap\<close>: the scalars of a decoded mapping by trimmed key, as a list of pairs.\<close>

definition scalarStringMap :: "resolver_env \<Rightarrow> goany option \<Rightarrow> (string \<times> string) list" where
  "scalarStringMap env value =
     (case value of
        Some (AnyMap items) \<Rightarrow>
          fold (\<lambda>key out.
              let trimmedKey = TrimSpace key in
              if trimmedKey = [] then out
              else case map_of items key of
                  None \<Rightarrow> out
                | Some AnyNil \<Rightarrow> out
                | Some (AnyString s) \<Rightarrow> AList.update trimmedKey s out
                | Some v \<Rightarrow> AList.update trimmedKey (v_sprint env v) out)
            (sort_slice (<) (remdups (map fst items))) []
      | _ \<Rightarrow> [])"

definition service_env :: "resolver_env \<Rightarrow> string \<times> goany \<Rightarrow> (string \<rightharpoonup> gomap) \<Rightarrow> (string \<rightharpoonup> gomap)" where
  "service_env env item services =
     (case item of
        (name, AnyMap attrs) \<Rightarrow>
          (case scalarStringMap env (map_of attrs ''env'') of
             [] \<Rightarrow> services
           | kvs \<Rightarrow> services(TrimSpace name \<mapsto> map_of kvs))
      | _ \<Rightarrow> services)"

definition parseDependencyProfileRuntime ::
  "resolver_env \<Rightarrow> source_file list \<Rightarrow> string \<Rightarrow> suite_error + profile_runtime" where
  "parseDependencyProfileRuntime env sourceFiles name =
     (let fileName = TrimSpace name;
          path = ''profiles/'' @ TrimByte (ReplaceByte fileName (CHR 0x5C) slash) slash;
          none = \<lparr>pr_Env = Map.empty, pr_Services = Map.empty\<rparr>
      in if fileName = [] then Inr none
         else case find (\<lambda>f. TrimSpace (f_Path f) = path) sourceFiles of
             None \<Rightarrow> Inr none
           | Some file \<Rightarrow>
               (case v_yamlDocument env (f_Content file) of
                  Inl err \<Rightarrow> Inl (ManifestUnreadable (f_Path file) err)
                | Inr document \<Rightarrow>
                    Inr \<lparr>pr_Env = map_of (scalarStringMap env (map_of document ''env'')),
                         pr_Services =
                           (case map_of document ''services'' of
                              Some (AnyMap services) \<Rightarrow> fold (service_env env) services Map.empty
                            | _ \<Rightarrow> Map.empty)\<rparr>))"

definition buildDependencyRuntimeEnv ::
  "topology_node \<Rightarrow> suite_definition \<Rightarrow> resolved_dependency \<Rightarrow> profile_runtime \<Rightarrow> gomap" where
  "buildDependencyRuntimeEnv node suite dependency runtime =
     (let serviceEnv =
            (case pr_Services runtime (n_ID node) of
               Some e \<Rightarrow> e
             | None \<Rightarrow> (case pr_Services runtime (n_Name node) of Some e \<Rightarrow> e | None \<Rightarrow> Map.empty));
          base = mergeStringMaps (pr_Env runtime) [serviceEnv, d_Inputs dependency];
          env = mergeStringMaps base
            [[''BABELSUITE_DEPENDENCY_ALIAS'' \<mapsto> d_Alias dependency,
              ''BABELSUITE_DEPENDENCY_SUITE'' \<mapsto> g_ID suite,
              ''BABELSUITE_DEPENDENCY_REF'' \<mapsto> d_Ref dependency,
              ''BABELSUITE_PROFILE'' \<mapsto> d_Profile dependency]];
          env1 = (if d_Resolved dependency \<noteq> []
                  then env(''BABELSUITE_DEPENDENCY_RESOLVED'' \<mapsto> d_Resolved dependency) else env)
      in if d_Digest dependency \<noteq> []
         then env1(''BABELSUITE_DEPENDENCY_DIGEST'' \<mapsto> d_Digest dependency) else env1)"

definition buildDependencyRuntimeHeaders :: "resolved_dependency \<Rightarrow> gomap" where
  "buildDependencyRuntimeHeaders dependency =
     (if TrimSpace (d_Profile dependency) = [] then Map.empty
      else [''x-suite-profile'' \<mapsto> d_Profile dependency])"

subsection \<open>The dependency manifests\<close>

definition trimmed_keys :: "(string \<times> 'a) list \<Rightarrow> string \<rightharpoonup> 'a" where
  "trimmed_keys items =
     fold (\<lambda>(alias, entry) m. if TrimSpace alias = [] then m else m(TrimSpace alias \<mapsto> entry)) items Map.empty"

definition manifest_file :: "string list \<Rightarrow> source_file list \<Rightarrow> source_file option" where
  "manifest_file names sourceFiles = find (\<lambda>f. TrimSpace (ToLower (f_Path f)) \<in> set names) sourceFiles"

definition parseDependencyManifest ::
  "resolver_env \<Rightarrow> source_file list \<Rightarrow> suite_error + (string \<rightharpoonup> dependency_entry)" where
  "parseDependencyManifest env sourceFiles =
     (case manifest_file [''dependencies.yaml'', ''dependencies.yml''] sourceFiles of
        None \<Rightarrow> Inr Map.empty
      | Some file \<Rightarrow>
          (case v_yamlDependencies env (f_Content file) of
             Inl err \<Rightarrow> Inl (ManifestUnreadable (f_Path file) err)
           | Inr items \<Rightarrow> Inr (trimmed_keys items)))"

definition parseDependencyLockManifest ::
  "resolver_env \<Rightarrow> source_file list \<Rightarrow> suite_error + (string \<rightharpoonup> dependency_lock_entry)" where
  "parseDependencyLockManifest env sourceFiles =
     (case manifest_file [''dependencies.lock.yaml'', ''dependencies.lock.yml''] sourceFiles of
        None \<Rightarrow> Inr Map.empty
      | Some file \<Rightarrow>
          (case v_yamlLocks env (f_Content file) of
             Inl err \<Rightarrow> Inl (ManifestUnreadable (f_Path file) err)
           | Inr items \<Rightarrow> Inr (trimmed_keys items)))"

definition zero_lock :: dependency_lock_entry where
  "zero_lock = \<lparr>lo_Ref = [], lo_Version = [], lo_Resolved = [], lo_Digest = [], lo_Profile = [], lo_Inputs = Map.empty\<rparr>"

subsection \<open>Choosing the suite a dependency names\<close>

type_synonym suite_catalog = "(string \<times> suite_definition) list"

definition newTopologyResolver :: "suite_definition list \<Rightarrow> suite_catalog" where
  "newTopologyResolver catalog = fold (\<lambda>suite. AList.update (TrimSpace (g_ID suite)) suite) catalog []"

definition dependency_version :: "string \<Rightarrow> dependency_entry \<Rightarrow> dependency_lock_entry \<Rightarrow> string" where
  "dependency_version ref entry lock =
     (let declared = TrimSpace (de_Version entry);
          version = (if declared \<noteq> [] then declared
                     else if dependencyHasPinnedDigest ref then TrimSpace (lo_Version lock)
                     else snd (splitDependencyRef ref))
      in if version = [] then TrimSpace (lo_Version lock) else version)"

definition candidates :: "suite_catalog \<Rightarrow> string \<Rightarrow> string \<Rightarrow> suite_definition list" where
  "candidates byid ref normalizedRef =
     sort_slice (\<lambda>a b. g_ID a < g_ID b)
       (filter (\<lambda>suite. g_ID suite = ref \<or> g_ID suite = normalizedRef \<or>
            g_Repository suite = ref \<or> g_Repository suite = normalizedRef) (map snd byid))"

definition select_candidate :: "string \<Rightarrow> string \<Rightarrow> suite_definition list \<Rightarrow> suite_error + suite_definition" where
  "select_candidate normalizedRef version cands =
     (if version = [] then Inr (hd cands)
      else case find (\<lambda>c. TrimSpace (g_Version c) = version) cands of
          Some c \<Rightarrow> if TrimSpace (g_ID c) = [] then Inl (VersionNotResolved normalizedRef version) else Inr c
        | None \<Rightarrow> Inl (VersionNotResolved normalizedRef version))"

definition resolved_ref :: "string \<Rightarrow> string \<Rightarrow> string \<Rightarrow> dependency_lock_entry \<Rightarrow> suite_definition \<Rightarrow> string" where
  "resolved_ref ref normalizedRef version lock selected =
     (let lockResolved = TrimSpace (lo_Resolved lock);
          lockDigest = FirstNonEmpty [TrimSpace (lo_Digest lock), dependencyDigest lockResolved];
          base0 = TrimSpace (FirstNonEmpty [lockResolved, ref]);
          base1 = (if lockDigest \<noteq> [] \<and> CHR ''@'' \<notin> set base0
                   then (let r = TrimSpace (g_Repository selected) in
                         (if r = [] then normalizedRef else r) @ ''@'' @ lockDigest)
                   else base0)
      in if base1 = TrimSpace ref \<and> version \<noteq> [] \<and> \<not> dependencyHasPinnedDigest base1
         then normalizedRef @ '':'' @ version else base1)"

definition resolveDependency ::
  "suite_catalog \<Rightarrow> string \<Rightarrow> dependency_entry \<Rightarrow> dependency_lock_entry \<Rightarrow>
   suite_error + resolved_dependency \<times> suite_definition" where
  "resolveDependency byid alias entry lock =
     (let ref = TrimSpace (de_Ref entry) in
      if ref = [] then Inl (DependencyWithoutRef alias)
      else
        let normalizedRef = fst (splitDependencyRef ref);
            versionFromRef = snd (splitDependencyRef ref);
            declared = TrimSpace (de_Version entry);
            version = dependency_version ref entry lock;
            lockResolved = TrimSpace (lo_Resolved lock);
            lockDigest = FirstNonEmpty [TrimSpace (lo_Digest lock), dependencyDigest lockResolved];
            cands = candidates byid ref normalizedRef
        in if declared \<noteq> [] \<and> versionFromRef \<noteq> [] \<and> \<not> dependencyHasPinnedDigest ref \<and>
              \<not> EqualFold declared versionFromRef
           then Inl (MismatchedVersion alias declared ref)
           else if dependencyUsesLatest ref \<or> EqualFold version ''latest'' then Inl (MustPinVersion alias)
           else if cands = [] then Inl (RefNotResolved ref)
           else case select_candidate normalizedRef version cands of
               Inl err \<Rightarrow> Inl err
             | Inr selected \<Rightarrow>
                 (case resolveDependencyProfile selected
                         (FirstNonEmpty [TrimSpace (de_Profile entry), TrimSpace (lo_Profile lock)]) of
                    Inl err \<Rightarrow> Inl err
                  | Inr profile \<Rightarrow>
                      let baseResolved = resolved_ref ref normalizedRef version lock selected in
                      Inr (\<lparr>d_Alias = alias, d_Ref = ref,
                            d_Version = FirstNonEmpty [version, TrimSpace (g_Version selected)],
                            d_Resolved = baseResolved,
                            d_Digest = FirstNonEmpty [lockDigest, dependencyDigest baseResolved, dependencyDigest ref],
                            d_Profile = profile,
                            d_Inputs = mergeStringMaps (lo_Inputs lock) [de_Inputs entry],
                            d_SuiteID = g_ID selected, d_SuiteTitle = g_Title selected,
                            d_Repository = g_Repository selected,
                            d_SourceFiles = g_SourceFiles selected\<rparr>, selected)))"

subsection \<open>Names of imported steps\<close>

definition in_namespace :: "string \<Rightarrow> string \<Rightarrow> string" where
  "in_namespace ns i = ns @ ''/'' @ i"

definition remap_ids :: "string \<Rightarrow> string list \<Rightarrow> string list \<Rightarrow> string list" where
  "remap_ids ns known ids = map (in_namespace ns) (filter (\<lambda>d. d \<in> set known) ids)"

definition namespace_node ::
  "raw_node \<Rightarrow> suite_definition \<Rightarrow> resolved_dependency \<Rightarrow> profile_runtime \<Rightarrow> string list \<Rightarrow> nat \<Rightarrow>
   topology_node \<Rightarrow> topology_node" where
  "namespace_node raw childSuite dependency runtime known index node =
     node\<lparr>n_ID := in_namespace (r_ID raw) (n_ID node),
       n_Name := r_Name raw @ ''/'' @ n_Name node,
       n_Level := 0, n_Order := int index,
       n_SourceSuiteID := FirstNonEmpty [n_SourceSuiteID node, g_ID childSuite],
       n_SourceSuiteTitle := FirstNonEmpty [n_SourceSuiteTitle node, g_Title childSuite],
       n_SourceRepository := FirstNonEmpty [n_SourceRepository node, g_Repository childSuite],
       n_SourceVersion := FirstNonEmpty [n_SourceVersion node, g_Version childSuite],
       n_DependencyAlias := FirstNonEmpty [n_DependencyAlias node, d_Alias dependency],
       n_ResolvedRef := FirstNonEmpty [n_ResolvedRef node, d_Resolved dependency],
       n_Digest := FirstNonEmpty [n_Digest node, d_Digest dependency],
       n_RuntimeProfile := FirstNonEmpty [n_RuntimeProfile node, d_Profile dependency],
       n_RuntimeEnv := mergeStringMaps (n_RuntimeEnv node)
         [buildDependencyRuntimeEnv node childSuite dependency runtime],
       n_RuntimeHeaders := (if n_Kind node = ''mock''
         then mergeStringMaps (n_RuntimeHeaders node) [buildDependencyRuntimeHeaders dependency]
         else n_RuntimeHeaders node),
       n_DependsOn := remap_ids (r_ID raw) known (n_DependsOn node),
       n_OnFailure := remap_ids (r_ID raw) known (n_OnFailure node),
       n_ResetMocks := (if n_ResetMocks node = [] then []
         else normalizeDependencies (remap_ids (r_ID raw) known (n_ResetMocks node)))\<rparr>"

definition namespaceImportedTopology ::
  "resolver_env \<Rightarrow> raw_node \<Rightarrow> suite_definition \<Rightarrow> topology_node list \<Rightarrow> resolved_dependency \<Rightarrow>
   suite_error + topology_import" where
  "namespaceImportedTopology env raw childSuite childNodes dependency =
     (if childNodes = [] then Inr empty_import
      else case parseDependencyProfileRuntime env (g_SourceFiles childSuite) (d_Profile dependency) of
          Inl err \<Rightarrow> Inl err
        | Inr runtime \<Rightarrow>
            let known = map n_ID childNodes;
                depended = concat (map n_DependsOn childNodes);
                ids = (\<lambda>P. sort_slice (<) (map (\<lambda>n. in_namespace (r_ID raw) (n_ID n)) (filter P childNodes)))
            in Inr \<lparr>im_EntryIDs = ids (\<lambda>n. list_ex (\<lambda>m. n_ID m = n_ID n \<and> n_DependsOn m = []) childNodes),
                    im_ExitIDs = ids (\<lambda>n. n_ID n \<notin> set depended),
                    im_MockIDs = ids (\<lambda>n. n_Kind n = ''mock''),
                    im_Nodes = map (\<lambda>(index, node).
                        namespace_node raw childSuite dependency runtime known index node)
                      (List.enumerate 0 childNodes)\<rparr>)"

fun expand_loop :: "(topology_import \<Rightarrow> string list) \<Rightarrow> imports_map \<Rightarrow> string list \<Rightarrow> string list" where
  "expand_loop sel imports [] = []"
| "expand_loop sel imports (d # ds) =
     (case imports d of
        Some imported \<Rightarrow> (if sel imported \<noteq> [] then sel imported else [d])
      | None \<Rightarrow> [d]) @ expand_loop sel imports ds"

definition expandImportedDependencies :: "string list \<Rightarrow> imports_map \<Rightarrow> string list" where
  "expandImportedDependencies dependsOn imports = normalizeDependencies (expand_loop im_ExitIDs imports dependsOn)"

definition expandImportedMockTargets :: "string list \<Rightarrow> imports_map \<Rightarrow> string list" where
  "expandImportedMockTargets targets imports = normalizeDependencies (expand_loop im_MockIDs imports targets)"

subsection \<open>Raw nodes\<close>

definition assignment_ids :: "raw_node list \<Rightarrow> string \<rightharpoonup> string" where
  "assignment_ids nodes =
     fold (\<lambda>n m. if TrimSpace (r_Assignment n) = [] \<or> TrimSpace (r_ID n) = [] then m
                 else m(r_Assignment n \<mapsto> r_ID n)) nodes Map.empty"

definition remap_assigned :: "(string \<rightharpoonup> string) \<Rightarrow> string list \<Rightarrow> string list" where
  "remap_assigned m ds =
     (if ds = [] then ds
      else normalizeDependencies (map (\<lambda>d. case m d of Some i \<Rightarrow> i | None \<Rightarrow> d) ds))"

definition resolveAssignmentDependencies :: "raw_node list \<Rightarrow> raw_node list" where
  "resolveAssignmentDependencies nodes =
     (let m = assignment_ids nodes in
      map (\<lambda>n. n\<lparr>r_DependsOn := remap_assigned m (r_DependsOn n),
                 r_OnFailure := remap_assigned m (r_OnFailure n),
                 r_ResetMocks := remap_assigned m (r_ResetMocks n)\<rparr>) nodes)"

definition topologyNodeFromRaw ::
  "resolver_env \<Rightarrow> raw_node \<Rightarrow> suite_definition \<Rightarrow> imports_map \<Rightarrow> suite_error + topology_node" where
  "topologyNodeFromRaw env raw suite imports =
     (let node = zero_node\<lparr>n_ID := r_ID raw, n_Name := r_Name raw, n_Kind := r_Kind raw,
            n_Variant := r_Variant raw, n_Image := r_Image raw, n_File := r_File raw,
            n_Commands := r_Commands raw, n_Message := r_Message raw, n_Harden := r_Harden raw,
            n_RuntimeEnv := r_Env raw,
            n_DependsOn := expandImportedDependencies (r_DependsOn raw @ r_OnFailure raw) imports,
            n_ResetMocks := expandImportedMockTargets (r_ResetMocks raw) imports,
            n_OnFailure := expandImportedDependencies (r_OnFailure raw) imports,
            n_ContinueOnFailure := r_ContinueOnFailure raw, n_Evaluation := r_Evaluation raw,
            n_ArtifactExports := r_Exports raw, n_SourceSuiteID := g_ID suite,
            n_SourceSuiteTitle := g_Title suite, n_SourceRepository := g_Repository suite,
            n_SourceVersion := g_Version suite\<rparr>;
          node1 = (if r_Kind raw = ''security''
            then node\<lparr>n_Security := Some \<lparr>sec_Variant = r_Variant raw, sec_Target = r_Target raw,
                   sec_Technique = r_Technique raw, sec_FloodPath = r_FloodPath raw,
                   sec_FloodRate = r_FloodRate raw, sec_FloodDuration = r_FloodDuration raw,
                   sec_FloodThrottle = r_FloodThrottle raw, sec_Thresholds = []\<rparr>\<rparr>
            else node);
          node2 = (if r_Kind raw = ''plugin''
            then node1\<lparr>n_Plugin := Some \<lparr>pl_Name = r_Variant raw, pl_Op = r_PluginOp raw,
                   pl_Config = AnyMap (r_PluginConfig raw)\<rparr>\<rparr>
            else node1)
      in if r_Kind raw = ''traffic''
         then (case v_loadSpec env raw (g_SourceFiles suite) of
                 Inl err \<Rightarrow> Inl (ParseFailed err)
               | Inr spec \<Rightarrow> Inr (node2\<lparr>n_Load := Some spec\<rparr>))
         else Inr node2)"

subsection \<open>The pre-hook\<close>

definition explicitSuiteSourceContent :: "source_file list \<Rightarrow> string \<Rightarrow> string option" where
  "explicitSuiteSourceContent files path =
     map_option f_Content (find (\<lambda>f. TrimSpace (f_Path f) = TrimSpace path) files)"

definition namespacePreHookNodes :: "topology_node list \<Rightarrow> topology_node list" where
  "namespacePreHookNodes nodes =
     (let qualify = in_namespace ''pre-hook'' in
      map (\<lambda>n. n\<lparr>n_ID := qualify (n_ID n), n_Name := ''pre-hook'' @ ''/'' @ n_Name n,
                 n_DependsOn := map qualify (n_DependsOn n), n_OnFailure := map qualify (n_OnFailure n),
                 n_ResetMocks := map qualify (n_ResetMocks n)\<rparr>) nodes)"

fun pre_hook_nodes :: "resolver_env \<Rightarrow> suite_definition \<Rightarrow> raw_node list \<Rightarrow> suite_error + topology_node list" where
  "pre_hook_nodes env suite [] = Inr []"
| "pre_hook_nodes env suite (raw # raws) =
     (if r_Kind raw = ''suite'' then Inl PreHookImportsSuite
      else case topologyNodeFromRaw env raw suite Map.empty of
          Inl err \<Rightarrow> Inl (PreHookInvalid err)
        | Inr node \<Rightarrow>
            (case pre_hook_nodes env suite raws of
               Inl err \<Rightarrow> Inl err
             | Inr nodes \<Rightarrow> Inr (node # nodes)))"

definition resolvePreHookNodes :: "resolver_env \<Rightarrow> suite_definition \<Rightarrow> suite_error + topology_node list" where
  "resolvePreHookNodes env suite =
     (case explicitSuiteSourceContent (g_SourceFiles suite) ''pre-hook.star'' of
        None \<Rightarrow> Inr []
      | Some src \<Rightarrow>
          if TrimSpace src = [] then Inr []
          else case v_parseRaw env src of
              Inl err \<Rightarrow> Inl (PreHookInvalid (ParseFailed err))
            | Inr raws \<Rightarrow>
                (case pre_hook_nodes env suite (resolveAssignmentDependencies raws) of
                   Inl err \<Rightarrow> Inl err
                 | Inr [] \<Rightarrow> Inl PreHookEmpty
                 | Inr nodes \<Rightarrow> Inr (namespacePreHookNodes nodes)))"

definition pre_hook_gates :: "topology_node list \<Rightarrow> string list" where
  "pre_hook_gates preHookNodes =
     (let depended = concat (map n_DependsOn preHookNodes) in
      map n_ID (filter (\<lambda>n. n_ID n \<notin> set depended) preHookNodes))"

definition prependPreHookNodes :: "topology_node list \<Rightarrow> topology_node list \<Rightarrow> topology_node list" where
  "prependPreHookNodes suiteNodes preHookNodes =
     (if preHookNodes = [] then suiteNodes
      else preHookNodes @
        map (\<lambda>n. if n_DependsOn n = [] then n\<lparr>n_DependsOn := pre_hook_gates preHookNodes\<rparr> else n) suiteNodes)"

subsection \<open>Resolving a suite\<close>

type_synonym cache = "string \<rightharpoonup> resolved_topology"

definition import_nodes :: "raw_node \<Rightarrow> imports_map \<Rightarrow> topology_node list" where
  "import_nodes raw imports =
     (let expansion = (case imports (r_ID raw) of Some x \<Rightarrow> x | None \<Rightarrow> empty_import);
          rootDependsOn = expandImportedDependencies (r_DependsOn raw) imports
      in map (\<lambda>node. if n_ID node \<in> set (im_EntryIDs expansion)
                     then node\<lparr>n_DependsOn := normalizeDependencies (rootDependsOn @ n_DependsOn node)\<rparr>
                     else node) (im_Nodes expansion))"

fun final_nodes ::
  "resolver_env \<Rightarrow> suite_definition \<Rightarrow> imports_map \<Rightarrow> raw_node list \<Rightarrow> suite_error + topology_node list" where
  "final_nodes env suite imports [] = Inr []"
| "final_nodes env suite imports (raw # raws) =
     (if r_Kind raw = ''suite'' then
        (case final_nodes env suite imports raws of
           Inl err \<Rightarrow> Inl err
         | Inr nodes \<Rightarrow> Inr (import_nodes raw imports @ nodes))
      else case topologyNodeFromRaw env raw suite imports of
          Inl err \<Rightarrow> Inl err
        | Inr node \<Rightarrow>
            (case final_nodes env suite imports raws of
               Inl err \<Rightarrow> Inl err
             | Inr nodes \<Rightarrow> Inr (node # nodes)))"

definition number_nodes :: "topology_node list \<Rightarrow> topology_node list" where
  "number_nodes nodes = map (\<lambda>(index, n). n\<lparr>n_Order := int index\<rparr>) (List.enumerate 0 nodes)"

definition order_suite ::
  "resolver_env \<Rightarrow> suite_definition \<Rightarrow> raw_node list \<Rightarrow> imports_map \<Rightarrow> suite_error + topology_node list" where
  "order_suite env suite rawNodes imports =
     (case final_nodes env suite imports rawNodes of
        Inl err \<Rightarrow> Inl err
      | Inr final \<Rightarrow>
          (case resolvePreHookNodes env suite of
             Inl err \<Rightarrow> Inl err
           | Inr preHook \<Rightarrow>
               (case resolveTopology (number_nodes (prependPreHookNodes final preHook)) of
                  Inl err \<Rightarrow> Inl (TopologyRefused err)
                | Inr nodes \<Rightarrow> Inr nodes)))"

text \<open>
  \<open>resolve_suite\<close> is the method \<open>resolveSuite\<close> with the resolver's cache threaded through, and
  \<open>resolve_imports\<close> its loop over the steps that import a suite.
\<close>

function resolve_suite ::
  "nat \<Rightarrow> resolver_env \<Rightarrow> suite_catalog \<Rightarrow> cache \<Rightarrow> suite_definition \<Rightarrow> string list \<Rightarrow>
   (suite_error + resolved_topology) \<times> cache"
  and resolve_imports ::
  "nat \<Rightarrow> resolver_env \<Rightarrow> suite_catalog \<Rightarrow> cache \<Rightarrow> string list \<Rightarrow> (string \<rightharpoonup> dependency_entry) \<Rightarrow>
   (string \<rightharpoonup> dependency_lock_entry) \<Rightarrow> raw_node list \<Rightarrow> imports_map \<Rightarrow> resolved_dependency list \<Rightarrow>
   (suite_error + imports_map \<times> resolved_dependency list) \<times> cache" where
  "resolve_suite 0 env byid cached suite stack = (Inl NeedsFuel, cached)"
| "resolve_suite (Suc k) env byid cached suite stack =
     (let i = TrimSpace (g_ID suite) in
      case cached i of
        Some r \<Rightarrow> (Inr r, cached)
      | None \<Rightarrow>
          (case ValidateDefinition suite of
             Some err \<Rightarrow> (Inl (InvalidPackage err), cached)
           | None \<Rightarrow>
               if i \<in> set stack then (Inl (NestedSuiteCycle (stack @ [i])), cached)
               else case v_parseRaw env (g_SuiteStar suite) of
                   Inl err \<Rightarrow> (Inl (ParseFailed err), cached)
                 | Inr raw0 \<Rightarrow>
                     let rawNodes = resolveAssignmentDependencies raw0 in
                     (case parseDependencyManifest env (g_SourceFiles suite) of
                        Inl err \<Rightarrow> (Inl err, cached)
                      | Inr manifest \<Rightarrow>
                          (case parseDependencyLockManifest env (g_SourceFiles suite) of
                             Inl err \<Rightarrow> (Inl err, cached)
                           | Inr locks \<Rightarrow>
                               (case resolve_imports k env byid cached (stack @ [i]) manifest locks rawNodes Map.empty [] of
                                  (Inl err, cached') \<Rightarrow> (Inl err, cached')
                                | (Inr (imports, deps), cached') \<Rightarrow>
                                    (case order_suite env suite rawNodes imports of
                                       Inl err \<Rightarrow> (Inl err, cached')
                                     | Inr nodes \<Rightarrow>
                                         let result = \<lparr>rt_Nodes = nodes, rt_Dependencies = deps\<rparr>
                                         in (Inr result, cached'(i \<mapsto> result))))))))"
| "resolve_imports k env byid cached stack manifest locks [] imports deps = (Inr (imports, deps), cached)"
| "resolve_imports k env byid cached stack manifest locks (raw # raws) imports deps =
     (if r_Kind raw \<noteq> ''suite'' then resolve_imports k env byid cached stack manifest locks raws imports deps
      else case manifest (r_Ref raw) of
          None \<Rightarrow> (Inl (MissingAlias (r_Ref raw)), cached)
        | Some entry \<Rightarrow>
            (case resolveDependency byid (r_Ref raw) entry
                    (case locks (r_Ref raw) of Some l \<Rightarrow> l | None \<Rightarrow> zero_lock) of
               Inl err \<Rightarrow> (Inl err, cached)
             | Inr (dependency, childSuite) \<Rightarrow>
                 (case resolve_suite k env byid cached childSuite stack of
                    (Inl err, cached') \<Rightarrow> (Inl err, cached')
                  | (Inr child, cached') \<Rightarrow>
                      (case namespaceImportedTopology env raw childSuite (rt_Nodes child) dependency of
                         Inl err \<Rightarrow> (Inl err, cached')
                       | Inr im \<Rightarrow>
                           resolve_imports k env byid cached' stack manifest locks raws
                             (imports(r_ID raw \<mapsto> im)) (deps @ [dependency])))))"
  by pat_completeness auto
termination
  by (relation "inv_image (less_than <*lex*> less_than)
      (\<lambda>x. case x of Inl (k, env, byid, cached, suite, stack) \<Rightarrow> (2 * k, 0)
         | Inr (k, env, byid, cached, stack, manifest, locks, raws, imports, deps) \<Rightarrow> (2 * k + 1, length raws))") auto

definition resolver_fuel :: "suite_catalog \<Rightarrow> nat" where
  "resolver_fuel byid = length byid + 2"

definition ResolveRuntime ::
  "resolver_env \<Rightarrow> suite_definition \<Rightarrow> suite_definition list \<Rightarrow> suite_error + resolved_topology" where
  "ResolveRuntime env suite catalog =
     (let byid = newTopologyResolver catalog in
      fst (resolve_suite (resolver_fuel byid) env byid Map.empty suite []))"

definition ResolveTopology ::
  "resolver_env \<Rightarrow> suite_definition \<Rightarrow> suite_definition list \<Rightarrow> suite_error + topology_node list" where
  "ResolveTopology env suite catalog =
     (case ResolveRuntime env suite catalog of Inl err \<Rightarrow> Inl err | Inr r \<Rightarrow> Inr (rt_Nodes r))"

text \<open>The text of an error is the argument \<open>render\<close>.\<close>

definition ResolveDefinitionTopology ::
  "(suite_error \<Rightarrow> string) \<Rightarrow> resolver_env \<Rightarrow> suite_definition \<Rightarrow> suite_definition list \<Rightarrow> suite_definition" where
  "ResolveDefinitionTopology render env suite catalog =
     (case ResolveRuntime env suite catalog of
        Inl err \<Rightarrow> suite\<lparr>g_Topology := [], g_ResolvedDependencies := [], g_TopologyError := render err\<rparr>
      | Inr r \<Rightarrow> suite\<lparr>g_Topology := rt_Nodes r, g_ResolvedDependencies := rt_Dependencies r, g_TopologyError := []\<rparr>)"

subsection \<open>The fuel is enough\<close>

lemma byid_keys:
  assumes "(k, s) \<in> set (newTopologyResolver catalog)"
  shows "k = TrimSpace (g_ID s)"
proof -
  have "\<forall>(k, s)\<in>set (newTopologyResolver catalog). k = TrimSpace (g_ID s)"
    unfolding newTopologyResolver_def
  proof (rule fold_invariant [where Q = "\<lambda>_. True" and P = "\<lambda>m. \<forall>(k, s)\<in>set m. k = TrimSpace (g_ID s)"])
    fix x :: suite_definition and m :: suite_catalog
    assume m: "\<forall>(k, s)\<in>set m. k = TrimSpace (g_ID s)"
    have "set (AList.update (TrimSpace (g_ID x)) x m) \<subseteq> insert (TrimSpace (g_ID x), x) (set m)"
      by (induction m) auto
    with m show "\<forall>(k, s)\<in>set (AList.update (TrimSpace (g_ID x)) x m). k = TrimSpace (g_ID s)" by fastforce
  qed simp_all
  with assms show ?thesis by blast
qed

lemma candidates_in: "c \<in> set (candidates byid ref nref) \<Longrightarrow> c \<in> snd ` set byid"
  by (auto simp: candidates_def)

lemma resolveDependency_in:
  assumes "resolveDependency byid alias entry lock = Inr (dep, child)"
  shows "child \<in> snd ` set byid"
proof -
  let ?ref = "TrimSpace (de_Ref entry)"
  have "\<exists>v. candidates byid ?ref (fst (splitDependencyRef ?ref)) \<noteq> [] \<and>
      select_candidate (fst (splitDependencyRef ?ref)) v (candidates byid ?ref (fst (splitDependencyRef ?ref))) = Inr child"
    using assms unfolding resolveDependency_def Let_def by (auto split: if_splits sum.splits)
  then have "child \<in> set (candidates byid ?ref (fst (splitDependencyRef ?ref)))"
    by (auto simp: select_candidate_def find_Some_iff split: if_splits option.splits)
  then show ?thesis by (rule candidates_in)
qed

text \<open>Neither parsing nor ordering reports missing fuel.\<close>

lemma topologyNodeFromRaw_fuel: "topologyNodeFromRaw env raw suite imports \<noteq> Inl NeedsFuel"
  by (auto simp: topologyNodeFromRaw_def Let_def split: sum.split)

lemma final_nodes_fuel: "final_nodes env suite imports raws \<noteq> Inl NeedsFuel"
  using topologyNodeFromRaw_fuel by (induction raws) (auto split: sum.splits)

lemma pre_hook_nodes_fuel: "pre_hook_nodes env suite raws \<noteq> Inl NeedsFuel"
  by (induction raws) (auto split: sum.splits)

lemma resolvePreHookNodes_fuel: "resolvePreHookNodes env suite \<noteq> Inl NeedsFuel"
  using pre_hook_nodes_fuel by (auto simp: resolvePreHookNodes_def split: option.splits sum.splits list.splits)

lemma order_suite_fuel: "order_suite env suite raws imports \<noteq> Inl NeedsFuel"
  using final_nodes_fuel resolvePreHookNodes_fuel by (auto simp: order_suite_def split: sum.splits)

lemma namespaceImportedTopology_fuel: "namespaceImportedTopology env raw child nodes dep \<noteq> Inl NeedsFuel"
  by (auto simp: namespaceImportedTopology_def parseDependencyProfileRuntime_def Let_def
      split: sum.splits option.splits if_splits)

lemma manifest_fuel:
  "parseDependencyManifest env files \<noteq> Inl NeedsFuel" "parseDependencyLockManifest env files \<noteq> Inl NeedsFuel"
  by (auto simp: parseDependencyManifest_def parseDependencyLockManifest_def split: option.splits sum.splits)

lemma resolveDependency_fuel: "resolveDependency byid alias entry lock \<noteq> Inl NeedsFuel"
  by (auto simp: resolveDependency_def select_candidate_def resolveDependencyProfile_def Let_def
      split: option.splits sum.splits if_splits)

definition open_suites :: "suite_catalog \<Rightarrow> string list \<Rightarrow> nat" where
  "open_suites byid stack = card (fst ` set byid - set stack)"

lemma open_suites_push:
  "open_suites byid (stack @ [i]) \<le> open_suites byid stack"
  "i \<in> fst ` set byid \<Longrightarrow> i \<notin> set stack \<Longrightarrow> Suc (open_suites byid (stack @ [i])) = open_suites byid stack"
proof -
  show "open_suites byid (stack @ [i]) \<le> open_suites byid stack"
    unfolding open_suites_def by (rule card_mono) auto
  assume "i \<in> fst ` set byid" "i \<notin> set stack"
  then have "fst ` set byid - set stack = insert i (fst ` set byid - set (stack @ [i]))" by auto
  then show "Suc (open_suites byid (stack @ [i])) = open_suites byid stack"
    unfolding open_suites_def by (metis DiffD2 List.finite_set card_insert_disjoint finite_Diff finite_imageI in_set_conv_decomp)
qed

lemma resolve_imports_fuel:
  assumes child: "\<And>cached suite. suite \<in> snd ` set byid \<Longrightarrow>
      fst (resolve_suite k env byid cached suite stack) \<noteq> Inl NeedsFuel"
  shows "fst (resolve_imports k env byid cached stack manifest locks raws ims deps) \<noteq> Inl NeedsFuel"
proof (induction raws arbitrary: cached ims deps)
  case (Cons raw raws)
  have sub: "fst (resolve_suite k env byid cached s stack) \<noteq> Inl NeedsFuel"
    if "resolveDependency byid al entry lock = Inr (dep, s)" for al entry lock dep s
    using resolveDependency_in [OF that] by (rule child)
  show ?case
    using Cons.IH resolveDependency_fuel namespaceImportedTopology_fuel sub
    by (auto split: option.split sum.split prod.split) (metis fst_conv)+
qed simp

lemma resolve_suite_fuel:
  assumes keys: "\<And>s. s \<in> snd ` set byid \<Longrightarrow> TrimSpace (g_ID s) \<in> fst ` set byid"
  shows "TrimSpace (g_ID suite) \<in> fst ` set byid \<and> open_suites byid stack < k \<or>
      Suc (open_suites byid stack) < k \<Longrightarrow>
    fst (resolve_suite k env byid cached suite stack) \<noteq> Inl NeedsFuel"
proof (induction k arbitrary: cached suite stack)
  case (Suc k)
  let ?i = "TrimSpace (g_ID suite)"
  show ?case
  proof (cases "?i \<in> set stack")
    case True
    then show ?thesis by (auto simp: Let_def split: option.split)
  next
    case False
    have "open_suites byid (stack @ [?i]) < k"
      using Suc.prems open_suites_push [where i = ?i and stack = stack and byid = byid] False
      by (cases "?i \<in> fst ` set byid") auto
    then have "fst (resolve_suite k env byid c s (stack @ [?i])) \<noteq> Inl NeedsFuel" if "s \<in> snd ` set byid" for c s
      using keys [OF that] by (intro Suc.IH) auto
    then have imp: "fst (resolve_imports k env byid c (stack @ [?i]) mf locks raws ims deps) \<noteq> Inl NeedsFuel"
      for c mf locks raws ims deps
      by (rule resolve_imports_fuel)
    show ?thesis
      using False manifest_fuel order_suite_fuel imp
      by (auto simp: Let_def split: option.split sum.split prod.split) (metis fst_conv)+
  qed
qed simp

lemma ResolveRuntime_fuel: "ResolveRuntime env suite catalog \<noteq> Inl NeedsFuel"
proof -
  let ?byid = "newTopologyResolver catalog"
  have keys: "TrimSpace (g_ID s) \<in> fst ` set ?byid" if "s \<in> snd ` set ?byid" for s
    using that byid_keys [of _ s catalog] by force
  have "open_suites ?byid [] \<le> length ?byid"
    unfolding open_suites_def using card_image_le [of "set ?byid" fst] card_length [of ?byid] by simp
  then show ?thesis
    unfolding ResolveRuntime_def Let_def resolver_fuel_def
    by (intro resolve_suite_fuel keys) simp_all
qed

subsection \<open>What every resolved suite satisfies\<close>

definition cache_all :: "(topology_node list \<Rightarrow> bool) \<Rightarrow> cache \<Rightarrow> bool" where
  "cache_all P cached \<longleftrightarrow> (\<forall>i r. cached i = Some r \<longrightarrow> P (rt_Nodes r))"

definition outcome_all :: "(topology_node list \<Rightarrow> bool) \<Rightarrow> (suite_error + resolved_topology) \<times> cache \<Rightarrow> bool" where
  "outcome_all P res \<longleftrightarrow> (\<forall>r. fst res = Inr r \<longrightarrow> P (rt_Nodes r)) \<and> cache_all P (snd res)"

lemma cache_all_put: "cache_all P cached \<Longrightarrow> P (rt_Nodes r) \<Longrightarrow> cache_all P (cached(i \<mapsto> r))"
  by (auto simp: cache_all_def)

lemma resolve_imports_all:
  assumes child: "\<And>cached suite. cache_all P cached \<Longrightarrow> outcome_all P (resolve_suite k env byid cached suite stack)"
  shows "cache_all P cached \<Longrightarrow> cache_all P (snd (resolve_imports k env byid cached stack manifest locks raws ims deps))"
proof (induction raws arbitrary: cached ims deps)
  case (Cons raw raws)
  have "cache_all P c'" if "resolve_suite k env byid cached s stack = (res, c')" for s res c'
    using child [OF Cons.prems, of s] that by (simp add: outcome_all_def)
  with Cons show ?case by (auto split: option.split sum.split prod.split)
qed simp

lemma resolve_suite_all:
  assumes ordered: "\<And>s raws ims nodes. order_suite env s raws ims = Inr nodes \<Longrightarrow> P nodes"
  shows "cache_all P cached \<Longrightarrow> outcome_all P (resolve_suite k env byid cached suite stack)"
proof (induction k arbitrary: cached suite stack)
  case 0
  then show ?case by (simp add: outcome_all_def)
next
  case (Suc k)
  let ?i = "TrimSpace (g_ID suite)"
  have imp: "cache_all P c'"
    if "resolve_imports k env byid cached (stack @ [?i]) mf locks raws ims deps = (res, c')" for mf locks raws ims deps res c'
    using resolve_imports_all [OF Suc.IH Suc.prems, of "stack @ [?i]" mf locks raws ims deps] that by simp
  show ?case
    using Suc.prems ordered imp
    by (auto simp: outcome_all_def cache_all_put Let_def cache_all_def [of P cached]
        split: option.split sum.split prod.split)
qed

lemma ResolveRuntime_all:
  assumes "\<And>s raws ims nodes. order_suite env s raws ims = Inr nodes \<Longrightarrow> P nodes"
    "ResolveRuntime env suite catalog = Inr r"
  shows "P (rt_Nodes r)"
  using resolve_suite_all [of env P Map.empty] assms
  by (auto simp: ResolveRuntime_def Let_def outcome_all_def cache_all_def)

lemma order_suite_ordered:
  "order_suite env s raws ims = Inr nodes \<Longrightarrow> deps_before {} nodes \<and> levels_ok nodes"
  using suites_order.ordered suites_order.levels
  by (auto simp: order_suite_def split: sum.splits)

subsection \<open>Positions in a resolved topology\<close>

definition pos :: "topology_node list \<Rightarrow> string \<Rightarrow> nat" where
  "pos out i = length (takeWhile (\<lambda>n. n_ID n \<noteq> i) out)"

lemma deps_before_pos:
  "deps_before seen out \<Longrightarrow> n \<in> set out \<Longrightarrow> d \<in> set (n_DependsOn n) \<Longrightarrow> d \<notin> seen \<Longrightarrow> pos out d < pos out (n_ID n)"
proof (induction out arbitrary: seen)
  case (Cons m out)
  show ?case
  proof (cases "n = m")
    case True
    with Cons.prems show ?thesis by auto
  next
    case False
    then have n: "n \<in> set out" using Cons.prems(2) by simp
    moreover have "n_ID m \<notin> step_ids out"
      using deps_before_distinct [of "insert (n_ID m) seen" out] Cons.prems(1) by auto
    ultimately have "n_ID n \<noteq> n_ID m" by (metis image_eqI step_ids_def)
    with Cons.IH [of "insert (n_ID m) seen"] Cons.prems n show ?thesis by (auto simp: pos_def)
  qed
qed simp

text \<open>
  In a list in dependency order, a set of steps each of which is required by another step of a
  wider set lies before every step that requires all of its final steps.
\<close>

lemma reaches_final:
  fixes rank :: "string \<Rightarrow> nat"
  assumes "finite S" "p \<in> S"
    and next_step: "\<And>i. i \<in> S \<Longrightarrow> i \<notin> F \<Longrightarrow> \<exists>j\<in>S. rank i < rank j"
  shows "\<exists>g\<in>S \<inter> F. rank p \<le> rank g"
  using assms(2)
proof (induction "Max (rank ` S) - rank p" arbitrary: p rule: less_induct)
  case less
  show ?case
  proof (cases "p \<in> F")
    case True
    with less.prems show ?thesis by blast
  next
    case False
    then obtain j where j: "j \<in> S" "rank p < rank j" using next_step less.prems by blast
    have "rank j \<le> Max (rank ` S)" using assms(1) j(1) by simp
    then have "Max (rank ` S) - rank j < Max (rank ` S) - rank p" using j(2) by linarith
    from less.hyps [OF this j(1)] j(2) show ?thesis by (meson less_imp_le order_trans)
  qed
qed

lemma resolved_dep_pos:
  assumes res: "resolveTopology ns = Inr out" and n: "n \<in> set ns"
    and d: "d \<in> set (normalizeDependencies (n_DependsOn n))"
  shows "pos out d < pos out (n_ID n)" "d \<in> step_ids ns"
proof -
  have valid: "valid_nodes (map normalize_node ns)" using suites_order.success [OF res] by blast
  have "step_ids (map normalize_node ns) = step_ids ns" by (simp add: step_ids_def image_image)
  with valid show "d \<in> step_ids ns"
    using n d by (auto simp: valid_nodes_def normalize_node_def)
  have ids: "distinct (map n_ID ns)" using valid by (simp add: valid_nodes_def comp_def)
  have "set (map n_ID out) = set (map n_ID ns)" using suites_order.ids [OF res] by (metis set_mset_mset)
  then obtain x where x: "x \<in> set out" "n_ID x = n_ID n" using n by (metis imageE image_eqI set_map)
  then obtain src where src: "src \<in> set ns" "x = (normalize_node src)\<lparr>n_Level := n_Level x\<rparr>"
    using suites_order.nodes [OF res] by blast
  have "n_ID src = n_ID x"
    using arg_cong [OF src(2), of n_ID] by (simp add: normalize_node_def)
  then have "src = n" using ids src(1) n x(2) by (metis distinct_map inj_onD)
  then have "n_DependsOn x = normalizeDependencies (n_DependsOn n)"
    using arg_cong [OF src(2), of n_DependsOn] by (simp add: normalize_node_def)
  then show "pos out d < pos out (n_ID n)"
    using deps_before_pos [OF suites_order.ordered [OF res] x(1)] d x(2) by auto
qed

lemma number_nodes_mem: "n \<in> set ns \<Longrightarrow> \<exists>k. n\<lparr>n_Order := k\<rparr> \<in> set (number_nodes ns)"
proof -
  assume "n \<in> set ns"
  then obtain j where j: "j < length ns" "ns ! j = n" by (meson in_set_conv_nth)
  then have "number_nodes ns ! j = n\<lparr>n_Order := int j\<rparr>" "j < length (number_nodes ns)"
    by (simp_all add: number_nodes_def nth_enumerate_eq)
  then show ?thesis by (metis nth_mem)
qed

lemma number_nodes_ids [simp]: "step_ids (number_nodes ns) = step_ids ns" "map n_ID (number_nodes ns) = map n_ID ns"
proof -
  have "map n_ID (map (\<lambda>(index, n). n\<lparr>n_Order := int index\<rparr>) (List.enumerate k ns)) = map n_ID ns" for k
    by (induction ns arbitrary: k) auto
  then show "map n_ID (number_nodes ns) = map n_ID ns" by (simp add: number_nodes_def)
  then show "step_ids (number_nodes ns) = step_ids ns" unfolding step_ids_def by (metis set_map)
qed

lemma numbered_dep_pos:
  assumes "resolveTopology (number_nodes ns) = Inr out" "n \<in> set ns"
    "d \<in> set (normalizeDependencies (n_DependsOn n))"
  shows "pos out d < pos out (n_ID n)" "d \<in> step_ids ns"
proof -
  obtain k where "n\<lparr>n_Order := k\<rparr> \<in> set (number_nodes ns)" using number_nodes_mem [OF assms(2)] by blast
  from resolved_dep_pos [OF assms(1) this] assms(3)
  show "pos out d < pos out (n_ID n)" "d \<in> step_ids ns" by simp_all
qed

lemma normalize_trimmed_mem: "d \<in> set ds \<Longrightarrow> trimmed_id d \<Longrightarrow> d \<in> set (normalizeDependencies ds)"
  by (auto simp: set_normalizeDependencies trimmed_id_def image_iff) metis

lemma pre_hook_gates_set:
  "set (pre_hook_gates pre) = {i \<in> step_ids pre. \<forall>n\<in>set pre. i \<notin> set (n_DependsOn n)}"
  by (auto simp: pre_hook_gates_def Let_def step_ids_def)

lemma pre_hook_order:
  assumes res: "resolveTopology (number_nodes (prependPreHookNodes suiteNodes pre)) = Inr out"
    and ids: "\<forall>n\<in>set pre. trimmed_id (n_ID n) \<and> (\<forall>d\<in>set (n_DependsOn n). trimmed_id d)"
    and deps: "\<forall>n\<in>set suiteNodes. (\<forall>d\<in>set (n_DependsOn n). trimmed_id d \<and> d \<notin> step_ids pre)"
    and p: "p \<in> set pre"
  shows "n \<in> set suiteNodes \<Longrightarrow> pos out (n_ID p) < pos out (n_ID n)"
proof (induction "pos out (n_ID n)" arbitrary: n rule: less_induct)
  case less
  let ?all = "prependPreHookNodes suiteNodes pre"
  have all: "?all = pre @ map (\<lambda>n. if n_DependsOn n = [] then n\<lparr>n_DependsOn := pre_hook_gates pre\<rparr> else n) suiteNodes"
    using p by (auto simp: prependPreHookNodes_def)
  note dep_pos = numbered_dep_pos [OF res]
  have step: "\<exists>j\<in>step_ids pre. pos out i < pos out j" if i: "i \<in> step_ids pre" "i \<notin> set (pre_hook_gates pre)" for i
  proof -
    from i obtain q where q: "q \<in> set pre" "i \<in> set (n_DependsOn q)" by (auto simp: pre_hook_gates_set)
    then have "i \<in> set (normalizeDependencies (n_DependsOn q))" using ids normalize_trimmed_mem by blast
    then have "pos out i < pos out (n_ID q)" using dep_pos(1) [of q] q(1) all by simp
    with q(1) show ?thesis by (auto simp: step_ids_def)
  qed
  show ?case
  proof (cases "n_DependsOn n = []")
    case True
    obtain g where g: "g \<in> set (pre_hook_gates pre)" "pos out (n_ID p) \<le> pos out g"
      using reaches_final [of "step_ids pre" "n_ID p" "set (pre_hook_gates pre)" "pos out"] step p
      by (auto simp: step_ids_def)
    have "trimmed_id g" using g(1) ids by (auto simp: pre_hook_gates_set step_ids_def)
    then have "g \<in> set (normalizeDependencies (pre_hook_gates pre))" using g(1) normalize_trimmed_mem by blast
    moreover have "n\<lparr>n_DependsOn := pre_hook_gates pre\<rparr> \<in> set ?all"
      using less.prems True unfolding all by force
    ultimately have "pos out g < pos out (n_ID n)"
      using dep_pos(1) [of "n\<lparr>n_DependsOn := pre_hook_gates pre\<rparr>" g] by simp
    with g(2) show ?thesis by simp
  next
    case False
    then obtain d where d: "d \<in> set (n_DependsOn n)" by (meson hd_in_set)
    then have t: "trimmed_id d" "d \<notin> step_ids pre" using deps less.prems by blast+
    have n: "n \<in> set ?all" using less.prems False unfolding all by force
    note nd = dep_pos [OF n normalize_trimmed_mem [OF d t(1)]]
    have "d \<in> step_ids suiteNodes"
      using nd(2) t(2) unfolding all by (auto simp: step_ids_def image_iff split: if_splits)
    then obtain m where m: "m \<in> set suiteNodes" "n_ID m = d" by (auto simp: step_ids_def)
    with less.hyps [of m] nd(1) show ?thesis by simp
  qed
qed

subsection \<open>Imported suites keep their place in the order\<close>

lemma final_nodes_import:
  "final_nodes env suite ims raws = Inr final \<Longrightarrow> imp \<in> set raws \<Longrightarrow> r_Kind imp = ''suite'' \<Longrightarrow>
   set (import_nodes imp ims) \<subseteq> set final"
  by (induction raws arbitrary: final) (auto split: if_splits sum.splits)

lemma final_nodes_raw:
  "final_nodes env suite ims raws = Inr final \<Longrightarrow> raw \<in> set raws \<Longrightarrow> r_Kind raw \<noteq> ''suite'' \<Longrightarrow>
   \<exists>node\<in>set final. topologyNodeFromRaw env raw suite ims = Inr node"
  by (induction raws arbitrary: final) (auto split: if_splits sum.splits)

lemma topologyNodeFromRaw_refs:
  "topologyNodeFromRaw env raw suite ims = Inr node \<Longrightarrow>
   n_ID node = r_ID raw \<and> n_DependsOn node = expandImportedDependencies (r_DependsOn raw @ r_OnFailure raw) ims"
  by (auto simp: topologyNodeFromRaw_def Let_def zero_node_def split: if_splits sum.splits)

lemma prepend_keeps:
  "n \<in> set final \<Longrightarrow> n_DependsOn n \<noteq> [] \<Longrightarrow> n \<in> set (prependPreHookNodes final pre)"
  by (force simp: prependPreHookNodes_def)

lemma namespace_node_refs:
  "n_ID (namespace_node raw child dep rt known k n) = in_namespace (r_ID raw) (n_ID n)"
  "n_DependsOn (namespace_node raw child dep rt known k n) = remap_ids (r_ID raw) known (n_DependsOn n)"
  by (simp_all add: namespace_node_def)

lemma order_suite_dep:
  assumes ord: "order_suite env suite raws ims = Inr out"
    and final: "\<And>final. final_nodes env suite ims raws = Inr final \<Longrightarrow> n \<in> set final"
    and d: "d \<in> set (n_DependsOn n)" "trimmed_id d"
  shows "pos out d < pos out (n_ID n)"
proof -
  obtain fin pre where "final_nodes env suite ims raws = Inr fin"
    and res: "resolveTopology (number_nodes (prependPreHookNodes fin pre)) = Inr out"
    using ord by (auto simp: order_suite_def split: sum.splits)
  with final have "n \<in> set fin" by blast
  moreover have "n_DependsOn n \<noteq> []" using d(1) by auto
  ultimately have "n \<in> set (prependPreHookNodes fin pre)" by (rule prepend_keeps)
  from numbered_dep_pos(1) [OF res this normalize_trimmed_mem [OF d]] show ?thesis .
qed

text \<open>
  \<open>well_imported\<close>: \<open>im\<close> is what the resolver stores for the step \<open>imp\<close>, the nodes of its suite being
  in dependency order as every resolved suite's are, and no id carrying blanks.
\<close>

definition well_imported ::
  "resolver_env \<Rightarrow> raw_node list \<Rightarrow> imports_map \<Rightarrow> raw_node \<Rightarrow> topology_node list \<Rightarrow> topology_import \<Rightarrow> bool" where
  "well_imported env raws ims imp childNodes im \<longleftrightarrow>
     imp \<in> set raws \<and> r_Kind imp = ''suite'' \<and> ims (r_ID imp) = Some im \<and>
     (\<exists>child dep. namespaceImportedTopology env imp child childNodes dep = Inr im) \<and>
     childNodes \<noteq> [] \<and> deps_before {} childNodes \<and>
     (\<forall>n\<in>set childNodes. trimmed_id (in_namespace (r_ID imp) (n_ID n)))"

lemma well_imported_refs:
  assumes "well_imported env raws ims imp childNodes im"
  shows "\<forall>x\<in>set (im_Nodes im). \<exists>n\<in>set childNodes. n_ID x = in_namespace (r_ID imp) (n_ID n) \<and>
      n_DependsOn x = map (in_namespace (r_ID imp)) (n_DependsOn n)"
    and "\<forall>n\<in>set childNodes. \<exists>x\<in>set (im_Nodes im). n_ID x = in_namespace (r_ID imp) (n_ID n) \<and>
      n_DependsOn x = map (in_namespace (r_ID imp)) (n_DependsOn n)"
    and "set (im_ExitIDs im) = in_namespace (r_ID imp) ` {i \<in> step_ids childNodes. \<forall>n\<in>set childNodes. i \<notin> set (n_DependsOn n)}"
    and "\<And>n. n \<in> set childNodes \<Longrightarrow> n_DependsOn n = [] \<Longrightarrow> in_namespace (r_ID imp) (n_ID n) \<in> set (im_EntryIDs im)"
proof -
  obtain child dep where ns: "namespaceImportedTopology env imp child childNodes dep = Inr im"
    and ne: "childNodes \<noteq> []" and before: "deps_before {} childNodes"
    using assms by (auto simp: well_imported_def)
  have closed: "remap_ids (r_ID imp) (map n_ID childNodes) (n_DependsOn n) = map (in_namespace (r_ID imp)) (n_DependsOn n)"
    if "n \<in> set childNodes" for n
  proof -
    have "\<forall>d\<in>set (n_DependsOn n). d \<in> set (map n_ID childNodes)"
      using deps_before_closed [OF before that] by (auto simp: step_ids_def)
    then have "filter (\<lambda>d. d \<in> set (map n_ID childNodes)) (n_DependsOn n) = n_DependsOn n"
      by (rule filter_True)
    then show ?thesis by (simp add: remap_ids_def)
  qed
  obtain rt where rt: "parseDependencyProfileRuntime env (g_SourceFiles child) (d_Profile dep) = Inr rt"
    using ns ne by (auto simp: namespaceImportedTopology_def split: sum.splits)
  then have nodes: "im_Nodes im = map (\<lambda>(index, node).
        namespace_node imp child dep rt (map n_ID childNodes) index node) (List.enumerate 0 childNodes)"
    using ns ne by (auto simp: namespaceImportedTopology_def Let_def)
  show "\<forall>x\<in>set (im_Nodes im). \<exists>n\<in>set childNodes. n_ID x = in_namespace (r_ID imp) (n_ID n) \<and>
      n_DependsOn x = map (in_namespace (r_ID imp)) (n_DependsOn n)"
    unfolding nodes by (force simp: namespace_node_refs closed in_set_enumerate_eq)
  show "\<forall>n\<in>set childNodes. \<exists>x\<in>set (im_Nodes im). n_ID x = in_namespace (r_ID imp) (n_ID n) \<and>
      n_DependsOn x = map (in_namespace (r_ID imp)) (n_DependsOn n)"
  proof
    fix n assume n: "n \<in> set childNodes"
    then obtain k where "k < length childNodes" "childNodes ! k = n" by (meson in_set_conv_nth)
    then have "(k, n) \<in> set (List.enumerate 0 childNodes)" by (simp add: in_set_enumerate_eq)
    then show "\<exists>x\<in>set (im_Nodes im). n_ID x = in_namespace (r_ID imp) (n_ID n) \<and>
      n_DependsOn x = map (in_namespace (r_ID imp)) (n_DependsOn n)"
      unfolding nodes using n by (force simp: namespace_node_refs closed)
  qed
  show "set (im_ExitIDs im) = in_namespace (r_ID imp) ` {i \<in> step_ids childNodes. \<forall>n\<in>set childNodes. i \<notin> set (n_DependsOn n)}"
    using ns ne by (auto simp: namespaceImportedTopology_def Let_def step_ids_def split: sum.splits)
  show "in_namespace (r_ID imp) (n_ID n) \<in> set (im_EntryIDs im)" if "n \<in> set childNodes" "n_DependsOn n = []" for n
    using ns ne that by (force simp: namespaceImportedTopology_def Let_def list_ex_iff split: sum.splits)
qed

lemma import_nodes_mem:
  assumes "ims (r_ID imp) = Some im" "x \<in> set (im_Nodes im)"
  defines "y \<equiv> (if n_ID x \<in> set (im_EntryIDs im)
      then x\<lparr>n_DependsOn := normalizeDependencies (expandImportedDependencies (r_DependsOn imp) ims @ n_DependsOn x)\<rparr>
      else x)"
  shows "y \<in> set (import_nodes imp ims)"
  using assms unfolding import_nodes_def Let_def y_def by (auto intro!: image_eqI [of _ _ x])

lemma expand_exit_mem:
  assumes "a \<in> set ds" "ims a = Some im" "g \<in> set (im_ExitIDs im)" "trimmed_id g"
  shows "g \<in> set (expandImportedDependencies ds ims)"
proof -
  have "g \<in> set (expand_loop im_ExitIDs ims ds)" using assms(1-3) by (induction ds) auto
  then show ?thesis using assms(4) unfolding expandImportedDependencies_def by (rule normalize_trimmed_mem)
qed

lemma expand_trimmed: "d \<in> set (expandImportedDependencies ds ims) \<Longrightarrow> trimmed_id d"
  by (auto simp: expandImportedDependencies_def set_normalizeDependencies trimmed_id_def)

text \<open>A dependency of an imported step is still one in the assembled list.\<close>

lemma import_dep_pos:
  assumes ord: "order_suite env suite raws ims = Inr out" and wi: "well_imported env raws ims imp childNodes im"
    and n: "n \<in> set childNodes"
  shows "d \<in> set (n_DependsOn n) \<Longrightarrow>
      pos out (in_namespace (r_ID imp) d) < pos out (in_namespace (r_ID imp) (n_ID n))"
    and "n_DependsOn n = [] \<Longrightarrow> e \<in> set (expandImportedDependencies (r_DependsOn imp) ims) \<Longrightarrow>
      pos out e < pos out (in_namespace (r_ID imp) (n_ID n))"
proof -
  have imp: "imp \<in> set raws" "r_Kind imp = ''suite''" "ims (r_ID imp) = Some im"
    and trim: "\<forall>n\<in>set childNodes. trimmed_id (in_namespace (r_ID imp) (n_ID n))"
    and before: "deps_before {} childNodes"
    using wi by (simp_all add: well_imported_def)
  obtain x where x: "x \<in> set (im_Nodes im)" "n_ID x = in_namespace (r_ID imp) (n_ID n)"
    "n_DependsOn x = map (in_namespace (r_ID imp)) (n_DependsOn n)"
    using well_imported_refs(2) [OF wi] n by blast
  let ?y = "if n_ID x \<in> set (im_EntryIDs im)
      then x\<lparr>n_DependsOn := normalizeDependencies (expandImportedDependencies (r_DependsOn imp) ims @ n_DependsOn x)\<rparr>
      else x"
  have y: "\<And>final. final_nodes env suite ims raws = Inr final \<Longrightarrow> ?y \<in> set final"
    using final_nodes_import imp import_nodes_mem [of ims imp im x] x(1) by blast
  have yid: "n_ID ?y = in_namespace (r_ID imp) (n_ID n)" using x(2) by simp
  {
    assume d: "d \<in> set (n_DependsOn n)"
    then have "d \<in> step_ids childNodes" using deps_before_closed [OF before n] by blast
    then have t: "trimmed_id (in_namespace (r_ID imp) d)" using trim by (auto simp: step_ids_def)
    have "in_namespace (r_ID imp) d \<in> set (n_DependsOn ?y)"
      using d x(3) normalize_trimmed_mem [OF _ t] by auto
    from order_suite_dep [OF ord y this t] yid
    show "pos out (in_namespace (r_ID imp) d) < pos out (in_namespace (r_ID imp) (n_ID n))" by simp
  }
  {
    assume "n_DependsOn n = []" and e: "e \<in> set (expandImportedDependencies (r_DependsOn imp) ims)"
    then have "n_ID x \<in> set (im_EntryIDs im)" using well_imported_refs(4) [OF wi n] x(2) by simp
    then have "e \<in> set (n_DependsOn ?y)" using normalize_trimmed_mem [OF _ expand_trimmed [OF e]] e by auto
    from order_suite_dep [OF ord y this expand_trimmed [OF e]] yid
    show "pos out e < pos out (in_namespace (r_ID imp) (n_ID n))" by simp
  }
qed

lemma import_before_dependants:
  assumes ord: "order_suite env suite raws ims = Inr out" and wi: "well_imported env raws ims imp childNodes im"
    and raw: "raw \<in> set raws" "r_Kind raw \<noteq> ''suite''" "r_ID imp \<in> set (r_DependsOn raw)"
    and x: "x \<in> set (im_Nodes im)"
  shows "pos out (n_ID x) < pos out (r_ID raw)"
proof -
  let ?ns = "in_namespace (r_ID imp)"
  let ?exits = "{i \<in> step_ids childNodes. \<forall>n\<in>set childNodes. i \<notin> set (n_DependsOn n)}"
  obtain n where n: "n \<in> set childNodes" "n_ID x = ?ns (n_ID n)"
    using well_imported_refs(1) [OF wi] x by blast
  have step: "\<exists>j\<in>step_ids childNodes. pos out (?ns i) < pos out (?ns j)"
    if i: "i \<in> step_ids childNodes" "i \<notin> ?exits" for i
  proof -
    from i obtain m where "m \<in> set childNodes" "i \<in> set (n_DependsOn m)" by blast
    from import_dep_pos(1) [OF ord wi this] this show ?thesis by (auto simp: step_ids_def)
  qed
  then obtain g where g: "g \<in> ?exits" "pos out (?ns (n_ID n)) \<le> pos out (?ns g)"
    using reaches_final [of "step_ids childNodes" "n_ID n" ?exits "\<lambda>i. pos out (?ns i)"] n(1)
    by (auto simp: step_ids_def)
  have t: "trimmed_id (?ns g)" using g(1) wi by (auto simp: well_imported_def step_ids_def)
  have exit_id: "?ns g \<in> set (im_ExitIDs im)" using g(1) well_imported_refs(3) [OF wi] by blast
  have "ims (r_ID imp) = Some im" using wi by (simp add: well_imported_def)
  then have dep: "?ns g \<in> set (expandImportedDependencies (r_DependsOn raw @ r_OnFailure raw) ims)"
    using raw(3) by (intro expand_exit_mem [OF _ _ exit_id t]) auto
  obtain fin where fin: "final_nodes env suite ims raws = Inr fin"
    using ord by (auto simp: order_suite_def split: sum.splits)
  obtain node where node: "node \<in> set fin" "topologyNodeFromRaw env raw suite ims = Inr node"
    using final_nodes_raw [OF fin raw(1,2)] by blast
  note refs = topologyNodeFromRaw_refs [OF node(2)]
  have "pos out (?ns g) < pos out (n_ID node)"
    using order_suite_dep [OF ord _ _ t, of node] fin node(1) dep refs by auto
  with g(2) n(2) refs show ?thesis by simp
qed

lemma import_after_dependencies:
  assumes ord: "order_suite env suite raws ims = Inr out" and wi: "well_imported env raws ims imp childNodes im"
    and e: "e \<in> set (expandImportedDependencies (r_DependsOn imp) ims)" and x: "x \<in> set (im_Nodes im)"
  shows "pos out e < pos out (n_ID x)"
proof -
  have "pos out e < pos out (in_namespace (r_ID imp) (n_ID n))" if "n \<in> set childNodes" for n
    using that
  proof (induction "pos out (in_namespace (r_ID imp) (n_ID n))" arbitrary: n rule: less_induct)
    case less
    show ?case
    proof (cases "n_DependsOn n = []")
      case True
      from import_dep_pos(2) [OF ord wi less.prems True e] show ?thesis .
    next
      case False
      then obtain d where d: "d \<in> set (n_DependsOn n)" by (meson hd_in_set)
      have "deps_before {} childNodes" using wi by (simp add: well_imported_def)
      then obtain m where m: "m \<in> set childNodes" "n_ID m = d"
        using deps_before_closed [OF _ less.prems] d by (fastforce simp: step_ids_def)
      have lt: "pos out (in_namespace (r_ID imp) d) < pos out (in_namespace (r_ID imp) (n_ID n))"
        by (rule import_dep_pos(1) [OF ord wi less.prems d])
      with less.hyps [of m] m show ?thesis by simp
    qed
  qed
  moreover obtain n where "n \<in> set childNodes" "n_ID x = in_namespace (r_ID imp) (n_ID n)"
    using well_imported_refs(1) [OF wi] x by blast
  ultimately show ?thesis by simp
qed

subsection \<open>Properties\<close>

text \<open>
  A small world for the witnesses: the suite \<open>main\<close> prepares, imports the suite \<open>lib\<close> and tests; its
  pre-hook has one step.
\<close>

definition plain_raw :: "string \<Rightarrow> string \<Rightarrow> string list \<Rightarrow> raw_node" where
  "plain_raw i kind ds = \<lparr>r_Assignment = i, r_ID = i, r_Name = i, r_Kind = kind, r_Variant = [], r_Image = [],
     r_File = [], r_Commands = [], r_Arguments = [], r_Ref = i, r_Target = [], r_Technique = [],
     r_FloodPath = [], r_FloodRate = 0, r_FloodDuration = 0, r_FloodThrottle = False, r_Message = [],
     r_Harden = False, r_DependsOn = ds, r_ResetMocks = [], r_OnFailure = [], r_ContinueOnFailure = False,
     r_Evaluation = None, r_Exports = [], r_Env = Map.empty, r_PluginOp = [], r_PluginConfig = [], r_Order = 0\<rparr>"

definition main_raws :: "raw_node list" where
  "main_raws = [plain_raw ''check'' ''test'' [''lib''], plain_raw ''lib'' ''suite'' [''prep''], plain_raw ''prep'' ''task'' []]"

definition lib_raws :: "raw_node list" where
  "lib_raws = [plain_raw ''db'' ''service'' [], plain_raw ''api'' ''service'' [''db'']]"

definition demo_env :: resolver_env where
  "demo_env = \<lparr>v_parseRaw = (\<lambda>src. Inr (if src = ''main'' then main_raws else if src = ''lib'' then lib_raws
        else [plain_raw ''ready'' ''task'' []])),
     v_yamlDependencies = (\<lambda>_. Inr [(''lib'', \<lparr>de_Ref = ''lib'', de_Version = [], de_Profile = [], de_Inputs = Map.empty\<rparr>)]),
     v_yamlLocks = (\<lambda>_. Inr []), v_yamlDocument = (\<lambda>_. Inr []), v_sprint = (\<lambda>_. []),
     v_loadSpec = (\<lambda>_ _. Inl (ErrorsNew []))\<rparr>"

definition demo_suite :: "string \<Rightarrow> source_file list \<Rightarrow> suite_definition" where
  "demo_suite i files = \<lparr>g_ID = i, g_Title = i, g_Repository = ''r/'' @ i, g_Version = ''1.0'', g_SuiteStar = i,
     g_Profiles = [], g_Folders = [], g_SeedSources = [], g_SourceFiles = files, g_Topology = [],
     g_TopologyError = [], g_ResolvedDependencies = []\<rparr>"

definition source :: "string \<Rightarrow> source_file" where
  "source path = \<lparr>f_Path = path, f_Language = [], f_Content = ''x''\<rparr>"

definition main_suite :: suite_definition where
  "main_suite = demo_suite ''main'' [source ''dependencies.yaml'', source ''pre-hook.star'']"

definition demo_catalog :: "suite_definition list" where
  "demo_catalog = [main_suite, demo_suite ''lib'' []]"

text \<open>C12. Resolving a suite always ends, whatever the catalog: nested imports go at most as deep as
  the catalog has suites, because a suite that imports itself through others is reported as a
  cycle. So the bound on the recursion is never reached.\<close>

theorem ResolveRuntime_terminates:
  "ResolveRuntime env suite catalog \<noteq> Inl NeedsFuel"
  by (rule ResolveRuntime_fuel)

text \<open>C13. Every topology the resolver returns, with all nested suites and the pre-hook expanded,
  lists each step once, after all its dependencies, with correct levels.\<close>

theorem ResolveTopology_ordered:
  assumes "ResolveTopology env suite catalog = Inr nodes"
  shows "deps_before {} nodes \<and> levels_ok nodes \<and> distinct (map n_ID nodes)"
proof -
  obtain r where "ResolveRuntime env suite catalog = Inr r" "rt_Nodes r = nodes"
    using assms by (auto simp: ResolveTopology_def split: sum.splits)
  then have "deps_before {} nodes \<and> levels_ok nodes"
    using ResolveRuntime_all [where P = "\<lambda>ns. deps_before {} ns \<and> levels_ok ns"] order_suite_ordered by blast
  then show ?thesis using deps_before_distinct by blast
qed

theorem ResolveTopology_ordered_witness:
  "\<exists>nodes. ResolveTopology demo_env (demo_suite ''lib'' []) [] = Inr nodes \<and> length nodes = 2 \<and> deps_before {} nodes"
proof -
  have "(case ResolveTopology demo_env (demo_suite ''lib'' []) [] of Inl _ \<Rightarrow> False | Inr nodes \<Rightarrow> length nodes = 2)"
    by code_simp
  then obtain nodes where "ResolveTopology demo_env (demo_suite ''lib'' []) [] = Inr nodes" "length nodes = 2"
    by (auto split: sum.splits)
  with ResolveTopology_ordered [OF this(1)] show ?thesis by blast
qed

definition lib_nodes :: "topology_node list" where
  "lib_nodes = [plain_step ''db'' [], plain_step ''api'' [''db'']]"

definition lib_dependency :: resolved_dependency where
  "lib_dependency = \<lparr>d_Alias = ''lib'', d_Ref = ''lib'', d_Version = ''1.0'', d_Resolved = [], d_Digest = [],
     d_Profile = [], d_Inputs = Map.empty, d_SuiteID = ''lib'', d_SuiteTitle = ''lib'',
     d_Repository = ''r/lib'', d_SourceFiles = []\<rparr>"

definition lib_import :: topology_import where
  "lib_import = (case namespaceImportedTopology demo_env (plain_raw ''lib'' ''suite'' [''prep'']) (demo_suite ''lib'' [])
      lib_nodes lib_dependency of Inl _ \<Rightarrow> empty_import | Inr im \<Rightarrow> im)"

lemma lib_well_imported:
  "well_imported demo_env main_raws [''lib'' \<mapsto> lib_import] (plain_raw ''lib'' ''suite'' [''prep'']) lib_nodes lib_import"
proof -
  let ?im = "namespaceImportedTopology demo_env (plain_raw ''lib'' ''suite'' [''prep'']) (demo_suite ''lib'' [])
      lib_nodes lib_dependency"
  have "(case ?im of Inl _ \<Rightarrow> False | Inr _ \<Rightarrow> True)" by code_simp
  then have "?im = Inr lib_import" by (auto simp: lib_import_def split: sum.splits)
  moreover have "TrimSpace ''lib/db'' = ''lib/db''" "TrimSpace ''lib/api'' = ''lib/api''" by code_simp+
  ultimately show ?thesis
    by (auto simp: well_imported_def main_raws_def plain_raw_def lib_nodes_def plain_step_def zero_node_def
        trimmed_id_def in_namespace_def)
qed

text \<open>C14. An imported suite keeps its place: in the resolved order, all its steps come after
  everything the importing step depends on, and before every step that depends on the importing
  step. The children carry the prefix of the importing step, so the rule survives nesting.\<close>

theorem import_in_place:
  assumes "order_suite env suite raws ims = Inr out" "well_imported env raws ims imp childNodes im"
    "x \<in> set (im_Nodes im)"
  shows "(\<forall>e\<in>set (expandImportedDependencies (r_DependsOn imp) ims). pos out e < pos out (n_ID x)) \<and>
    (\<forall>raw\<in>set raws. r_Kind raw \<noteq> ''suite'' \<longrightarrow> r_ID imp \<in> set (r_DependsOn raw) \<longrightarrow>
       pos out (n_ID x) < pos out (r_ID raw))"
  using import_before_dependants [OF assms(1,2) _ _ _ assms(3)] import_after_dependencies [OF assms(1,2) _ assms(3)]
  by blast

theorem import_in_place_witness:
  "\<exists>out. order_suite demo_env (demo_suite ''main'' []) main_raws [''lib'' \<mapsto> lib_import] = Inr out \<and>
     (\<forall>x\<in>set (im_Nodes lib_import). pos out (n_ID x) < pos out ''check'')"
proof -
  let ?ord = "order_suite demo_env (demo_suite ''main'' []) main_raws [''lib'' \<mapsto> lib_import]"
  have "(case ?ord of Inl _ \<Rightarrow> False | Inr _ \<Rightarrow> True)" by code_simp
  then obtain out where out: "?ord = Inr out" by (auto split: sum.splits)
  have check: "plain_raw ''check'' ''test'' [''lib''] \<in> set main_raws" by (simp add: main_raws_def)
  have "pos out (n_ID x) < pos out ''check''" if "x \<in> set (im_Nodes lib_import)" for x
    using import_in_place [OF out lib_well_imported that] check by (auto simp: plain_raw_def)
  with out show ?thesis by blast
qed

text \<open>The pre-hook is a gate: when a suite has one, every step of it comes before every step of
  the suite in the resolved order, provided that no suite step names a pre-hook step itself.\<close>

theorem pre_hook_gates_suite:
  assumes "resolveTopology (number_nodes (prependPreHookNodes suiteNodes pre)) = Inr out"
    "\<forall>n\<in>set pre. trimmed_id (n_ID n) \<and> (\<forall>d\<in>set (n_DependsOn n). trimmed_id d)"
    "\<forall>n\<in>set suiteNodes. (\<forall>d\<in>set (n_DependsOn n). trimmed_id d \<and> d \<notin> step_ids pre)"
    "p \<in> set pre" "n \<in> set suiteNodes"
  shows "pos out (n_ID p) < pos out (n_ID n)"
  using assms by (rule pre_hook_order)

theorem pre_hook_gates_suite_witness:
  "\<exists>out. resolveTopology (number_nodes (prependPreHookNodes lib_nodes (namespacePreHookNodes [plain_step ''ready'' []]))) = Inr out \<and>
     pos out ''pre-hook/ready'' < pos out ''api''"
proof -
  let ?pre = "namespacePreHookNodes [plain_step ''ready'' []]"
  let ?res = "resolveTopology (number_nodes (prependPreHookNodes lib_nodes ?pre))"
  have "(case ?res of Inl _ \<Rightarrow> False | Inr _ \<Rightarrow> True)" by code_simp
  then obtain out where out: "?res = Inr out" by (auto split: sum.splits)
  have trim: "TrimSpace ''pre-hook/ready'' = ''pre-hook/ready''" "TrimSpace ''db'' = ''db''" by code_simp+
  have "pos out (n_ID (hd ?pre)) < pos out (n_ID (plain_step ''api'' [''db'']))"
    by (rule pre_hook_gates_suite [OF out])
       (simp_all add: namespacePreHookNodes_def lib_nodes_def plain_step_def zero_node_def in_namespace_def
         trimmed_id_def trim step_ids_def)
  moreover have "n_ID (hd ?pre) = ''pre-hook/ready''" "n_ID (plain_step ''api'' [''db'']) = ''api''" by code_simp+
  ultimately show ?thesis using out by auto
qed

text \<open>A resolved dependency is the one that was asked for: the selected suite is in the catalog,
  its id or repository is the reference with or without its version, its version is the requested
  one whenever one was requested, and neither the reference nor the version is \<open>latest\<close>.\<close>

theorem resolveDependency_selects:
  assumes "resolveDependency byid alias entry lock = Inr (dep, child)"
  shows "let ref = TrimSpace (de_Ref entry); name = fst (splitDependencyRef ref);
             version = dependency_version ref entry lock
    in child \<in> snd ` set byid \<and> d_SuiteID dep = g_ID child \<and>
       (g_ID child \<in> {ref, name} \<or> g_Repository child \<in> {ref, name}) \<and>
       (version \<noteq> [] \<longrightarrow> TrimSpace (g_Version child) = version) \<and>
       \<not> dependencyUsesLatest ref \<and> \<not> EqualFold version ''latest''"
proof -
  let ?ref = "TrimSpace (de_Ref entry)"
  let ?name = "fst (splitDependencyRef ?ref)"
  let ?version = "dependency_version ?ref entry lock"
  have sel: "select_candidate ?name ?version (candidates byid ?ref ?name) = Inr child"
    and ne: "candidates byid ?ref ?name \<noteq> []"
    and latest: "\<not> dependencyUsesLatest ?ref" "\<not> EqualFold ?version ''latest''"
    and sid: "d_SuiteID dep = g_ID child"
    using assms by (auto simp: resolveDependency_def Let_def split: if_splits sum.splits)
  then have mem: "child \<in> set (candidates byid ?ref ?name)"
    by (auto simp: select_candidate_def find_Some_iff split: if_splits option.splits)
  have "?version \<noteq> [] \<longrightarrow> TrimSpace (g_Version child) = ?version"
    using sel by (auto simp: select_candidate_def find_Some_iff split: if_splits option.splits)
  with mem latest sid resolveDependency_in [OF assms] show ?thesis
    by (auto simp: Let_def candidates_def)
qed

theorem resolveDependency_selects_witness:
  "\<exists>dep child. resolveDependency (newTopologyResolver [demo_suite ''lib'' []]) ''lib''
      \<lparr>de_Ref = ''r/lib:1.0'', de_Version = [], de_Profile = [], de_Inputs = Map.empty\<rparr> zero_lock = Inr (dep, child) \<and>
     d_SuiteID dep = g_ID child"
proof -
  let ?r = "resolveDependency (newTopologyResolver [demo_suite ''lib'' []]) ''lib''
      \<lparr>de_Ref = ''r/lib:1.0'', de_Version = [], de_Profile = [], de_Inputs = Map.empty\<rparr> zero_lock"
  have "(case ?r of Inl _ \<Rightarrow> False | Inr _ \<Rightarrow> True)" by code_simp
  then obtain dep child where r: "?r = Inr (dep, child)" by (auto split: sum.splits)
  with resolveDependency_selects [OF r] show ?thesis by (auto simp: Let_def)
qed

text \<open>Splitting a reference undoes joining it: a name with a tag, where the tag has no slash or
  colon, splits into the name and the tag, also when the name contains a registry port, and a
  name with a digest splits at the \<open>@\<close>.\<close>

theorem splitDependencyRef_joined:
  "(TrimSpace (name @ '':'' @ tag) = name @ '':'' @ tag \<and> CHR ''@'' \<notin> set (name @ tag) \<and>
     CHR ''/'' \<notin> set tag \<and> CHR '':'' \<notin> set tag \<longrightarrow>
      splitDependencyRef (name @ '':'' @ tag) = (name, tag)) \<and>
   (TrimSpace (name @ ''@'' @ digest) = name @ ''@'' @ digest \<and> CHR ''@'' \<notin> set name \<longrightarrow>
      splitDependencyRef (name @ ''@'' @ digest) = (name, digest))"
proof (intro conjI impI)
  assume a: "TrimSpace (name @ '':'' @ tag) = name @ '':'' @ tag \<and> CHR ''@'' \<notin> set (name @ tag) \<and>
     CHR ''/'' \<notin> set tag \<and> CHR '':'' \<notin> set tag"
  have colon: "LastIndex (name @ '':'' @ tag) (CHR '':'') = int (length name)"
    using LastIndex_split [of "CHR '':''" tag name] a by simp
  have "LastIndex (name @ '':'' @ tag) (CHR ''/'') < int (length name)"
  proof (cases "CHR ''/'' \<in> set name")
    case True
    then obtain x y where xy: "name = x @ CHR ''/'' # y" "CHR ''/'' \<notin> set y" by (meson split_list_last)
    then show ?thesis using LastIndex_split [of "CHR ''/''" "y @ '':'' @ tag" x] a by simp
  next
    case False
    then have "LastIndex (name @ '':'' @ tag) (CHR ''/'') = -1" using a by (simp add: LastIndex_absent)
    then show ?thesis by simp
  qed
  moreover have "Cut (name @ '':'' @ tag) (CHR ''@'') = (name @ '':'' @ tag, [], False)"
    using a by (simp add: Cut_False)
  ultimately show "splitDependencyRef (name @ '':'' @ tag) = (name, tag)"
    using a colon by (simp add: splitDependencyRef_def)
next
  assume a: "TrimSpace (name @ ''@'' @ digest) = name @ ''@'' @ digest \<and> CHR ''@'' \<notin> set name"
  then have "Cut (name @ ''@'' @ digest) (CHR ''@'') = (name, digest, True)" by (simp add: Cut_True)
  with a show "splitDependencyRef (name @ ''@'' @ digest) = (name, digest)"
    by (simp add: splitDependencyRef_def)
qed

theorem splitDependencyRef_joined_witness:
  "splitDependencyRef ''localhost:5000/lib:1.0'' = (''localhost:5000/lib'', ''1.0'')"
proof -
  have "TrimSpace ''localhost:5000/lib:1.0'' = ''localhost:5000/lib:1.0''" by code_simp
  with splitDependencyRef_joined [of "''localhost:5000/lib''" "''1.0''" "[]"] show ?thesis by simp
qed

end
