(* ===== verification/Execution_Flow.thy ===== *)
theory Execution_Flow
  imports Go_Strings Suite_Types Topology_Order
begin

text \<open>
  One execution while its steps run: \<open>internal/execution/flow.go\<close>, the parts of \<open>runtime.go\<close> that
  create, boot, run and evict executions, and the snapshot of \<open>topology.go\<close>. \<open>execution_state\<close> is
  the struct of that name and \<open>exec_service\<close> the fields of \<open>Service\<close> its mutex protects. Each
  method that takes the mutex is one definition. \<open>runNode\<close> is a thread of critical sections with
  the backend between them: \<open>node_pc\<close> is where it stands and \<open>flow_step\<close> interleaves the threads
  of an execution's steps in any order. Clock readings, the backend's answers and the answer of
  the mock resetter are arguments.
\<close>

subsection \<open>Data\<close>

record execution_event =
  xe_ID :: string
  xe_Source :: string
  xe_Timestamp :: string
  xe_Text :: string
  xe_Status :: string
  xe_Level :: string

text \<open>
  \<open>ExecutionRecord\<close>; of the fields that only describe the run to a reader it keeps those of the
  summary. The suite in it is the definition the execution was created from.
\<close>

record execution_record =
  er_ID :: string
  er_Suite :: suite_definition
  er_Profile :: string
  er_BackendID :: string
  er_Backend :: string
  er_Trigger :: string
  er_Status :: string
  er_StartedAt :: gotime
  er_UpdatedAt :: gotime
  er_Events :: "execution_event list"

type_synonym step_statuses = "(string \<times> string) list"

record execution_state =
  es_record :: execution_record
  es_workspaceID :: string
  es_total :: int
  es_completed :: int
  es_stepStatus :: step_statuses
  es_terminalErr :: "goerr option"

record exec_service =
  sv_executions :: "string \<rightharpoonup> execution_state"
  sv_order :: "string list"

record stream_event =
  se_ID :: nat
  se_ExecutionID :: string
  se_ExecutionStatus :: string
  se_Duration :: string
  se_UpdatedAt :: gotime
  se_Event :: execution_event

abbreviation stepStatusPending :: string where "stepStatusPending \<equiv> ''pending''"
abbreviation stepStatusRunning :: string where "stepStatusRunning \<equiv> ''running''"
abbreviation stepStatusHealthy :: string where "stepStatusHealthy \<equiv> ''healthy''"
abbreviation stepStatusFailed :: string where "stepStatusFailed \<equiv> ''failed''"
abbreviation stepStatusSkipped :: string where "stepStatusSkipped \<equiv> ''skipped''"

text \<open>Reading a Go map of strings: a missing key gives the empty string.\<close>

definition status_of :: "step_statuses \<Rightarrow> string \<Rightarrow> string" where
  "status_of st i = (case map_of st i of None \<Rightarrow> [] | Some s \<Rightarrow> s)"

definition put_execution :: "string \<Rightarrow> execution_state \<Rightarrow> exec_service \<Rightarrow> exec_service" where
  "put_execution eid item s = s\<lparr>sv_executions := (sv_executions s)(eid \<mapsto> item)\<rparr>"

subsection \<open>Step statuses\<close>

definition isKnownStepStatus :: "string \<Rightarrow> bool" where
  "isKnownStepStatus status \<longleftrightarrow>
     TrimSpace status \<in> {stepStatusPending, stepStatusRunning, stepStatusHealthy, stepStatusFailed,
       stepStatusSkipped}"

definition isTerminalStepStatus :: "string \<Rightarrow> bool" where
  "isTerminalStepStatus status \<longleftrightarrow>
     TrimSpace status \<in> {stepStatusHealthy, stepStatusFailed, stepStatusSkipped}"

definition apply_event :: "execution_event \<Rightarrow> step_statuses \<Rightarrow> step_statuses" where
  "apply_event ev st =
     (let source = TrimSpace (xe_Source ev) in
      if source = [] then st
      else if map_of st source = None then st
      else if \<not> isKnownStepStatus (xe_Status ev) then st
      else AList.update source (xe_Status ev) st)"

definition count_terminal :: "step_statuses \<Rightarrow> int" where
  "count_terminal st = int (length (filter (\<lambda>(i, status). isTerminalStepStatus status) st))"

definition pending_statuses :: "topology_node list \<Rightarrow> step_statuses" where
  "pending_statuses nodes = fold (\<lambda>n. AList.update (n_ID n) stepStatusPending) nodes []"

definition buildStepStatus :: "topology_node list \<Rightarrow> execution_event list \<Rightarrow> step_statuses \<times> int" where
  "buildStepStatus topology events =
     (let statuses = fold apply_event events (pending_statuses topology)
      in (statuses, count_terminal statuses))"

definition ensureStepStatus :: "execution_state \<Rightarrow> execution_state" where
  "ensureStepStatus item =
     (if es_stepStatus item \<noteq> [] then item
      else let (statuses, completed) =
                 buildStepStatus (g_Topology (er_Suite (es_record item))) (er_Events (es_record item))
           in item\<lparr>es_stepStatus := statuses, es_completed := completed\<rparr>)"

definition topologyNodeByID :: "topology_node list \<Rightarrow> string \<Rightarrow> topology_node option" where
  "topologyNodeByID topology i = find (\<lambda>n. n_ID n = i) topology"

subsection \<open>Whether a step runs\<close>

definition any_failed :: "step_statuses \<Rightarrow> string list \<Rightarrow> bool" where
  "any_failed st ids = list_ex (\<lambda>d. status_of st d = stepStatusFailed) ids"

lemma topologyNodeByID_Some: "topologyNodeByID topology i = Some n \<Longrightarrow> n \<in> set topology \<and> n_ID n = i"
  by (auto simp: topologyNodeByID_def find_Some_iff)

lemma unvisited_shrinks:
  "topologyNodeByID topology i = Some n \<Longrightarrow> i \<notin> set visiting \<Longrightarrow>
   length (filter (\<lambda>n. n_ID n \<notin> set (i # visiting)) topology) <
   length (filter (\<lambda>n. n_ID n \<notin> set visiting) topology)"
proof -
  assume node: "topologyNodeByID topology i = Some n" and fresh: "i \<notin> set visiting"
  let ?xs = "filter (\<lambda>n. n_ID n \<notin> set visiting) topology"
  have "length (filter (\<lambda>n. n_ID n \<noteq> i) ?xs) < length ?xs"
    using topologyNodeByID_Some [OF node] fresh by (intro length_filter_less [of n]) auto
  then show ?thesis by (simp add: conj_commute)
qed

text \<open>
  The map \<open>visiting\<close> holds the ids on the current path only: each call deletes its own id when it
  returns.
\<close>

function isFailurePathNode :: "topology_node list \<Rightarrow> step_statuses \<Rightarrow> string \<Rightarrow> string list \<Rightarrow> bool" where
  "isFailurePathNode topology st i visiting =
     (if i \<in> set visiting then False
      else case topologyNodeByID topology i of
          None \<Rightarrow> False
        | Some node \<Rightarrow>
            if n_OnFailure node \<noteq> [] \<and> any_failed st (n_OnFailure node) then True
            else list_ex (\<lambda>d. isFailurePathNode topology st d (i # visiting)) (n_DependsOn node))"
  by pat_completeness auto
termination
  by (relation "measure (\<lambda>(topology, st, i, visiting). length (filter (\<lambda>n. n_ID n \<notin> set visiting) topology))")
     (use unvisited_shrinks in auto)

declare isFailurePathNode.simps [simp del]

fun skip_for_dependency ::
  "topology_node list \<Rightarrow> step_statuses \<Rightarrow> topology_node \<Rightarrow> string list \<Rightarrow> string option" where
  "skip_for_dependency topology st node [] = None"
| "skip_for_dependency topology st node (d # ds) =
     (if status_of st d = stepStatusSkipped
      then Some (Sprintf ''[%s] Skipped because dependency %q was skipped.'' [n_Name node, d])
      else if status_of st d = stepStatusFailed \<and> d \<notin> set (n_OnFailure node) \<and>
        (case topologyNodeByID topology d of None \<Rightarrow> True | Some dep \<Rightarrow> \<not> n_ContinueOnFailure dep)
      then Some (Sprintf ''[%s] Skipped because dependency %q failed.'' [n_Name node, d])
      else skip_for_dependency topology st node ds)"

definition skip_reason :: "topology_node list \<Rightarrow> execution_state \<Rightarrow> topology_node \<Rightarrow> string option" where
  "skip_reason topology item node =
     (if n_OnFailure node \<noteq> [] \<and> \<not> any_failed (es_stepStatus item) (n_OnFailure node)
      then Some (Sprintf ''[%s] Skipped because its on_failure conditions were not triggered.'' [n_Name node])
      else case skip_for_dependency topology (es_stepStatus item) node (n_DependsOn node) of
          Some reason \<Rightarrow> Some reason
        | None \<Rightarrow>
            if er_Status (es_record item) = ''Failed'' \<and>
               \<not> isFailurePathNode topology (es_stepStatus item) (n_ID node) []
            then Some (Sprintf ''[%s] Skipped after a fatal failure in another branch.'' [n_Name node])
            else None)"

definition shouldSkipNode ::
  "string \<Rightarrow> topology_node list \<Rightarrow> topology_node \<Rightarrow> exec_service \<Rightarrow> exec_service \<times> string option" where
  "shouldSkipNode eid topology node s =
     (case sv_executions s eid of
        None \<Rightarrow> (s, None)
      | Some item \<Rightarrow>
          let item = ensureStepStatus item
          in (put_execution eid item s, skip_reason topology item node))"

definition nodeBelongsToFailurePath ::
  "string \<Rightarrow> topology_node list \<Rightarrow> string \<Rightarrow> exec_service \<Rightarrow> exec_service \<times> bool" where
  "nodeBelongsToFailurePath eid topology i s =
     (case sv_executions s eid of
        None \<Rightarrow> (s, False)
      | Some item \<Rightarrow>
          let item = ensureStepStatus item
          in (put_execution eid item s, isFailurePathNode topology (es_stepStatus item) i []))"

definition executionHasFailed :: "string \<Rightarrow> exec_service \<Rightarrow> bool" where
  "executionHasFailed eid s =
     (case sv_executions s eid of None \<Rightarrow> False | Some item \<Rightarrow> er_Status (es_record item) = ''Failed'')"

definition executionTerminalError :: "string \<Rightarrow> exec_service \<Rightarrow> goerr option" where
  "executionTerminalError eid s =
     (case sv_executions s eid of
        None \<Rightarrow> None
      | Some item \<Rightarrow>
          if es_terminalErr item \<noteq> None then es_terminalErr item
          else if er_Status (es_record item) = ''Failed'' then Some (ErrorsNew ''execution failed'')
          else None)"

subsection \<open>Events and clocks\<close>

definition clock_text :: "nat \<Rightarrow> string" where
  "clock_text secs = Pad2 (secs div 60) @ '':'' @ Pad2 (secs mod 60)"

text \<open>\<open>Round(time.Second)\<close> on a duration that is not negative: half a second rounds up.\<close>

definition formatDuration :: "duration \<Rightarrow> string" where
  "formatDuration d =
     (let d = (if d < 0 then 0 else d) in clock_text (nat ((d + second div 2) div second)))"

definition elapsed_text :: "gotime \<Rightarrow> gotime \<Rightarrow> string" where
  "elapsed_text startedAt now =
     (let elapsed = (if now - startedAt < 0 then 0 else now - startedAt)
      in clock_text (nat (elapsed div second)))"

definition durationLocked :: "execution_state \<Rightarrow> string" where
  "durationLocked item =
     (let r = es_record item;
          end_at = (if er_UpdatedAt r < er_StartedAt r then er_StartedAt r else er_UpdatedAt r)
      in formatDuration (end_at - er_StartedAt r))"

definition nextTimestamp :: "gotime \<Rightarrow> string \<Rightarrow> exec_service \<Rightarrow> string" where
  "nextTimestamp now eid s =
     (case sv_executions s eid of
        None \<Rightarrow> ''00:00''
      | Some item \<Rightarrow> elapsed_text (er_StartedAt (es_record item)) now)"

text \<open>Appending to the events, and the message published for it.\<close>

definition add_event :: "execution_event \<Rightarrow> execution_state \<Rightarrow> execution_state" where
  "add_event ev item =
     item\<lparr>es_record := (es_record item)\<lparr>er_Events := er_Events (es_record item) @ [ev]\<rparr>\<rparr>"

definition stream_event_of :: "string \<Rightarrow> execution_event \<Rightarrow> execution_state \<Rightarrow> stream_event" where
  "stream_event_of eid ev item =
     \<lparr>se_ID = length (er_Events (es_record item)), se_ExecutionID = eid,
      se_ExecutionStatus = er_Status (es_record item), se_Duration = durationLocked item,
      se_UpdatedAt = er_UpdatedAt (es_record item), se_Event = ev\<rparr>"

definition touch :: "gotime \<Rightarrow> execution_state \<Rightarrow> execution_state" where
  "touch now item = item\<lparr>es_record := (es_record item)\<lparr>er_UpdatedAt := now\<rparr>\<rparr>"

definition set_status :: "string \<Rightarrow> execution_state \<Rightarrow> execution_state" where
  "set_status status item = item\<lparr>es_record := (es_record item)\<lparr>er_Status := status\<rparr>\<rparr>"

definition append_item :: "gotime \<Rightarrow> execution_event \<Rightarrow> execution_state \<Rightarrow> execution_state" where
  "append_item now ev item =
     (let item = ensureStepStatus item
      in touch now (add_event ev (item\<lparr>es_stepStatus := apply_event ev (es_stepStatus item)\<rparr>)))"

definition appendEvent ::
  "gotime \<Rightarrow> string \<Rightarrow> execution_event \<Rightarrow> exec_service \<Rightarrow> exec_service \<times> stream_event option" where
  "appendEvent now eid ev s =
     (case sv_executions s eid of
        None \<Rightarrow> (s, None)
      | Some item \<Rightarrow>
          let item = append_item now ev item
          in (put_execution eid item s, Some (stream_event_of eid ev item)))"

subsection \<open>Ending a step\<close>

text \<open>What a call of \<open>markNodeTerminal\<close> does besides changing the execution.\<close>

record mark_result =
  k_finished :: bool
  k_cancelRunning :: bool
  k_published :: "stream_event option"

definition terminal_item ::
  "gotime \<Rightarrow> string \<Rightarrow> string \<Rightarrow> string \<Rightarrow> bool \<Rightarrow> execution_state \<Rightarrow> execution_state" where
  "terminal_item now i status message hardFailure item =
     (let item = touch now (item\<lparr>es_stepStatus := AList.update i status (es_stepStatus item),
                                es_completed := es_completed item + 1\<rparr>);
          item = (if hardFailure
                  then (set_status ''Failed'' item)
                         \<lparr>es_terminalErr := if TrimSpace message \<noteq> [] \<and> es_terminalErr item = None
                                            then Some (ErrorsNew message) else es_terminalErr item\<rparr>
                  else item)
      in if es_total item \<le> es_completed item \<and> er_Status (es_record item) \<noteq> ''Failed''
         then (set_status ''Healthy'' item)\<lparr>es_terminalErr := None\<rparr>
         else item)"

definition terminal_event ::
  "gotime \<Rightarrow> string \<Rightarrow> string \<Rightarrow> string \<Rightarrow> string \<Rightarrow> execution_state \<Rightarrow> execution_event" where
  "terminal_event now i status message level item =
     \<lparr>xe_ID = i @ ''-'' @ status, xe_Source = i,
      xe_Timestamp = elapsed_text (er_StartedAt (es_record item)) now, xe_Text = message,
      xe_Status = status, xe_Level = level\<rparr>"

definition markNodeTerminal ::
  "gotime \<Rightarrow> string \<Rightarrow> string \<Rightarrow> string \<Rightarrow> string \<Rightarrow> string \<Rightarrow> bool \<Rightarrow> exec_service \<Rightarrow> exec_service \<times> mark_result" where
  "markNodeTerminal now eid i status message level hardFailure s =
     (case sv_executions s eid of
        None \<Rightarrow> (s, \<lparr>k_finished = False, k_cancelRunning = False, k_published = None\<rparr>)
      | Some item \<Rightarrow>
          let item = ensureStepStatus item in
          if isTerminalStepStatus (status_of (es_stepStatus item) i)
          then (put_execution eid item s,
                \<lparr>k_finished = es_total item \<le> es_completed item \<and> 0 < es_total item,
                 k_cancelRunning = False, k_published = None\<rparr>)
          else
            let done = terminal_item now i status message hardFailure item;
                ev = terminal_event now i status message level done;
                item' = add_event ev done
            in (put_execution eid item' s,
                \<lparr>k_finished = es_total done \<le> es_completed done,
                 k_cancelRunning = hardFailure \<and> er_Status (es_record item) \<noteq> ''Failed'',
                 k_published = Some (stream_event_of eid ev item')\<rparr>))"

definition markNodeHealthy :: "gotime \<Rightarrow> string \<Rightarrow> string \<Rightarrow> string \<Rightarrow> exec_service \<Rightarrow> exec_service \<times> mark_result" where
  "markNodeHealthy now eid i message = markNodeTerminal now eid i ''healthy'' message ''info'' False"

definition markNodeSkipped :: "gotime \<Rightarrow> string \<Rightarrow> string \<Rightarrow> string \<Rightarrow> exec_service \<Rightarrow> exec_service \<times> mark_result" where
  "markNodeSkipped now eid i message = markNodeTerminal now eid i ''skipped'' message ''warn'' False"

definition markNodeFailed ::
  "gotime \<Rightarrow> string \<Rightarrow> string \<Rightarrow> string \<Rightarrow> bool \<Rightarrow> exec_service \<Rightarrow> exec_service \<times> mark_result" where
  "markNodeFailed now eid i message = markNodeTerminal now eid i ''failed'' message ''error''"

subsection \<open>Messages\<close>

definition buildStartMessage :: "topology_node \<Rightarrow> suite_definition \<Rightarrow> string \<Rightarrow> string" where
  "buildStartMessage node suite profile =
     (if n_Kind node = ''mock'' then Sprintf ''[%s] Loading mock assets from api/ and mock/ for %s under %s.''
        [n_Name node, g_Title suite, profile]
      else if n_Kind node = ''service'' then Sprintf ''[%s] Starting background service infrastructure declared in suite.star under the %s profile.''
        [n_Name node, profile]
      else if n_Kind node = ''task'' then Sprintf ''[%s] Executing one-shot task assets from tasks/ before exposing dependent services.''
        [n_Name node]
      else if n_Kind node = ''traffic'' then Sprintf ''[%s] Starting the traffic harness from traffic/ with the %s profile and collecting throughput thresholds.''
        [n_Name node, profile]
      else if n_Kind node = ''test'' then Sprintf ''[%s] Executing verification assets from tests/ with the %s profile.''
        [n_Name node, profile]
      else if n_Kind node = ''log'' then Sprintf ''[%s] %s''
        [n_Name node, if TrimSpace (n_Message node) = [] then n_Name node else TrimSpace (n_Message node)]
      else Sprintf ''[%s] Starting workload and waiting for health checks from the parsed suite.star topology.''
        [n_Name node])"

definition buildHealthyMessage :: "topology_node \<Rightarrow> suite_definition \<Rightarrow> string \<Rightarrow> string" where
  "buildHealthyMessage node suite profile =
     (if n_Kind node = ''mock'' then Sprintf ''[%s] Mock surface is healthy. Exchanges from api/ and mock/ are now routable for %s.''
        [n_Name node, g_Title suite]
      else if n_Kind node = ''service'' then Sprintf ''[%s] Background service is healthy and reachable for downstream steps in the %s profile.''
        [n_Name node, profile]
      else if n_Kind node = ''task'' then Sprintf ''[%s] Task completed successfully. Outputs were registered for the %s execution context.''
        [n_Name node, profile]
      else if n_Kind node = ''traffic'' then Sprintf ''[%s] Traffic phase completed. Threshold budgets and synthetic-user ramps stayed within the %s profile.''
        [n_Name node, profile]
      else if n_Kind node = ''test'' then Sprintf ''[%s] Test phase passed. Contract assertions and payload policies remained green.''
        [n_Name node]
      else if n_Kind node = ''log'' then Sprintf ''[%s] %s''
        [n_Name node, if TrimSpace (n_Message node) = [] then n_Name node else TrimSpace (n_Message node)]
      else Sprintf ''[%s] Health check passed. Service is ready for downstream services, traffic phases, and tests.''
        [n_Name node])"

subsection \<open>Resetting mocks before a step\<close>

fun reset_targets_loop ::
  "suite_definition \<Rightarrow> string list \<Rightarrow> string list \<Rightarrow> string list \<Rightarrow> goerr + string list \<times> string list" where
  "reset_targets_loop suite [] suiteIDs labels = Inr (suiteIDs, labels)"
| "reset_targets_loop suite (target # ts) suiteIDs labels =
     (case topologyNodeByID (g_Topology suite) target of
        None \<Rightarrow> Inl (Errorf ''reset_mocks target %q was not found'' [target])
      | Some mockNode \<Rightarrow>
          if n_Kind mockNode \<noteq> ''mock''
          then Inl (Errorf ''reset_mocks target %q is not a mock node'' [target])
          else
            let sid = FirstNonEmpty [n_SourceSuiteID mockNode, g_ID suite] in
            if sid \<in> set suiteIDs then reset_targets_loop suite ts suiteIDs labels
            else reset_targets_loop suite ts (suiteIDs @ [sid]) (labels @ [n_Name mockNode]))"

definition resetMockSuiteTargets ::
  "suite_definition \<Rightarrow> string list \<Rightarrow> goerr + string list \<times> string list" where
  "resetMockSuiteTargets suite targets =
     (case reset_targets_loop suite targets [] [] of
        Inl err \<Rightarrow> Inl err
      | Inr (suiteIDs, labels) \<Rightarrow> Inr (sort_slice (<) suiteIDs, sort_slice (<) labels))"

definition node_event ::
  "gotime \<Rightarrow> string \<Rightarrow> topology_node \<Rightarrow> string \<Rightarrow> string \<Rightarrow> string \<Rightarrow> string \<Rightarrow> exec_service \<Rightarrow> execution_event" where
  "node_event now eid node suffx text status level s =
     \<lparr>xe_ID = n_ID node @ suffx, xe_Source = n_ID node, xe_Timestamp = nextTimestamp now eid s,
      xe_Text = text, xe_Status = status, xe_Level = level\<rparr>"

datatype reset_plan = NothingToReset | ResetError goerr | ResetSuites "string list" "string list"

definition reset_plan_of :: "bool \<Rightarrow> suite_definition \<Rightarrow> topology_node \<Rightarrow> reset_plan" where
  "reset_plan_of resetter suite node =
     (if n_ResetMocks node = [] \<or> \<not> resetter then NothingToReset
      else case resetMockSuiteTargets suite (n_ResetMocks node) of
          Inl err \<Rightarrow> ResetError err
        | Inr (suiteIDs, labels) \<Rightarrow>
            if suiteIDs = [] then NothingToReset else ResetSuites suiteIDs labels)"

subsection \<open>The thread of a step\<close>

text \<open>
  Where \<open>runNode\<close> stands between two critical sections. \<open>NodeQueued\<close>: the queue has not started
  the step. \<open>NodeAwaitReset\<close> and \<open>NodeRunning\<close> wait for the mock resetter and for the backend.
\<close>

datatype node_pc =
    NodeQueued
  | NodeSkipping string
  | NodeStarting
  | NodeResetting
  | NodeAwaitReset
  | NodeRunning
  | NodeCanceled
  | NodeCanceledFailed
  | NodeSkipCanceled
  | NodeFailCanceled
  | NodeFailing string goerr
  | NodePassing
  | NodeContinuing
  | NodeReturned "goerr option"

record run_config =
  rc_eid :: string
  rc_suite :: suite_definition
  rc_profile :: string
  rc_resetter :: bool

text \<open>
  One critical section of \<open>runNode\<close>. \<open>answer\<close> is the error the external call under way returns,
  if it returns one.
\<close>

fun runNode_step ::
  "run_config \<Rightarrow> topology_node \<Rightarrow> gotime \<Rightarrow> goerr option \<Rightarrow> node_pc \<Rightarrow> exec_service
     \<Rightarrow> exec_service \<times> node_pc \<times> mark_result option" where
  "runNode_step c node now answer NodeQueued s =
     (case shouldSkipNode (rc_eid c) (g_Topology (rc_suite c)) node s of
        (s', Some reason) \<Rightarrow> (s', NodeSkipping reason, None)
      | (s', None) \<Rightarrow> (s', NodeStarting, None))"
| "runNode_step c node now answer (NodeSkipping reason) s =
     (let (s', r) = markNodeSkipped now (rc_eid c) (n_ID node) reason s in (s', NodeReturned None, Some r))"
| "runNode_step c node now answer NodeStarting s =
     (fst (appendEvent now (rc_eid c) (node_event now (rc_eid c) node ''-start''
        (buildStartMessage node (rc_suite c) (rc_profile c)) ''running'' ''info'' s) s), NodeResetting, None)"
| "runNode_step c node now answer NodeResetting s =
     (case reset_plan_of (rc_resetter c) (rc_suite c) node of
        NothingToReset \<Rightarrow> (s, NodeRunning, None)
      | ResetError err \<Rightarrow>
          (s, NodeFailing (Sprintf ''[%s] Mock reset failed: %v'' [n_Name node, Error err]) err, None)
      | ResetSuites suiteIDs labels \<Rightarrow>
          (fst (appendEvent now (rc_eid c) (node_event now (rc_eid c) node ''-reset-mocks''
             (Sprintf ''[%s] Resetting mock state for %s before the test starts.'' [n_Name node, Join labels '', ''])
             ''running'' ''info'' s) s), NodeAwaitReset, None))"
| "runNode_step c node now answer NodeAwaitReset s =
     (case answer of
        None \<Rightarrow> (s, NodeRunning, None)
      | Some err \<Rightarrow>
          (s, NodeFailing (Sprintf ''[%s] Mock reset failed: %v'' [n_Name node, Error err]) err, None))"
| "runNode_step c node now answer NodeRunning s =
     (case answer of
        None \<Rightarrow> (s, NodePassing, None)
      | Some err \<Rightarrow>
          if errors_is_canceled err then (s, NodeCanceled, None)
          else (s, NodeFailing (Sprintf ''[%s] Runner failed: %v'' [n_Name node, Error err]) err, None))"
| "runNode_step c node now answer NodeCanceled s =
     (s, if executionHasFailed (rc_eid c) s then NodeCanceledFailed else NodeFailCanceled, None)"
| "runNode_step c node now answer NodeCanceledFailed s =
     (let (s', onPath) = nodeBelongsToFailurePath (rc_eid c) (g_Topology (rc_suite c)) (n_ID node) s
      in (s', if onPath then NodeFailCanceled else NodeSkipCanceled, None))"
| "runNode_step c node now answer NodeSkipCanceled s =
     (let (s', r) = markNodeSkipped now (rc_eid c) (n_ID node)
            (Sprintf ''[%s] Canceled after a fatal failure in another node.'' [n_Name node]) s
      in (s', NodeReturned None, Some r))"
| "runNode_step c node now answer NodeFailCanceled s =
     (let (s', r) = markNodeFailed now (rc_eid c) (n_ID node)
            (Sprintf ''[%s] Execution canceled before the node became healthy.'' [n_Name node]) True s
      in (s', NodeReturned (Some ContextCanceled), Some r))"
| "runNode_step c node now answer (NodeFailing message err) s =
     (let (s', r) = markNodeFailed now (rc_eid c) (n_ID node) message (\<not> n_ContinueOnFailure node) s
      in (s', if n_ContinueOnFailure node then NodeContinuing else NodeReturned (Some err), Some r))"
| "runNode_step c node now answer NodePassing s =
     (let (s', r) = markNodeHealthy now (rc_eid c) (n_ID node)
            (buildHealthyMessage node (rc_suite c) (rc_profile c)) s
      in (s', NodeReturned None, Some r))"
| "runNode_step c node now answer NodeContinuing s =
     (fst (appendEvent now (rc_eid c) (node_event now (rc_eid c) node ''-continued''
        (Sprintf ''[%s] continue_on_failure is enabled; downstream nodes may continue.'' [n_Name node])
        ''failed'' ''warn'' s) s), NodeReturned None, None)"
| "runNode_step c node now answer (NodeReturned err) s = (s, NodeReturned err, None)"

text \<open>The callback the queue calls when it cancels a step that never started.\<close>

definition onCanceled :: "run_config \<Rightarrow> topology_node \<Rightarrow> gotime \<Rightarrow> exec_service \<Rightarrow> exec_service \<times> mark_result" where
  "onCanceled c node now s =
     markNodeSkipped now (rc_eid c) (n_ID node)
       (Sprintf ''[%s] Skipped because a required dependency did not complete successfully.'' [n_Name node]) s"

subsection \<open>The threads of an execution, interleaved\<close>

text \<open>
  \<open>fl_finish\<close> lists the calls of \<open>finishExecutionObservation\<close> with the error each was given, and
  \<open>fl_cancels\<close> counts the calls of \<open>CancelRunningGroup\<close>.
\<close>

record flow =
  fl_service :: exec_service
  fl_pc :: "string \<Rightarrow> node_pc"
  fl_finish :: "goerr option list"
  fl_cancels :: nat

datatype flow_op = FlowRun topology_node gotime "goerr option" | FlowCanceled topology_node gotime

definition after_mark :: "run_config \<Rightarrow> mark_result option \<Rightarrow> flow \<Rightarrow> flow" where
  "after_mark c r F =
     (case r of
        None \<Rightarrow> F
      | Some k \<Rightarrow> F\<lparr>fl_cancels := fl_cancels F + (if k_cancelRunning k then 1 else 0),
                    fl_finish := fl_finish F @
                      (if k_finished k then [executionTerminalError (rc_eid c) (fl_service F)] else [])\<rparr>)"

fun flow_step :: "run_config \<Rightarrow> flow_op \<Rightarrow> flow \<Rightarrow> flow" where
  "flow_step c (FlowRun node now answer) F =
     (let (s', pc', r) = runNode_step c node now answer (fl_pc F (n_ID node)) (fl_service F)
      in after_mark c r (F\<lparr>fl_service := s', fl_pc := (fl_pc F)(n_ID node := pc')\<rparr>))"
| "flow_step c (FlowCanceled node now) F =
     (if fl_pc F (n_ID node) \<noteq> NodeQueued then F
      else let (s', r) = onCanceled c node now (fl_service F)
           in after_mark c (Some r) (F\<lparr>fl_service := s', fl_pc := (fl_pc F)(n_ID node := NodeReturned None)\<rparr>))"

fun op_node :: "flow_op \<Rightarrow> topology_node" where
  "op_node (FlowRun node now answer) = node"
| "op_node (FlowCanceled node now) = node"

text \<open>
  The entry \<open>CreateExecution\<close> stores, and the section of \<open>bootExecution\<close> that installs the
  resolved nodes in it.
\<close>

definition new_execution :: "string \<Rightarrow> suite_definition \<Rightarrow> string \<Rightarrow> string \<Rightarrow> string \<Rightarrow> string \<Rightarrow> string \<Rightarrow> gotime \<Rightarrow> execution_state" where
  "new_execution eid suite profile backendID backend defaultTrigger workspaceID startedAt =
     \<lparr>es_record = \<lparr>er_ID = eid, er_Suite = suite, er_Profile = profile, er_BackendID = backendID,
        er_Backend = backend, er_Trigger = FirstNonEmpty [defaultTrigger, ''Manual''], er_Status = ''Booting'',
        er_StartedAt = startedAt, er_UpdatedAt = startedAt, er_Events = []\<rparr>,
      es_workspaceID = workspaceID, es_total = 0, es_completed = 0, es_stepStatus = [],
      es_terminalErr = None\<rparr>"

definition boot_install :: "suite_definition \<Rightarrow> execution_state \<Rightarrow> execution_state" where
  "boot_install suite item =
     item\<lparr>es_total := int (length (g_Topology suite)),
       es_stepStatus := pending_statuses (g_Topology suite),
       es_record := (es_record item)\<lparr>er_Suite := suite\<rparr>\<rparr>"

definition booted :: "run_config \<Rightarrow> flow \<Rightarrow> bool" where
  "booted c F \<longleftrightarrow>
     (\<exists>item. sv_executions (fl_service F) (rc_eid c) = Some (boot_install (rc_suite c) item) \<and>
        es_completed item = 0 \<and> er_Status (es_record item) = ''Booting'' \<and> es_terminalErr item = None) \<and>
     fl_pc F = (\<lambda>_. NodeQueued) \<and> fl_finish F = [] \<and> fl_cancels F = 0"

inductive flow_reachable :: "run_config \<Rightarrow> flow \<Rightarrow> bool" for c where
  boot: "booted c F \<Longrightarrow> flow_reachable c F"
| step: "flow_reachable c F \<Longrightarrow> op_node x \<in> set (g_Topology (rc_suite c)) \<Longrightarrow> flow_reachable c (flow_step c x F)"

subsection \<open>Status tables\<close>

lemma status_words [simp]:
  "isTerminalStepStatus ''healthy''" "isTerminalStepStatus ''failed''" "isTerminalStepStatus ''skipped''"
  "\<not> isTerminalStepStatus ''pending''" "\<not> isTerminalStepStatus ''running''"
  "isKnownStepStatus ''running''" "isKnownStepStatus ''failed''"
  by (simp_all add: isTerminalStepStatus_def isKnownStepStatus_def go_simps plain_char_def)

lemma keys_update [simp]:
  "i \<in> fst ` set st \<Longrightarrow> map fst (AList.update i v st) = map fst st"
  by (simp add: AList.update_keys)

lemma status_of_update [simp]: "status_of (AList.update i v st) j = (if j = i then v else status_of st j)"
  by (simp add: status_of_def AList.update_conv')

lemma count_terminal_Cons [simp]:
  "count_terminal ((j, v) # st) = (if isTerminalStepStatus v then 1 else 0) + count_terminal st"
  by (simp add: count_terminal_def)

lemma count_terminal_Nil [simp]: "count_terminal [] = 0"
  by (simp add: count_terminal_def)

lemma count_terminal_update:
  "i \<in> fst ` set st \<Longrightarrow>
   count_terminal (AList.update i v st) =
     count_terminal st - (if isTerminalStepStatus (status_of st i) then 1 else 0)
       + (if isTerminalStepStatus v then 1 else 0)"
proof (induction st)
  case (Cons p st)
  obtain j w where p: "p = (j, w)" by (cases p)
  show ?case
  proof (cases "j = i")
    case False
    with Cons p have "i \<in> fst ` set st" by simp
    with Cons.IH False p show ?thesis by (simp add: status_of_def)
  qed (simp add: p status_of_def)
qed simp

lemma count_terminal_le: "count_terminal st \<le> int (length st)" "0 \<le> count_terminal st"
  by (simp_all add: count_terminal_def)

lemma count_terminal_full:
  assumes "distinct (map fst st)"
  shows "count_terminal st = int (length st) \<longleftrightarrow> (\<forall>i\<in>fst ` set st. isTerminalStepStatus (status_of st i))"
proof -
  have "count_terminal st = int (length st) \<longleftrightarrow> (\<forall>(i, v)\<in>set st. isTerminalStepStatus v)"
  proof (induction st)
    case (Cons p st)
    obtain j v where "p = (j, v)" by (cases p)
    then show ?case using Cons count_terminal_le [of st] by auto
  qed simp
  also have "\<dots> \<longleftrightarrow> (\<forall>i\<in>fst ` set st. isTerminalStepStatus (status_of st i))"
    using assms by (force simp: status_of_def)
  finally show ?thesis .
qed

lemma count_terminal_filter:
  "distinct (map fst st) \<Longrightarrow>
   count_terminal st = int (length (filter (\<lambda>i. isTerminalStepStatus (status_of st i)) (map fst st)))"
proof (induction st)
  case (Cons p st)
  obtain j v where p: "p = (j, v)" by (cases p)
  have "filter (\<lambda>i. isTerminalStepStatus (status_of (p # st) i)) (map fst st) =
      filter (\<lambda>i. isTerminalStepStatus (status_of st i)) (map fst st)"
    using Cons.prems by (intro filter_cong) (auto simp: p status_of_def)
  moreover have "status_of (p # st) j = v" by (simp add: p status_of_def)
  ultimately show ?case using Cons by (simp add: p)
qed simp

lemma count_terminal_card:
  "distinct (map fst st) \<Longrightarrow>
   count_terminal st = int (card {i \<in> set (map fst st). isTerminalStepStatus (status_of st i)})"
  using distinct_card [OF distinct_filter [of "map fst st" "\<lambda>i. isTerminalStepStatus (status_of st i)"]]
  by (simp add: count_terminal_filter del: set_map)

lemma pending_statuses_eq: "distinct (map n_ID nodes) \<Longrightarrow> pending_statuses nodes = map (\<lambda>n. (n_ID n, ''pending'')) nodes"
proof -
  assume "distinct (map n_ID nodes)"
  moreover have "fold (\<lambda>n. AList.update (n_ID n) ''pending'') nodes st =
      st @ map (\<lambda>n. (n_ID n, ''pending'')) nodes"
    if "distinct (map n_ID nodes)" "fst ` set st \<inter> n_ID ` set nodes = {}" for st
    using that
  proof (induction nodes arbitrary: st)
    case (Cons n nodes)
    have "AList.update (n_ID n) ''pending'' st = st @ [(n_ID n, ''pending'')]"
      using Cons.prems(2) by (induction st) auto
    with Cons show ?case by auto
  qed simp
  ultimately show ?thesis by (simp add: pending_statuses_def)
qed

lemma ensureStepStatus_id [simp]: "es_stepStatus item \<noteq> [] \<Longrightarrow> ensureStepStatus item = item"
  by (simp add: ensureStepStatus_def)

subsection \<open>What a critical section does to an execution\<close>

lemma put_execution_simps [simp]:
  "sv_executions (put_execution e item s) = (sv_executions s)(e \<mapsto> item)"
  by (simp add: put_execution_def)

lemma item_frames [simp]:
  "es_stepStatus (touch now item) = es_stepStatus item"
  "es_completed (touch now item) = es_completed item"
  "es_total (touch now item) = es_total item"
  "es_terminalErr (touch now item) = es_terminalErr item"
  "er_Status (es_record (touch now item)) = er_Status (es_record item)"
  "er_Suite (es_record (touch now item)) = er_Suite (es_record item)"
  "er_Suite (es_record (set_status x item)) = er_Suite (es_record item)"
  "er_Suite (es_record (add_event ev item)) = er_Suite (es_record item)"
  "es_stepStatus (set_status x item) = es_stepStatus item"
  "es_completed (set_status x item) = es_completed item"
  "es_total (set_status x item) = es_total item"
  "es_terminalErr (set_status x item) = es_terminalErr item"
  "er_Status (es_record (set_status x item)) = x"
  "es_stepStatus (add_event ev item) = es_stepStatus item"
  "es_completed (add_event ev item) = es_completed item"
  "es_total (add_event ev item) = es_total item"
  "es_terminalErr (add_event ev item) = es_terminalErr item"
  "er_Status (es_record (add_event ev item)) = er_Status (es_record item)"
  by (simp_all add: touch_def set_status_def add_event_def)

definition verdict :: "string \<Rightarrow> bool \<Rightarrow> bool \<Rightarrow> string" where
  "verdict old hard full = (if hard \<or> old = ''Failed'' then ''Failed'' else if full then ''Healthy'' else old)"

lemma terminal_item_simps [simp]:
  "es_stepStatus (terminal_item now i status message hard item) = AList.update i status (es_stepStatus item)"
  "es_completed (terminal_item now i status message hard item) = es_completed item + 1"
  "es_total (terminal_item now i status message hard item) = es_total item"
  "er_Suite (es_record (terminal_item now i status message hard item)) = er_Suite (es_record item)"
  "er_Status (es_record (terminal_item now i status message hard item)) =
     verdict (er_Status (es_record item)) hard (es_total item \<le> es_completed item + 1)"
  by (simp_all add: terminal_item_def Let_def verdict_def)

lemma terminal_item_err:
  "es_terminalErr item \<noteq> None \<longrightarrow> er_Status (es_record item) = ''Failed'' \<Longrightarrow>
   es_terminalErr (terminal_item now i status message hard item) \<noteq> None \<Longrightarrow>
   verdict (er_Status (es_record item)) hard (es_total item \<le> es_completed item + 1) = ''Failed''"
  by (auto simp: terminal_item_def Let_def verdict_def split: if_splits)

lemma append_item_simps:
  assumes "es_stepStatus item \<noteq> []" "trimmed_id (xe_Source ev)" "xe_Source ev \<in> fst ` set (es_stepStatus item)"
    "isKnownStepStatus (xe_Status ev)"
  shows "es_stepStatus (append_item now ev item) = AList.update (xe_Source ev) (xe_Status ev) (es_stepStatus item)"
    "es_completed (append_item now ev item) = es_completed item"
    "es_total (append_item now ev item) = es_total item"
    "es_terminalErr (append_item now ev item) = es_terminalErr item"
    "er_Status (es_record (append_item now ev item)) = er_Status (es_record item)"
    "er_Suite (es_record (append_item now ev item)) = er_Suite (es_record item)"
  using assms
  by (auto simp: append_item_def apply_event_def trimmed_id_def Let_def touch_def add_event_def map_of_eq_None_iff)

subsection \<open>The invariant of a running execution\<close>

definition topology_ok :: "run_config \<Rightarrow> bool" where
  "topology_ok c \<longleftrightarrow>
     distinct (map n_ID (g_Topology (rc_suite c))) \<and> (\<forall>n\<in>set (g_Topology (rc_suite c)). trimmed_id (n_ID n))"

fun pc_status_ok :: "node_pc \<Rightarrow> string \<Rightarrow> bool" where
  "pc_status_ok (NodeReturned err) status =
     (status \<in> {''healthy'', ''failed'', ''skipped''} \<and> (err \<noteq> None \<longrightarrow> status = ''failed''))"
| "pc_status_ok NodeContinuing status = (status = ''failed'')"
| "pc_status_ok _ status = (status \<in> {''pending'', ''running''})"

definition item_inv :: "run_config \<Rightarrow> execution_state \<Rightarrow> bool" where
  "item_inv c item \<longleftrightarrow>
     er_Suite (es_record item) = rc_suite c \<and>
     map fst (es_stepStatus item) = map n_ID (g_Topology (rc_suite c)) \<and>
     es_total item = int (length (g_Topology (rc_suite c))) \<and>
     es_completed item = count_terminal (es_stepStatus item) \<and>
     er_Status (es_record item) \<in> {''Booting'', ''Healthy'', ''Failed''} \<and>
     (er_Status (es_record item) = ''Healthy'' \<longrightarrow> es_completed item = es_total item \<and> 0 < es_total item) \<and>
     (er_Status (es_record item) = ''Booting'' \<longrightarrow> es_completed item < es_total item \<or> es_total item = 0) \<and>
     (es_terminalErr item \<noteq> None \<longrightarrow> er_Status (es_record item) = ''Failed'')"

definition some_step_erred :: "run_config \<Rightarrow> (string \<Rightarrow> node_pc) \<Rightarrow> bool" where
  "some_step_erred c pcs \<longleftrightarrow> (\<exists>n\<in>set (g_Topology (rc_suite c)). \<exists>err. pcs (n_ID n) = NodeReturned (Some err))"

definition flow_inv :: "run_config \<Rightarrow> flow \<Rightarrow> execution_state \<Rightarrow> bool" where
  "flow_inv c F item \<longleftrightarrow>
     sv_executions (fl_service F) (rc_eid c) = Some item \<and> item_inv c item \<and>
     (\<forall>n\<in>set (g_Topology (rc_suite c)). pc_status_ok (fl_pc F (n_ID n)) (status_of (es_stepStatus item) (n_ID n))) \<and>
     (er_Status (es_record item) = ''Failed'' \<longleftrightarrow> some_step_erred c (fl_pc F)) \<and>
     (if es_completed item = es_total item \<and> 0 < es_total item
      then \<exists>e. fl_finish F = [e] \<and> (e = None \<longleftrightarrow> er_Status (es_record item) = ''Healthy'')
      else fl_finish F = []) \<and>
     fl_cancels F = (if er_Status (es_record item) = ''Failed'' then 1 else 0)"


lemma item_inv_keys:
  assumes "item_inv c item" "n \<in> set (g_Topology (rc_suite c))"
  shows "n_ID n \<in> fst ` set (es_stepStatus item)" "es_stepStatus item \<noteq> []"
proof -
  have "set (map fst (es_stepStatus item)) = n_ID ` set (g_Topology (rc_suite c))"
    using assms(1) by (simp add: item_inv_def del: set_map) simp
  then show "n_ID n \<in> fst ` set (es_stepStatus item)" using assms(2) by auto
  then show "es_stepStatus item \<noteq> []" by auto
qed

lemma item_inv_le: "item_inv c item \<Longrightarrow> es_completed item \<le> es_total item"
proof -
  assume inv: "item_inv c item"
  then have "length (es_stepStatus item) = length (g_Topology (rc_suite c))"
    unfolding item_inv_def using length_map by metis
  then show ?thesis using inv count_terminal_le(1) [of "es_stepStatus item"] by (simp add: item_inv_def)
qed

lemma item_inv_mark:
  assumes inv: "item_inv c item" and n: "n \<in> set (g_Topology (rc_suite c))"
    and pre: "\<not> isTerminalStepStatus (status_of (es_stepStatus item) (n_ID n))"
    and post: "isTerminalStepStatus status"
  shows "item_inv c (add_event ev (terminal_item now (n_ID n) status message hard item))"
    (is "item_inv c ?item")
proof -
  note key = item_inv_keys [OF inv n]
  have count: "es_completed ?item = count_terminal (es_stepStatus ?item)"
    using inv pre post key(1) by (simp add: item_inv_def count_terminal_update)
  have keys: "map fst (es_stepStatus ?item) = map n_ID (g_Topology (rc_suite c))"
    using inv key(1) by (simp add: item_inv_def)
  have "length (es_stepStatus ?item) = length (g_Topology (rc_suite c))"
    using keys length_map by metis
  then have le: "es_completed ?item \<le> es_total ?item"
    using inv count_terminal_le(1) [of "es_stepStatus ?item"] unfolding count by (simp add: item_inv_def)
  have err: "es_terminalErr ?item \<noteq> None \<longrightarrow> er_Status (es_record ?item) = ''Failed''"
  proof -
    have "es_terminalErr item \<noteq> None \<longrightarrow> er_Status (es_record item) = ''Failed''"
      using inv unfolding item_inv_def by blast
    from terminal_item_err [OF this] show ?thesis by simp
  qed
  have st: "er_Status (es_record ?item) = verdict (er_Status (es_record item)) hard (es_total ?item \<le> es_completed ?item)"
    by simp
  have old: "er_Status (es_record item) \<in> {''Booting'', ''Healthy'', ''Failed''}"
    "es_total ?item = int (length (g_Topology (rc_suite c)))"
    "er_Suite (es_record ?item) = rc_suite c"
    "er_Status (es_record item) = ''Healthy'' \<longrightarrow> es_completed item = es_total item \<and> 0 < es_total item"
    using inv unfolding item_inv_def terminal_item_simps item_frames by blast+
  have full: "er_Status (es_record item) = ''Healthy'' \<longrightarrow> es_total ?item \<le> es_completed ?item"
    using old(4) by auto
  have some: "0 < es_total ?item"
  proof -
    have "es_completed ?item = count_terminal (es_stepStatus item) + 1"
      using inv unfolding item_inv_def by simp
    with le count_terminal_le(2) [of "es_stepStatus item"] show ?thesis by linarith
  qed
  show ?thesis
    unfolding item_inv_def using le keys count err old(2,3)
    by (intro conjI) (use st old(1) full le some in \<open>auto simp only: verdict_def split: if_splits\<close>)
qed

lemma some_step_erred_update:
  assumes "n \<in> set (g_Topology (rc_suite c))" "\<And>err. pcs (n_ID n) \<noteq> NodeReturned (Some err)"
  shows "some_step_erred c (pcs(n_ID n := pc)) \<longleftrightarrow> some_step_erred c pcs \<or> (\<exists>err. pc = NodeReturned (Some err))"
  using assms unfolding some_step_erred_def by (auto split: if_splits) metis+

text \<open>A critical section of step \<open>i\<close> leaves every other status alone, and its own once it is final.\<close>

definition kept :: "string \<Rightarrow> execution_state \<Rightarrow> execution_state \<Rightarrow> bool" where
  "kept i item item' \<longleftrightarrow>
     (\<forall>j. j \<noteq> i \<or> isTerminalStepStatus (status_of (es_stepStatus item) j) \<longrightarrow>
        status_of (es_stepStatus item') j = status_of (es_stepStatus item) j)"

lemma kept_refl [simp]: "kept i item item"
  by (simp add: kept_def)

lemma flow_inv_mark:
  assumes inv: "flow_inv c F item" and n: "n \<in> set (g_Topology (rc_suite c))"
    and pre: "\<not> isTerminalStepStatus (status_of (es_stepStatus item) (n_ID n))"
    and post: "status \<in> {''healthy'', ''failed'', ''skipped''}" "pc_status_ok pc status"
    and hard: "hard \<longleftrightarrow> (\<exists>err. pc = NodeReturned (Some err))"
    and mark: "markNodeTerminal now (rc_eid c) (n_ID n) status message level hard (fl_service F) = (s', r)"
  shows "\<exists>item'. flow_inv c (after_mark c (Some r) (F\<lparr>fl_service := s', fl_pc := (fl_pc F)(n_ID n := pc)\<rparr>)) item' \<and>
    kept (n_ID n) item item'"
proof -
  from inv have ii: "item_inv c item" and lk: "sv_executions (fl_service F) (rc_eid c) = Some item"
    and pcs: "\<And>m. m \<in> set (g_Topology (rc_suite c)) \<Longrightarrow> pc_status_ok (fl_pc F (n_ID m)) (status_of (es_stepStatus item) (n_ID m))"
    and erred: "er_Status (es_record item) = ''Failed'' \<longleftrightarrow> some_step_erred c (fl_pc F)"
    by (simp_all add: flow_inv_def)
  define ev where "ev = terminal_event now (n_ID n) status message level (terminal_item now (n_ID n) status message hard item)"
  define item' where "item' = add_event ev (terminal_item now (n_ID n) status message hard item)"
  have ii': "item_inv c item'"
    unfolding item'_def using post(1) by (intro item_inv_mark [OF ii n pre]) auto
  have room: "es_completed item < es_total item"
    using item_inv_le [OF ii'] by (simp add: item'_def)
  have pos: "0 < es_total item"
  proof -
    have "es_completed item = count_terminal (es_stepStatus item)" using ii by (simp add: item_inv_def)
    with room count_terminal_le(2) [of "es_stepStatus item"] show ?thesis by linarith
  qed
  have nofin: "fl_finish F = []" using inv room by (auto simp: flow_inv_def)
  have cancels: "fl_cancels F = (if er_Status (es_record item) = ''Failed'' then 1 else 0)"
    using inv by (simp add: flow_inv_def)
  have s': "sv_executions s' (rc_eid c) = Some item'"
    and r: "k_finished r \<longleftrightarrow> es_total item \<le> es_completed item + 1"
      "k_cancelRunning r \<longleftrightarrow> hard \<and> er_Status (es_record item) \<noteq> ''Failed''"
    using mark pre lk item_inv_keys(2) [OF ii n]
    by (auto simp: markNodeTerminal_def Let_def item'_def ev_def)
  have "fl_pc F (n_ID n) \<noteq> NodeReturned (Some err)" for err
    using pcs [OF n] pre by auto
  then have erred': "some_step_erred c ((fl_pc F)(n_ID n := pc)) \<longleftrightarrow> er_Status (es_record item) = ''Failed'' \<or> hard"
    using some_step_erred_update [OF n] erred hard by blast
  have st': "er_Status (es_record item') = verdict (er_Status (es_record item)) hard (es_total item \<le> es_completed item + 1)"
    by (simp add: item'_def)
  have "er_Status (es_record item) \<noteq> ''Healthy''" using ii room by (auto simp: item_inv_def)
  then have full: "es_total item \<le> es_completed item + 1 \<Longrightarrow>
      executionTerminalError (rc_eid c) s' = None \<longleftrightarrow> er_Status (es_record item') = ''Healthy''"
    using s' ii' st' by (auto simp: executionTerminalError_def item_inv_def verdict_def)
  let ?F = "after_mark c (Some r) (F\<lparr>fl_service := s', fl_pc := (fl_pc F)(n_ID n := pc)\<rparr>)"
  have "flow_inv c ?F item'"
    unfolding flow_inv_def
  proof (intro conjI)
    show "\<forall>m\<in>set (g_Topology (rc_suite c)). pc_status_ok (fl_pc ?F (n_ID m)) (status_of (es_stepStatus item') (n_ID m))"
      using pcs post(2) by (auto simp: after_mark_def item'_def)
    show "if es_completed item' = es_total item' \<and> 0 < es_total item'
       then \<exists>e. fl_finish ?F = [e] \<and> (e = None \<longleftrightarrow> er_Status (es_record item') = ''Healthy'') else fl_finish ?F = []"
      using nofin r(1) room pos full item_inv_le [OF ii'] by (auto simp: after_mark_def item'_def)
    show "fl_cancels ?F = (if er_Status (es_record item') = ''Failed'' then 1 else 0)"
      using cancels r(2) st' by (auto simp: after_mark_def verdict_def)
    show "er_Status (es_record item') = ''Failed'' \<longleftrightarrow> some_step_erred c (fl_pc ?F)"
      using erred' st' by (auto simp: after_mark_def verdict_def)
  qed (use s' ii' in \<open>simp_all add: after_mark_def\<close>)
  moreover have "kept (n_ID n) item item'" using pre by (simp add: kept_def item'_def)
  ultimately show ?thesis by blast
qed

lemma flow_inv_frame:
  assumes "flow_inv c F item" "sv_executions s' (rc_eid c) = Some item'" "item_inv c item'"
    "es_completed item' = es_completed item" "es_total item' = es_total item"
    "er_Status (es_record item') = er_Status (es_record item)"
    "some_step_erred c pcs \<longleftrightarrow> some_step_erred c (fl_pc F)"
    "\<forall>n\<in>set (g_Topology (rc_suite c)). pc_status_ok (pcs (n_ID n)) (status_of (es_stepStatus item') (n_ID n))"
  shows "flow_inv c (F\<lparr>fl_service := s', fl_pc := pcs\<rparr>) item'"
  using assms unfolding flow_inv_def by simp

lemma flow_inv_quiet:
  assumes inv: "flow_inv c F item" and n: "n \<in> set (g_Topology (rc_suite c))"
    and live: "\<not> isTerminalStepStatus (status_of (es_stepStatus item) (n_ID n))"
    and pc: "pc_status_ok pc (status_of (es_stepStatus item) (n_ID n))"
    and same: "sv_executions s' (rc_eid c) = Some item"
  shows "\<exists>item'. flow_inv c (F\<lparr>fl_service := s', fl_pc := (fl_pc F)(n_ID n := pc)\<rparr>) item' \<and> kept (n_ID n) item item'"
proof -
  have "pc_status_ok (fl_pc F (n_ID n)) (status_of (es_stepStatus item) (n_ID n))"
    using inv n by (simp add: flow_inv_def)
  then have "\<not> (\<exists>err. fl_pc F (n_ID n) = NodeReturned (Some err))" "\<not> (\<exists>err. pc = NodeReturned (Some err))"
    using live pc by auto
  then have "some_step_erred c ((fl_pc F)(n_ID n := pc)) \<longleftrightarrow> some_step_erred c (fl_pc F)"
    using some_step_erred_update [OF n, of "fl_pc F" pc] by blast
  then have "flow_inv c (F\<lparr>fl_service := s', fl_pc := (fl_pc F)(n_ID n := pc)\<rparr>) item"
    using inv same pc by (auto simp: flow_inv_def)
  then show ?thesis using kept_refl by blast
qed

lemma flow_inv_append:
  assumes ok: "topology_ok c" and inv: "flow_inv c F item" and n: "n \<in> set (g_Topology (rc_suite c))"
    and ev: "xe_Source ev = n_ID n" "isKnownStepStatus (xe_Status ev)"
    and same: "isTerminalStepStatus (xe_Status ev) \<longleftrightarrow> isTerminalStepStatus (status_of (es_stepStatus item) (n_ID n))"
      "isTerminalStepStatus (xe_Status ev) \<Longrightarrow> xe_Status ev = status_of (es_stepStatus item) (n_ID n)"
    and pc: "pc_status_ok pc (xe_Status ev)" "\<And>err. fl_pc F (n_ID n) \<noteq> NodeReturned (Some err)"
      "\<And>err. pc \<noteq> NodeReturned (Some err)"
  shows "\<exists>item'. flow_inv c (F\<lparr>fl_service := fst (appendEvent now (rc_eid c) ev (fl_service F)),
      fl_pc := (fl_pc F)(n_ID n := pc)\<rparr>) item' \<and> kept (n_ID n) item item'"
proof -
  from inv have ii: "item_inv c item" and lk: "sv_executions (fl_service F) (rc_eid c) = Some item"
    by (simp_all add: flow_inv_def)
  note key = item_inv_keys [OF ii n]
  have "trimmed_id (xe_Source ev)" using ok n by (simp add: topology_ok_def ev)
  note app = append_item_simps [OF key(2) this _ ev(2), of now, unfolded ev(1), OF key(1)]
  have count: "count_terminal (AList.update (n_ID n) (xe_Status ev) (es_stepStatus item)) = count_terminal (es_stepStatus item)"
    using same(1) key(1) by (simp add: count_terminal_update)
  have ii': "item_inv c (append_item now ev item)"
    using ii unfolding item_inv_def app keys_update [OF key(1)] count .
  have "some_step_erred c ((fl_pc F)(n_ID n := pc)) \<longleftrightarrow> some_step_erred c (fl_pc F)"
    using some_step_erred_update [OF n, of "fl_pc F" pc, OF pc(2)] pc(3) by blast
  then have "flow_inv c (F\<lparr>fl_service := fst (appendEvent now (rc_eid c) ev (fl_service F)),
      fl_pc := (fl_pc F)(n_ID n := pc)\<rparr>) (append_item now ev item)"
  proof (intro flow_inv_frame [OF inv])
    have "pc_status_ok (fl_pc F (n_ID m)) (status_of (es_stepStatus item) (n_ID m))"
      if "m \<in> set (g_Topology (rc_suite c))" for m
      using inv that unfolding flow_inv_def by blast
    then show "\<forall>m\<in>set (g_Topology (rc_suite c)). pc_status_ok (((fl_pc F)(n_ID n := pc)) (n_ID m))
        (status_of (es_stepStatus (append_item now ev item)) (n_ID m))"
      using pc(1) by (simp add: app(1))
  qed (use ii' lk in \<open>simp_all add: appendEvent_def Let_def app(2-)\<close>)
  moreover have "kept (n_ID n) item (append_item now ev item)"
    using same by (simp add: kept_def app(1))
  ultimately show ?thesis by blast
qed

lemma shouldSkipNode_same:
  "sv_executions s e = Some item \<Longrightarrow> es_stepStatus item \<noteq> [] \<Longrightarrow>
   shouldSkipNode e topology node s = (put_execution e item s, skip_reason topology item node)"
  by (simp add: shouldSkipNode_def)

lemma nodeBelongs_same:
  "sv_executions s e = Some item \<Longrightarrow> es_stepStatus item \<noteq> [] \<Longrightarrow>
   nodeBelongsToFailurePath e topology i s =
     (put_execution e item s, isFailurePathNode topology (es_stepStatus item) i [])"
  by (simp add: nodeBelongsToFailurePath_def)

lemma pc_status_live:
  assumes "pc_status_ok pc status" "pc \<noteq> NodeContinuing" "\<And>err. pc \<noteq> NodeReturned err"
  shows "status \<in> {''pending'', ''running''}"
  using assms(1,2) assms(3) [of "case pc of NodeReturned err \<Rightarrow> err | _ \<Rightarrow> None"] by (cases pc) simp_all

lemma node_event_simps [simp]:
  "xe_Source (node_event now e n x t st l s) = n_ID n"
  "xe_Status (node_event now e n x t st l s) = st"
  by (simp_all add: node_event_def)

lemma flow_inv_step:
  assumes ok: "topology_ok c" and inv: "flow_inv c F item" and n: "op_node x \<in> set (g_Topology (rc_suite c))"
  shows "\<exists>item'. flow_inv c (flow_step c x F) item' \<and> kept (n_ID (op_node x)) item item'"
proof (cases x)
  case (FlowCanceled node now)
  show ?thesis
  proof (cases "fl_pc F (n_ID node) = NodeQueued")
    case True
    have node: "node \<in> set (g_Topology (rc_suite c))" using n FlowCanceled by simp
    have "pc_status_ok NodeQueued (status_of (es_stepStatus item) (n_ID node))"
      using inv node True by (force simp: flow_inv_def)
    then have "\<not> isTerminalStepStatus (status_of (es_stepStatus item) (n_ID node))" by auto
    note mark = flow_inv_mark [OF inv node this, of "''skipped''" "NodeReturned None" False]
    show ?thesis
      using True mark unfolding FlowCanceled
      by (simp add: onCanceled_def markNodeSkipped_def split: prod.splits)
  qed (use inv FlowCanceled in \<open>auto intro!: exI [of _ item]\<close>)
next
  case (FlowRun node now answer)
  have node: "node \<in> set (g_Topology (rc_suite c))" using n FlowRun by simp
  have ii: "item_inv c item" and lk: "sv_executions (fl_service F) (rc_eid c) = Some item"
    and pc: "pc_status_ok (fl_pc F (n_ID node)) (status_of (es_stepStatus item) (n_ID node))"
    using inv node by (simp_all add: flow_inv_def)
  note key = item_inv_keys [OF ii node]
  have live: "\<not> isTerminalStepStatus (status_of (es_stepStatus item) (n_ID node))"
    "status_of (es_stepStatus item) (n_ID node) \<in> {''pending'', ''running''}"
    if "fl_pc F (n_ID node) \<noteq> NodeContinuing" "\<And>err. fl_pc F (n_ID node) \<noteq> NodeReturned err"
    using pc_status_live [OF pc that] by auto
  note mark = flow_inv_mark [OF inv node live(1)]
    and append = flow_inv_append [OF ok inv node]
  have quiet: "\<exists>item'. flow_inv c (F\<lparr>fl_service := s', fl_pc := (fl_pc F)(n_ID node := pc')\<rparr>) item' \<and> kept (n_ID node) item item'"
    if "fl_pc F (n_ID node) \<noteq> NodeContinuing" "\<And>err. fl_pc F (n_ID node) \<noteq> NodeReturned err"
      "pc_status_ok pc' ''pending''" "pc_status_ok pc' ''running''" "sv_executions s' (rc_eid c) = Some item" for s' pc'
  proof -
    have "pc_status_ok pc' (status_of (es_stepStatus item) (n_ID node))"
      using live(2) [OF that(1,2)] that(3,4) by auto
    from flow_inv_quiet [OF inv node live(1) [OF that(1,2)] this that(5)] show ?thesis .
  qed
  have stay: "\<exists>item'. flow_inv c (F\<lparr>fl_pc := (fl_pc F)(n_ID node := pc')\<rparr>) item' \<and> kept (n_ID node) item item'"
    if "fl_pc F (n_ID node) \<noteq> NodeContinuing" "\<And>err. fl_pc F (n_ID node) \<noteq> NodeReturned err"
      "pc_status_ok pc' ''pending''" "pc_status_ok pc' ''running''" for pc'
    using quiet [OF that lk] by simp
  show ?thesis
  proof (cases "fl_pc F (n_ID node)")
    case NodeQueued
    then show ?thesis
      by (simp add: FlowRun shouldSkipNode_same [OF lk key(2)] after_mark_def quiet split: option.split)
  next
    case (NodeSkipping reason)
    then show ?thesis
      using mark [of "''skipped''" "NodeReturned None" False]
      by (simp add: FlowRun markNodeSkipped_def split: prod.splits)
  next
    case NodeStarting
    then show ?thesis
      using append [of "node_event now (rc_eid c) node ''-start'' (buildStartMessage node (rc_suite c) (rc_profile c)) ''running'' ''info'' (fl_service F)"
         NodeResetting now] live
      by (simp add: FlowRun after_mark_def)
  next
    case NodeResetting
    then show ?thesis
      using append [of "node_event now (rc_eid c) node ''-reset-mocks'' _ ''running'' ''info'' (fl_service F)" NodeAwaitReset now] live lk
      by (cases "reset_plan_of (rc_resetter c) (rc_suite c) node") (simp_all add: FlowRun after_mark_def stay)
  next
    case NodeAwaitReset
    then show ?thesis
      by (cases answer) (simp_all add: FlowRun after_mark_def stay)
  next
    case NodeRunning
    then show ?thesis
      by (cases answer) (simp_all add: FlowRun after_mark_def stay)
  next
    case NodeCanceled
    then show ?thesis
      by (simp add: FlowRun after_mark_def stay)
  next
    case NodeCanceledFailed
    then show ?thesis
      by (simp add: FlowRun nodeBelongs_same [OF lk key(2)] after_mark_def quiet)
  next
    case NodeSkipCanceled
    then show ?thesis
      using mark [of "''skipped''" "NodeReturned None" False]
      by (simp add: FlowRun markNodeSkipped_def split: prod.splits)
  next
    case NodeFailCanceled
    then show ?thesis
      using mark [of "''failed''" "NodeReturned (Some ContextCanceled)" True]
      by (simp add: FlowRun markNodeFailed_def split: prod.splits)
  next
    case (NodeFailing message err)
    then show ?thesis
      using mark [of "''failed''" NodeContinuing False] mark [of "''failed''" "NodeReturned (Some err)" True]
      by (cases "n_ContinueOnFailure node") (simp_all add: FlowRun markNodeFailed_def split: prod.splits)
  next
    case NodePassing
    then show ?thesis
      using mark [of "''healthy''" "NodeReturned None" False]
      by (simp add: FlowRun markNodeHealthy_def split: prod.splits)
  next
    case NodeContinuing
    then show ?thesis
      using append [of "node_event now (rc_eid c) node ''-continued''
          (Sprintf ''[%s] continue_on_failure is enabled; downstream nodes may continue.'' [n_Name node]) ''failed'' ''warn'' (fl_service F)"
         "NodeReturned None" now] pc
      by (simp add: FlowRun after_mark_def)
  next
    case (NodeReturned err)
    then have "(fl_pc F)(n_ID node := NodeReturned err) = fl_pc F" by auto
    with NodeReturned inv show ?thesis by (auto simp: FlowRun after_mark_def intro!: exI [of _ item])
  qed
qed

lemma flow_inv_booted:
  assumes "topology_ok c" "booted c F"
  shows "\<exists>item. flow_inv c F item"
proof -
  let ?T = "g_Topology (rc_suite c)"
  obtain item where item: "sv_executions (fl_service F) (rc_eid c) = Some (boot_install (rc_suite c) item)"
      "es_completed item = 0" "er_Status (es_record item) = ''Booting''" "es_terminalErr item = None"
    and F: "fl_pc F = (\<lambda>_. NodeQueued)" "fl_finish F = []" "fl_cancels F = 0"
    using assms(2) by (auto simp: booted_def)
  have pend: "pending_statuses ?T = map (\<lambda>n. (n_ID n, ''pending'')) ?T"
    using assms(1) by (simp add: topology_ok_def pending_statuses_eq)
  have "count_terminal (map (\<lambda>n. (n_ID n, ''pending'')) ns) = 0" for ns by (induction ns) auto
  moreover have "n \<in> set ns \<Longrightarrow> status_of (map (\<lambda>n. (n_ID n, ''pending'')) ns) (n_ID n) = ''pending''" for n ns
    by (induction ns) (auto simp: status_of_def)
  ultimately have "flow_inv c F (boot_install (rc_suite c) item)"
    using item F pend by (auto simp: flow_inv_def item_inv_def boot_install_def some_step_erred_def comp_def)
  then show ?thesis by blast
qed

lemma flow_inv_reachable:
  assumes "flow_reachable c F" "topology_ok c"
  shows "\<exists>item. flow_inv c F item"
  using assms by (induction rule: flow_reachable.induct) (metis flow_inv_booted, metis flow_inv_step)

subsection \<open>What an execution promises\<close>

text \<open>
  The specification forgets threads, events and counters. It keeps, of each step that has ended,
  its final status and whether its \<open>Run\<close> reports an error, and derives the status of the execution
  from that. A step ends at most once and nothing else happens.
\<close>

type_synonym ended_steps = "string \<rightharpoonup> string \<times> bool"

definition spec_step :: "string set \<Rightarrow> ended_steps \<Rightarrow> ended_steps \<Rightarrow> bool" where
  "spec_step ids A A' \<longleftrightarrow> A' = A \<or> (\<exists>i\<in>ids. \<exists>e. A i = None \<and> A' = A(i \<mapsto> e))"

definition spec_verdict :: "string set \<Rightarrow> ended_steps \<Rightarrow> string" where
  "spec_verdict ids A =
     (if \<exists>i\<in>ids. \<exists>status. A i = Some (status, True) then ''Failed''
      else if ids \<noteq> {} \<and> ids \<subseteq> dom A then ''Healthy''
      else ''Booting'')"

definition ended :: "run_config \<Rightarrow> flow \<Rightarrow> ended_steps" where
  "ended c F i =
     (case sv_executions (fl_service F) (rc_eid c) of
        None \<Rightarrow> None
      | Some item \<Rightarrow>
          (case fl_pc F i of
             NodeReturned err \<Rightarrow> Some (status_of (es_stepStatus item) i, err \<noteq> None)
           | NodeContinuing \<Rightarrow> Some (status_of (es_stepStatus item) i, False)
           | _ \<Rightarrow> None))"

lemma ended_inv:
  assumes "flow_inv c F item"
  shows "ended c F i =
     (case fl_pc F i of
        NodeReturned err \<Rightarrow> Some (status_of (es_stepStatus item) i, err \<noteq> None)
      | NodeContinuing \<Rightarrow> Some (status_of (es_stepStatus item) i, False)
      | _ \<Rightarrow> None)"
  using assms by (simp add: ended_def flow_inv_def)

lemma ended_iff_terminal:
  assumes "flow_inv c F item" "n \<in> set (g_Topology (rc_suite c))"
  shows "ended c F (n_ID n) \<noteq> None \<longleftrightarrow> isTerminalStepStatus (status_of (es_stepStatus item) (n_ID n))"
proof -
  have "pc_status_ok (fl_pc F (n_ID n)) (status_of (es_stepStatus item) (n_ID n))"
    using assms by (simp add: flow_inv_def)
  then show ?thesis
    by (cases "fl_pc F (n_ID n)") (auto simp: ended_inv [OF assms(1)])
qed

lemma all_ended_iff:
  assumes "flow_inv c F item" "topology_ok c"
  shows "step_ids (g_Topology (rc_suite c)) \<subseteq> dom (ended c F) \<longleftrightarrow> es_completed item = es_total item"
proof -
  let ?T = "g_Topology (rc_suite c)"
  have item: "map fst (es_stepStatus item) = map n_ID ?T" "es_completed item = count_terminal (es_stepStatus item)"
    "es_total item = int (length ?T)"
    using assms(1) by (simp_all add: flow_inv_def item_inv_def)
  have "set (map fst (es_stepStatus item)) = n_ID ` set ?T" unfolding item(1) by simp
  moreover have "length (es_stepStatus item) = length ?T" using item(1) length_map by metis
  moreover have "distinct (map fst (es_stepStatus item))" using assms(2) by (simp add: item(1) topology_ok_def)
  ultimately have "es_completed item = es_total item \<longleftrightarrow>
      (\<forall>n\<in>set ?T. isTerminalStepStatus (status_of (es_stepStatus item) (n_ID n)))"
    using count_terminal_full [of "es_stepStatus item"] by (simp add: item(2,3))
  then show ?thesis
    using ended_iff_terminal [OF assms(1)] by (auto simp: step_ids_def subset_eq domIff)
qed

lemma ended_hard:
  assumes "flow_inv c F item"
  shows "(\<exists>i\<in>step_ids (g_Topology (rc_suite c)). \<exists>status. ended c F i = Some (status, True)) \<longleftrightarrow> some_step_erred c (fl_pc F)"
proof -
  have "(\<exists>status. ended c F i = Some (status, True)) \<longleftrightarrow> (\<exists>err. fl_pc F i = NodeReturned (Some err))" for i
    unfolding ended_inv [OF assms] by (cases "fl_pc F i") auto
  then show ?thesis by (simp add: some_step_erred_def step_ids_def)
qed

lemma flow_status:
  assumes "flow_inv c F item" "topology_ok c"
  shows "er_Status (es_record item) = spec_verdict (step_ids (g_Topology (rc_suite c))) (ended c F)"
proof -
  let ?T = "g_Topology (rc_suite c)"
  have st: "er_Status (es_record item) \<in> {''Booting'', ''Healthy'', ''Failed''}"
      "er_Status (es_record item) = ''Healthy'' \<longrightarrow> es_completed item = es_total item \<and> 0 < es_total item"
      "er_Status (es_record item) = ''Booting'' \<longrightarrow> es_completed item < es_total item \<or> es_total item = 0"
      "er_Status (es_record item) = ''Failed'' \<longleftrightarrow> some_step_erred c (fl_pc F)"
      "es_total item = int (length ?T)"
    using assms(1) unfolding flow_inv_def item_inv_def by blast+
  have empty: "step_ids ?T = {} \<longleftrightarrow> es_total item = 0" by (simp add: st(5) step_ids_def)
  show ?thesis
    unfolding spec_verdict_def ended_hard [OF assms(1)] all_ended_iff [OF assms] empty
    using st(1-4) by auto
qed

lemma flow_spec_step:
  assumes inv: "flow_inv c F item" and ok: "topology_ok c" and n: "op_node x \<in> set (g_Topology (rc_suite c))"
  shows "spec_step (step_ids (g_Topology (rc_suite c))) (ended c F) (ended c (flow_step c x F))"
proof -
  let ?i = "n_ID (op_node x)"
  obtain item' where inv': "flow_inv c (flow_step c x F) item'" and kept: "kept ?i item item'"
    using flow_inv_step [OF ok inv n] by blast
  have pcs: "fl_pc (flow_step c x F) j = fl_pc F j" if "j \<noteq> ?i" for j
    using that by (cases x) (auto simp: after_mark_def Let_def split: prod.split option.split)
  have other: "ended c (flow_step c x F) j = ended c F j" if "j \<noteq> ?i" for j
  proof -
    have "status_of (es_stepStatus item') j = status_of (es_stepStatus item) j"
      using kept that unfolding kept_def by blast
    then show ?thesis unfolding ended_inv [OF inv] ended_inv [OF inv'] pcs [OF that] by (cases "fl_pc F j") simp_all
  qed
  have own: "ended c (flow_step c x F) ?i = ended c F ?i" if "ended c F ?i \<noteq> None"
  proof -
    have "isTerminalStepStatus (status_of (es_stepStatus item) ?i)"
      using that ended_iff_terminal [OF inv n] by simp
    then have st: "status_of (es_stepStatus item') ?i = status_of (es_stepStatus item) ?i"
      using kept by (simp add: kept_def)
    have "fl_pc (flow_step c x F) ?i = fl_pc F ?i \<or> fl_pc F ?i = NodeContinuing \<and> fl_pc (flow_step c x F) ?i = NodeReturned None"
      using that unfolding ended_inv [OF inv]
      by (cases x; cases "fl_pc F ?i") (simp_all add: after_mark_def)
    then show ?thesis
      unfolding ended_inv [OF inv] ended_inv [OF inv'] st by (auto split: node_pc.split)
  qed
  show ?thesis
  proof (cases "ended c F ?i = None \<and> ended c (flow_step c x F) ?i \<noteq> None")
    case True
    then obtain e where e: "ended c (flow_step c x F) ?i = Some e" by blast
    have "ended c (flow_step c x F) = (ended c F)(?i \<mapsto> e)"
    proof
      show "ended c (flow_step c x F) j = ((ended c F)(?i \<mapsto> e)) j" for j
        using e other [of j] by (cases "j = ?i") simp_all
    qed
    moreover have "?i \<in> step_ids (g_Topology (rc_suite c))" using n by (simp add: step_ids_def)
    ultimately show ?thesis using True unfolding spec_step_def by blast
  next
    case False
    then have "ended c (flow_step c x F) ?i = ended c F ?i" using own by metis
    then have "ended c (flow_step c x F) j = ended c F j" for j using other [of j] by (cases "j = ?i") simp_all
    then have "ended c (flow_step c x F) = ended c F" by blast
    then show ?thesis unfolding spec_step_def by blast
  qed
qed

subsection \<open>The failure path\<close>

text \<open>
  A step belongs to the failure path when it, or something it depends on, directly or not,
  handles a failure that has happened.
\<close>

definition step_dep :: "topology_node list \<Rightarrow> string \<Rightarrow> string \<Rightarrow> bool" where
  "step_dep topology i d \<longleftrightarrow> (\<exists>n. topologyNodeByID topology i = Some n \<and> d \<in> set (n_DependsOn n))"

definition handles_failure :: "topology_node list \<Rightarrow> step_statuses \<Rightarrow> string \<Rightarrow> bool" where
  "handles_failure topology st i \<longleftrightarrow>
     (\<exists>n. topologyNodeByID topology i = Some n \<and> (\<exists>d\<in>set (n_OnFailure n). status_of st d = ''failed''))"

lemma path_leaves_start:
  assumes "r\<^sup>*\<^sup>* i j" "i \<noteq> j"
  shows "\<exists>d. r i d \<and> d \<noteq> i \<and> (\<lambda>x y. r x y \<and> y \<noteq> i)\<^sup>*\<^sup>* d j"
  using assms
proof (induction rule: rtranclp_induct)
  case (step y z)
  show ?case
  proof (cases "i = y")
    case True
    with step show ?thesis by blast
  next
    case False
    then obtain d where "r i d" "d \<noteq> i" "(\<lambda>x y. r x y \<and> y \<noteq> i)\<^sup>*\<^sup>* d y" using step.IH by blast
    with step.hyps(2) step.prems show ?thesis by (metis (mono_tags, lifting) rtranclp.rtrancl_into_rtrancl)
  qed
qed simp

lemma any_failed_iff: "any_failed st ids \<longleftrightarrow> (\<exists>d\<in>set ids. status_of st d = ''failed'')"
  by (auto simp: any_failed_def list_ex_iff)

lemma isFailurePathNode_sound:
  "isFailurePathNode topology st i visiting \<Longrightarrow>
   \<exists>j. (step_dep topology)\<^sup>*\<^sup>* i j \<and> handles_failure topology st j"
proof (induction topology st i visiting rule: isFailurePathNode.induct)
  case (1 topology st i visiting)
  from "1.prems" obtain n where n: "i \<notin> set visiting" "topologyNodeByID topology i = Some n"
    by (subst (asm) isFailurePathNode.simps) (auto split: if_splits option.splits)
  show ?case
  proof (cases "any_failed st (n_OnFailure n)")
    case True
    with n have "handles_failure topology st i" by (auto simp: handles_failure_def any_failed_iff)
    then show ?thesis by blast
  next
    case False
    with "1.prems" n obtain d where d: "d \<in> set (n_DependsOn n)" "isFailurePathNode topology st d (i # visiting)"
      by (subst (asm) isFailurePathNode.simps) (auto simp: list_ex_iff)
    with "1.IH" [OF n] False obtain j where "(step_dep topology)\<^sup>*\<^sup>* d j" "handles_failure topology st j" by blast
    moreover have "step_dep topology i d" using n(2) d(1) by (auto simp: step_dep_def)
    ultimately show ?thesis by (meson converse_rtranclp_into_rtranclp)
  qed
qed

lemma isFailurePathNode_complete:
  "i \<notin> set visiting \<Longrightarrow> (\<lambda>x y. step_dep topology x y \<and> y \<notin> set visiting)\<^sup>*\<^sup>* i j \<Longrightarrow>
   handles_failure topology st j \<Longrightarrow> isFailurePathNode topology st i visiting"
proof (induction topology st i visiting rule: isFailurePathNode.induct)
  case (1 topology st i visiting)
  let ?r = "\<lambda>x y. step_dep topology x y \<and> y \<notin> set visiting"
  show ?case
  proof (cases "i = j")
    case True
    with "1.prems" show ?thesis
      by (subst isFailurePathNode.simps) (auto simp: handles_failure_def any_failed_iff)
  next
    case False
    then obtain d where d: "?r i d" "d \<noteq> i" "(\<lambda>x y. ?r x y \<and> y \<noteq> i)\<^sup>*\<^sup>* d j"
      using path_leaves_start [of ?r i j] "1.prems"(2) by blast
    then obtain n where n: "topologyNodeByID topology i = Some n" "d \<in> set (n_DependsOn n)"
      by (auto simp: step_dep_def)
    have "(\<lambda>x y. ?r x y \<and> y \<noteq> i) = (\<lambda>x y. step_dep topology x y \<and> y \<notin> set (i # visiting))" by auto
    with d have "isFailurePathNode topology st d (i # visiting)"
      if "\<not> (n_OnFailure n \<noteq> [] \<and> any_failed st (n_OnFailure n))"
      using "1.IH" [OF "1.prems"(1) n(1) that n(2)] "1.prems"(3) by auto
    with "1.prems"(1) n show ?thesis
      by (subst isFailurePathNode.simps) (auto simp: list_ex_iff)
  qed
qed

lemma isFailurePathNode_iff:
  "isFailurePathNode topology st i [] \<longleftrightarrow> (\<exists>j. (step_dep topology)\<^sup>*\<^sup>* i j \<and> handles_failure topology st j)"
  using isFailurePathNode_sound isFailurePathNode_complete [of i "[]" topology] by fastforce

lemma skip_for_dependency_None:
  "skip_for_dependency topology st node ds = None \<longleftrightarrow>
   (\<forall>d\<in>set ds. status_of st d \<noteq> ''skipped'' \<and>
      (status_of st d = ''failed'' \<longrightarrow>
         d \<in> set (n_OnFailure node) \<or>
         (\<exists>dep. topologyNodeByID topology d = Some dep \<and> n_ContinueOnFailure dep)))"
  by (induction ds) (auto split: option.split)

lemma skip_reason_None:
  "skip_reason topology item node = None \<longleftrightarrow>
     (n_OnFailure node \<noteq> [] \<longrightarrow> any_failed (es_stepStatus item) (n_OnFailure node)) \<and>
     skip_for_dependency topology (es_stepStatus item) node (n_DependsOn node) = None \<and>
     (er_Status (es_record item) = ''Failed'' \<longrightarrow>
        isFailurePathNode topology (es_stepStatus item) (n_ID node) [])"
  by (cases "skip_for_dependency topology (es_stepStatus item) node (n_DependsOn node)") (auto simp: skip_reason_def)

subsection \<open>A concrete execution\<close>

definition demo_run :: run_config where
  "demo_run = \<lparr>rc_eid = ''run-1'',
     rc_suite = \<lparr>g_ID = ''demo'', g_Title = ''Demo'', g_Repository = [], g_Version = [], g_SuiteStar = [],
       g_Profiles = [], g_Folders = [], g_SeedSources = [], g_SourceFiles = [],
       g_Topology = [plain_step ''a'' [], plain_step ''b'' [''a''],
         (plain_step ''h'' [''a'', ''b''])\<lparr>n_OnFailure := [''a'', ''b'']\<rparr>],
       g_TopologyError = [], g_ResolvedDependencies = []\<rparr>,
     rc_profile = ''local.yaml'', rc_resetter = False\<rparr>"

definition demo_item :: execution_state where
  "demo_item = boot_install (rc_suite demo_run)
     (new_execution ''run-1'' (rc_suite demo_run) ''local.yaml'' ''docker'' ''Docker'' [] [] 0)"

definition demo_flow :: flow where
  "demo_flow = \<lparr>fl_service = \<lparr>sv_executions = [''run-1'' \<mapsto> demo_item], sv_order = [''run-1'']\<rparr>,
     fl_pc = (\<lambda>_. NodeQueued), fl_finish = [], fl_cancels = 0\<rparr>"

definition demo_node :: "nat \<Rightarrow> topology_node" where
  "demo_node k = g_Topology (rc_suite demo_run) ! k"

text \<open>Step \<open>a\<close> starts, runs and fails; \<open>b\<close> is canceled by the queue; \<open>h\<close> decides that it is skipped.\<close>

definition demo_ops :: "flow_op list" where
  "demo_ops =
     replicate 3 (FlowRun (demo_node 0) 5 None) @
     replicate 2 (FlowRun (demo_node 0) 6 (Some (ErrorsNew ''boom''))) @
     [FlowCanceled (demo_node 1) 7] @ replicate 2 (FlowRun (demo_node 2) 8 None)"

lemma demo_ok: "topology_ok demo_run"
  by (simp add: topology_ok_def demo_run_def plain_step_def trimmed_id_def go_simps plain_char_def)

lemma demo_booted: "booted demo_run demo_flow"
  by (auto simp: booted_def demo_run_def demo_flow_def demo_item_def new_execution_def intro!: exI)

lemma flow_reachable_fold:
  "flow_reachable c F \<Longrightarrow> \<forall>x\<in>set ops. op_node x \<in> set (g_Topology (rc_suite c)) \<Longrightarrow>
   flow_reachable c (fold (flow_step c) ops F)"
  by (induction ops arbitrary: F) (auto intro: flow_reachable.step)

lemma demo_reachable: "flow_reachable demo_run (fold (flow_step demo_run) demo_ops demo_flow)"
proof (intro flow_reachable_fold ballI)
  show "op_node x \<in> set (g_Topology (rc_suite demo_run))" if "x \<in> set demo_ops" for x
    using that by (auto simp: demo_ops_def demo_node_def demo_run_def)
qed (rule flow_reachable.boot [OF demo_booted])

subsection \<open>Properties\<close>

text \<open>C3. Every critical section of an execution's threads either ends the step it belongs to, which
  had not ended, or changes nothing a user sees of the outcome; and the status of the execution is
  at every moment the verdict on the steps that have ended: \<open>Failed\<close> once a step's run reports an
  error, \<open>Healthy\<close> once all have ended without one.\<close>

theorem execution_refines_spec:
  assumes "flow_reachable c F" "topology_ok c" "op_node x \<in> set (g_Topology (rc_suite c))"
  shows "spec_step (step_ids (g_Topology (rc_suite c))) (ended c F) (ended c (flow_step c x F)) \<and>
    (\<exists>item. sv_executions (fl_service F) (rc_eid c) = Some item \<and>
       er_Status (es_record item) = spec_verdict (step_ids (g_Topology (rc_suite c))) (ended c F))"
proof -
  obtain item where inv: "flow_inv c F item" using flow_inv_reachable [OF assms(1,2)] by blast
  then have "sv_executions (fl_service F) (rc_eid c) = Some item" by (simp add: flow_inv_def)
  with inv show ?thesis using flow_spec_step [OF inv assms(2,3)] flow_status [OF inv assms(2)] by blast
qed

theorem execution_refines_spec_witness:
  "spec_step (step_ids (g_Topology (rc_suite demo_run)))
     (ended demo_run (fold (flow_step demo_run) demo_ops demo_flow))
     (ended demo_run (flow_step demo_run (FlowRun (demo_node 0) 9 None) (fold (flow_step demo_run) demo_ops demo_flow)))"
proof -
  have "op_node (FlowRun (demo_node 0) 9 None) \<in> set (g_Topology (rc_suite demo_run))"
    by (simp add: demo_node_def demo_run_def)
  from execution_refines_spec [OF demo_reachable demo_ok this] show ?thesis by blast
qed



text \<open>C5. \<open>shouldSkipNode\<close> lets a step run exactly when one of the failures it handles has happened
  (if it handles any), no dependency was skipped, every failed dependency is one it handles or one
  that may fail, and, once the execution has failed, it or something it depends on transitively
  handles a failure that has happened.\<close>

theorem step_runs_exactly_when:
  "skip_reason topology item node = None \<longleftrightarrow>
     (n_OnFailure node \<noteq> [] \<longrightarrow> (\<exists>d\<in>set (n_OnFailure node). status_of (es_stepStatus item) d = ''failed'')) \<and>
     (\<forall>d\<in>set (n_DependsOn node). status_of (es_stepStatus item) d \<noteq> ''skipped'' \<and>
        (status_of (es_stepStatus item) d = ''failed'' \<longrightarrow>
           d \<in> set (n_OnFailure node) \<or>
           (\<exists>dep. topologyNodeByID topology d = Some dep \<and> n_ContinueOnFailure dep))) \<and>
     (er_Status (es_record item) = ''Failed'' \<longrightarrow>
        (\<exists>j. (step_dep topology)\<^sup>*\<^sup>* (n_ID node) j \<and> handles_failure topology (es_stepStatus item) j))"
  unfolding skip_reason_None any_failed_iff isFailurePathNode_iff skip_for_dependency_None by blast

theorem step_runs_exactly_when_witness:
  "skip_reason (g_Topology (rc_suite demo_run)) demo_item (demo_node 0) = None"
  unfolding step_runs_exactly_when
  by (simp add: demo_item_def demo_node_def demo_run_def plain_step_def zero_node_def boot_install_def new_execution_def)

text \<open>A failure handler whose dependency was skipped is skipped too, although one of the failures
  it handles has happened and the skipped step is one it lists: with \<open>on_failure = [a, b]\<close>, where
  \<open>b\<close> runs after \<open>a\<close>, the failure of \<open>a\<close> makes the queue cancel \<open>b\<close>, and the handler never runs.\<close>

theorem handler_skipped_with_its_trigger:
  assumes "d \<in> set (n_DependsOn node)" "status_of (es_stepStatus item) d = ''skipped''"
  shows "skip_reason topology item node \<noteq> None"
  using assms unfolding skip_reason_None skip_for_dependency_None by blast

definition demo_after :: execution_state where
  "demo_after = demo_item\<lparr>es_stepStatus := [(''a'', ''failed''), (''b'', ''skipped''), (''h'', ''pending'')]\<rparr>"

theorem handler_skipped_with_its_trigger_witness:
  "any_failed (es_stepStatus demo_after) (n_OnFailure (demo_node 2)) \<and>
   skip_reason (g_Topology (rc_suite demo_run)) demo_after (demo_node 2) \<noteq> None"
proof -
  have "''b'' \<in> set (n_DependsOn (demo_node 2))"
    by (simp add: demo_node_def demo_run_def plain_step_def)
  moreover have "status_of (es_stepStatus demo_after) ''b'' = ''skipped''"
    by (simp add: demo_after_def status_of_def)
  ultimately have "skip_reason (g_Topology (rc_suite demo_run)) demo_after (demo_node 2) \<noteq> None"
    by (rule handler_skipped_with_its_trigger)
  then show ?thesis
    by (simp add: any_failed_def demo_after_def status_of_def demo_node_def demo_run_def)
qed

end
