(* ===== verification/Execution_Store.thy ===== *)
theory Execution_Store
  imports Execution_Flow
begin

text \<open>
  The executions the service keeps in memory: storing and evicting them, listing and reading them
  (\<open>internal/execution/runtime.go\<close>), the snapshot given to observers (\<open>topology.go\<close>), and the event
  stream of an execution (\<open>stream.go\<close>) up to the channels, which \<open>Stream_Hub\<close> models. The page of
  \<open>ListExecutions\<close> is \<open>None\<close> where slicing out of range would panic.
\<close>

subsection \<open>Storing and evicting\<close>

definition maxStoredExecutions :: nat where
  "maxStoredExecutions = 200"

definition evictable :: "exec_service \<Rightarrow> string \<Rightarrow> bool" where
  "evictable s eid =
     (case sv_executions s eid of
        None \<Rightarrow> False
      | Some item \<Rightarrow> er_Status (es_record item) = ''Healthy'' \<or> er_Status (es_record item) = ''Failed'')"

function evictOldExecutions :: "exec_service \<Rightarrow> exec_service" where
  "evictOldExecutions s =
     (case sv_order s of
        [] \<Rightarrow> s
      | oldest # rest \<Rightarrow>
          if maxStoredExecutions < length (sv_order s) \<and> evictable s oldest
          then evictOldExecutions
                 (s\<lparr>sv_executions := (sv_executions s)(oldest := None), sv_order := rest\<rparr>)
          else s)"
  by pat_completeness auto
termination
  by (relation "measure (\<lambda>s. length (sv_order s))") auto

declare evictOldExecutions.simps [simp del]

definition filterOut :: "string list \<Rightarrow> string \<Rightarrow> string list" where
  "filterOut items target = filter (\<lambda>item. item \<noteq> target) items"

text \<open>The section of \<open>CreateExecution\<close> that registers the new entry.\<close>

definition store_execution :: "string \<Rightarrow> execution_state \<Rightarrow> exec_service \<Rightarrow> exec_service" where
  "store_execution eid state s =
     (let s = put_execution eid state s in evictOldExecutions (s\<lparr>sv_order := sv_order s @ [eid]\<rparr>))"

text \<open>The section of \<open>bootExecution\<close> that forgets an execution the queue refused.\<close>

definition forget_execution :: "string \<Rightarrow> exec_service \<Rightarrow> exec_service" where
  "forget_execution eid s =
     s\<lparr>sv_executions := (sv_executions s)(eid := None), sv_order := filterOut (sv_order s) eid\<rparr>"

text \<open>\<open>failBootedExecution\<close> up to the release of the execution's resources.\<close>

definition failBootedExecution :: "gotime \<Rightarrow> string \<Rightarrow> goerr option \<Rightarrow> exec_service \<Rightarrow> exec_service" where
  "failBootedExecution now eid err s =
     (let s = (case sv_executions s eid of
                 None \<Rightarrow> s
               | Some item \<Rightarrow> put_execution eid (touch now (set_status ''Failed'' item)) s)
      in case err of
          None \<Rightarrow> s
        | Some e \<Rightarrow>
            fst (appendEvent now eid
              \<lparr>xe_ID = ''boot-failed'', xe_Source = ''boot'', xe_Timestamp = nextTimestamp now eid s,
               xe_Text = ''Execution could not start: '' @ Error e, xe_Status = ''failed'',
               xe_Level = ''error''\<rparr> s))"

subsection \<open>Reading\<close>

record execution_summary =
  su_ID :: string
  su_SuiteID :: string
  su_SuiteTitle :: string
  su_Profile :: string
  su_BackendID :: string
  su_Backend :: string
  su_Trigger :: string
  su_Status :: string
  su_Duration :: string
  su_StartedAt :: gotime

definition summaryLocked :: "execution_state \<Rightarrow> execution_summary" where
  "summaryLocked item =
     (let r = es_record item in
      \<lparr>su_ID = er_ID r, su_SuiteID = g_ID (er_Suite r), su_SuiteTitle = g_Title (er_Suite r),
       su_Profile = er_Profile r, su_BackendID = er_BackendID r, su_Backend = er_Backend r,
       su_Trigger = er_Trigger r, su_Status = er_Status r, su_Duration = durationLocked item,
       su_StartedAt = er_StartedAt r\<rparr>)"

definition visible :: "string \<Rightarrow> execution_state \<Rightarrow> bool" where
  "visible workspaceID item \<longleftrightarrow> workspaceID = [] \<or> es_workspaceID item = workspaceID"

definition all_summaries :: "string \<Rightarrow> exec_service \<Rightarrow> execution_summary list" where
  "all_summaries workspaceID s =
     map summaryLocked (filter (visible workspaceID) (List.map_filter (sv_executions s) (rev (sv_order s))))"

definition ListExecutions :: "string \<Rightarrow> int \<Rightarrow> int \<Rightarrow> exec_service \<Rightarrow> (execution_summary list \<times> nat) option" where
  "ListExecutions workspaceID offset limit s =
     (let xs = all_summaries workspaceID s; total = int (length xs) in
      if total \<le> offset then Some ([], length xs)
      else
        let end_at = (if total < offset + limit then total else offset + limit)
        in if 0 \<le> offset \<and> offset \<le> end_at
           then Some (take (nat (end_at - offset)) (drop (nat offset) xs), length xs)
           else None)"

definition ErrExecutionNotFound :: goerr where
  "ErrExecutionNotFound = ErrorsNew ''execution not found''"

definition GetExecution :: "string \<Rightarrow> string \<Rightarrow> exec_service \<Rightarrow> goerr + execution_record \<times> string" where
  "GetExecution eid workspaceID s =
     (case sv_executions s eid of
        None \<Rightarrow> Inl ErrExecutionNotFound
      | Some item \<Rightarrow>
          if \<not> visible workspaceID item then Inl ErrExecutionNotFound
          else Inr (es_record item, durationLocked item))"

definition countHealthySteps :: "string \<Rightarrow> exec_service \<Rightarrow> nat" where
  "countHealthySteps eid s =
     (case sv_executions s eid of
        None \<Rightarrow> 0
      | Some item \<Rightarrow> length (filter (\<lambda>(i, status). status = stepStatusHealthy) (es_stepStatus item)))"

text \<open>
  The snapshot; \<open>ProgressRatio\<close>, a float, is kept as the pair the code divides.
\<close>

record step_snapshot =
  ss_ID :: string
  ss_Name :: string
  ss_Kind :: string
  ss_Status :: string
  ss_DependsOn :: "string list"
  ss_Level :: int

record exec_snapshot =
  sn_summary :: execution_summary
  sn_UpdatedAt :: gotime
  sn_TotalSteps :: nat
  sn_RunningSteps :: nat
  sn_HealthySteps :: nat
  sn_FailedSteps :: nat
  sn_SkippedSteps :: nat
  sn_PendingSteps :: nat
  sn_ProgressRatio :: "nat \<times> nat"
  sn_Steps :: "step_snapshot list"

definition count_steps :: "step_statuses \<Rightarrow> (string \<Rightarrow> bool) \<Rightarrow> topology_node list \<Rightarrow> nat" where
  "count_steps statuses P nodes = length (filter (\<lambda>n. P (status_of statuses (n_ID n))) nodes)"

definition snapshotExecution :: "string \<Rightarrow> exec_service \<Rightarrow> exec_service \<times> exec_snapshot option" where
  "snapshotExecution eid s =
     (case sv_executions s eid of
        None \<Rightarrow> (s, None)
      | Some item \<Rightarrow>
          let item = ensureStepStatus item;
              topology = g_Topology (er_Suite (es_record item));
              statuses = (if es_stepStatus item = []
                          then fst (buildStepStatus topology (er_Events (es_record item)))
                          else es_stepStatus item);
              running = count_steps statuses (\<lambda>x. x = stepStatusRunning) topology;
              healthy = count_steps statuses (\<lambda>x. x = stepStatusHealthy) topology;
              failed = count_steps statuses (\<lambda>x. x = stepStatusFailed) topology;
              skipped = count_steps statuses (\<lambda>x. x = stepStatusSkipped) topology;
              pending = count_steps statuses
                (\<lambda>x. x \<notin> {stepStatusRunning, stepStatusHealthy, stepStatusFailed, stepStatusSkipped}) topology;
              steps = map (\<lambda>n. \<lparr>ss_ID = n_ID n, ss_Name = n_Name n, ss_Kind = n_Kind n,
                 ss_Status = status_of statuses (n_ID n), ss_DependsOn = n_DependsOn n, ss_Level = n_Level n\<rparr>) topology
          in (put_execution eid item s,
              Some \<lparr>sn_summary = summaryLocked item, sn_UpdatedAt = er_UpdatedAt (es_record item),
                 sn_TotalSteps = length steps, sn_RunningSteps = running, sn_HealthySteps = healthy,
                 sn_FailedSteps = failed, sn_SkippedSteps = skipped, sn_PendingSteps = pending,
                 sn_ProgressRatio = (if steps = [] then (0, 1) else (healthy + running + failed + skipped, length steps)),
                 sn_Steps = steps\<rparr>))"

subsection \<open>Profiles\<close>

definition suiteHasProfile :: "profile_option list \<Rightarrow> string \<Rightarrow> bool" where
  "suiteHasProfile profiles fileName = list_ex (\<lambda>p. p_FileName p = fileName) profiles"

definition defaultProfile :: "profile_option list \<Rightarrow> string" where
  "defaultProfile profiles =
     (case find p_Default profiles of
        Some p \<Rightarrow> p_FileName p
      | None \<Rightarrow> (case profiles of [] \<Rightarrow> [] | p # _ \<Rightarrow> p_FileName p))"

text \<open>The profile \<open>CreateExecution\<close> runs, or \<open>ErrProfileNotFound\<close>.\<close>

definition chosen_profile :: "string \<Rightarrow> profile_option list \<Rightarrow> goerr + string" where
  "chosen_profile requested profiles =
     (let profile = (if TrimSpace requested = [] then defaultProfile profiles else TrimSpace requested)
      in if profile \<noteq> [] \<and> \<not> suiteHasProfile profiles profile
         then Inl (ErrorsNew ''profile not found'') else Inr profile)"

subsection \<open>The file a step runs\<close>

definition nodeSourceFiles :: "topology_node \<Rightarrow> suite_definition \<Rightarrow> source_file list" where
  "nodeSourceFiles node suite =
     (let owner = FirstNonEmpty [n_SourceSuiteID node, g_ID suite] in
      if owner = g_ID suite then g_SourceFiles suite
      else case find (\<lambda>d. d_SuiteID d = owner \<and> d_SourceFiles d \<noteq> []) (g_ResolvedDependencies suite) of
          Some d \<Rightarrow> d_SourceFiles d
        | None \<Rightarrow> g_SourceFiles suite)"

definition resolveNodeFileContent :: "topology_node \<Rightarrow> suite_definition \<Rightarrow> string" where
  "resolveNodeFileContent node suite =
     (if n_File node = [] then []
      else
        let candidates = [n_File node, ''tasks/'' @ n_File node, ''tests/'' @ n_File node]
        in case find (\<lambda>sf. f_Path sf \<in> set candidates) (nodeSourceFiles node suite) of
            None \<Rightarrow> []
          | Some sf \<Rightarrow> f_Content sf)"

subsection \<open>Lemmas\<close>

lemma evict_stop:
  "\<not> (maxStoredExecutions < length (sv_order s) \<and> evictable s (hd (sv_order s))) \<Longrightarrow> evictOldExecutions s = s"
  by (subst evictOldExecutions.simps) (auto split: list.split)

lemma evict_go:
  "sv_order s = oldest # rest \<Longrightarrow> maxStoredExecutions < length (sv_order s) \<Longrightarrow> evictable s oldest \<Longrightarrow>
   evictOldExecutions s =
     evictOldExecutions (s\<lparr>sv_executions := (sv_executions s)(oldest := None), sv_order := rest\<rparr>)"
  by (subst evictOldExecutions.simps) simp

lemma evict_spec:
  "\<exists>k. sv_order (evictOldExecutions s) = drop k (sv_order s) \<and>
     sv_executions (evictOldExecutions s) = sv_executions s |` (- set (take k (sv_order s))) \<and>
     (\<forall>i\<in>set (take k (sv_order s)). evictable s i)"
proof (induction s rule: evictOldExecutions.induct)
  case (1 s)
  show ?case
  proof (cases "maxStoredExecutions < length (sv_order s) \<and> evictable s (hd (sv_order s))")
    case False
    then show ?thesis by (intro exI [of _ 0]) (simp add: evict_stop restrict_map_def)
  next
    case True
    then obtain oldest rest where o: "sv_order s = oldest # rest" by (cases "sv_order s") auto
    let ?s = "s\<lparr>sv_executions := (sv_executions s)(oldest := None), sv_order := rest\<rparr>"
    have old: "maxStoredExecutions < length (sv_order s)" "evictable s oldest" using True o by simp_all
    then obtain k where k: "sv_order (evictOldExecutions ?s) = drop k (sv_order ?s)"
      "sv_executions (evictOldExecutions ?s) = sv_executions ?s |` (- set (take k (sv_order ?s)))"
      "\<forall>i\<in>set (take k (sv_order ?s)). evictable ?s i" using "1.IH" [OF o] by blast
    have "evictable s i" if "evictable ?s i" for i
      using that by (auto simp: evictable_def split: if_splits)
    with k old o show ?thesis
      by (intro exI [of _ "Suc k"]) (auto simp: evict_go [OF o] restrict_map_def fun_eq_iff)
  qed
qed

lemma evict_fixed:
  "maxStoredExecutions < length (sv_order (evictOldExecutions s)) \<Longrightarrow>
   \<not> evictable (evictOldExecutions s) (hd (sv_order (evictOldExecutions s)))"
proof (induction s rule: evictOldExecutions.induct)
  case (1 s)
  show ?case
  proof (cases "maxStoredExecutions < length (sv_order s) \<and> evictable s (hd (sv_order s))")
    case False
    with "1.prems" show ?thesis by (simp add: evict_stop)
  next
    case True
    then obtain oldest rest where o: "sv_order s = oldest # rest" by (cases "sv_order s") auto
    with True "1.IH" [OF o] "1.prems" show ?thesis by (simp add: evict_go [OF o])
  qed
qed

lemma count_steps_three:
  assumes "distinct [a, b, c]"
  shows "length (filter (\<lambda>n. status_of st (n_ID n) \<in> {a, b, c}) ns) =
    count_steps st (\<lambda>x. x = a) ns + count_steps st (\<lambda>x. x = b) ns + count_steps st (\<lambda>x. x = c) ns"
  using assms unfolding count_steps_def by (induction ns) auto

lemma count_steps_four:
  assumes "distinct [a, b, c, d]"
  shows "count_steps st (\<lambda>x. x = a) ns + count_steps st (\<lambda>x. x = b) ns + count_steps st (\<lambda>x. x = c) ns +
    count_steps st (\<lambda>x. x = d) ns + count_steps st (\<lambda>x. x \<notin> {a, b, c, d}) ns = length ns"
  using assms unfolding count_steps_def by (induction ns) auto

subsection \<open>Properties\<close>

definition demo_service :: exec_service where
  "demo_service = fl_service demo_flow"

text \<open>Eviction removes a prefix of the order, only executions that are \<open>Healthy\<close> or \<open>Failed\<close>, keeps
  every other entry, and leaves more than the maximum only when the oldest execution that is left
  has not ended: one execution that never ends keeps every later one in memory.\<close>

theorem evict_removes_oldest_ended:
  "(\<exists>k. sv_order (evictOldExecutions s) = drop k (sv_order s) \<and>
      sv_executions (evictOldExecutions s) = sv_executions s |` (- set (take k (sv_order s))) \<and>
      (\<forall>i\<in>set (take k (sv_order s)). evictable s i)) \<and>
   (length (sv_order (evictOldExecutions s)) \<le> maxStoredExecutions \<or>
      \<not> evictable (evictOldExecutions s) (hd (sv_order (evictOldExecutions s))))"
  using evict_spec [of s] evict_fixed [of s] not_le_imp_less by blast

theorem evict_removes_oldest_ended_witness:
  "length (sv_order (evictOldExecutions demo_service)) \<le> maxStoredExecutions"
  using evict_removes_oldest_ended [of demo_service]
  by (auto simp: demo_service_def demo_flow_def maxStoredExecutions_def)

text \<open>With a page that starts at 0 or later and a limit that is not negative \<open>ListExecutions\<close> does
  not panic, reports the number of visible executions, and two consecutive pages are the page of
  both limits together: paging neither skips nor repeats an execution.\<close>

theorem ListExecutions_pages:
  assumes "0 \<le> offset" "0 \<le> l1" "0 \<le> l2"
  shows "\<exists>p q. ListExecutions w offset l1 s = Some (p, length (all_summaries w s)) \<and>
    ListExecutions w (offset + l1) l2 s = Some (q, length (all_summaries w s)) \<and>
    ListExecutions w offset (l1 + l2) s = Some (p @ q, length (all_summaries w s))"
proof -
  let ?xs = "all_summaries w s"
  have page: "ListExecutions w o' l s = Some (take (nat l) (drop (nat o') ?xs), length ?xs)"
    if "0 \<le> o'" "0 \<le> l" for o' l
    using that by (auto simp: ListExecutions_def Let_def nat_diff_distrib intro!: arg_cong2 [where f = take])
  have "take (nat (l1 + l2)) (drop (nat offset) ?xs) =
      take (nat l1) (drop (nat offset) ?xs) @ take (nat l2) (drop (nat (offset + l1)) ?xs)"
    using assms by (simp add: nat_add_distrib take_add add.commute)
  then show ?thesis using page assms by auto
qed

theorem ListExecutions_pages_witness:
  "\<exists>p q. ListExecutions [] 0 1 demo_service = Some (p, 1) \<and> ListExecutions [] 1 1 demo_service = Some (q, 1) \<and>
     ListExecutions [] 0 2 demo_service = Some (p @ q, 1)"
  using ListExecutions_pages [of 0 1 1 "[]" demo_service]
  by (simp add: all_summaries_def demo_service_def demo_flow_def visible_def List.map_filter_simps)

text \<open>The counts of a snapshot add up to the number of steps, the progress ratio is between 0 and
  1, and for an execution whose steps are running the ended steps it counts are exactly the
  counter \<open>completed\<close> that decides when the execution ends.\<close>

theorem snapshot_counts:
  assumes "flow_reachable c F" "topology_ok c" "snapshotExecution (rc_eid c) (fl_service F) = (s', Some sn)"
    "sv_executions (fl_service F) (rc_eid c) = Some item"
  shows "sn_TotalSteps sn = sn_RunningSteps sn + sn_HealthySteps sn + sn_FailedSteps sn + sn_SkippedSteps sn + sn_PendingSteps sn \<and>
    fst (sn_ProgressRatio sn) \<le> snd (sn_ProgressRatio sn) \<and> 0 < snd (sn_ProgressRatio sn) \<and>
    int (sn_HealthySteps sn + sn_FailedSteps sn + sn_SkippedSteps sn) = es_completed item"
proof -
  let ?T = "g_Topology (rc_suite c)" and ?st = "es_stepStatus item"
  obtain item' where "flow_inv c F item'" using flow_inv_reachable [OF assms(1,2)] by blast
  then have inv: "flow_inv c F item" using assms(4) by (simp add: flow_inv_def)
  have keys: "map fst ?st = map n_ID ?T" and completed: "es_completed item = count_terminal ?st"
    and suite: "er_Suite (es_record item) = rc_suite c"
    using inv unfolding flow_inv_def item_inv_def by blast+
  have pcs: "pc_status_ok (fl_pc F (n_ID n)) (status_of ?st (n_ID n))" if "n \<in> set ?T" for n
    using inv that by (simp add: flow_inv_def)
  have "status_of ?st (n_ID n) \<in> {''pending'', ''running'', ''healthy'', ''failed'', ''skipped''}" if "n \<in> set ?T" for n
    using pcs [OF that] by (cases "fl_pc F (n_ID n)") auto
  then have ended: "isTerminalStepStatus (status_of ?st (n_ID n)) \<longleftrightarrow> status_of ?st (n_ID n) \<in> {''healthy'', ''failed'', ''skipped''}"
    if "n \<in> set ?T" for n using that by fastforce
  have "count_terminal ?st = int (length (filter (\<lambda>n. isTerminalStepStatus (status_of ?st (n_ID n))) ?T))"
    using count_terminal_filter [of ?st] assms(2) by (simp add: keys topology_ok_def filter_map comp_def)
  also have "filter (\<lambda>n. isTerminalStepStatus (status_of ?st (n_ID n))) ?T =
      filter (\<lambda>n. status_of ?st (n_ID n) \<in> {''healthy'', ''failed'', ''skipped''}) ?T"
    using ended by (intro filter_cong) auto
  also have "length \<dots> = count_steps ?st (\<lambda>x. x = ''healthy'') ?T + count_steps ?st (\<lambda>x. x = ''failed'') ?T + count_steps ?st (\<lambda>x. x = ''skipped'') ?T"
    by (rule count_steps_three) simp
  finally have counted: "int (count_steps ?st (\<lambda>x. x = ''healthy'') ?T + count_steps ?st (\<lambda>x. x = ''failed'') ?T +
      count_steps ?st (\<lambda>x. x = ''skipped'') ?T) = es_completed item"
    by (simp add: completed)
  have st: "?st = [] \<longleftrightarrow> ?T = []" using keys by (metis map_is_Nil_conv)
  show ?thesis
  proof (cases "?T = []")
    case True
    then show ?thesis using assms(3,4) counted st suite
      by (auto simp: snapshotExecution_def ensureStepStatus_def Let_def count_steps_def buildStepStatus_def pending_statuses_def)
  next
    case False
    then have sn: "sn_TotalSteps sn = length ?T" "sn_RunningSteps sn = count_steps ?st (\<lambda>x. x = ''running'') ?T"
      "sn_HealthySteps sn = count_steps ?st (\<lambda>x. x = ''healthy'') ?T" "sn_FailedSteps sn = count_steps ?st (\<lambda>x. x = ''failed'') ?T"
      "sn_SkippedSteps sn = count_steps ?st (\<lambda>x. x = ''skipped'') ?T"
      "sn_PendingSteps sn = count_steps ?st (\<lambda>x. x \<notin> {''running'', ''healthy'', ''failed'', ''skipped''}) ?T"
      "sn_ProgressRatio sn = (sn_HealthySteps sn + sn_RunningSteps sn + sn_FailedSteps sn + sn_SkippedSteps sn, length ?T)"
      using assms(3,4) st suite by (auto simp: snapshotExecution_def Let_def)
    have "count_steps ?st (\<lambda>x. x = ''running'') ?T + count_steps ?st (\<lambda>x. x = ''healthy'') ?T + count_steps ?st (\<lambda>x. x = ''failed'') ?T +
        count_steps ?st (\<lambda>x. x = ''skipped'') ?T + count_steps ?st (\<lambda>x. x \<notin> {''running'', ''healthy'', ''failed'', ''skipped''}) ?T = length ?T"
      by (rule count_steps_four) simp
    then show ?thesis using counted False by (simp add: sn)
  qed
qed

theorem snapshot_counts_witness:
  "\<exists>s' sn. snapshotExecution ''run-1'' demo_service = (s', Some sn) \<and>
     sn_TotalSteps sn = sn_RunningSteps sn + sn_HealthySteps sn + sn_FailedSteps sn + sn_SkippedSteps sn + sn_PendingSteps sn"
proof -
  have item: "sv_executions (fl_service demo_flow) (rc_eid demo_run) = Some demo_item"
    by (simp add: demo_flow_def demo_run_def)
  obtain s' sn where sn: "snapshotExecution (rc_eid demo_run) (fl_service demo_flow) = (s', Some sn)"
    using item by (simp add: snapshotExecution_def Let_def)
  from snapshot_counts [OF flow_reachable.boot [OF demo_booted] demo_ok sn item] sn show ?thesis
    by (auto simp: demo_service_def demo_run_def)
qed

end
