(* ===== verification/Execution_Boot.thy ===== *)
theory Execution_Boot
  imports Task_Queue Suite_Resolver Execution_Store
begin

text \<open>
  \<open>bootExecution\<close> of \<open>internal/execution/runtime.go\<close>: how the resolved nodes of a suite become tasks
  of the queue. \<open>exec_queue\<close> is the queue as the execution service uses it: executions with fresh
  ids are booted on topologies the resolver returned, a group is pruned when none of its tasks is
  pending, and every other critical section of the queue may happen at any time.
\<close>

definition task_id :: "string \<Rightarrow> string \<Rightarrow> string" where
  "task_id eid i = eid @ '':'' @ i"

text \<open>
  The task of a node. The table \<open>taskIDs\<close> has an entry for each node's id, so a dependency outside
  the topology is left out; a dependency the node handles the failure of is a soft one.
\<close>

definition boot_task :: "string \<Rightarrow> string \<Rightarrow> bool \<Rightarrow> topology_node list \<Rightarrow> topology_node \<Rightarrow> qtask" where
  "boot_task eid pool capacity nodes node =
     (let deps = filter (\<lambda>d. d \<in> n_ID ` set nodes) (n_DependsOn node)
      in \<lparr>t_ID = task_id eid (n_ID node), t_Group = eid, t_Name = n_Name node,
          t_Dependencies = map (task_id eid) (filter (\<lambda>d. d \<notin> set (n_OnFailure node)) deps),
          t_SoftDependencies = map (task_id eid) (filter (\<lambda>d. d \<in> set (n_OnFailure node)) deps),
          t_LeaseTTL = 8 * second, t_Run = True, t_OnCanceled = True, t_Pool = pool,
          t_Capacity = capacity\<rparr>)"

definition boot_tasks :: "string \<Rightarrow> string \<Rightarrow> bool \<Rightarrow> topology_node list \<Rightarrow> qtask list" where
  "boot_tasks eid pool capacity nodes = map (boot_task eid pool capacity nodes) nodes"

definition group_settled :: "qmem \<Rightarrow> string \<Rightarrow> bool" where
  "group_settled m grp \<longleftrightarrow>
     (\<forall>i e. m_entries m i = Some e \<longrightarrow> t_Group (e_Task e) = grp \<longrightarrow> e_State e \<noteq> StatePending)"

inductive exec_queue :: "qmem \<Rightarrow> string set \<Rightarrow> bool" where
  start: "exec_queue NewMemory {}"
| boot: "exec_queue m eids \<Longrightarrow> CHR '':'' \<notin> set eid \<Longrightarrow> eid \<notin> eids \<Longrightarrow>
    ResolveRuntime env suite catalog = Inr r \<Longrightarrow>
    exec_queue (queue_step cap (OpEnqueue (boot_tasks eid pool capacity (rt_Nodes r))) m) (insert eid eids)"
| prune: "exec_queue m eids \<Longrightarrow> group_settled m eid \<Longrightarrow>
    exec_queue (queue_step cap (OpPruneGroup eid) m) eids"
| other: "exec_queue m eids \<Longrightarrow> (\<And>ts. op \<noteq> OpEnqueue ts) \<Longrightarrow> (\<And>grp. op \<noteq> OpPruneGroup grp) \<Longrightarrow>
    exec_queue (queue_step cap op m) eids"

subsection \<open>Lemmas\<close>

lemma task_id_inj:
  "CHR '':'' \<notin> set e1 \<Longrightarrow> CHR '':'' \<notin> set e2 \<Longrightarrow> task_id e1 i = task_id e2 j \<longleftrightarrow> e1 = e2 \<and> i = j"
proof -
  assume plain: "CHR '':'' \<notin> set e1" "CHR '':'' \<notin> set e2"
  have "e1 = e2 \<and> i = j" if "task_id e1 i = task_id e2 j"
  proof -
    have "takeWhile (\<lambda>c. c \<noteq> CHR '':'') (task_id e1 i) = e1" "takeWhile (\<lambda>c. c \<noteq> CHR '':'') (task_id e2 j) = e2"
      using plain unfolding task_id_def by (simp_all add: takeWhile_tail takeWhile_eq_all_conv) (metis takeWhile_tail)+
    with that have "e1 = e2" by simp
    with that show ?thesis by (simp add: task_id_def)
  qed
  then show ?thesis by blast
qed

lemma task_id_disjoint:
  "CHR '':'' \<notin> set e1 \<Longrightarrow> CHR '':'' \<notin> set e2 \<Longrightarrow> e1 \<noteq> e2 \<Longrightarrow> range (task_id e1) \<inter> range (task_id e2) = {}"
  using task_id_inj by auto

lemma boot_task_simps [simp]:
  "t_ID (boot_task eid pool capacity nodes n) = task_id eid (n_ID n)"
  "t_Group (boot_task eid pool capacity nodes n) = eid"
  "t_Run (boot_task eid pool capacity nodes n)"
  "task_refs (boot_task eid pool capacity nodes n) = task_id eid ` (set (n_DependsOn n) \<inter> n_ID ` set nodes)"
  by (auto simp: boot_task_def Let_def task_refs_def)

lemma boot_task_soft:
  "set (t_SoftDependencies (boot_task eid pool capacity nodes n)) \<subseteq> task_id eid ` n_ID ` set nodes"
  by (auto simp: boot_task_def Let_def)

lemma boot_tasks_ids: "t_ID ` set (boot_tasks eid pool capacity nodes) = task_id eid ` n_ID ` set nodes"
  by (simp add: boot_tasks_def image_image)

lemma boot_tasks_sorted:
  assumes "CHR '':'' \<notin> set eid"
  shows "deps_before seen ns \<Longrightarrow> batch_sorted (map (boot_task eid pool capacity nodes) ns)"
proof (induction ns arbitrary: seen)
  case (Cons n ns)
  have later: "(seen \<union> {n_ID n}) \<inter> n_ID ` set ns = {}"
    using Cons.prems deps_before_distinct [of "insert (n_ID n) seen" ns] by (auto simp: step_ids_def)
  then have "n_ID n \<notin> n_ID ` set ns" "set (n_DependsOn n) \<inter> n_ID ` set (n # ns) = {}"
    using Cons.prems by auto
  then have "task_id eid (n_ID n) \<notin> task_id eid ` n_ID ` set ns"
    "task_id eid ` (set (n_DependsOn n) \<inter> n_ID ` set nodes) \<inter> task_id eid ` n_ID ` set (n # ns) = {}"
    using task_id_inj [OF assms assms] by (auto simp: image_iff)
  then show ?case using Cons by (auto simp: image_image)
qed simp

text \<open>Every task belongs to a booted execution and refers to tasks of that execution only.\<close>

definition group_local :: "qmem \<Rightarrow> string set \<Rightarrow> bool" where
  "group_local m eids \<longleftrightarrow>
     (\<forall>eid\<in>eids. CHR '':'' \<notin> set eid) \<and>
     (\<forall>i t. task_at (m_entries m) i = Some t \<longrightarrow>
        t_Group t \<in> eids \<and> i \<in> range (task_id (t_Group t)) \<and> task_refs t \<subseteq> range (task_id (t_Group t)))"

lemma group_local_step:
  assumes "group_local m eids" "\<And>u. u \<in> set (op_tasks op) \<Longrightarrow> t_Group u = eid \<and> task_refs u \<subseteq> range (task_id eid)"
    "op_tasks op \<noteq> [] \<Longrightarrow> CHR '':'' \<notin> set eid" "eids' = (if op_tasks op = [] then eids else insert eid eids)"
    "queue_inv m" "\<And>u. u \<in> set (op_tasks op) \<Longrightarrow> t_ID u \<in> range (task_id eid)"
  shows "group_local (queue_step cap op m) eids'"
proof -
  have inv: "queue_inv (queue_step cap op m)" by (rule queue_inv_step [OF assms(5)])
  have "t_Group t \<in> eids' \<and> i \<in> range (task_id (t_Group t)) \<and> task_refs t \<subseteq> range (task_id (t_Group t))"
    if t: "task_at (m_entries (queue_step cap op m)) i = Some t" for i t
    using queue_step_tasks [OF t]
  proof
    assume "task_at (m_entries m) i = Some t"
    then show ?thesis using assms(1,4) by (auto simp: group_local_def)
  next
    assume "\<exists>u\<in>set (op_tasks op). t = e_Task (new_entry u)"
    then obtain u where u: "u \<in> set (op_tasks op)" "t = e_Task (new_entry u)" by blast
    have "t_ID t = i"
      using t inv by (auto simp: task_at_def queue_inv_def entry_ok_def)
    then show ?thesis using u assms(2) [OF u(1)] assms(6) [OF u(1)] assms(4)
      by (cases "op_tasks op") (auto simp: new_entry_def task_refs_def)
  qed
  moreover have "\<forall>e\<in>eids'. CHR '':'' \<notin> set e"
    using assms(1,3,4) by (auto simp: group_local_def)
  ultimately show ?thesis unfolding group_local_def by blast
qed

lemma resolved_ordered: "ResolveRuntime env suite catalog = Inr r \<Longrightarrow> deps_before {} (rt_Nodes r)"
  using ResolveRuntime_all [where P = "\<lambda>ns. deps_before {} ns"] order_suite_ordered by blast

lemma boot_fits:
  assumes "group_local m eids" "CHR '':'' \<notin> set eid" "eid \<notin> eids" "deps_before {} nodes"
  shows "batch_fits m (boot_tasks eid pool capacity nodes)"
proof -
  have "task_refs t \<inter> t_ID ` set (boot_tasks eid pool capacity nodes) = {}" if "task_at (m_entries m) i = Some t" for i t
  proof -
    have g: "t_Group t \<in> eids" "task_refs t \<subseteq> range (task_id (t_Group t))" "CHR '':'' \<notin> set (t_Group t)"
      using assms(1) that by (auto simp: group_local_def)
    then have "t_Group t \<noteq> eid" using assms(3) by auto
    then show ?thesis
      using g(2) task_id_disjoint [OF g(3) assms(2)] unfolding boot_tasks_ids by blast
  qed
  moreover have "set (t_SoftDependencies t) \<subseteq> t_ID ` set (boot_tasks eid pool capacity nodes)"
    if mem: "t \<in> set (boot_tasks eid pool capacity nodes)" for t
  proof -
    obtain n where "t = boot_task eid pool capacity nodes n" using mem by (auto simp: boot_tasks_def)
    then show ?thesis unfolding boot_tasks_ids using boot_task_soft by blast
  qed
  moreover have "batch_sorted (boot_tasks eid pool capacity nodes)"
    unfolding boot_tasks_def by (rule boot_tasks_sorted [OF assms(2,4)])
  ultimately show ?thesis unfolding batch_fits_def by blast
qed

lemma settled_prunes:
  assumes "group_local m eids" "group_settled m eid"
  shows "prune_fits m eid"
  unfolding prune_fits_def
proof (intro allI impI ballI notI)
  fix i e d
  assume e: "m_entries m i = Some e" "e_State e = StatePending" "d \<in> task_refs (e_Task e)" "prunable eid (m_entries m) d"
  from e(4) obtain f where f: "m_entries m d = Some f" "t_Group (e_Task f) = eid"
    by (auto simp: prunable_def split: option.splits)
  have loc: "t_Group (e_Task x) \<in> eids" "CHR '':'' \<notin> set (t_Group (e_Task x))" "j \<in> range (task_id (t_Group (e_Task x)))"
      "task_refs (e_Task x) \<subseteq> range (task_id (t_Group (e_Task x)))"
    if "m_entries m j = Some x" for j x
    using assms(1) task_at_Some [of "m_entries m", OF that] unfolding group_local_def by blast+
  have "d \<in> range (task_id (t_Group (e_Task e)))" using loc(4) [OF e(1)] e(3) by blast
  then have "t_Group (e_Task e) = t_Group (e_Task f)"
    using task_id_disjoint [OF loc(2) [OF e(1)] loc(2) [OF f(1)]] loc(3) [OF f(1)] by blast
  with assms(2) e(1,2) f(2) show False unfolding group_settled_def by blast
qed

lemma exec_queue_inv: "exec_queue m eids \<Longrightarrow> queue_disciplined m \<and> group_local m eids"
proof (induction rule: exec_queue.induct)
  case start
  have "group_local NewMemory {}" by (simp add: group_local_def NewMemory_def task_at_def)
  then show ?case using queue_disciplined.start by blast
next
  case (boot m eids eid env suite catalog r cap pool capacity)
  let ?ts = "boot_tasks eid pool capacity (rt_Nodes r)"
  have inv: "queue_inv m" using boot.IH queue_inv_reachable queue_disciplined_reachable by blast
  have "batch_fits m ?ts" using boot boot_fits resolved_ordered by blast
  then have "queue_disciplined (queue_step cap (OpEnqueue ?ts) m)"
    using boot.IH by (intro queue_disciplined.step) (simp_all add: disciplined_def)
  moreover have "group_local (queue_step cap (OpEnqueue ?ts) m) (if ?ts = [] then eids else insert eid eids)"
    by (rule group_local_step [where eid = eid])
       (use boot inv in \<open>auto simp: op_tasks_def boot_tasks_def\<close>)
  then have "group_local (queue_step cap (OpEnqueue ?ts) m) (insert eid eids)"
    using boot.hyps by (auto simp: group_local_def split: if_splits)
  ultimately show ?case by blast
next
  case (prune m eids eid cap)
  then have "queue_disciplined (queue_step cap (OpPruneGroup eid) m)"
    using settled_prunes [of m eids eid] by (intro queue_disciplined.step) (simp_all add: disciplined_def)
  moreover have "queue_inv m" using prune.IH queue_inv_reachable queue_disciplined_reachable by blast
  then have "group_local (queue_step cap (OpPruneGroup eid) m) eids"
    using prune.IH by (intro group_local_step) (auto simp: op_tasks_def)
  ultimately show ?case by blast
next
  case (other m eids op cap)
  have "disciplined m op" using other.hyps by (cases op) (auto simp: disciplined_def)
  moreover have "queue_inv m" using other.IH queue_inv_reachable queue_disciplined_reachable by blast
  moreover have "op_tasks op = []" using other.hyps by (cases op) (auto simp: op_tasks_def)
  ultimately show ?case
    using other.IH by (auto intro!: group_local_step queue_disciplined.step)
qed

subsection \<open>Properties\<close>

text \<open>C2. Whatever executions are booted, on whatever suites resolve, and however their tasks run, fail,
  expire and are canceled: when no task is in flight, the dispatcher waits and no wakeup is
  buffered, every task of every execution has ended. No execution is left behind.\<close>

theorem executions_never_deadlock:
  assumes "exec_queue m eids" "m_idle m" "\<not> m_wake m" "m_inFlight m = []" "m_entries m i = Some e"
  shows "terminal (e_State e)"
  using exec_queue_inv [OF assms(1)] assms(2-) disciplined_quiescent by blast

definition demo_queue_ops :: "qop list" where
  "demo_queue_ops = [OpDispatch 1, OpRunReturns 2 ''run-1:db'' None, OpDispatch 3,
     OpRunReturns 4 ''run-1:api'' None, OpDispatch 5, OpWake, OpDispatch 6]"

definition demo_boot :: qmem where
  "demo_boot =
     (case ResolveRuntime demo_env (demo_suite ''lib'' []) [] of
        Inl _ \<Rightarrow> NewMemory
      | Inr r \<Rightarrow> queue_step (\<lambda>_. 0) (OpEnqueue (boot_tasks ''run-1'' ''docker'' False (rt_Nodes r))) NewMemory)"

definition demo_end :: qmem where
  "demo_end = fold (queue_step (\<lambda>_. 0)) demo_queue_ops demo_boot"

lemma exec_queue_fold:
  "exec_queue m eids \<Longrightarrow> \<forall>op\<in>set ops. (\<forall>ts. op \<noteq> OpEnqueue ts) \<and> (\<forall>grp. op \<noteq> OpPruneGroup grp) \<Longrightarrow>
   exec_queue (fold (queue_step cap) ops m) eids"
  by (induction ops arbitrary: m) (simp_all add: exec_queue.other)

lemma demo_boot_reachable: "exec_queue demo_boot {''run-1''}"
proof -
  have "(case ResolveRuntime demo_env (demo_suite ''lib'' []) [] of Inl _ \<Rightarrow> False | Inr r \<Rightarrow> True)" by code_simp
  then obtain r where "ResolveRuntime demo_env (demo_suite ''lib'' []) [] = Inr r" by (auto split: sum.splits)
  with exec_queue.boot [OF exec_queue.start, of "''run-1''", OF _ _ this] show ?thesis
    by (simp add: demo_boot_def)
qed

lemma demo_end_reachable: "exec_queue demo_end {''run-1''}"
  unfolding demo_end_def by (rule exec_queue_fold [OF demo_boot_reachable]) (simp add: demo_queue_ops_def)

lemma demo_end_state:
  "m_idle demo_end" "\<not> m_wake demo_end" "m_inFlight demo_end = []" "m_entries demo_end ''run-1:api'' \<noteq> None"
  by code_simp+

theorem executions_never_deadlock_witness:
  "\<exists>e. m_entries demo_end ''run-1:api'' = Some e \<and> terminal (e_State e)"
  using demo_end_state(4) executions_never_deadlock [OF demo_end_reachable demo_end_state(1-3)] by blast

text \<open>The queue accepts the tasks of an execution with a fresh id: \<open>Enqueue\<close> reports no error, so
  the branch of \<open>bootExecution\<close> that deletes the execution again is not taken.\<close>

theorem boot_is_accepted:
  assumes "exec_queue m eids" "CHR '':'' \<notin> set eid" "eid \<notin> eids"
  shows "snd (Enqueue (boot_tasks eid pool capacity nodes) m) = None"
proof -
  have loc: "group_local m eids" and "queue_inv m"
    using exec_queue_inv [OF assms(1)] queue_inv_reachable queue_disciplined_reachable by blast+
  have fresh: "m_entries m (task_id eid i) = None" for i
  proof (rule ccontr)
    assume "m_entries m (task_id eid i) \<noteq> None"
    then obtain e where "m_entries m (task_id eid i) = Some e" by blast
    from task_at_Some [of "m_entries m", OF this] have
      g: "t_Group (e_Task e) \<in> eids" "CHR '':'' \<notin> set (t_Group (e_Task e))" "task_id eid i \<in> range (task_id (t_Group (e_Task e)))"
      using loc unfolding group_local_def by blast+
    moreover have "t_Group (e_Task e) \<noteq> eid" using g(1) assms(3) by blast
    ultimately show False using task_id_disjoint [OF assms(2), of "t_Group (e_Task e)"] by blast
  qed
  have "enqueue_check m (map (boot_task eid pool capacity nodes) ns) = None" for ns
    by (induction ns) (simp_all add: fresh, simp add: task_id_def)
  then show ?thesis by (simp add: Enqueue_def boot_tasks_def)
qed

theorem boot_is_accepted_witness:
  "snd (Enqueue (boot_tasks ''run-2'' ''docker'' False [plain_step ''db'' []]) demo_boot) = None"
  by (rule boot_is_accepted [OF demo_boot_reachable]) simp_all

end
