(* ===== verification/Network_Plan.thy ===== *)
theory Network_Plan
  imports Go_Strings Topology_Order
begin

text \<open>
  The hostnames of an execution's containers: \<open>internal/execution/network_plan.go\<close>. The plan is the
  id of the suite being run and the bare service names that more than one suite declares (a list
  without repetitions stands for the map used as a set). Case folding is that of ASCII; a rune
  outside ASCII becomes one hyphen, as in the code, on every valid UTF-8 string (\<open>rune_starts\<close>
  drops the continuation bytes).
\<close>

record network_plan =
  np_rootSuiteID :: string
  np_contested :: "string list"

definition networkAlias :: "string \<Rightarrow> string" where
  "networkAlias name =
     (let trimmed = TrimSpace name; idx = LastIndex trimmed (CHR ''/'')
      in if 0 \<le> idx then drop (nat idx + 1) trimmed else trimmed)"

definition addressableKind :: "string \<Rightarrow> bool" where
  "addressableKind kind \<longleftrightarrow> TrimSpace (ToLower kind) = ''service''"

definition nodeOwner :: "topology_node \<Rightarrow> string \<Rightarrow> string" where
  "nodeOwner node suiteID = FirstNonEmpty [TrimSpace (n_SourceSuiteID node), suiteID]"

definition alias_char :: "char \<Rightarrow> char" where
  "alias_char c =
     (if CHR ''a'' \<le> c \<and> c \<le> CHR ''z'' \<or> CHR ''0'' \<le> c \<and> c \<le> CHR ''9'' then c else CHR ''-'')"

definition rune_starts :: "string \<Rightarrow> string" where
  "rune_starts s = filter (\<lambda>c. \<not> byte_in 0x80 0xBF c) s"

definition sanitizeAliasSegment :: "string \<Rightarrow> string" where
  "sanitizeAliasSegment v = TrimByte (map alias_char (rune_starts (ToLower (TrimSpace v)))) (CHR ''-'')"

definition qualifiedAlias :: "string \<Rightarrow> string \<Rightarrow> string" where
  "qualifiedAlias owner al = sanitizeAliasSegment owner @ ''-'' @ al"

text \<open>The claims the first loop of \<open>buildNetworkPlan\<close> collects: a service name and who declares it.\<close>

definition name_claims :: "topology_node list \<Rightarrow> string \<Rightarrow> (string \<times> string) list" where
  "name_claims nodes suiteID =
     map (\<lambda>n. (networkAlias (n_Name n), nodeOwner n suiteID))
       (filter (\<lambda>n. addressableKind (n_Kind n) \<and> networkAlias (n_Name n) \<noteq> []) nodes)"

definition claimants :: "(string \<times> string) list \<Rightarrow> string \<Rightarrow> string list" where
  "claimants cs al = remdups (map snd (filter (\<lambda>(a, owner). a = al) cs))"

definition buildNetworkPlan :: "topology_node list \<Rightarrow> string \<Rightarrow> network_plan" where
  "buildNetworkPlan nodes suiteID =
     (let cs = name_claims nodes suiteID
      in \<lparr>np_rootSuiteID = suiteID,
          np_contested = filter (\<lambda>al. 1 < length (claimants cs al)) (remdups (map fst cs))\<rparr>)"

definition contestedNames :: "network_plan \<Rightarrow> string list" where
  "contestedNames p = sort_slice (<) (np_contested p)"

definition aliasesForNode :: "network_plan \<Rightarrow> topology_node \<Rightarrow> string \<Rightarrow> string list" where
  "aliasesForNode p node suiteID =
     (if \<not> addressableKind (n_Kind node) then []
      else
        let al = networkAlias (n_Name node); owner = nodeOwner node suiteID
        in if al = [] then []
           else if al \<notin> set (np_contested p) \<or> owner = np_rootSuiteID p then [al]
           else [qualifiedAlias owner al])"

subsection \<open>Lemmas\<close>

lemma claim_iff:
  "(al, x) \<in> set (name_claims nodes suiteID) \<longleftrightarrow>
   (\<exists>n\<in>set nodes. addressableKind (n_Kind n) \<and> al \<noteq> [] \<and> networkAlias (n_Name n) = al \<and> nodeOwner n suiteID = x)"
  by (auto simp: name_claims_def image_iff)

lemma contested_iff:
  "al \<in> set (np_contested (buildNetworkPlan nodes suiteID)) \<longleftrightarrow>
   (\<exists>n m. n \<in> set nodes \<and> m \<in> set nodes \<and> addressableKind (n_Kind n) \<and> addressableKind (n_Kind m) \<and>
      al \<noteq> [] \<and> networkAlias (n_Name n) = al \<and> networkAlias (n_Name m) = al \<and>
      nodeOwner n suiteID \<noteq> nodeOwner m suiteID)"
proof -
  let ?cs = "name_claims nodes suiteID"
  have two: "Suc 0 < length (remdups xs) \<longleftrightarrow> (\<exists>x\<in>set xs. \<exists>y\<in>set xs. x \<noteq> y)" for xs :: "string list"
  proof -
    have "Suc 0 < card (set xs) \<longleftrightarrow> (\<exists>x\<in>set xs. \<exists>y\<in>set xs. x \<noteq> y)"
      using card_le_Suc0_iff_eq [of "set xs"] by (auto simp: not_le [symmetric])
    then show ?thesis by (simp add: length_remdups_card_conv)
  qed
  have "al \<in> set (np_contested (buildNetworkPlan nodes suiteID)) \<longleftrightarrow>
      (\<exists>x y. (al, x) \<in> set ?cs \<and> (al, y) \<in> set ?cs \<and> x \<noteq> y)"
    by (auto simp: buildNetworkPlan_def Let_def claimants_def two image_iff) force+
  also have "\<dots> \<longleftrightarrow> (\<exists>n m. n \<in> set nodes \<and> m \<in> set nodes \<and> addressableKind (n_Kind n) \<and> addressableKind (n_Kind m) \<and>
      al \<noteq> [] \<and> networkAlias (n_Name n) = al \<and> networkAlias (n_Name m) = al \<and>
      nodeOwner n suiteID \<noteq> nodeOwner m suiteID)"
    unfolding claim_iff by (rule iffI; elim exE conjE; blast)
  finally show ?thesis .
qed

subsection \<open>Properties\<close>

definition service_step :: "string \<Rightarrow> string \<Rightarrow> topology_node" where
  "service_step name source =
     zero_node\<lparr>n_ID := name, n_Name := name, n_Kind := ''service'', n_SourceSuiteID := source\<rparr>"

definition composed :: "topology_node list" where
  "composed = [service_step ''db'' [], service_step ''broker/db'' ''identity-broker'', service_step ''broker/api'' ''identity-broker'']"

lemma service_kind: "addressableKind ''service''" "\<not> TrimSpace ''lib'' = []"
  by code_simp+

lemma service_names:
  "networkAlias ''db'' = ''db''" "networkAlias ''a/db'' = ''db''" "networkAlias ''b/db'' = ''db''"
  "networkAlias ''broker/db'' = ''db''"
  by code_simp+

lemma service_owner: "TrimSpace v = v \<Longrightarrow> v \<noteq> [] \<Longrightarrow> nodeOwner (service_step name v) suiteID = v"
  by (simp add: nodeOwner_def service_step_def)

lemma service_owner_root: "TrimSpace suiteID \<noteq> [] \<Longrightarrow> nodeOwner (service_step name []) suiteID = suiteID"
  by (simp add: nodeOwner_def service_step_def)

lemma service_step_simps: "n_Name (service_step name v) = name" "n_Kind (service_step name v) = ''service''"
  by (simp_all add: service_step_def)

lemma plain_ids: "TrimSpace ''lib'' = ''lib''" "TrimSpace ''shop'' = ''shop''" "TrimSpace ''identity-broker'' = ''identity-broker''"
  by (simp_all add: go_simps plain_char_def)

lemmas service_simps = service_kind service_names service_owner service_owner_root service_step_simps plain_ids

text \<open>A bare service name belongs to one suite: two services of a run that both answer to their
  bare name, the same one, come from the same suite. The suite being run always keeps its bare
  names, and an imported service loses its own exactly when another suite declares it too.\<close>

theorem bare_name_one_suite:
  assumes "n \<in> set nodes" "m \<in> set nodes" "addressableKind (n_Kind n)" "addressableKind (n_Kind m)"
    "networkAlias (n_Name n) = al" "networkAlias (n_Name m) = al" "al \<noteq> []"
    "plan = buildNetworkPlan nodes suiteID"
  shows "(aliasesForNode plan n suiteID = [al] \<and> aliasesForNode plan m suiteID = [al] \<longrightarrow>
      nodeOwner n suiteID = nodeOwner m suiteID) \<and>
    (nodeOwner n suiteID = suiteID \<longrightarrow> aliasesForNode plan n suiteID = [al]) \<and>
    (nodeOwner n suiteID \<noteq> suiteID \<longrightarrow>
      aliasesForNode plan n suiteID =
        (if \<exists>k\<in>set nodes. addressableKind (n_Kind k) \<and> networkAlias (n_Name k) = al \<and>
              nodeOwner k suiteID \<noteq> nodeOwner n suiteID
         then [qualifiedAlias (nodeOwner n suiteID) al] else [al]))"
proof -
  have root: "np_rootSuiteID plan = suiteID" by (simp add: assms(8) buildNetworkPlan_def Let_def)
  have contested: "al \<in> set (np_contested plan) \<longleftrightarrow>
      (\<exists>k\<in>set nodes. addressableKind (n_Kind k) \<and> networkAlias (n_Name k) = al \<and> nodeOwner k suiteID \<noteq> nodeOwner i suiteID)"
    if "i \<in> set nodes" "addressableKind (n_Kind i)" "networkAlias (n_Name i) = al" for i
    unfolding assms(8) contested_iff using that assms(7) by metis
  have names: "aliasesForNode plan i suiteID =
      (if al \<notin> set (np_contested plan) \<or> nodeOwner i suiteID = suiteID then [al] else [qualifiedAlias (nodeOwner i suiteID) al])"
    if "addressableKind (n_Kind i)" "networkAlias (n_Name i) = al" for i
    using that assms(7) by (simp add: aliasesForNode_def Let_def root)
  have long: "qualifiedAlias o' al \<noteq> al" for o' by (rule notI, drule arg_cong [of _ _ length]) (simp add: qualifiedAlias_def)
  note n = names [OF assms(3,5)] contested [OF assms(1,3,5)]
    and m = names [OF assms(4,6)] contested [OF assms(2,4,6)]
  show ?thesis
  proof (cases "al \<in> set (np_contested plan)")
    case True
    then have k: "\<exists>k\<in>set nodes. addressableKind (n_Kind k) \<and> networkAlias (n_Name k) = al \<and>
        nodeOwner k suiteID \<noteq> nodeOwner n suiteID" using n(2) by blast
    show ?thesis
      unfolding n(1) m(1) if_P [OF k]
      by (cases "nodeOwner n suiteID = suiteID"; cases "nodeOwner m suiteID = suiteID") (simp_all add: True long)
  next
    case False
    then have none: "\<not> (\<exists>k\<in>set nodes. addressableKind (n_Kind k) \<and> networkAlias (n_Name k) = al \<and>
        nodeOwner k suiteID \<noteq> nodeOwner n suiteID)" unfolding n(2) .
    then have "nodeOwner n suiteID = nodeOwner m suiteID" using assms(2,4,6) by fastforce
    then show ?thesis unfolding n(1) if_not_P [OF none] by (simp add: False)
  qed
qed

theorem bare_name_one_suite_witness:
  "aliasesForNode (buildNetworkPlan composed ''shop'') (service_step ''broker/db'' ''identity-broker'') ''shop'' =
     [''identity-broker-db'']"
proof -
  let ?n = "service_step ''broker/db'' ''identity-broker''" and ?k = "service_step ''db'' []"
  have mem: "?n \<in> set composed" "?k \<in> set composed" by (simp_all add: composed_def)
  have owners: "nodeOwner ?n ''shop'' = ''identity-broker''" "nodeOwner ?k ''shop'' = ''shop''"
    by (simp_all add: service_simps)
  have "\<exists>k\<in>set composed. addressableKind (n_Kind k) \<and> networkAlias (n_Name k) = ''db'' \<and> nodeOwner k ''shop'' \<noteq> nodeOwner ?n ''shop''"
    using mem(2) owners by (intro bexI [of _ ?k]) (simp_all add: service_simps)
  moreover have "qualifiedAlias ''identity-broker'' ''db'' = ''identity-broker-db''" by code_simp
  ultimately show ?thesis
    using bare_name_one_suite [OF mem, of "''db''" "buildNetworkPlan composed ''shop''" "''shop''"] owners(1)
    by (simp add: service_simps)
qed

text \<open>A name is contested between suites, not between containers: the same suite imported twice has
  one owner, so no name is contested and both copies of its service answer to the same bare name.\<close>

theorem double_import_shares_name:
  "let nodes = [service_step ''a/db'' ''lib'', service_step ''b/db'' ''lib''];
       plan = buildNetworkPlan nodes ''shop''
   in contestedNames plan = [] \<and>
      aliasesForNode plan (nodes ! 0) ''shop'' = [''db''] \<and> aliasesForNode plan (nodes ! 1) ''shop'' = [''db'']"
  by (simp add: buildNetworkPlan_def name_claims_def claimants_def contestedNames_def aliasesForNode_def Let_def
      service_simps sort_slice_def)

end
