(* ===== verification/Stream_Hub.thy ===== *)
theory Stream_Hub
  imports Execution_Store
begin

text \<open>
  The live streams: \<open>internal/eventstream/hub.go\<close>, \<open>internal/logstream/hub.go\<close> and the event
  subscription of \<open>internal/execution/stream.go\<close>. A hub keeps a list per key and the channels of its
  subscribers. \<open>Append\<close> extends the list under the mutex and then, without it, offers the new record
  to each subscriber it saw; an offer to a full channel is dropped. So the state has the offers
  still to be made (\<open>h_pending\<close>), and appends, offers, subscriptions and receives interleave in any
  order. A channel is everything it has accepted (\<open>c_sent\<close>) and how much of it has been received.
  The two hubs are the same code but for the record they build from the stream's key, the position
  and the payload (\<open>build\<close>), so their operations are written once.
\<close>

record 'r chan =
  c_key :: string
  c_cap :: nat
  c_sent :: "'r list"
  c_read :: nat

record 'a hstream =
  st_list :: "'a list"
  st_subs :: "nat list"

record ('a, 'r) hub =
  h_streams :: "string \<rightharpoonup> 'a hstream"
  h_chans :: "nat \<rightharpoonup> 'r chan"
  h_next :: nat
  h_pending :: "('r \<times> nat list) list"

definition NewHub :: "('a, 'r) hub" where
  "NewHub = \<lparr>h_streams = Map.empty, h_chans = Map.empty, h_next = 0, h_pending = []\<rparr>"

definition stream_at :: "string \<Rightarrow> ('a, 'r) hub \<Rightarrow> 'a hstream" where
  "stream_at k h = (case h_streams h k of Some st \<Rightarrow> st | None \<Rightarrow> \<lparr>st_list = [], st_subs = []\<rparr>)"

definition ensureStream :: "string \<Rightarrow> ('a, 'r) hub \<Rightarrow> ('a, 'r) hub" where
  "ensureStream k h =
     (case h_streams h k of
        Some st \<Rightarrow> h
      | None \<Rightarrow> h\<lparr>h_streams := (h_streams h)(k \<mapsto> \<lparr>st_list = [], st_subs = []\<rparr>)\<rparr>)"

definition Open :: "string \<Rightarrow> ('a, 'r) hub \<Rightarrow> ('a, 'r) hub" where
  "Open k h = ensureStream k h"

text \<open>The critical section of \<open>Append\<close>; \<open>Offer\<close> is one non-blocking send of its loop.\<close>

definition Append :: "(nat \<Rightarrow> 'a \<Rightarrow> 'r) \<Rightarrow> string \<Rightarrow> 'a \<Rightarrow> ('a, 'r) hub \<Rightarrow> ('a, 'r) hub \<times> 'r" where
  "Append mk k x h =
     (let h = ensureStream k h;
          st = stream_at k h;
          xs = st_list st @ [x];
          r = mk (length xs) x
      in (h\<lparr>h_streams := (h_streams h)(k \<mapsto> st\<lparr>st_list := xs\<rparr>), h_pending := h_pending h @ [(r, st_subs st)]\<rparr>, r))"

definition try_send :: "'r \<Rightarrow> 'r chan \<Rightarrow> 'r chan" where
  "try_send r c = (if length (c_sent c) - c_read c < c_cap c then c\<lparr>c_sent := c_sent c @ [r]\<rparr> else c)"

definition Offer :: "nat \<Rightarrow> nat \<Rightarrow> ('a, 'r) hub \<Rightarrow> ('a, 'r) hub" where
  "Offer n ch h =
     (if n < length (h_pending h) \<and> ch \<in> set (snd (h_pending h ! n))
      then let (r, subs) = h_pending h ! n
           in h\<lparr>h_pending := (h_pending h)[n := (r, remove1 ch subs)],
                h_chans := (h_chans h)(ch := map_option (try_send r) (h_chans h ch))\<rparr>
      else h)"

text \<open>The buffer a subscription asks for, and the records it replays into it.\<close>

definition buffer_size :: "int \<Rightarrow> nat \<Rightarrow> nat" where
  "buffer_size since len =
     (let since = (if since < 0 then 0 else since); size = int len - since + 16
      in nat (if size < 32 then 32 else size))"

definition replay :: "(nat \<Rightarrow> 'a \<Rightarrow> 'r) \<Rightarrow> int \<Rightarrow> 'a list \<Rightarrow> 'r list" where
  "replay mk since xs =
     (let since = (if since < 0 then 0 else since)
      in map (\<lambda>i. mk (Suc i) (xs ! i)) (filter (\<lambda>i. \<not> int i + 1 \<le> since) [0..<length xs]))"

definition new_chan :: "(nat \<Rightarrow> 'a \<Rightarrow> 'r) \<Rightarrow> string \<Rightarrow> int \<Rightarrow> 'a list \<Rightarrow> 'r chan" where
  "new_chan mk k since xs =
     \<lparr>c_key = k, c_cap = buffer_size since (length xs), c_sent = replay mk since xs, c_read = 0\<rparr>"

definition Subscribe ::
  "goerr \<Rightarrow> (nat \<Rightarrow> 'a \<Rightarrow> 'r) \<Rightarrow> string \<Rightarrow> int \<Rightarrow> ('a, 'r) hub \<Rightarrow> ('a, 'r) hub \<times> (goerr + nat)" where
  "Subscribe notFound mk k since h =
     (case h_streams h k of
        None \<Rightarrow> (h, Inl notFound)
      | Some st \<Rightarrow>
          let ch = h_next h
          in (h\<lparr>h_chans := (h_chans h)(ch \<mapsto> new_chan mk k since (st_list st)), h_next := Suc ch,
               h_streams := (h_streams h)(k \<mapsto> st\<lparr>st_subs := ch # st_subs st\<rparr>)\<rparr>, Inr ch))"

text \<open>The end of a subscription's context, and a receive by its reader.\<close>

definition Unsubscribe :: "string \<Rightarrow> nat \<Rightarrow> ('a, 'r) hub \<Rightarrow> ('a, 'r) hub" where
  "Unsubscribe k ch h =
     (case h_streams h k of
        None \<Rightarrow> h
      | Some st \<Rightarrow> h\<lparr>h_streams := (h_streams h)(k \<mapsto> st\<lparr>st_subs := filter (\<lambda>x. x \<noteq> ch) (st_subs st)\<rparr>)\<rparr>)"

definition read_one :: "'r chan \<Rightarrow> 'r chan" where
  "read_one c = (if c_read c < length (c_sent c) then c\<lparr>c_read := Suc (c_read c)\<rparr> else c)"

definition Receive :: "nat \<Rightarrow> ('a, 'r) hub \<Rightarrow> ('a, 'r) hub" where
  "Receive ch h = h\<lparr>h_chans := (h_chans h)(ch := map_option read_one (h_chans h ch))\<rparr>"

definition Len :: "string \<Rightarrow> ('a, 'r) hub \<Rightarrow> nat" where
  "Len k h = length (st_list (stream_at k h))"

datatype 'a hub_op =
    HubOpen string
  | HubAppend string 'a
  | HubOffer nat nat
  | HubSubscribe string int
  | HubUnsubscribe string nat
  | HubReceive nat

text \<open>A hub builds the records of a stream from its key, the position and the payload.\<close>

fun hub_step :: "(string \<Rightarrow> nat \<Rightarrow> 'a \<Rightarrow> 'r) \<Rightarrow> 'a hub_op \<Rightarrow> ('a, 'r) hub \<Rightarrow> ('a, 'r) hub" where
  "hub_step build (HubOpen k) h = Open k h"
| "hub_step build (HubAppend k x) h = fst (Append (build k) k x h)"
| "hub_step build (HubOffer n ch) h = Offer n ch h"
| "hub_step build (HubSubscribe k since) h = fst (Subscribe (ErrorsNew ''event stream not found'') (build k) k since h)"
| "hub_step build (HubUnsubscribe k ch) h = Unsubscribe k ch h"
| "hub_step build (HubReceive ch) h = Receive ch h"

subsection \<open>The two hubs and the execution's events\<close>

record 'a event_rec =
  eb_ID :: nat
  eb_Payload :: 'a

definition event_record :: "string \<Rightarrow> nat \<Rightarrow> 'a \<Rightarrow> 'a event_rec" where
  "event_record k n x = \<lparr>eb_ID = n, eb_Payload = x\<rparr>"

record log_line =
  ll_Source :: string
  ll_Timestamp :: string
  ll_Level :: string
  ll_Kind :: string
  ll_Text :: string

record log_rec =
  lb_ID :: nat
  lb_ExecutionID :: string
  lb_Line :: log_line

definition log_record :: "string \<Rightarrow> nat \<Rightarrow> log_line \<Rightarrow> log_rec" where
  "log_record k n x = \<lparr>lb_ID = n, lb_ExecutionID = k, lb_Line = x\<rparr>"

definition replayed_event :: "string \<Rightarrow> execution_state \<Rightarrow> nat \<Rightarrow> execution_event \<Rightarrow> stream_event" where
  "replayed_event eid item n ev =
     \<lparr>se_ID = n, se_ExecutionID = eid, se_ExecutionStatus = er_Status (es_record item),
      se_Duration = durationLocked item, se_UpdatedAt = er_UpdatedAt (es_record item), se_Event = ev\<rparr>"

text \<open>
  The service's own subscriptions: \<open>Service.subs\<close> holds the channels of each execution, which it
  drops when the last one leaves. Channels are numbered, since the code compares them by identity.
\<close>

record event_subs =
  ev_subs :: "string \<rightharpoonup> nat list"
  ev_chans :: "nat \<rightharpoonup> stream_event chan"
  ev_next :: nat

definition collectSubscribers :: "nat list option \<Rightarrow> nat list" where
  "collectSubscribers subscribers = (case subscribers of None \<Rightarrow> [] | Some cs \<Rightarrow> cs)"

definition SubscribeEvents ::
  "string \<Rightarrow> string \<Rightarrow> int \<Rightarrow> exec_service \<Rightarrow> event_subs \<Rightarrow> event_subs \<times> (goerr + nat)" where
  "SubscribeEvents eid workspaceID since s u =
     (case sv_executions s eid of
        None \<Rightarrow> (u, Inl ErrExecutionNotFound)
      | Some item \<Rightarrow>
          if \<not> visible workspaceID item then (u, Inl ErrExecutionNotFound)
          else
            let ch = ev_next u;
                c = new_chan (replayed_event eid item) eid since (er_Events (es_record item))
            in (u\<lparr>ev_subs := (ev_subs u)(eid \<mapsto> ch # collectSubscribers (ev_subs u eid)),
                  ev_chans := (ev_chans u)(ch \<mapsto> c), ev_next := Suc ch\<rparr>, Inr ch))"

definition UnsubscribeEvents :: "string \<Rightarrow> nat \<Rightarrow> event_subs \<Rightarrow> event_subs" where
  "UnsubscribeEvents eid ch u =
     (case ev_subs u eid of
        None \<Rightarrow> u
      | Some cs \<Rightarrow>
          let rest = filter (\<lambda>c. c \<noteq> ch) cs
          in u\<lparr>ev_subs := (ev_subs u)(eid := if rest = [] then None else Some rest)\<rparr>)"

definition publish :: "stream_event \<Rightarrow> nat list \<Rightarrow> event_subs \<Rightarrow> event_subs" where
  "publish ev subscribers u =
     fold (\<lambda>ch u. u\<lparr>ev_chans := (ev_chans u)(ch := map_option (try_send ev) (ev_chans u ch))\<rparr>) subscribers u"

text \<open>The log hub, and the logs of an execution as the service hands them out.\<close>

type_synonym log_hub = "(log_line, log_rec) hub"

definition ErrLogStreamNotFound :: goerr where
  "ErrLogStreamNotFound = ErrorsNew ''log stream not found''"

definition log_Append :: "string \<Rightarrow> log_line \<Rightarrow> log_hub \<Rightarrow> log_hub" where
  "log_Append executionID line h = fst (Append (log_record executionID) executionID line h)"

definition log_Subscribe :: "string \<Rightarrow> int \<Rightarrow> log_hub \<Rightarrow> log_hub \<times> (goerr + nat)" where
  "log_Subscribe executionID since h = Subscribe ErrLogStreamNotFound (log_record executionID) executionID since h"

definition log_Snapshot :: "string \<Rightarrow> log_hub \<Rightarrow> goerr + log_line list" where
  "log_Snapshot executionID h =
     (case h_streams h executionID of None \<Rightarrow> Inl ErrLogStreamNotFound | Some st \<Rightarrow> Inr (st_list st))"

definition SubscribeLogs ::
  "string \<Rightarrow> string \<Rightarrow> int \<Rightarrow> exec_service \<Rightarrow> log_hub \<Rightarrow> log_hub \<times> (goerr + nat)" where
  "SubscribeLogs eid workspaceID since s h =
     (case sv_executions s eid of
        None \<Rightarrow> (h, Inl ErrExecutionNotFound)
      | Some item \<Rightarrow>
          if \<not> visible workspaceID item then (h, Inl ErrExecutionNotFound)
          else log_Subscribe eid since h)"

definition SnapshotLogs :: "string \<Rightarrow> string \<Rightarrow> exec_service \<Rightarrow> log_hub \<Rightarrow> goerr + log_line list" where
  "SnapshotLogs eid workspaceID s h =
     (case sv_executions s eid of
        None \<Rightarrow> Inl ErrExecutionNotFound
      | Some item \<Rightarrow>
          if \<not> visible workspaceID item then Inl ErrExecutionNotFound else log_Snapshot eid h)"

subsection \<open>The contract of a broadcast log\<close>

definition rec_ok :: "('r \<Rightarrow> nat) \<Rightarrow> ('r \<Rightarrow> 'a) \<Rightarrow> 'a list \<Rightarrow> 'r \<Rightarrow> bool" where
  "rec_ok rid payload xs r \<longleftrightarrow> 1 \<le> rid r \<and> rid r \<le> length xs \<and> payload r = xs ! (rid r - 1)"

text \<open>The records still to be offered to a channel.\<close>

definition due :: "('a, 'r) hub \<Rightarrow> nat \<Rightarrow> 'r list" where
  "due h ch = map fst (filter (\<lambda>(r, subs). ch \<in> set subs) (h_pending h))"

definition chan_ok :: "('r \<Rightarrow> nat) \<Rightarrow> ('r \<Rightarrow> 'a) \<Rightarrow> 'a list \<Rightarrow> 'r chan \<Rightarrow> 'r list \<Rightarrow> bool" where
  "chan_ok rid payload xs c ds \<longleftrightarrow>
     (\<forall>r\<in>set (c_sent c @ ds). rec_ok rid payload xs r) \<and> distinct (map rid (c_sent c @ ds)) \<and>
     c_read c \<le> length (c_sent c) \<and> length (c_sent c) - c_read c \<le> c_cap c"

definition hub_inv :: "('r \<Rightarrow> nat) \<Rightarrow> ('r \<Rightarrow> 'a) \<Rightarrow> ('a, 'r) hub \<Rightarrow> bool" where
  "hub_inv rid payload h \<longleftrightarrow>
     (\<forall>ch c. h_chans h ch = Some c \<longrightarrow>
        ch < h_next h \<and>
        (\<exists>st. h_streams h (c_key c) = Some st \<and> chan_ok rid payload (st_list st) c (due h ch))) \<and>
     (\<forall>k st. h_streams h k = Some st \<longrightarrow> distinct (st_subs st) \<and>
        (\<forall>ch\<in>set (st_subs st). ch < h_next h \<and> (\<exists>c. h_chans h ch = Some c \<and> c_key c = k))) \<and>
     (\<forall>(r, subs)\<in>set (h_pending h). distinct subs \<and> (\<forall>ch\<in>set subs. ch < h_next h))"

lemma replay_eq:
  "replay mk since xs = map (\<lambda>i. mk (Suc i) (xs ! i)) [nat since..<length xs]"
proof -
  let ?s = "if since < 0 then 0 else since"
  have "filter (\<lambda>i. \<not> int i + 1 \<le> ?s) [0..<n] = [nat since..<n]" for n
    by (induction n) (auto simp: nat_le_iff)
  then show ?thesis by (simp add: replay_def Let_def)
qed

lemma replay_fits: "length (replay mk since xs) + 16 \<le> buffer_size since (length xs)"
  by (auto simp: replay_eq buffer_size_def Let_def)

lemma rec_ok_append: "rec_ok rid payload xs r \<Longrightarrow> rec_ok rid payload (xs @ ys) r"
  by (auto simp: rec_ok_def nth_append)

lemma chan_ok_grow: "chan_ok rid payload xs c ds \<Longrightarrow> chan_ok rid payload (xs @ ys) c ds"
  by (auto simp: chan_ok_def intro: rec_ok_append)

lemma chan_ok_due:
  assumes "chan_ok rid payload xs c ds" "rid r = Suc (length xs)" "payload r = x"
  shows "chan_ok rid payload (xs @ [x]) c (ds @ [r])"
proof -
  have "rid q \<noteq> Suc (length xs)" if "q \<in> set (c_sent c @ ds)" for q
  proof -
    have "rid q \<le> length xs" using assms(1) that unfolding chan_ok_def rec_ok_def by blast
    then show ?thesis by simp
  qed
  moreover have "rec_ok rid payload (xs @ [x]) r" using assms(2,3) by (simp add: rec_ok_def nth_append)
  moreover have "rid r \<notin> rid ` set (c_sent c @ ds)" using calculation(1) assms(2) by force
  ultimately show ?thesis
    using chan_ok_grow [OF assms(1), of "[x]"] by (auto simp: chan_ok_def)
qed

lemma chan_ok_offer:
  assumes "chan_ok rid payload xs c (ds @ r # es)"
  shows "chan_ok rid payload xs (try_send r c) (ds @ es)"
  using assms by (auto simp: chan_ok_def try_send_def)

lemma chan_ok_read: "chan_ok rid payload xs c ds \<Longrightarrow> chan_ok rid payload xs (read_one c) ds"
  by (auto simp: chan_ok_def read_one_def)

lemma due_offer:
  assumes "n < length (h_pending h)" "h_pending h ! n = (r, subs)" "ch \<in> set subs" "distinct subs"
  shows "\<exists>ds es. due h ch = ds @ r # es \<and>
      due (h\<lparr>h_pending := (h_pending h)[n := (r, remove1 ch subs)], h_chans := cs\<rparr>) ch = ds @ es"
    "ch' \<noteq> ch \<Longrightarrow> due (h\<lparr>h_pending := (h_pending h)[n := (r, remove1 ch subs)], h_chans := cs\<rparr>) ch' = due h ch'"
proof -
  let ?p = "h_pending h"
  have split: "?p = take n ?p @ (r, subs) # drop (Suc n) ?p"
    using assms(1,2) id_take_nth_drop by metis
  have upd: "?p[n := q] = take n ?p @ q # drop (Suc n) ?p" for q
    using assms(1) by (rule upd_conv_take_nth_drop)
  have "due h ch = map fst (filter (\<lambda>(r, subs). ch \<in> set subs) (take n ?p @ (r, subs) # drop (Suc n) ?p))"
    unfolding due_def by (subst split) simp
  then show "\<exists>ds es. due h ch = ds @ r # es \<and>
      due (h\<lparr>h_pending := ?p[n := (r, remove1 ch subs)], h_chans := cs\<rparr>) ch = ds @ es"
    using assms(3,4) by (auto simp: due_def upd)
  assume "ch' \<noteq> ch"
  have "due h ch' = map fst (filter (\<lambda>(r, subs). ch' \<in> set subs) (take n ?p @ (r, subs) # drop (Suc n) ?p))"
    unfolding due_def by (subst split) simp
  with \<open>ch' \<noteq> ch\<close> show "due (h\<lparr>h_pending := ?p[n := (r, remove1 ch subs)], h_chans := cs\<rparr>) ch' = due h ch'"
    by (simp add: due_def upd)
qed

lemma hub_invD:
  assumes "hub_inv rid payload h"
  shows "h_chans h ch = Some c \<Longrightarrow> ch < h_next h"
    "h_chans h ch = Some c \<Longrightarrow> \<exists>st. h_streams h (c_key c) = Some st \<and> chan_ok rid payload (st_list st) c (due h ch)"
    "h_streams h k = Some st \<Longrightarrow> distinct (st_subs st)"
    "h_streams h k = Some st \<Longrightarrow> ch \<in> set (st_subs st) \<Longrightarrow> ch < h_next h \<and> (\<exists>c. h_chans h ch = Some c \<and> c_key c = k)"
    "(r, subs) \<in> set (h_pending h) \<Longrightarrow> distinct subs \<and> (\<forall>ch\<in>set subs. ch < h_next h)"
  using assms unfolding hub_inv_def by blast+

lemma hub_invI:
  assumes "\<And>ch c. h_chans h ch = Some c \<Longrightarrow> ch < h_next h"
    "\<And>ch c. h_chans h ch = Some c \<Longrightarrow> \<exists>st. h_streams h (c_key c) = Some st \<and> chan_ok rid payload (st_list st) c (due h ch)"
    "\<And>k st. h_streams h k = Some st \<Longrightarrow> distinct (st_subs st)"
    "\<And>k st ch. h_streams h k = Some st \<Longrightarrow> ch \<in> set (st_subs st) \<Longrightarrow> ch < h_next h \<and> (\<exists>c. h_chans h ch = Some c \<and> c_key c = k)"
    "\<And>r subs. (r, subs) \<in> set (h_pending h) \<Longrightarrow> distinct subs \<and> (\<forall>ch\<in>set subs. ch < h_next h)"
  shows "hub_inv rid payload h"
  using assms unfolding hub_inv_def by blast

lemma hub_inv_ensure:
  assumes inv: "hub_inv rid payload h"
  shows "hub_inv rid payload (ensureStream k h)"
proof (cases "h_streams h k")
  case None
  have other: "k \<noteq> c_key c" if "h_chans h ch = Some c" for ch c
    using hub_invD(2) [OF inv that] None by auto
  have due: "due (h\<lparr>h_streams := x\<rparr>) ch = due h ch" for x ch by (simp add: due_def)
  show ?thesis
    using None hub_invD [OF inv]
    by (intro hub_invI) (auto simp: ensureStream_def due split: if_splits dest: other)
qed (use inv in \<open>simp add: ensureStream_def\<close>)

lemma hub_inv_Append:
  assumes inv: "hub_inv rid payload h" and st: "h_streams h k = Some st"
    and r: "rid r = Suc (length (st_list st))" "payload r = x"
  shows "hub_inv rid payload (h\<lparr>h_streams := (h_streams h)(k \<mapsto> st\<lparr>st_list := st_list st @ [x]\<rparr>),
    h_pending := h_pending h @ [(r, st_subs st)]\<rparr>)" (is "hub_inv rid payload ?h")
proof (rule hub_invI)
  fix ch c
  assume c: "h_chans ?h ch = Some c"
  then have c': "h_chans h ch = Some c" by simp
  show "ch < h_next ?h" using hub_invD(1) [OF inv c'] by simp
  have due: "due ?h ch = due h ch @ (if ch \<in> set (st_subs st) then [r] else [])" by (simp add: due_def)
  obtain st' where st': "h_streams h (c_key c) = Some st'" "chan_ok rid payload (st_list st') c (due h ch)"
    using hub_invD(2) [OF inv c'] by blast
  show "\<exists>st. h_streams ?h (c_key c) = Some st \<and> chan_ok rid payload (st_list st) c (due ?h ch)"
  proof (cases "c_key c = k")
    case True
    then have "st' = st" using st' st by simp
    then show ?thesis
      using st'(2) True chan_ok_due [of rid payload "st_list st" c "due h ch" r x] r chan_ok_grow [of rid payload "st_list st" c "due h ch" "[x]"]
      by (simp add: due)
  next
    case False
    then have "ch \<notin> set (st_subs st)" using hub_invD(4) [OF inv st, of ch] c' by auto
    then show ?thesis using False st' by (simp add: due)
  qed
next
  show "\<And>k' st'. h_streams ?h k' = Some st' \<Longrightarrow> distinct (st_subs st')"
    using hub_invD(3) [OF inv] st by (auto split: if_splits)
  show "\<And>k' st' ch. h_streams ?h k' = Some st' \<Longrightarrow> ch \<in> set (st_subs st') \<Longrightarrow>
      ch < h_next ?h \<and> (\<exists>c. h_chans ?h ch = Some c \<and> c_key c = k')"
    using hub_invD(4) [OF inv] st by (auto split: if_splits)
  show "\<And>r' subs. (r', subs) \<in> set (h_pending ?h) \<Longrightarrow> distinct subs \<and> (\<forall>ch\<in>set subs. ch < h_next ?h)"
    using hub_invD(5) [OF inv] hub_invD(3,4) [OF inv st] by auto
qed

lemma hub_inv_Offer:
  assumes inv: "hub_inv rid payload h"
  shows "hub_inv rid payload (Offer n ch h)"
proof (cases "n < length (h_pending h) \<and> ch \<in> set (snd (h_pending h ! n))")
  case True
  then obtain r subs where p: "n < length (h_pending h)" "h_pending h ! n = (r, subs)" "ch \<in> set subs"
    by (cases "h_pending h ! n") auto
  then have mem: "(r, subs) \<in> set (h_pending h)" by (metis nth_mem)
  note subs = hub_invD(5) [OF inv mem]
  let ?cs = "(h_chans h)(ch := map_option (try_send r) (h_chans h ch))"
  let ?h = "h\<lparr>h_pending := (h_pending h)[n := (r, remove1 ch subs)], h_chans := ?cs\<rparr>"
  have h: "Offer n ch h = ?h" using True p by (simp add: Offer_def)
  have key: "c_key (try_send r c) = c_key c" for c :: "'a chan" by (simp add: try_send_def)
  note due = due_offer [OF p conjunct1 [OF subs], where cs = ?cs]
  show ?thesis unfolding h
  proof (rule hub_invI)
    fix ch' c
    assume c: "h_chans ?h ch' = Some c"
    then obtain c0 where c0: "h_chans h ch' = Some c0" "c = (if ch' = ch then try_send r c0 else c0)"
      by (auto split: if_splits)
    show "ch' < h_next ?h" using hub_invD(1) [OF inv c0(1)] by simp
    obtain st where st: "h_streams h (c_key c0) = Some st" "chan_ok rid payload (st_list st) c0 (due h ch')"
      using hub_invD(2) [OF inv c0(1)] by blast
    have "chan_ok rid payload (st_list st) c (due ?h ch')"
    proof (cases "ch' = ch")
      case True
      then show ?thesis using due(1) st(2) chan_ok_offer c0(2) by metis
    next
      case False
      then show ?thesis using due(2) [OF False] st(2) c0(2) by simp
    qed
    then show "\<exists>st. h_streams ?h (c_key c) = Some st \<and> chan_ok rid payload (st_list st) c (due ?h ch')"
      using st(1) c0(2) key by auto
  next
    show "\<And>k st. h_streams ?h k = Some st \<Longrightarrow> distinct (st_subs st)" using hub_invD(3) [OF inv] by simp
    show "\<And>k st ch'. h_streams ?h k = Some st \<Longrightarrow> ch' \<in> set (st_subs st) \<Longrightarrow>
        ch' < h_next ?h \<and> (\<exists>c. h_chans ?h ch' = Some c \<and> c_key c = k)"
      using hub_invD(4) [OF inv] key by fastforce
    fix r' subs'
    assume "(r', subs') \<in> set (h_pending ?h)"
    then have "(r', subs') \<in> insert (r, remove1 ch subs) (set (h_pending h))"
      using set_update_subset_insert [of "h_pending h" n "(r, remove1 ch subs)"] by auto
    moreover have "distinct (remove1 ch subs) \<and> (\<forall>ch\<in>set (remove1 ch subs). ch < h_next h)"
      using subs set_remove1_subset [of ch subs] by (auto simp: distinct_remove1)
    ultimately show "distinct subs' \<and> (\<forall>ch\<in>set subs'. ch < h_next ?h)"
      using hub_invD(5) [OF inv, of r' subs'] by auto
  qed
next
  case False
  then show ?thesis unfolding Offer_def if_not_P [OF False] using inv by simp
qed

lemma hub_inv_Unsubscribe:
  assumes inv: "hub_inv rid payload h"
  shows "hub_inv rid payload (Unsubscribe k ch h)"
proof (cases "h_streams h k")
  case (Some st)
  have due: "due (h\<lparr>h_streams := x\<rparr>) ch = due h ch" for x ch by (simp add: due_def)
  show ?thesis
    using Some hub_invD [OF inv] hub_invD(3,4) [OF inv Some]
    by (intro hub_invI) (force simp: Unsubscribe_def due split: if_splits)+
qed (use inv in \<open>simp add: Unsubscribe_def\<close>)

lemma hub_inv_Receive:
  assumes inv: "hub_inv rid payload h"
  shows "hub_inv rid payload (Receive ch h)"
proof (rule hub_invI)
  have due: "due (Receive ch h) ch' = due h ch'" for ch' by (simp add: due_def Receive_def)
  have key: "c_key (read_one c) = c_key c" for c :: "'a chan" by (simp add: read_one_def)
  fix ch' c
  assume "h_chans (Receive ch h) ch' = Some c"
  then obtain c0 where c0: "h_chans h ch' = Some c0" "c = (if ch' = ch then read_one c0 else c0)"
    by (auto simp: Receive_def split: if_splits)
  show "ch' < h_next (Receive ch h)" using hub_invD(1) [OF inv c0(1)] by (simp add: Receive_def)
  obtain st where st: "h_streams h (c_key c0) = Some st" "chan_ok rid payload (st_list st) c0 (due h ch')"
    using hub_invD(2) [OF inv c0(1)] by blast
  then have "chan_ok rid payload (st_list st) c (due (Receive ch h) ch')"
    unfolding due using chan_ok_read [OF st(2)] st(2) c0(2) by (cases "ch' = ch") auto
  then show "\<exists>st. h_streams (Receive ch h) (c_key c) = Some st \<and> chan_ok rid payload (st_list st) c (due (Receive ch h) ch')"
    using st(1) c0(2) key by (auto simp: Receive_def)
next
  show "\<And>k st. h_streams (Receive ch h) k = Some st \<Longrightarrow> distinct (st_subs st)"
    using hub_invD(3) [OF inv] by (simp add: Receive_def)
  show "ch' < h_next (Receive ch h) \<and> (\<exists>c. h_chans (Receive ch h) ch' = Some c \<and> c_key c = k)"
    if sub: "h_streams (Receive ch h) k = Some st" "ch' \<in> set (st_subs st)" for k st ch'
  proof -
    obtain c where "ch' < h_next h" "h_chans h ch' = Some c" "c_key c = k"
      using sub hub_invD(4) [OF inv, of k st ch'] by (auto simp: Receive_def)
    moreover have "c_key (read_one c) = c_key c" by (simp add: read_one_def)
    ultimately show ?thesis by (cases "ch' = ch") (simp_all add: Receive_def)
  qed
  show "\<And>r subs. (r, subs) \<in> set (h_pending (Receive ch h)) \<Longrightarrow> distinct subs \<and> (\<forall>x\<in>set subs. x < h_next (Receive ch h))"
    using hub_invD(5) [OF inv] by (simp add: Receive_def)
qed

lemma hub_inv_Subscribe:
  assumes inv: "hub_inv rid payload h" and mk: "\<And>n x. rid (mk n x) = n" "\<And>n x. payload (mk n x) = x"
  shows "hub_inv rid payload (fst (Subscribe notFound mk k since h))"
proof (cases "h_streams h k")
  case (Some st)
  let ?ch = "h_next h" and ?c = "new_chan mk k since (st_list st)"
  let ?h = "h\<lparr>h_chans := (h_chans h)(?ch \<mapsto> ?c), h_next := Suc ?ch,
      h_streams := (h_streams h)(k \<mapsto> st\<lparr>st_subs := ?ch # st_subs st\<rparr>)\<rparr>"
  have h: "fst (Subscribe notFound mk k since h) = ?h" using Some by (simp add: Subscribe_def Let_def)
  have due: "due ?h ch = due h ch" for ch by (simp add: due_def)
  have "due h ?ch = []"
    using hub_invD(5) [OF inv] by (force simp: due_def filter_empty_conv)
  moreover have "chan_ok rid payload (st_list st) ?c []"
    using replay_fits [of mk since "st_list st"]
    by (auto simp: chan_ok_def new_chan_def replay_eq rec_ok_def mk comp_def distinct_map)
  ultimately have new: "chan_ok rid payload (st_list st) ?c (due ?h ?ch)" by (simp add: due)
  have fresh: "?ch \<notin> set (st_subs st)" using hub_invD(4) [OF inv Some, of ?ch] by auto
  show ?thesis unfolding h
  proof (rule hub_invI)
    fix ch c
    assume c: "h_chans ?h ch = Some c"
    show "ch < h_next ?h" using c hub_invD(1) [OF inv, of ch] by (auto split: if_splits intro: less_SucI)
    show "\<exists>st. h_streams ?h (c_key c) = Some st \<and> chan_ok rid payload (st_list st) c (due ?h ch)"
    proof (cases "ch = ?ch")
      case True
      with c new show ?thesis by (auto simp: new_chan_def)
    next
      case False
      with c hub_invD(2) [OF inv, of ch c] Some show ?thesis unfolding due by auto
    qed
  next
    show "\<And>k' st'. h_streams ?h k' = Some st' \<Longrightarrow> distinct (st_subs st')"
      using hub_invD(3) [OF inv] Some fresh by (auto split: if_splits)
    show "\<And>k' st' ch. h_streams ?h k' = Some st' \<Longrightarrow> ch \<in> set (st_subs st') \<Longrightarrow>
        ch < h_next ?h \<and> (\<exists>c. h_chans ?h ch = Some c \<and> c_key c = k')"
      using hub_invD(4) [OF inv] Some by (fastforce simp: new_chan_def split: if_splits intro: less_SucI)
    show "\<And>r subs. (r, subs) \<in> set (h_pending ?h) \<Longrightarrow> distinct subs \<and> (\<forall>ch\<in>set subs. ch < h_next ?h)"
      using hub_invD(5) [OF inv] by (auto intro: less_SucI)
  qed
qed (use inv in \<open>simp add: Subscribe_def\<close>)

text \<open>
  The interface of the hubs: a record knows its position and its payload. What a reader of any
  such hub can rely on is proved here once.
\<close>

locale broadcast =
  fixes build :: "string \<Rightarrow> nat \<Rightarrow> 'a \<Rightarrow> 'r"
    and rid :: "'r \<Rightarrow> nat"
    and payload :: "'r \<Rightarrow> 'a"
  assumes rid_build: "rid (build k n x) = n"
    and payload_build: "payload (build k n x) = x"
begin

lemma inv_step:
  assumes "hub_inv rid payload h"
  shows "hub_inv rid payload (hub_step build op h)"
proof (cases op)
  case (HubAppend k x)
  let ?h = "ensureStream k h"
  have st: "h_streams ?h k = Some (stream_at k ?h)"
    by (simp add: ensureStream_def stream_at_def split: option.split)
  show ?thesis
    using hub_inv_Append [OF hub_inv_ensure [OF assms] st, of "build k (length (st_list (stream_at k ?h) @ [x])) x" x]
    by (simp add: HubAppend Append_def Let_def rid_build payload_build)
qed (simp_all add: assms Open_def hub_inv_ensure hub_inv_Offer hub_inv_Unsubscribe hub_inv_Receive
      hub_inv_Subscribe rid_build payload_build)

lemma inv_run: "hub_inv rid payload (fold (hub_step build) ops NewHub)"
proof (rule fold_invariant [where Q = "\<lambda>_. True"])
  show "hub_inv rid payload NewHub" by (simp add: hub_inv_def NewHub_def)
qed (simp_all add: inv_step)

lemma reader:
  assumes "h = fold (hub_step build) ops NewHub" "h_chans h ch = Some c"
  shows "\<exists>st. h_streams h (c_key c) = Some st \<and> distinct (map rid (c_sent c)) \<and>
    (\<forall>r\<in>set (c_sent c). 1 \<le> rid r \<and> rid r \<le> length (st_list st) \<and> payload r = st_list st ! (rid r - 1)) \<and>
    length (c_sent c) - c_read c \<le> c_cap c"
  using hub_invD(2) [OF inv_run assms(2) [unfolded assms(1)]] unfolding assms(1) chan_ok_def rec_ok_def by auto

end

interpretation events: broadcast event_record eb_ID eb_Payload
  by unfold_locales (simp_all add: event_record_def)

interpretation logs: broadcast log_record lb_ID lb_Line
  by unfold_locales (simp_all add: log_record_def)

subsection \<open>Properties\<close>

text \<open>C17. However appends, offers, subscriptions and receives interleave, a subscriber of the event hub or
  of the log hub is given each record at most once, and every record it is given carries the payload
  that the stream has at the record's position; what waits in its channel never exceeds the channel's
  capacity.\<close>

theorem subscriber_sees_log:
  fixes event_ops :: "'a hub_op list" and log_ops :: "log_line hub_op list"
  defines "h \<equiv> fold (hub_step event_record) event_ops NewHub" and "g \<equiv> fold (hub_step log_record) log_ops NewHub"
  shows "(\<forall>ch c. h_chans h ch = Some c \<longrightarrow>
      (\<exists>st. h_streams h (c_key c) = Some st \<and> distinct (map eb_ID (c_sent c)) \<and>
         (\<forall>r\<in>set (c_sent c). 1 \<le> eb_ID r \<and> eb_ID r \<le> length (st_list st) \<and> eb_Payload r = st_list st ! (eb_ID r - 1)) \<and>
         length (c_sent c) - c_read c \<le> c_cap c)) \<and>
    (\<forall>ch c. h_chans g ch = Some c \<longrightarrow>
      (\<exists>st. h_streams g (c_key c) = Some st \<and> distinct (map lb_ID (c_sent c)) \<and>
         (\<forall>r\<in>set (c_sent c). 1 \<le> lb_ID r \<and> lb_ID r \<le> length (st_list st) \<and> lb_Line r = st_list st ! (lb_ID r - 1)) \<and>
         length (c_sent c) - c_read c \<le> c_cap c))"
  using events.reader logs.reader unfolding h_def g_def by blast

definition demo_hub_ops :: "string hub_op list" where
  "demo_hub_ops = [HubAppend ''k'' ''one'', HubSubscribe ''k'' 0, HubAppend ''k'' ''two'', HubOffer 1 0, HubReceive 0]"

theorem subscriber_sees_log_witness:
  "\<exists>c. h_chans (fold (hub_step event_record) demo_hub_ops NewHub) 0 = Some c \<and> length (c_sent c) = 2 \<and>
     distinct (map eb_ID (c_sent c))"
proof -
  have "case h_chans (fold (hub_step event_record) demo_hub_ops NewHub) 0 of None \<Rightarrow> False | Some c \<Rightarrow> length (c_sent c) = 2"
    by code_simp
  then obtain c where "h_chans (fold (hub_step event_record) demo_hub_ops NewHub) 0 = Some c" "length (c_sent c) = 2"
    by (auto split: option.splits)
  with subscriber_sees_log [of demo_hub_ops "[]"] show ?thesis by blast
qed

text \<open>Subscribing to an execution's events cannot block while the service's mutex is held: the
  replayed events fit the channel and leave at least 16 places free. They are exactly the events
  after position \<open>since\<close>, in order, numbered by position, so a reader that reconnects with the last
  position it has seen misses nothing and sees nothing twice.\<close>

theorem SubscribeEvents_resumes:
  assumes "SubscribeEvents eid w since s u = (u', Inr ch)" "sv_executions s eid = Some item"
  shows "\<exists>c. ev_chans u' ch = Some c \<and> ch \<in> set (collectSubscribers (ev_subs u' eid)) \<and>
    length (c_sent c) + 16 \<le> c_cap c \<and>
    map se_Event (c_sent c) = drop (nat since) (er_Events (es_record item)) \<and>
    map se_ID (c_sent c) = [Suc (nat since)..<Suc (length (er_Events (es_record item)))]"
proof -
  let ?ev = "er_Events (es_record item)" and ?c = "new_chan (replayed_event eid item) eid since (er_Events (es_record item))"
  have "ev_chans u' ch = Some ?c \<and> ch \<in> set (collectSubscribers (ev_subs u' eid))"
    using assms by (auto simp: SubscribeEvents_def Let_def collectSubscribers_def split: if_splits)
  moreover have "map ((!) xs) [n..<length xs] = drop n xs" for n and xs :: "execution_event list"
    by (rule nth_equalityI) auto
  ultimately show ?thesis
    using replay_fits [of "replayed_event eid item" since ?ev]
    by (intro exI [of _ ?c]) (simp add: new_chan_def replay_eq replayed_event_def comp_def map_Suc_upt)
qed

theorem SubscribeEvents_resumes_witness:
  "\<exists>u ch c. SubscribeEvents ''run-1'' [] 0 demo_service \<lparr>ev_subs = Map.empty, ev_chans = Map.empty, ev_next = 0\<rparr> = (u, Inr ch) \<and>
     ev_chans u ch = Some c \<and> length (c_sent c) + 16 \<le> c_cap c"
proof -
  let ?u = "\<lparr>ev_subs = Map.empty, ev_chans = Map.empty, ev_next = 0\<rparr>"
  have item: "sv_executions demo_service ''run-1'' = Some demo_item"
    by (simp add: demo_service_def demo_flow_def)
  then obtain u ch where "SubscribeEvents ''run-1'' [] 0 demo_service ?u = (u, Inr ch)"
    by (simp add: SubscribeEvents_def visible_def Let_def)
  with SubscribeEvents_resumes [OF this item] show ?thesis by blast
qed

end
