(* ===== verification/Agent_Coordinator.thy ===== *)
theory Agent_Coordinator
  imports Suite_Types Go_Strings
begin

text \<open>
  The broker between executions and remote agents: \<open>coordinator.go\<close>, \<open>broker_dispatcher.go\<close>,
  \<open>runtime_cache.go\<close> and the data of \<open>types.go\<close> in \<open>internal/agent\<close>. Each method is one critical
  section over the map of assignments. Go's map iteration has no order, so a loop over the map takes
  the order of its keys as an argument. \<open>close(entry.done)\<close> is counted: a second close of the same
  channel panics.
\<close>

subsection \<open>Data\<close>

record step_node =
  sn_ID :: string
  sn_Name :: string
  sn_Kind :: string
  sn_Variant :: string
  sn_DependsOn :: "string list"
  sn_Image :: string
  sn_File :: string
  sn_Commands :: "string list"
  sn_FileContent :: string
  sn_Message :: string
  sn_Devices :: "string list"
  sn_MemoryBytes :: int
  sn_MilliCPU :: int

record step_request =
  rq_JobID :: string
  rq_ExecutionID :: string
  rq_SuiteID :: string
  rq_SuiteTitle :: string
  rq_SuiteRepository :: string
  rq_Profile :: string
  rq_RuntimeProfile :: string
  rq_Env :: "string \<rightharpoonup> string"
  rq_Headers :: "string \<rightharpoonup> string"
  rq_Trigger :: string
  rq_BackendID :: string
  rq_BackendKind :: string
  rq_BackendLabel :: string
  rq_SourceSuiteID :: string
  rq_SourceSuiteTitle :: string
  rq_SourceRepository :: string
  rq_SourceVersion :: string
  rq_ResolvedRef :: string
  rq_Digest :: string
  rq_DependencyAlias :: string
  rq_StepIndex :: int
  rq_TotalSteps :: int
  rq_LeaseTTL :: duration
  rq_Load :: "load_spec option"
  rq_Evaluation :: "step_evaluation option"
  rq_OnFailure :: "string list"
  rq_ArtifactExports :: "artifact_export list"
  rq_Node :: step_node
  rq_GatewayURL :: string
  rq_GatewayURLs :: "string list"
  rq_NetworkAliases :: "string list"

datatype assignment_status =
    AssignmentPending
  | AssignmentRunning
  | AssignmentSucceeded
  | AssignmentFailed
  | AssignmentCanceled

record assignment_entry =
  ae_request :: step_request
  ae_status :: assignment_status
  ae_claimedBy :: string
  ae_cancelRequested :: bool
  ae_leaseDeadline :: gotime
  ae_err :: "goerr option"
  ae_done :: nat
  ae_completed :: bool

record assignment_snapshot =
  as_Request :: step_request
  as_Status :: assignment_status
  as_ClaimedBy :: string
  as_CancelRequested :: bool
  as_LeaseDeadline :: gotime
  as_Completed :: bool

type_synonym assignments = "string \<rightharpoonup> assignment_entry"

record registration =
  rg_AgentID :: string
  rg_Name :: string
  rg_HostURL :: string
  rg_Status :: string
  rg_Capabilities :: "string list"
  rg_RegisteredAt :: gotime
  rg_LastHeartbeatAt :: gotime
  rg_Capacity :: int

definition SlotCount :: "registration \<Rightarrow> int" where
  "SlotCount r = (if rg_Capacity r < 1 then 1 else rg_Capacity r)"

record lease_response =
  lr_Status :: assignment_status
  lr_CancelRequested :: bool

record complete_request =
  cr_AgentID :: string
  cr_Error :: string

definition ErrAssignmentNotFound :: goerr where
  "ErrAssignmentNotFound = ErrorsNew ''assignment not found''"

definition ErrAssignmentClaimed :: goerr where
  "ErrAssignmentClaimed = ErrorsNew ''assignment already claimed''"

definition ErrAssignmentClosed :: goerr where
  "ErrAssignmentClosed = ErrorsNew ''assignment already completed''"

definition ErrLeaseExpired :: goerr where
  "ErrLeaseExpired = ErrorfWrap ''the agent stopped renewing the step's lease: %w'' [] ContextDeadlineExceeded"

subsection \<open>The coordinator\<close>

fun firstNonEmptyValue :: "string list \<Rightarrow> string" where
  "firstNonEmptyValue [] = []"
| "firstNonEmptyValue (v # vs) = (if TrimSpace v \<noteq> [] then v else firstNonEmptyValue vs)"

definition new_assignment :: "step_request \<Rightarrow> assignment_entry" where
  "new_assignment request =
     \<lparr>ae_request = request, ae_status = AssignmentPending, ae_claimedBy = [], ae_cancelRequested = False,
      ae_leaseDeadline = 0, ae_err = None, ae_done = 0, ae_completed = False\<rparr>"

text \<open>The request as \<open>Submit\<close> stores it; \<open>uuid\<close> is what \<open>uuid.NewString\<close> returned.\<close>

definition submitted :: "string \<Rightarrow> step_request \<Rightarrow> step_request" where
  "submitted uuid request =
     request\<lparr>rq_JobID := firstNonEmptyValue
                 [TrimSpace (rq_JobID request), rq_ExecutionID request @ '':'' @ sn_ID (rq_Node request), uuid],
             rq_LeaseTTL := (if rq_LeaseTTL request \<le> 0 then 8 * second else rq_LeaseTTL request)\<rparr>"

definition Submit :: "string \<Rightarrow> step_request \<Rightarrow> assignments \<Rightarrow> assignments \<times> (goerr + step_request)" where
  "Submit uuid request m =
     (let request = submitted uuid request
      in case m (rq_JobID request) of
           Some e \<Rightarrow> (m, Inl (Errorf ''job %q already exists'' [rq_JobID request]))
         | None \<Rightarrow> (m(rq_JobID request \<mapsto> new_assignment request), Inr request))"

definition Cleanup :: "string \<Rightarrow> assignments \<Rightarrow> assignments" where
  "Cleanup jobID m = m(jobID := None)"

definition claimable :: "string \<Rightarrow> assignments \<Rightarrow> string \<Rightarrow> bool" where
  "claimable agentID m jobID =
     (case m jobID of
        None \<Rightarrow> False
      | Some e \<Rightarrow> ae_status e = AssignmentPending \<and>
          TrimSpace (rq_BackendID (ae_request e)) = TrimSpace agentID)"

definition claim_entry :: "string \<Rightarrow> gotime \<Rightarrow> assignment_entry \<Rightarrow> assignment_entry" where
  "claim_entry agentID now e =
     e\<lparr>ae_status := AssignmentRunning, ae_claimedBy := agentID,
       ae_leaseDeadline := now + rq_LeaseTTL (ae_request e)\<rparr>"

definition Claim :: "string list \<Rightarrow> gotime \<Rightarrow> string \<Rightarrow> assignments \<Rightarrow> assignments \<times> step_request option" where
  "Claim keys now agentID m =
     (case find (claimable agentID m) keys of
        None \<Rightarrow> (m, None)
      | Some jobID \<Rightarrow>
          (case m jobID of
             None \<Rightarrow> (m, None)
           | Some e \<Rightarrow> (m(jobID \<mapsto> claim_entry agentID now e), Some (ae_request e))))"

definition Extend :: "gotime \<Rightarrow> string \<Rightarrow> string \<Rightarrow> assignments \<Rightarrow> assignments \<times> (goerr + lease_response)" where
  "Extend now jobID agentID m =
     (case m jobID of
        None \<Rightarrow> (m, Inl ErrAssignmentNotFound)
      | Some e \<Rightarrow>
          if ae_status e \<noteq> AssignmentRunning
          then (m, Inr \<lparr>lr_Status = ae_status e, lr_CancelRequested = ae_cancelRequested e\<rparr>)
          else if ae_claimedBy e \<noteq> agentID then (m, Inl ErrAssignmentClaimed)
          else (m(jobID \<mapsto> e\<lparr>ae_leaseDeadline := now + rq_LeaseTTL (ae_request e)\<rparr>),
                Inr \<lparr>lr_Status = ae_status e, lr_CancelRequested = ae_cancelRequested e\<rparr>))"

definition assignmentRequest :: "string \<Rightarrow> string \<Rightarrow> assignments \<Rightarrow> goerr + step_request" where
  "assignmentRequest jobID agentID m =
     (case m jobID of
        None \<Rightarrow> Inl ErrAssignmentNotFound
      | Some e \<Rightarrow>
          if ae_claimedBy e \<noteq> agentID then Inl ErrAssignmentClaimed
          else if ae_completed e then Inl ErrAssignmentClosed
          else Inr (ae_request e))"

text \<open>\<open>ReportState\<close> and \<open>ReportLog\<close>: the error, or what the observer is told.\<close>

definition ReportState ::
  "bool \<Rightarrow> string \<Rightarrow> string \<Rightarrow> string \<Rightarrow> string \<Rightarrow> assignments \<Rightarrow> goerr + (step_request \<times> string \<times> string) list" where
  "ReportState observed jobID agentID state message m =
     (case assignmentRequest jobID agentID m of
        Inl e \<Rightarrow> Inl e
      | Inr request \<Rightarrow> Inr (if observed then [(request, state, message)] else []))"

definition ReportLog ::
  "bool \<Rightarrow> string \<Rightarrow> string \<Rightarrow> 'line \<Rightarrow> assignments \<Rightarrow> goerr + (step_request \<times> 'line) list" where
  "ReportLog observed jobID agentID line m =
     (case assignmentRequest jobID agentID m of
        Inl e \<Rightarrow> Inl e
      | Inr request \<Rightarrow> Inr (if observed then [(request, line)] else []))"

definition close_entry :: "assignment_status \<Rightarrow> goerr option \<Rightarrow> assignment_entry \<Rightarrow> assignment_entry" where
  "close_entry st err e =
     e\<lparr>ae_status := st, ae_err := err, ae_done := Suc (ae_done e), ae_completed := True\<rparr>"

definition complete_entry :: "complete_request \<Rightarrow> assignment_entry \<Rightarrow> assignment_entry" where
  "complete_entry request e =
     (let e = e\<lparr>ae_leaseDeadline := 0\<rparr>
      in if ae_cancelRequested e then close_entry AssignmentCanceled (Some ContextCanceled) e
         else if TrimSpace (cr_Error request) \<noteq> [] then close_entry AssignmentFailed (Some (ErrorsNew (cr_Error request))) e
         else close_entry AssignmentSucceeded None e)"

definition Complete :: "string \<Rightarrow> complete_request \<Rightarrow> assignments \<Rightarrow> assignments \<times> goerr option" where
  "Complete jobID request m =
     (case m jobID of
        None \<Rightarrow> (m, Some ErrAssignmentNotFound)
      | Some e \<Rightarrow>
          if ae_claimedBy e \<noteq> cr_AgentID request then (m, Some ErrAssignmentClaimed)
          else if ae_completed e then (m, None)
          else (m(jobID \<mapsto> complete_entry request e), None))"

definition Cancel :: "string \<Rightarrow> assignments \<Rightarrow> assignments \<times> bool" where
  "Cancel jobID m =
     (case m jobID of
        None \<Rightarrow> (m, False)
      | Some e \<Rightarrow>
          if ae_completed e then (m, False)
          else if ae_status e = AssignmentPending
          then (m(jobID \<mapsto> close_entry AssignmentCanceled (Some ContextCanceled) e), True)
          else (m(jobID \<mapsto> e\<lparr>ae_cancelRequested := True\<rparr>), True))"

text \<open>One tick of \<open>expiryLoop\<close>.\<close>

definition lease_over :: "gotime \<Rightarrow> assignment_entry \<Rightarrow> bool" where
  "lease_over now e \<longleftrightarrow>
     \<not> (ae_completed e \<or> ae_status e \<noteq> AssignmentRunning) \<and>
     \<not> (ae_leaseDeadline e = 0 \<or> now < ae_leaseDeadline e)"

definition lease_error :: "assignment_entry \<Rightarrow> goerr" where
  "lease_error e =
     ErrorfWrap ''%w (agent %s, silent for over %s)''
       [ae_claimedBy e, DurationString (rq_LeaseTTL (ae_request e))] ErrLeaseExpired"

definition expire_entry :: "gotime \<Rightarrow> assignment_entry \<Rightarrow> assignment_entry" where
  "expire_entry now e = (if lease_over now e then close_entry AssignmentFailed (Some (lease_error e)) e else e)"

definition expire_leases :: "gotime \<Rightarrow> assignments \<Rightarrow> assignments" where
  "expire_leases now m = (\<lambda>k. map_option (expire_entry now) (m k))"

fun status_text :: "assignment_status \<Rightarrow> string" where
  "status_text AssignmentPending = ''pending''"
| "status_text AssignmentRunning = ''running''"
| "status_text AssignmentSucceeded = ''succeeded''"
| "status_text AssignmentFailed = ''failed''"
| "status_text AssignmentCanceled = ''canceled''"

fun statusTallies :: "assignments \<Rightarrow> string list \<Rightarrow> string \<Rightarrow> int" where
  "statusTallies m [] = (\<lambda>_. 0)"
| "statusTallies m (k # ks) =
     (let counts = statusTallies m ks
      in case m k of
           None \<Rightarrow> counts
         | Some e \<Rightarrow> counts(status_text (ae_status e) := counts (status_text (ae_status e)) + 1))"

subsection \<open>Waiting for a job\<close>

text \<open>
  \<open>Wait\<close> has returned when its context is done or when the assignment's channel is closed. Where
  both are ready, Go takes either, so there is one function for each branch.
\<close>

definition closed :: "string \<Rightarrow> assignments \<Rightarrow> bool" where
  "closed jobID m = (case m jobID of None \<Rightarrow> False | Some e \<Rightarrow> 0 < ae_done e)"

definition Wait_done :: "string \<Rightarrow> assignments \<Rightarrow> goerr option" where
  "Wait_done jobID m = (case m jobID of None \<Rightarrow> None | Some e \<Rightarrow> ae_err e)"

definition Wait_canceled :: "goerr \<Rightarrow> string \<Rightarrow> assignments \<Rightarrow> assignments \<times> goerr" where
  "Wait_canceled ctxErr jobID m = (fst (Cancel jobID m), ctxErr)"

subsection \<open>Saving and restoring\<close>

definition snapshot_of :: "assignment_entry \<Rightarrow> assignment_snapshot" where
  "snapshot_of e =
     \<lparr>as_Request = ae_request e, as_Status = ae_status e, as_ClaimedBy = ae_claimedBy e,
      as_CancelRequested = ae_cancelRequested e, as_LeaseDeadline = ae_leaseDeadline e,
      as_Completed = ae_completed e\<rparr>"

definition persistAssignments :: "string list \<Rightarrow> assignments \<Rightarrow> assignment_snapshot list" where
  "persistAssignments keys m =
     map snapshot_of (filter (\<lambda>e. \<not> ae_completed e) (List.map_filter m keys))"

fun restore_entries :: "assignment_snapshot list \<Rightarrow> assignments \<Rightarrow> assignments" where
  "restore_entries [] m = m"
| "restore_entries (snapshot # rest) m =
     (let request = as_Request snapshot
      in restore_entries rest
           (if rq_JobID request = [] then m else m(rq_JobID request \<mapsto> new_assignment request)))"

text \<open>
  \<open>stored\<close> is what the assignment store returned (nothing on an error or without a store), \<open>cached\<close>
  what the runtime cache returned.
\<close>

definition restoreAssignments ::
  "assignment_snapshot list \<Rightarrow> assignment_snapshot list option \<Rightarrow> assignments \<Rightarrow> assignments" where
  "restoreAssignments stored cached m =
     restore_entries (if stored \<noteq> [] then stored else case cached of None \<Rightarrow> [] | Some c \<Rightarrow> c) m"

subsection \<open>The dispatcher\<close>

definition device_family :: "string \<Rightarrow> string" where
  "device_family s = fst (Cut s (CHR '':''))"

definition capabilitiesSatisfied :: "string list \<Rightarrow> string list \<Rightarrow> bool" where
  "capabilitiesSatisfied have need = list_all (\<lambda>n. device_family n \<in> set (map device_family have)) need"

definition anyAgentSatisfies :: "registration list \<Rightarrow> string list \<Rightarrow> bool" where
  "anyAgentSatisfies registrations devices =
     list_ex (\<lambda>reg. capabilitiesSatisfied (rg_Capabilities reg) devices) registrations"

text \<open>
  \<open>Dispatch\<close> up to its submission; it then waits and, however the wait ends, cleans the job up.
  \<open>registrations\<close> is nothing when there is no registry.
\<close>

definition Dispatch ::
  "string \<Rightarrow> registration list option \<Rightarrow> string \<Rightarrow> step_request \<Rightarrow> assignments \<Rightarrow> assignments \<times> (goerr + step_request)" where
  "Dispatch backendID registrations uuid request m =
     (let devices = sn_Devices (rq_Node request);
          unmet = (case registrations of None \<Rightarrow> False | Some rs \<Rightarrow> devices \<noteq> [] \<and> \<not> anyAgentSatisfies rs devices)
      in if unmet
         then (m, Inl (ErrorsNew (''no available agent satisfies device requirements: '' @ Join devices '', '')))
         else Submit uuid (request\<lparr>rq_BackendID := FirstNonEmpty [rq_BackendID request, backendID]\<rparr>) m)"

definition ReleaseKind :: string where
  "ReleaseKind = ''release''"

definition release_request :: "string \<Rightarrow> string \<Rightarrow> step_request" where
  "release_request backendID executionID =
     \<lparr>rq_JobID = executionID @ '':'' @ ReleaseKind, rq_ExecutionID = executionID, rq_SuiteID = [], rq_SuiteTitle = [],
      rq_SuiteRepository = [], rq_Profile = [], rq_RuntimeProfile = [], rq_Env = Map.empty, rq_Headers = Map.empty,
      rq_Trigger = [], rq_BackendID = backendID, rq_BackendKind = [], rq_BackendLabel = [], rq_SourceSuiteID = [],
      rq_SourceSuiteTitle = [], rq_SourceRepository = [], rq_SourceVersion = [], rq_ResolvedRef = [], rq_Digest = [],
      rq_DependencyAlias = [], rq_StepIndex = 0, rq_TotalSteps = 0, rq_LeaseTTL = 30 * second, rq_Load = None,
      rq_Evaluation = None, rq_OnFailure = [], rq_ArtifactExports = [],
      rq_Node = \<lparr>sn_ID = ReleaseKind, sn_Name = ReleaseKind, sn_Kind = ReleaseKind, sn_Variant = [],
        sn_DependsOn = [], sn_Image = [], sn_File = [], sn_Commands = [], sn_FileContent = [], sn_Message = [],
        sn_Devices = [], sn_MemoryBytes = 0, sn_MilliCPU = 0\<rparr>,
      rq_GatewayURL = [], rq_GatewayURLs = [], rq_NetworkAliases = []\<rparr>"

definition Release :: "string \<Rightarrow> string \<Rightarrow> string \<Rightarrow> assignments \<Rightarrow> assignments \<times> (goerr + step_request)" where
  "Release backendID uuid executionID m = Submit uuid (release_request backendID executionID) m"

subsection \<open>Histories\<close>

text \<open>The operations in any order, as dispatchers, agents and the expiry loop interleave them.\<close>

datatype coord_op =
    OpSubmit string step_request
  | OpCleanup string
  | OpClaim "string list" gotime string
  | OpExtend gotime string string
  | OpComplete string complete_request
  | OpCancel string
  | OpTick gotime

fun coord_step :: "coord_op \<Rightarrow> assignments \<Rightarrow> assignments" where
  "coord_step (OpSubmit uuid request) m = fst (Submit uuid request m)"
| "coord_step (OpCleanup jobID) m = Cleanup jobID m"
| "coord_step (OpClaim keys now agentID) m = fst (Claim keys now agentID m)"
| "coord_step (OpExtend now jobID agentID) m = fst (Extend now jobID agentID m)"
| "coord_step (OpComplete jobID request) m = fst (Complete jobID request m)"
| "coord_step (OpCancel jobID) m = fst (Cancel jobID m)"
| "coord_step (OpTick now) m = expire_leases now m"

subsection \<open>The invariant of an assignment\<close>

fun final_status :: "assignment_status \<Rightarrow> bool" where
  "final_status AssignmentPending = False"
| "final_status AssignmentRunning = False"
| "final_status _ = True"

lemma final_status_iff: "final_status st \<longleftrightarrow> st \<noteq> AssignmentPending \<and> st \<noteq> AssignmentRunning"
  by (cases st) auto

definition entry_ok :: "string \<Rightarrow> assignment_entry \<Rightarrow> bool" where
  "entry_ok k e \<longleftrightarrow>
     rq_JobID (ae_request e) = k \<and> k \<noteq> [] \<and> 0 < rq_LeaseTTL (ae_request e) \<and>
     (ae_completed e \<longleftrightarrow> final_status (ae_status e)) \<and>
     ae_done e = (if ae_completed e then 1 else 0) \<and>
     (ae_err e = None \<longleftrightarrow> ae_status e \<noteq> AssignmentFailed \<and> ae_status e \<noteq> AssignmentCanceled) \<and>
     (ae_status e = AssignmentPending \<longrightarrow> ae_claimedBy e = [] \<and> \<not> ae_cancelRequested e) \<and>
     (ae_status e = AssignmentRunning \<longrightarrow> TrimSpace (rq_BackendID (ae_request e)) = TrimSpace (ae_claimedBy e)) \<and>
     (ae_status e = AssignmentSucceeded \<longrightarrow> \<not> ae_cancelRequested e)"

definition coord_inv :: "assignments \<Rightarrow> bool" where
  "coord_inv m \<longleftrightarrow> (\<forall>k e. m k = Some e \<longrightarrow> entry_ok k e)"

text \<open>
  What one critical section may do to one assignment: the moves of the job's life cycle. The first
  argument is the operation that made the move, the second the job's key.
\<close>

inductive job_move :: "coord_op \<Rightarrow> string \<Rightarrow> assignment_entry \<Rightarrow> assignment_entry \<Rightarrow> bool" for op k where
  keep: "job_move op k e e"
| claim: "op = OpClaim keys now a \<Longrightarrow> ae_status e = AssignmentPending \<Longrightarrow>
    TrimSpace (rq_BackendID (ae_request e)) = TrimSpace a \<Longrightarrow> job_move op k e (claim_entry a now e)"
| renew: "op = OpExtend now k a \<Longrightarrow> ae_status e = AssignmentRunning \<Longrightarrow> ae_claimedBy e = a \<Longrightarrow>
    job_move op k e (e\<lparr>ae_leaseDeadline := now + rq_LeaseTTL (ae_request e)\<rparr>)"
| complete: "op = OpComplete k r \<Longrightarrow> \<not> ae_completed e \<Longrightarrow> ae_claimedBy e = cr_AgentID r \<Longrightarrow>
    job_move op k e (complete_entry r e)"
| cancel: "op = OpCancel k \<Longrightarrow> ae_status e = AssignmentPending \<Longrightarrow> \<not> ae_completed e \<Longrightarrow>
    job_move op k e (close_entry AssignmentCanceled (Some ContextCanceled) e)"
| ask: "op = OpCancel k \<Longrightarrow> \<not> ae_completed e \<Longrightarrow> ae_status e \<noteq> AssignmentPending \<Longrightarrow>
    job_move op k e (e\<lparr>ae_cancelRequested := True\<rparr>)"
| expire: "op = OpTick now \<Longrightarrow> lease_over now e \<Longrightarrow> job_move op k e (close_entry AssignmentFailed (Some (lease_error e)) e)"

lemma Claim_cases:
  obtains (none) "Claim keys now a m = (m, None)" "\<forall>k\<in>set keys. \<not> claimable a m k"
  | (some) k e where "k \<in> set keys" "m k = Some e" "ae_status e = AssignmentPending"
      "TrimSpace (rq_BackendID (ae_request e)) = TrimSpace a"
      "Claim keys now a m = (m(k \<mapsto> claim_entry a now e), Some (ae_request e))"
proof (cases "find (claimable a m) keys")
  case None
  then have "Claim keys now a m = (m, None)" by (simp add: Claim_def)
  moreover have "\<forall>k\<in>set keys. \<not> claimable a m k" using None by (simp add: find_None_iff)
  ultimately show ?thesis by (rule none)
next
  case (Some k)
  then have k: "claimable a m k" "k \<in> set keys" by (auto simp: find_Some_iff)
  then obtain e where e: "m k = Some e" by (cases "m k") (auto simp: claimable_def)
  with k Some show ?thesis by (intro some [of k e]) (simp_all add: claimable_def Claim_def)
qed

lemma step_moves:
  assumes "m k = Some e"
  shows "(op = OpCleanup k \<and> coord_step op m k = None) \<or> (\<exists>e'. coord_step op m k = Some e' \<and> job_move op k e e')"
proof (cases op)
  case (OpSubmit uuid r)
  with assms have "coord_step op m k = Some e" by (auto simp: Submit_def Let_def split: option.split)
  then show ?thesis by (auto intro: job_move.keep)
next
  case (OpCleanup j)
  with assms show ?thesis by (cases "j = k") (auto simp: Cleanup_def intro: job_move.keep)
next
  case (OpClaim keys now a)
  show ?thesis
  proof (cases rule: Claim_cases [of keys now a m])
    case none
    with OpClaim assms show ?thesis by (auto intro: job_move.keep)
  next
    case (some j e')
    with OpClaim assms show ?thesis by (cases "j = k") (auto intro: job_move.keep job_move.claim)
  qed
next
  case (OpExtend now j a)
  with assms show ?thesis
    by (cases "j = k") (auto simp: Extend_def intro: job_move.keep job_move.renew split: option.split)
next
  case (OpComplete j r)
  with assms show ?thesis
    by (cases "j = k") (auto simp: Complete_def intro: job_move.keep job_move.complete split: option.split)
next
  case (OpCancel j)
  with assms show ?thesis
    by (cases "j = k")
      (auto simp: Cancel_def intro: job_move.keep job_move.cancel job_move.ask split: option.split)
next
  case (OpTick now)
  with assms show ?thesis
    by (auto simp: expire_leases_def expire_entry_def intro: job_move.keep job_move.expire)
qed

text \<open>An assignment appears only by its submission, as a pending one.\<close>

lemma step_new:
  assumes "m k = None" "coord_step op m k = Some e"
  shows "\<exists>uuid r. op = OpSubmit uuid r \<and> k = rq_JobID (submitted uuid r) \<and> e = new_assignment (submitted uuid r)"
proof (cases op)
  case (OpSubmit uuid r)
  with assms show ?thesis by (auto simp: Submit_def Let_def split: option.splits if_splits)
next
  case (OpClaim keys now a)
  with assms show ?thesis by (cases rule: Claim_cases [of keys now a m]) (auto split: if_splits)
qed (use assms in \<open>auto simp: Cleanup_def Extend_def Complete_def Cancel_def expire_leases_def split: option.splits if_splits\<close>)

lemma move_ok:
  assumes "job_move op k e e'" "entry_ok j e"
  shows "entry_ok j e'"
  using assms(1)
proof cases
  case (complete r)
  with assms(2) show ?thesis
    by (auto simp: entry_ok_def complete_entry_def close_entry_def Let_def final_status_iff)
next
  case (expire now)
  with assms(2) show ?thesis by (auto simp: entry_ok_def close_entry_def lease_over_def)
qed (use assms(2) in \<open>auto simp: entry_ok_def claim_entry_def close_entry_def final_status_iff\<close>)

lemma firstNonEmptyValue_blank: "TrimSpace (firstNonEmptyValue vs) = [] \<longleftrightarrow> (\<forall>v\<in>set vs. TrimSpace v = [])"
  by (induction vs) auto

lemma submitted_ok: "entry_ok (rq_JobID (submitted uuid r)) (new_assignment (submitted uuid r))"
proof -
  have "TrimSpace (rq_ExecutionID r @ '':'' @ sn_ID (rq_Node r)) \<noteq> []"
    by (rule TrimSpace_not_blank [of "CHR '':''"]) (simp_all add: plain_char_def)
  then have "TrimSpace (rq_JobID (submitted uuid r)) \<noteq> []"
    by (simp add: submitted_def firstNonEmptyValue_blank del: firstNonEmptyValue.simps)
  then have "rq_JobID (submitted uuid r) \<noteq> []" by auto
  moreover have "0 < rq_LeaseTTL (submitted uuid r)" by (simp add: submitted_def)
  ultimately show ?thesis by (simp add: entry_ok_def new_assignment_def)
qed

lemma coord_inv_step: "coord_inv m \<Longrightarrow> coord_inv (coord_step op m)"
  unfolding coord_inv_def
proof (intro allI impI)
  fix k e'
  assume inv: "\<forall>k e. m k = Some e \<longrightarrow> entry_ok k e" and e': "coord_step op m k = Some e'"
  show "entry_ok k e'"
  proof (cases "m k")
    case None
    with step_new [OF None e'] submitted_ok show ?thesis by blast
  next
    case (Some e)
    with step_moves [of m k e op] e' inv show ?thesis by (auto intro: move_ok)
  qed
qed

lemma coord_inv_run: "coord_inv m \<Longrightarrow> coord_inv (fold coord_step ops m)"
  by (induction ops arbitrary: m) (simp_all add: coord_inv_step)

text \<open>A completed assignment never changes; it only leaves the map.\<close>

interpretation assignment_life: lifecycle coord_step "\<lambda>m. m" "\<lambda>e. ae_completed e \<and> final_status (ae_status e)"
proof unfold_locales
  fix m :: assignments and k e op
  assume "m k = Some e" and fin: "ae_completed e \<and> final_status (ae_status e)"
  have "e' = e" if "job_move op k e e'" for e'
    using that fin by (cases rule: job_move.cases) (auto simp: final_status_iff lease_over_def)
  with step_moves [of m k e op] \<open>m k = Some e\<close> show "coord_step op m k = None \<or> coord_step op m k = Some e" by blast
qed

subsection \<open>Runs and restarts\<close>

text \<open>
  A coordinator starts empty, takes any steps, and may be restarted from what it last saved;
  \<open>keys\<close> is the order in which the save met the entries.
\<close>

inductive coord_reachable :: "assignments \<Rightarrow> bool" where
  start: "coord_reachable Map.empty"
| step: "coord_reachable m \<Longrightarrow> coord_reachable (coord_step op m)"
| restart: "coord_reachable m \<Longrightarrow> set keys = dom m \<Longrightarrow>
    coord_reachable (restoreAssignments (persistAssignments keys m) None Map.empty)"

lemma restore_entries_eq:
  assumes "\<And>s. s \<in> set ss \<Longrightarrow> rq_JobID (as_Request s) \<noteq> []"
    "\<And>s t. s \<in> set ss \<Longrightarrow> t \<in> set ss \<Longrightarrow> rq_JobID (as_Request s) = rq_JobID (as_Request t) \<Longrightarrow> as_Request s = as_Request t"
  shows "restore_entries ss m k = Some e \<longleftrightarrow>
    (\<exists>s\<in>set ss. rq_JobID (as_Request s) = k \<and> e = new_assignment (as_Request s)) \<or>
    (\<forall>s\<in>set ss. rq_JobID (as_Request s) \<noteq> k) \<and> m k = Some e"
  using assms
proof (induction ss arbitrary: m)
  case (Cons s ss)
  have ne: "rq_JobID (as_Request s) \<noteq> []" using Cons.prems(1) by simp
  have IH: "restore_entries ss m' k = Some e \<longleftrightarrow>
      (\<exists>s\<in>set ss. rq_JobID (as_Request s) = k \<and> e = new_assignment (as_Request s)) \<or>
      (\<forall>s\<in>set ss. rq_JobID (as_Request s) \<noteq> k) \<and> m' k = Some e" for m'
    using Cons.prems by (intro Cons.IH) auto
  have same: "as_Request t = as_Request s" if "t \<in> set ss" "rq_JobID (as_Request t) = rq_JobID (as_Request s)" for t
    using Cons.prems(2) [of t s] that by simp
  show ?case
  proof (cases "\<exists>t\<in>set ss. rq_JobID (as_Request t) = k")
    case True
    with same show ?thesis by (auto simp: Let_def ne IH) metis+
  next
    case False
    then show ?thesis by (auto simp: Let_def ne IH)
  qed
qed simp

lemma option_eq_iff_Some: "(\<And>x. a = Some x \<longleftrightarrow> b = Some x) \<Longrightarrow> a = b"
  by (cases a; cases b) auto

lemma entry_ok_new: "entry_ok k e \<Longrightarrow> entry_ok k (new_assignment (ae_request e))"
  by (simp add: entry_ok_def new_assignment_def)

lemma restart_eq:
  assumes "coord_inv m" "set keys = dom m"
  shows "restoreAssignments (persistAssignments keys m) None Map.empty =
    (\<lambda>k. case m k of None \<Rightarrow> None | Some e \<Rightarrow> if ae_completed e then None else Some (new_assignment (ae_request e)))"
proof
  fix k
  let ?ss = "persistAssignments keys m"
  have id: "rq_JobID (ae_request e) = j \<and> j \<noteq> []" if "m j = Some e" for j e
    using assms(1) that by (simp add: coord_inv_def entry_ok_def)
  have mem: "s \<in> set ?ss \<longleftrightarrow> (\<exists>j e. m j = Some e \<and> \<not> ae_completed e \<and> s = snapshot_of e)" for s
    using assms(2) by (force simp: persistAssignments_def map_filter_def dom_def image_iff)
  have job: "\<exists>e. m (rq_JobID (as_Request s)) = Some e \<and> \<not> ae_completed e \<and> as_Request s = ae_request e \<and>
      rq_JobID (as_Request s) \<noteq> []" if "s \<in> set ?ss" for s
    using that id unfolding mem snapshot_of_def by force
  have saved: "snapshot_of e \<in> set ?ss" if "m j = Some e" "\<not> ae_completed e" for j e using that mem by blast
  have entry: "restore_entries ?ss Map.empty k = Some x \<longleftrightarrow> (\<exists>e. m k = Some e \<and> \<not> ae_completed e \<and> x = new_assignment (ae_request e))" for x
  proof -
    have "restore_entries ?ss Map.empty k = Some x \<longleftrightarrow>
        (\<exists>s\<in>set ?ss. rq_JobID (as_Request s) = k \<and> x = new_assignment (as_Request s)) \<or>
        (\<forall>s\<in>set ?ss. rq_JobID (as_Request s) \<noteq> k) \<and> Map.empty k = Some x"
    proof (rule restore_entries_eq)
      show "rq_JobID (as_Request s) \<noteq> []" if "s \<in> set ?ss" for s using job [OF that] by blast
      show "as_Request s = as_Request t"
        if "s \<in> set ?ss" "t \<in> set ?ss" "rq_JobID (as_Request s) = rq_JobID (as_Request t)" for s t
        using job [OF that(1)] job [OF that(2)] that(3) by auto
    qed
    also have "\<dots> \<longleftrightarrow> (\<exists>s\<in>set ?ss. rq_JobID (as_Request s) = k \<and> x = new_assignment (as_Request s))" by simp
    also have "\<dots> \<longleftrightarrow> (\<exists>e. m k = Some e \<and> \<not> ae_completed e \<and> x = new_assignment (ae_request e))"
    proof
      assume "\<exists>s\<in>set ?ss. rq_JobID (as_Request s) = k \<and> x = new_assignment (as_Request s)"
      then show "\<exists>e. m k = Some e \<and> \<not> ae_completed e \<and> x = new_assignment (ae_request e)" using job by fastforce
    next
      assume "\<exists>e. m k = Some e \<and> \<not> ae_completed e \<and> x = new_assignment (ae_request e)"
      then obtain e where "m k = Some e" "\<not> ae_completed e" "x = new_assignment (ae_request e)" by blast
      then show "\<exists>s\<in>set ?ss. rq_JobID (as_Request s) = k \<and> x = new_assignment (as_Request s)"
        using saved id by (intro bexI [of _ "snapshot_of e"]) (simp_all add: snapshot_of_def)
    qed
    finally show ?thesis .
  qed
  have all: "restoreAssignments ?ss None Map.empty = restore_entries ?ss Map.empty"
    by (cases "?ss = []") (simp_all add: restoreAssignments_def)
  have "restoreAssignments ?ss None Map.empty k = Some x \<longleftrightarrow>
      (case m k of None \<Rightarrow> None | Some e \<Rightarrow> if ae_completed e then None else Some (new_assignment (ae_request e))) = Some x" for x
    unfolding all entry by (cases "m k") auto
  then show "restoreAssignments ?ss None Map.empty k =
      (case m k of None \<Rightarrow> None | Some e \<Rightarrow> if ae_completed e then None else Some (new_assignment (ae_request e)))"
    by (rule option_eq_iff_Some)
qed

lemma reachable_inv: "coord_reachable m \<Longrightarrow> coord_inv m"
proof (induction rule: coord_reachable.induct)
  case (restart m keys)
  have "entry_ok k (new_assignment (ae_request e))" if "m k = Some e" for k e
    using restart.IH that by (simp add: coord_inv_def entry_ok_new)
  with restart show ?case
    by (simp add: restart_eq) (auto simp: coord_inv_def split: option.splits if_splits)
qed (auto simp: coord_inv_def [of Map.empty] coord_inv_step)

lemma fold_moves:
  fixes m :: assignments
  assumes "m k = Some e" "P e" "OpCleanup k \<notin> set ops"
    "\<And>op e e'. op \<in> set ops \<Longrightarrow> P e \<Longrightarrow> job_move op k e e' \<Longrightarrow> P e'"
  shows "\<exists>e'. fold coord_step ops m k = Some e' \<and> P e'"
  using assms
proof (induction ops arbitrary: m e)
  case (Cons op ops)
  obtain e' where "coord_step op m k = Some e'" "job_move op k e e'"
    using step_moves [of m k e op] Cons.prems(1,3) by auto
  moreover then have "P e'" using Cons.prems(2,4) by auto
  moreover have "OpCleanup k \<notin> set ops" "\<And>op e e'. op \<in> set ops \<Longrightarrow> P e \<Longrightarrow> job_move op k e e' \<Longrightarrow> P e'"
    using Cons.prems(3) Cons.prems(4) by (simp, metis list.set_intros(2))
  ultimately show ?case using Cons.IH [of "coord_step op m" e'] by simp
qed simp

lemma move_request: "job_move op k e e' \<Longrightarrow> ae_request e' = ae_request e"
  by (cases rule: job_move.cases) (auto simp: claim_entry_def complete_entry_def close_entry_def Let_def)

lemma move_frozen:
  assumes "job_move op k e e'" "entry_ok j e" "ae_completed e"
  shows "e' = e"
  using assms by (cases rule: job_move.cases) (auto simp: entry_ok_def final_status_iff lease_over_def)

text \<open>A claim that changes an assignment hands its request out.\<close>

lemma Claim_hands_out:
  assumes "m k = Some e" "coord_step (OpClaim keys now a) m k = Some e'" "ae_status e' \<noteq> ae_status e"
  shows "snd (Claim keys now a m) = Some (ae_request e) \<and> ae_claimedBy e' = a \<and> ae_status e' = AssignmentRunning"
proof (cases rule: Claim_cases [of keys now a m])
  case none
  with assms show ?thesis by simp
next
  case (some j ej)
  with assms show ?thesis by (cases "j = k") (auto simp: claim_entry_def)
qed

definition handed_out :: "assignments \<Rightarrow> coord_op list \<Rightarrow> step_request \<Rightarrow> string \<Rightarrow> coord_op list \<Rightarrow> bool" where
  "handed_out m ops r a rest \<longleftrightarrow>
     (\<exists>pre keys now. ops = pre @ OpClaim keys now a # rest \<and> snd (Claim keys now a (fold coord_step pre m)) = Some r)"

lemma handed_out_snoc: "handed_out m ops r a rest \<Longrightarrow> handed_out m (ops @ [op]) r a (rest @ [op])"
  by (auto simp: handed_out_def)

text \<open>
  How an assignment came to be where it is: running since it was handed out to the agent it names,
  succeeded by that agent's completion.
\<close>

definition succeeded_by :: "assignments \<Rightarrow> coord_op list \<Rightarrow> step_request \<Rightarrow> bool" where
  "succeeded_by m ops r \<longleftrightarrow>
     (\<exists>start a mid c post. ops = start @ OpComplete (rq_JobID r) c # post \<and> handed_out m start r a mid \<and>
        cr_AgentID c = a \<and> TrimSpace (cr_Error c) = [] \<and> OpCancel (rq_JobID r) \<notin> set mid \<and>
        \<not> closed (rq_JobID r) (fold coord_step start m))"

definition traced :: "assignments \<Rightarrow> coord_op list \<Rightarrow> step_request \<Rightarrow> assignment_entry \<Rightarrow> bool" where
  "traced m ops r e \<longleftrightarrow> entry_ok (rq_JobID r) e \<and> ae_request e = r \<and>
     (ae_status e = AssignmentRunning \<longrightarrow>
        (\<exists>mid. handed_out m ops r (ae_claimedBy e) mid \<and> (ae_cancelRequested e \<longleftrightarrow> OpCancel (rq_JobID r) \<in> set mid))) \<and>
     (ae_status e = AssignmentSucceeded \<longrightarrow> succeeded_by m ops r)"

lemma traced_keep:
  assumes "traced m ops r e" "ae_status e = AssignmentRunning \<longrightarrow> op \<noteq> OpCancel (rq_JobID r)"
  shows "traced m (ops @ [op]) r e"
proof -
  have "succeeded_by m (ops @ [op]) r" if "succeeded_by m ops r"
    using that unfolding succeeded_by_def by force
  moreover have "\<exists>mid. handed_out m (ops @ [op]) r a mid \<and> (b \<longleftrightarrow> OpCancel (rq_JobID r) \<in> set mid)"
    if "handed_out m ops r a mid" "b \<longleftrightarrow> OpCancel (rq_JobID r) \<in> set mid" "op \<noteq> OpCancel (rq_JobID r)" for a b mid
    using handed_out_snoc [OF that(1), of op] that(2,3) by (intro exI [of _ "mid @ [op]"]) auto
  ultimately show ?thesis using assms unfolding traced_def by blast
qed

lemma traced_step:
  assumes tr: "traced m ops r e" and e: "fold coord_step ops m (rq_JobID r) = Some e"
    and e': "coord_step op (fold coord_step ops m) (rq_JobID r) = Some e'" and move: "job_move op (rq_JobID r) e e'"
    and agent: "\<And>j c. op = OpComplete j c \<Longrightarrow> cr_AgentID c \<noteq> []"
  shows "traced m (ops @ [op]) r e'"
proof -
  let ?k = "rq_JobID r"
  have ok: "entry_ok ?k e'" "ae_request e' = r" and req: "ae_request e = r"
    using tr move_ok [OF move] move_request [OF move] by (simp_all add: traced_def)
  have kept: "traced m (ops @ [op]) r e" if "op \<noteq> OpCancel ?k" using traced_keep [OF tr] that by simp
  from move show ?thesis
  proof cases
    case keep
    then show ?thesis
    proof (cases "op = OpCancel ?k \<and> ae_status e = AssignmentRunning")
      case True
      then have "\<not> ae_completed e" using tr by (simp add: traced_def entry_ok_def)
      then have "e' = e\<lparr>ae_cancelRequested := True\<rparr>" using True e e' by (simp add: Cancel_def)
      with keep have "ae_cancelRequested e" by (cases e) simp
      then obtain mid where "handed_out m (ops @ [op]) r (ae_claimedBy e) (mid @ [op])" using tr True
        unfolding traced_def by (blast intro: handed_out_snoc)
      moreover have "OpCancel ?k \<in> set (mid @ [op])" using True by simp
      ultimately show ?thesis using tr True keep \<open>ae_cancelRequested e\<close> unfolding traced_def by fastforce
    qed (use traced_keep [OF tr] in blast)
  next
    case (claim keys now a)
    then have "snd (Claim keys now a (fold coord_step ops m)) = Some (ae_request e)"
      using Claim_hands_out [of "fold coord_step ops m" "rq_JobID r" e keys now a e'] e e' claim by (simp add: claim_entry_def)
    then have "handed_out m (ops @ [op]) r a []" using claim(2) req by (auto simp: handed_out_def)
    with ok claim tr show ?thesis by (auto simp: traced_def claim_entry_def entry_ok_def)
  next
    case (renew now a)
    then show ?thesis using kept ok by (simp add: traced_def)
  next
    case (complete c)
    have "ae_status e = AssignmentRunning \<and> ae_claimedBy e = cr_AgentID c"
      using complete tr agent by (cases "ae_status e") (auto simp: traced_def entry_ok_def)
    then obtain mid where mid: "handed_out m ops r (cr_AgentID c) mid" "ae_cancelRequested e \<longleftrightarrow> OpCancel ?k \<in> set mid"
      using tr unfolding traced_def by auto
    have "\<not> closed ?k (fold coord_step ops m)" using e complete(3) tr by (simp add: closed_def traced_def entry_ok_def)
    then have "succeeded_by m (ops @ [op]) r" if "ae_status e' = AssignmentSucceeded"
      using that mid complete unfolding succeeded_by_def
      by (intro exI [of _ ops] exI [of _ "cr_AgentID c"] exI [of _ mid] exI [of _ c] exI [of _ "[]"])
        (auto simp: complete_entry_def close_entry_def Let_def split: if_splits)
    moreover have "ae_status e' \<noteq> AssignmentRunning"
      using complete by (simp add: complete_entry_def close_entry_def Let_def)
    ultimately show ?thesis using ok by (simp add: traced_def)
  next
    case cancel
    with ok show ?thesis by (simp add: traced_def close_entry_def)
  next
    case ask
    then have run: "ae_status e = AssignmentRunning" using tr by (cases "ae_status e") (auto simp: traced_def entry_ok_def)
    then obtain mid where "handed_out m ops r (ae_claimedBy e) mid" using tr unfolding traced_def by auto
    then have "handed_out m (ops @ [op]) r (ae_claimedBy e) (mid @ [op])" by (rule handed_out_snoc)
    with ok ask run show ?thesis by (fastforce simp: traced_def)
  next
    case (expire now)
    with ok show ?thesis by (simp add: traced_def close_entry_def)
  qed
qed

lemma traced_run:
  assumes "m (rq_JobID r) = Some (new_assignment r)" "entry_ok (rq_JobID r) (new_assignment r)"
    "OpCleanup (rq_JobID r) \<notin> set ops" "\<And>j c. OpComplete j c \<in> set ops \<Longrightarrow> cr_AgentID c \<noteq> []"
  shows "\<exists>e. fold coord_step ops m (rq_JobID r) = Some e \<and> traced m ops r e"
  using assms(3,4)
proof (induction ops rule: rev_induct)
  case Nil
  then show ?case using assms(1,2) by (simp add: traced_def new_assignment_def)
next
  case (snoc op ops)
  then obtain e where e: "fold coord_step ops m (rq_JobID r) = Some e" "traced m ops r e" by auto
  then obtain e' where e': "coord_step op (fold coord_step ops m) (rq_JobID r) = Some e'" "job_move op (rq_JobID r) e e'"
    using step_moves [of "fold coord_step ops m" "rq_JobID r" e op] e(1) snoc.prems(1) by auto
  have "traced m (ops @ [op]) r e'"
    using snoc.prems(2) by (intro traced_step [OF e(2,1) e']) auto
  with e'(1) show ?case by simp
qed

text \<open>What stays true of an assignment that was handed out and not asked to stop.\<close>

definition held :: "string \<Rightarrow> string \<Rightarrow> assignment_entry \<Rightarrow> bool" where
  "held k a e \<longleftrightarrow> entry_ok k e \<and>
     (ae_completed e \<or> ae_status e = AssignmentRunning \<and> ae_claimedBy e = a \<and> \<not> ae_cancelRequested e)"

lemma held_move: "held k a e \<Longrightarrow> job_move op k e e' \<Longrightarrow> op \<noteq> OpCancel k \<Longrightarrow> held k a e'"
proof -
  assume h: "held k a e" and move: "job_move op k e e'" and op: "op \<noteq> OpCancel k"
  have "entry_ok k e'" using move_ok [OF move] h by (simp add: held_def)
  with move show ?thesis
  proof cases
    case (complete c)
    then have "ae_completed e'" by (simp add: complete_entry_def close_entry_def Let_def)
    with \<open>entry_ok k e'\<close> show ?thesis by (simp add: held_def)
  next
    case (claim keys now b)
    with h show ?thesis by (auto simp: held_def entry_ok_def)
  qed (use h op \<open>entry_ok k e'\<close> in \<open>auto simp: held_def close_entry_def\<close>)
qed

lemma succeeded_by_done:
  assumes inv: "coord_inv m" and cl: "OpCleanup (rq_JobID r) \<notin> set ops" and succ: "succeeded_by m ops r"
  shows "\<exists>e. fold coord_step ops m (rq_JobID r) = Some e \<and> ae_completed e \<and> ae_err e = None"
proof -
  let ?k = "rq_JobID r"
  obtain pre keys now a mid c post where ops: "ops = pre @ OpClaim keys now a # mid @ OpComplete ?k c # post"
    and hand: "snd (Claim keys now a (fold coord_step pre m)) = Some r"
    and c: "cr_AgentID c = a" "TrimSpace (cr_Error c) = []" "OpCancel ?k \<notin> set mid"
    and nc: "\<not> closed ?k (fold coord_step mid (coord_step (OpClaim keys now a) (fold coord_step pre m)))"
    using succ unfolding succeeded_by_def handed_out_def by auto
  let ?s = "fold coord_step pre m"
  have inv': "coord_inv ?s" by (rule coord_inv_run [OF inv])
  obtain j e where e: "?s j = Some e" "ae_status e = AssignmentPending" "ae_request e = r"
    "coord_step (OpClaim keys now a) ?s j = Some (claim_entry a now e)"
    using hand by (cases rule: Claim_cases [of keys now a ?s]) auto
  have ok: "entry_ok j e" using inv' e(1) by (simp add: coord_inv_def)
  then have j: "j = ?k" using e(3) by (simp add: entry_ok_def)
  have "entry_ok j (claim_entry a now e)" using coord_inv_step [OF inv', of "OpClaim keys now a"] e(4) by (auto simp: coord_inv_def)
  then have held: "held ?k a (claim_entry a now e)" using ok e(2) j by (simp add: held_def claim_entry_def entry_ok_def)
  have held_step: "held ?k a y" if "op \<in> set mid" "held ?k a x" "job_move op ?k x y" for op x y
    using held_move [OF that(2,3)] that(1) c(3) by blast
  obtain e2 where e2: "fold coord_step mid (coord_step (OpClaim keys now a) ?s) ?k = Some e2" "held ?k a e2"
    using fold_moves [of "coord_step (OpClaim keys now a) ?s" ?k "claim_entry a now e" "held ?k a", OF e(4) [unfolded j] held, of mid] held_step cl ops by auto
  have run: "\<not> ae_completed e2" "ae_claimedBy e2 = a" "\<not> ae_cancelRequested e2"
    using nc e2 by (auto simp: closed_def held_def entry_ok_def split: if_splits)
  let ?e3 = "complete_entry c e2" and ?m3 = "coord_step (OpComplete ?k c) (fold coord_step mid (coord_step (OpClaim keys now a) ?s))"
  have e3: "?m3 ?k = Some ?e3" using e2(1) run c(1) by (simp add: Complete_def)
  have fin: "entry_ok ?k ?e3 \<and> ae_completed ?e3 \<and> ae_err ?e3 = None"
    using e2(2) run c(2) by (auto simp: held_def entry_ok_def complete_entry_def close_entry_def Let_def)
  have "\<exists>e'. fold coord_step post ?m3 ?k = Some e' \<and> e' = ?e3"
    using fin move_frozen cl ops e3 by (intro fold_moves [of ?m3 ?k ?e3]) auto
  with fin show ?thesis unfolding ops by simp
qed

lemma succeeded_by_iff:
  "succeeded_by m ops r \<longleftrightarrow>
    (\<exists>pre keys now a mid c post. ops = pre @ OpClaim keys now a # mid @ OpComplete (rq_JobID r) c # post \<and>
       snd (Claim keys now a (fold coord_step pre m)) = Some r \<and>
       cr_AgentID c = a \<and> TrimSpace (cr_Error c) = [] \<and> OpCancel (rq_JobID r) \<notin> set mid \<and>
       \<not> closed (rq_JobID r) (fold coord_step (pre @ OpClaim keys now a # mid) m))" (is "?A \<longleftrightarrow> ?B")
proof
  assume ?A
  then obtain start a mid c post pre keys now where
    "ops = start @ OpComplete (rq_JobID r) c # post" "start = pre @ OpClaim keys now a # mid"
    "snd (Claim keys now a (fold coord_step pre m)) = Some r" "cr_AgentID c = a" "TrimSpace (cr_Error c) = []"
    "OpCancel (rq_JobID r) \<notin> set mid" "\<not> closed (rq_JobID r) (fold coord_step start m)"
    unfolding succeeded_by_def handed_out_def by blast
  moreover from this have "ops = pre @ OpClaim keys now a # mid @ OpComplete (rq_JobID r) c # post" by simp
  ultimately show ?B by blast
next
  assume ?B
  then obtain pre keys now a mid c post where
    B: "ops = pre @ OpClaim keys now a # mid @ OpComplete (rq_JobID r) c # post"
    "snd (Claim keys now a (fold coord_step pre m)) = Some r" "cr_AgentID c = a" "TrimSpace (cr_Error c) = []"
    "OpCancel (rq_JobID r) \<notin> set mid" "\<not> closed (rq_JobID r) (fold coord_step (pre @ OpClaim keys now a # mid) m)"
    by blast
  have "handed_out m (pre @ OpClaim keys now a # mid) r a mid" using B(2) unfolding handed_out_def by blast
  moreover have "ops = (pre @ OpClaim keys now a # mid) @ OpComplete (rq_JobID r) c # post" using B(1) by simp
  ultimately show ?A using B(3-6) unfolding succeeded_by_def by blast
qed

lemma Dispatch_submits:
  assumes "Dispatch backendID registrations uuid request m = (m', Inr r)"
  shows "m' = m(rq_JobID r \<mapsto> new_assignment r) \<and> entry_ok (rq_JobID r) (new_assignment r)"
  using assms submitted_ok by (auto simp: Dispatch_def Submit_def Let_def split: if_splits option.splits)

text \<open>The lease of a running assignment that nobody renews.\<close>

definition silent_since :: "string \<Rightarrow> gotime \<Rightarrow> assignment_entry \<Rightarrow> bool" where
  "silent_since k d e \<longleftrightarrow> entry_ok k e \<and>
     (ae_completed e \<or> ae_status e = AssignmentRunning \<and> ae_leaseDeadline e = d)"

lemma silent_move:
  assumes "silent_since k d e" "job_move op k e e'" "\<And>now a. op \<noteq> OpExtend now k a"
  shows "silent_since k d e'"
proof -
  have "entry_ok k e'" using move_ok [OF assms(2)] assms(1) by (simp add: silent_since_def)
  with assms(2) show ?thesis
  proof cases
    case (complete c)
    then have "ae_completed e'" by (simp add: complete_entry_def close_entry_def Let_def)
    with \<open>entry_ok k e'\<close> show ?thesis by (simp add: silent_since_def)
  next
    case (claim keys now b)
    with assms(1) show ?thesis by (auto simp: silent_since_def entry_ok_def)
  qed (use assms \<open>entry_ok k e'\<close> in \<open>auto simp: silent_since_def close_entry_def\<close>)
qed

subsection \<open>Properties\<close>

text \<open>C19. Whatever dispatchers, agents, the expiry loop and restarts do, every assignment the
  coordinator holds is consistent: it is filed under its own job id with a positive lease, it is
  completed exactly when its status is final, its channel has been closed once if it is completed
  and not before (a second close would panic), it carries an error exactly when it failed or was
  canceled, nobody holds it while it is pending, a running one is held by the agent of its backend,
  and a succeeded one was never asked to stop.\<close>

theorem assignments_consistent:
  assumes "coord_reachable m" "m k = Some e"
  shows "rq_JobID (ae_request e) = k \<and> 0 < rq_LeaseTTL (ae_request e) \<and>
    (ae_completed e \<longleftrightarrow> ae_status e \<in> {AssignmentSucceeded, AssignmentFailed, AssignmentCanceled}) \<and>
    ae_done e = (if ae_completed e then 1 else 0) \<and>
    (ae_err e \<noteq> None \<longleftrightarrow> ae_status e \<in> {AssignmentFailed, AssignmentCanceled}) \<and>
    (ae_status e = AssignmentPending \<longrightarrow> ae_claimedBy e = [] \<and> \<not> ae_cancelRequested e) \<and>
    (ae_status e = AssignmentRunning \<longrightarrow> TrimSpace (rq_BackendID (ae_request e)) = TrimSpace (ae_claimedBy e)) \<and>
    (ae_status e = AssignmentSucceeded \<longrightarrow> \<not> ae_cancelRequested e)"
proof -
  have "entry_ok k e" using reachable_inv [OF assms(1)] assms(2) by (simp add: coord_inv_def)
  then show ?thesis by (cases "ae_status e") (auto simp: entry_ok_def)
qed

definition demo_job :: step_request where
  "demo_job = release_request ''east'' ''run-1''"

definition demo_submitted :: assignments where
  "demo_submitted = fst (Dispatch ''east'' None ''u'' demo_job Map.empty)"

definition demo_agent_ops :: "coord_op list" where
  "demo_agent_ops =
     [OpClaim [''run-1:release''] 5 ''east'', OpExtend 9 ''run-1:release'' ''east'',
      OpComplete ''run-1:release'' \<lparr>cr_AgentID = ''east'', cr_Error = []\<rparr>]"

lemma demo_submitted_step: "demo_submitted = coord_step (OpSubmit ''u'' (demo_job\<lparr>rq_BackendID := ''east''\<rparr>)) Map.empty"
proof -
  have "FirstNonEmpty [rq_BackendID demo_job, ''east''] = ''east''" by code_simp
  then show ?thesis by (simp add: demo_submitted_def Dispatch_def)
qed

lemma demo_reached: "coord_reachable (coord_step (OpClaim [''run-1:release''] 5 ''east'') demo_submitted)"
  unfolding demo_submitted_step by (intro coord_reachable.intros)

theorem assignments_consistent_witness:
  "\<exists>e. coord_step (OpClaim [''run-1:release''] 5 ''east'') demo_submitted ''run-1:release'' = Some e \<and>
     ae_status e = AssignmentRunning \<and> ae_done e = 0 \<and> TrimSpace (rq_BackendID (ae_request e)) = TrimSpace (ae_claimedBy e)"
proof -
  let ?m = "coord_step (OpClaim [''run-1:release''] 5 ''east'') demo_submitted"
  have "case ?m ''run-1:release'' of None \<Rightarrow> False | Some e \<Rightarrow> ae_status e = AssignmentRunning" by code_simp
  then obtain e where e: "?m ''run-1:release'' = Some e" "ae_status e = AssignmentRunning" by (auto split: option.splits)
  with assignments_consistent [OF demo_reached e(1)] show ?thesis by auto
qed



text \<open>C20. A dispatcher never waits for an agent that has gone. If a job is running under a lease that
  ends at \<open>d\<close> and is not renewed, then, whatever else happens short of removing the job, the first
  tick of the expiry loop at or after \<open>d\<close> leaves its channel closed, so \<open>Wait\<close> returns; and a
  claim or a renewal at time \<open>t\<close> puts \<open>d\<close> at \<open>t\<close> plus the lease.\<close>

theorem silent_agent_releases_dispatcher:
  assumes "coord_reachable m" "m k = Some e" "ae_status e = AssignmentRunning" "ae_leaseDeadline e \<noteq> 0"
    "OpCleanup k \<notin> set ops" "\<forall>t a. OpExtend t k a \<notin> set ops" "ae_leaseDeadline e \<le> now"
  shows "closed k (coord_step (OpTick now) (fold coord_step ops m)) \<and>
    (\<forall>t a e'. coord_step (OpExtend t k a) m k = Some e' \<longrightarrow> e' = e \<or> ae_leaseDeadline e' = t + rq_LeaseTTL (ae_request e)) \<and>
    ae_leaseDeadline (claim_entry a t e) = t + rq_LeaseTTL (ae_request e)"
proof -
  have ok: "entry_ok k e" using reachable_inv [OF assms(1)] assms(2) by (simp add: coord_inv_def)
  then have "silent_since k (ae_leaseDeadline e) e" using assms(3) by (simp add: silent_since_def)
  then obtain e' where e': "fold coord_step ops m k = Some e'" "silent_since k (ae_leaseDeadline e) e'"
    using fold_moves [of m k e "silent_since k (ae_leaseDeadline e)" ops] silent_move assms(2,5,6) by metis
  have "0 < ae_done (expire_entry now e')"
    using e'(2) assms(4,7) by (auto simp: silent_since_def entry_ok_def expire_entry_def lease_over_def close_entry_def)
  then show ?thesis
    using e'(1) assms(2) by (auto simp: closed_def expire_leases_def Extend_def claim_entry_def split: if_splits)
qed

theorem silent_agent_releases_dispatcher_witness:
  "closed ''run-1:release'' (coord_step (OpTick 40000000005)
     (fold coord_step [OpCancel ''run-1:release''] (coord_step (OpClaim [''run-1:release''] 5 ''east'') demo_submitted)))"
proof -
  let ?m = "coord_step (OpClaim [''run-1:release''] 5 ''east'') demo_submitted"
  have "case ?m ''run-1:release'' of None \<Rightarrow> False | Some e \<Rightarrow> ae_status e = AssignmentRunning \<and> ae_leaseDeadline e = 30000000005"
    by code_simp
  then obtain e where "?m ''run-1:release'' = Some e" "ae_status e = AssignmentRunning" "ae_leaseDeadline e = 30000000005"
    by (auto split: option.splits)
  with silent_agent_releases_dispatcher [OF demo_reached this(1,2), of "[OpCancel ''run-1:release'']" 40000000005] show ?thesis
    by simp
qed

text \<open>A restart of the control plane keeps exactly the unfinished jobs, each with its request, and
  queues them again: what the new coordinator restores is the old one without the completed jobs,
  every other job pending, held by nobody and no longer asked to stop. Another restart changes
  nothing more.\<close>

theorem restart_requeues_unfinished:
  assumes "coord_reachable m" "set keys = dom m"
  defines "m' \<equiv> restoreAssignments (persistAssignments keys m) None Map.empty"
  shows "m' k = (case m k of None \<Rightarrow> None | Some e \<Rightarrow> if ae_completed e then None else Some (new_assignment (ae_request e))) \<and>
    (set keys' = dom m' \<longrightarrow> restoreAssignments (persistAssignments keys' m') None Map.empty = m')"
proof -
  have eq: "m' = (\<lambda>k. case m k of None \<Rightarrow> None | Some e \<Rightarrow> if ae_completed e then None else Some (new_assignment (ae_request e)))"
    unfolding m'_def by (rule restart_eq [OF reachable_inv [OF assms(1)] assms(2)])
  have inv: "coord_inv m'" unfolding m'_def by (rule reachable_inv [OF coord_reachable.restart [OF assms(1,2)]])
  have "restoreAssignments (persistAssignments keys' m') None Map.empty = m'" if "set keys' = dom m'"
    unfolding restart_eq [OF inv that] by (auto simp: eq fun_eq_iff new_assignment_def split: option.split)
  then show ?thesis by (simp add: eq)
qed

theorem restart_requeues_unfinished_witness:
  "restoreAssignments (persistAssignments [''run-1:release'']
     (coord_step (OpClaim [''run-1:release''] 5 ''east'') demo_submitted)) None Map.empty ''run-1:release'' \<noteq> None"
proof -
  let ?m = "coord_step (OpClaim [''run-1:release''] 5 ''east'') demo_submitted"
  have "case ?m ''run-1:release'' of None \<Rightarrow> False | Some e \<Rightarrow> \<not> ae_completed e" by code_simp
  moreover have "set [''run-1:release''] = dom ?m"
  proof -
    have "snd (Submit ''u'' (demo_job\<lparr>rq_BackendID := ''east''\<rparr>) Map.empty) = Inr (submitted ''u'' (demo_job\<lparr>rq_BackendID := ''east''\<rparr>))"
      by (simp add: Submit_def Let_def)
    moreover have "rq_JobID (submitted ''u'' (demo_job\<lparr>rq_BackendID := ''east''\<rparr>)) = ''run-1:release''" by code_simp
    ultimately have dom: "dom demo_submitted = {''run-1:release''}"
      unfolding demo_submitted_step by (simp add: Submit_def Let_def)
    show ?thesis by (cases rule: Claim_cases [of "[''run-1:release'']" 5 "''east''" demo_submitted]) (auto simp: dom)
  qed
  ultimately show ?thesis
    using restart_requeues_unfinished [OF demo_reached, of "[''run-1:release'']" "''run-1:release''"] by (auto split: option.splits)
qed

text \<open>A completion that names no agent passes the ownership check of a job that nobody has claimed.\<close>

lemma unnamed_agent_completes_pending:
  assumes "m k = Some (new_assignment r)" "TrimSpace err = []"
  shows "snd (Complete k \<lparr>cr_AgentID = [], cr_Error = err\<rparr> m) = None \<and>
    Wait_done k (fst (Complete k \<lparr>cr_AgentID = [], cr_Error = err\<rparr> m)) = None \<and>
    closed k (fst (Complete k \<lparr>cr_AgentID = [], cr_Error = err\<rparr> m))"
  using assms by (simp add: Complete_def new_assignment_def complete_entry_def close_entry_def Wait_done_def closed_def)

end
