(* ===== verification/Agent_Registry.thy ===== *)
theory Agent_Registry
  imports Agent_Coordinator
begin

text \<open>
  The registry of remote agents (\<open>internal/agent/registry.go\<close>), the check of the shared agent secret
  (\<open>gateway.go\<close>) and the lease loop of a worker (\<open>worker.go\<close>). The registry works on a runtime store
  when there is one that can be read, and on its own map otherwise. A store is the list of
  registrations it last saved; whether a given load or save succeeds is an argument of the
  operation, since the stores are files and databases.
\<close>

record register_request =
  rr_AgentID :: string
  rr_Name :: string
  rr_HostURL :: string
  rr_Capabilities :: "string list"
  rr_Capacity :: int

record registry =
  rs_store :: "registration list option"
  rs_agents :: "string \<rightharpoonup> registration"

text \<open>What the store answers during one operation: whether its \<open>Load\<close> and its \<open>Save\<close> succeed.\<close>

record store_io =
  io_load :: bool
  io_save :: bool

definition NewRegistry :: "registration list option \<Rightarrow> registry" where
  "NewRegistry store = \<lparr>rs_store = store, rs_agents = Map.empty\<rparr>"

definition loadSettings :: "store_io \<Rightarrow> registry \<Rightarrow> registration list option" where
  "loadSettings io r = (if io_load io then rs_store r else None)"

definition heartbeatExpiry :: duration where
  "heartbeatExpiry = 30 * second"

definition is_up :: "string \<Rightarrow> bool" where
  "is_up status \<longleftrightarrow> status = ''online'' \<or> status = ''ready''"

definition expire_agent :: "gotime \<Rightarrow> registration \<Rightarrow> registration" where
  "expire_agent now a =
     (if \<not> is_up (ToLower (rg_Status a)) then a
      else if rg_LastHeartbeatAt a \<noteq> 0 \<and> now - rg_LastHeartbeatAt a > heartbeatExpiry
      then a\<lparr>rg_Status := ''offline''\<rparr> else a)"

definition expireStaleAgents :: "store_io \<Rightarrow> gotime \<Rightarrow> registry \<Rightarrow> registry" where
  "expireStaleAgents io now r =
     (case loadSettings io r of
        Some agents \<Rightarrow>
          let agents' = map (expire_agent now) agents
          in if agents' \<noteq> agents \<and> io_save io then r\<lparr>rs_store := Some agents'\<rparr> else r
      | None \<Rightarrow> r\<lparr>rs_agents := (\<lambda>k. map_option (expire_agent now) (rs_agents r k))\<rparr>)"

definition same_agent :: "string \<Rightarrow> registration \<Rightarrow> bool" where
  "same_agent agentID a \<longleftrightarrow> TrimSpace (rg_AgentID a) = TrimSpace agentID"

definition renewed_registration :: "register_request \<Rightarrow> gotime \<Rightarrow> registration \<Rightarrow> registration" where
  "renewed_registration request now a =
     a\<lparr>rg_Name := FirstNonEmpty [rr_Name request, rg_Name a],
       rg_HostURL := FirstNonEmpty [rr_HostURL request, rg_HostURL a],
       rg_Status := ''online'', rg_Capabilities := rr_Capabilities request, rg_Capacity := rr_Capacity request,
       rg_RegisteredAt := (if rg_RegisteredAt a = 0 then now else rg_RegisteredAt a),
       rg_LastHeartbeatAt := now\<rparr>"

fun upsertAgentRegistration ::
  "register_request \<Rightarrow> gotime \<Rightarrow> registration list \<Rightarrow> registration list \<times> registration" where
  "upsertAgentRegistration request now [] =
     (let record = \<lparr>rg_AgentID = rr_AgentID request, rg_Name = FirstNonEmpty [rr_Name request, rr_AgentID request],
        rg_HostURL = rr_HostURL request, rg_Status = ''online'', rg_Capabilities = rr_Capabilities request,
        rg_RegisteredAt = now, rg_LastHeartbeatAt = now, rg_Capacity = rr_Capacity request\<rparr>
      in ([record], record))"
| "upsertAgentRegistration request now (a # as) =
     (if same_agent (rr_AgentID request) a
      then (renewed_registration request now a # as, renewed_registration request now a)
      else let (as', record) = upsertAgentRegistration request now as in (a # as', record))"

fun updateAgentHeartbeat :: "string \<Rightarrow> gotime \<Rightarrow> registration list \<Rightarrow> (registration list \<times> registration) option" where
  "updateAgentHeartbeat agentID now [] = None"
| "updateAgentHeartbeat agentID now (a # as) =
     (if same_agent agentID a
      then let a' = a\<lparr>rg_LastHeartbeatAt := now, rg_Status := ''online''\<rparr> in Some (a' # as, a')
      else map_option (\<lambda>(as', record). (a # as', record)) (updateAgentHeartbeat agentID now as))"

fun markAgentOffline :: "string \<Rightarrow> registration list \<Rightarrow> registration list option" where
  "markAgentOffline agentID [] = None"
| "markAgentOffline agentID (a # as) =
     (if same_agent agentID a then Some (a\<lparr>rg_Status := ''offline''\<rparr> # as)
      else map_option ((#) a) (markAgentOffline agentID as))"

text \<open>The registration of the in-memory map: the second half of \<open>Register\<close> and of the others.\<close>

definition Register_local :: "register_request \<Rightarrow> gotime \<Rightarrow> registry \<Rightarrow> registry \<times> registration" where
  "Register_local request now r =
     (let record = \<lparr>rg_AgentID = rr_AgentID request, rg_Name = rr_Name request, rg_HostURL = rr_HostURL request,
        rg_Status = ''online'', rg_Capabilities = rr_Capabilities request,
        rg_RegisteredAt = (case rs_agents r (rr_AgentID request) of None \<Rightarrow> now | Some old \<Rightarrow> rg_RegisteredAt old),
        rg_LastHeartbeatAt = now, rg_Capacity = rr_Capacity request\<rparr>
      in (r\<lparr>rs_agents := (rs_agents r)(rr_AgentID request \<mapsto> record)\<rparr>, record))"

definition Register :: "store_io \<Rightarrow> register_request \<Rightarrow> gotime \<Rightarrow> registry \<Rightarrow> registry \<times> registration" where
  "Register io request now r =
     (case loadSettings io r of
        Some agents \<Rightarrow>
          let (agents', record) = upsertAgentRegistration request now agents
          in if io_save io then (r\<lparr>rs_store := Some agents'\<rparr>, record) else Register_local request now r
      | None \<Rightarrow> Register_local request now r)"

definition Heartbeat_local :: "string \<Rightarrow> gotime \<Rightarrow> registry \<Rightarrow> registry \<times> registration option" where
  "Heartbeat_local agentID now r =
     (case rs_agents r agentID of
        None \<Rightarrow> (r, None)
      | Some a \<Rightarrow>
          let record = a\<lparr>rg_LastHeartbeatAt := now, rg_Status := ''online''\<rparr>
          in (r\<lparr>rs_agents := (rs_agents r)(agentID \<mapsto> record)\<rparr>, Some record))"

definition Heartbeat :: "store_io \<Rightarrow> string \<Rightarrow> gotime \<Rightarrow> registry \<Rightarrow> registry \<times> registration option" where
  "Heartbeat io agentID now r =
     (case loadSettings io r of
        Some agents \<Rightarrow>
          (case updateAgentHeartbeat agentID now agents of
             None \<Rightarrow> (r, None)
           | Some (agents', record) \<Rightarrow>
               if io_save io then (r\<lparr>rs_store := Some agents'\<rparr>, Some record) else Heartbeat_local agentID now r)
      | None \<Rightarrow> Heartbeat_local agentID now r)"

definition Unregister_local :: "string \<Rightarrow> registry \<Rightarrow> registry" where
  "Unregister_local agentID r =
     (case rs_agents r agentID of
        None \<Rightarrow> r
      | Some a \<Rightarrow> r\<lparr>rs_agents := (rs_agents r)(agentID \<mapsto> a\<lparr>rg_Status := ''offline''\<rparr>)\<rparr>)"

definition Unregister :: "store_io \<Rightarrow> string \<Rightarrow> registry \<Rightarrow> registry" where
  "Unregister io agentID r =
     (case loadSettings io r of
        Some agents \<Rightarrow>
          (case markAgentOffline agentID agents of
             Some agents' \<Rightarrow> if io_save io then r\<lparr>rs_store := Some agents'\<rparr> else r
           | None \<Rightarrow> Unregister_local agentID r)
      | None \<Rightarrow> Unregister_local agentID r)"

definition sortRegistrations :: "registration list \<Rightarrow> registration list" where
  "sortRegistrations = sort_slice (\<lambda>a b. rg_Name a < rg_Name b)"

text \<open>\<open>keys\<close> is the order in which the map is met.\<close>

definition List_registrations :: "store_io \<Rightarrow> string list \<Rightarrow> registry \<Rightarrow> registration list" where
  "List_registrations io keys r =
     (case loadSettings io r of
        Some agents \<Rightarrow> sortRegistrations agents
      | None \<Rightarrow> sortRegistrations (List.map_filter (rs_agents r) keys))"

definition Get :: "store_io \<Rightarrow> string \<Rightarrow> registry \<Rightarrow> registration option" where
  "Get io agentID r =
     (case loadSettings io r of
        Some agents \<Rightarrow> find (same_agent agentID) agents
      | None \<Rightarrow> rs_agents r agentID)"

definition registry_IsAvailable :: "store_io \<Rightarrow> string \<Rightarrow> registry \<Rightarrow> bool" where
  "registry_IsAvailable io agentID r =
     (case Get io agentID r of None \<Rightarrow> False | Some a \<Rightarrow> is_up (ToLower (TrimSpace (rg_Status a))))"

subsection \<open>The shared secret\<close>

definition agentSecretValid :: "string \<Rightarrow> string \<Rightarrow> bool" where
  "agentSecretValid secret header = (TrimSpace (TrimPrefix (TrimSpace header) ''Bearer '') = secret)"

text \<open>Whether a request passes the middleware: the work endpoints, and the list of agents.\<close>

definition agentSecretMiddleware :: "string \<Rightarrow> string \<Rightarrow> bool" where
  "agentSecretMiddleware secret header \<longleftrightarrow> secret = [] \<or> agentSecretValid secret header"

definition agentReadMiddleware :: "string \<Rightarrow> string \<Rightarrow> bool \<Rightarrow> bool" where
  "agentReadMiddleware secret header signedIn \<longleftrightarrow> secret = [] \<or> agentSecretValid secret header \<or> signedIn"

definition agentAuthInterceptor :: "string \<Rightarrow> string \<Rightarrow> bool \<Rightarrow> bool \<Rightarrow> goerr option" where
  "agentAuthInterceptor secret header signedIn listProcedure =
     (if secret \<noteq> [] \<and> \<not> agentSecretValid secret header \<and> (\<not> signedIn \<or> \<not> listProcedure)
      then Some (ErrorsNew ''agent secret required'') else None)"

subsection \<open>The worker of an agent\<close>

text \<open>
  One tick of \<open>extendLease\<close>: the answer of the control plane decides whether the loop goes on (with
  the time of the last renewal) or cancels the step.
\<close>

datatype lease_loop = LeaseOn gotime | LeaseCanceled

definition lease_interval :: "duration \<Rightarrow> duration" where
  "lease_interval ttl = (let i = ttl div 2 in if i \<le> 0 then 3 * second else i)"

definition extendLease_tick :: "duration \<Rightarrow> goerr + lease_response \<Rightarrow> gotime \<Rightarrow> gotime \<Rightarrow> lease_loop" where
  "extendLease_tick ttl answer now renewed =
     (case answer of
        Inr response \<Rightarrow> if lr_CancelRequested response then LeaseCanceled else LeaseOn now
      | Inl err \<Rightarrow> if now - renewed \<ge> ttl then LeaseCanceled else LeaseOn renewed)"

text \<open>The error a worker completes its job with; \<open>runErr\<close> is the text of the step's error.\<close>

definition completion_error :: "string \<Rightarrow> goerr option \<Rightarrow> string" where
  "completion_error runErr ctxErr =
     (if runErr \<noteq> [] then runErr else case ctxErr of None \<Rightarrow> [] | Some e \<Rightarrow> Error e)"

subsection \<open>Histories and what the directory of agents promises\<close>

datatype registry_op =
    RegisterOp register_request gotime
  | HeartbeatOp string gotime
  | UnregisterOp string
  | ExpireOp gotime

fun registry_step :: "store_io \<Rightarrow> registry_op \<Rightarrow> registry \<Rightarrow> registry" where
  "registry_step io (RegisterOp request now) r = fst (Register io request now r)"
| "registry_step io (HeartbeatOp agentID now) r = fst (Heartbeat io agentID now r)"
| "registry_step io (UnregisterOp agentID) r = Unregister io agentID r"
| "registry_step io (ExpireOp now) r = expireStaleAgents io now r"

text \<open>
  The specification sees of an agent the time of its last sign of life and whether it is up.
  \<open>norm\<close> says which ids name the same agent.
\<close>

fun agent_spec :: "(string \<Rightarrow> string) \<Rightarrow> string \<Rightarrow> registry_op \<Rightarrow> (gotime \<times> bool) option \<Rightarrow> (gotime \<times> bool) option" where
  "agent_spec norm k (RegisterOp request now) v = (if norm k = norm (rr_AgentID request) then Some (now, True) else v)"
| "agent_spec norm k (HeartbeatOp i now) v = (if norm k = norm i then map_option (\<lambda>_. (now, True)) v else v)"
| "agent_spec norm k (UnregisterOp i) v = (if norm k = norm i then map_option (\<lambda>(t, up). (t, False)) v else v)"
| "agent_spec norm k (ExpireOp now) v = map_option (\<lambda>(t, up). (t, up \<and> (t = 0 \<or> now - t \<le> heartbeatExpiry))) v"

definition seen :: "registration option \<Rightarrow> (gotime \<times> bool) option" where
  "seen a = map_option (\<lambda>a. (rg_LastHeartbeatAt a, is_up (ToLower (TrimSpace (rg_Status a))))) a"

definition known_status :: "registration \<Rightarrow> bool" where
  "known_status a \<longleftrightarrow> rg_Status a = ''online'' \<or> rg_Status a = ''offline''"

lemma status_facts [simp]:
  "is_up (ToLower (TrimSpace ''online''))" "\<not> is_up (ToLower (TrimSpace ''offline''))"
  "is_up (ToLower ''online'')" "\<not> is_up (ToLower ''offline'')"
  by code_simp+

locale agent_directory =
  fixes get :: "string \<Rightarrow> 's \<Rightarrow> registration option"
    and perform :: "registry_op \<Rightarrow> 's \<Rightarrow> 's"
    and norm :: "string \<Rightarrow> string"
    and good :: "'s \<Rightarrow> bool"
  assumes good_step: "good s \<Longrightarrow> good (perform x s)"
    and seen_step: "good s \<Longrightarrow> seen (get k (perform x s)) = agent_spec norm k x (seen (get k s))"
begin

lemma seen_run: "good s \<Longrightarrow> seen (get k (fold perform xs s)) = fold (agent_spec norm k) xs (seen (get k s))"
  by (induction xs arbitrary: s) (simp_all add: good_step seen_step)

end

text \<open>The registry on a store that answers, and the registry without one.\<close>

definition store_good :: "registry \<Rightarrow> bool" where
  "store_good r \<longleftrightarrow> (case rs_store r of None \<Rightarrow> False | Some as \<Rightarrow> list_all known_status as)"

definition local_good :: "registry \<Rightarrow> bool" where
  "local_good r \<longleftrightarrow> rs_store r = None \<and> (\<forall>k a. rs_agents r k = Some a \<longrightarrow> known_status a)"

definition io_ok :: store_io where
  "io_ok = \<lparr>io_load = True, io_save = True\<rparr>"

lemma seen_simps [simp]: "seen None = None"
  "seen (Some a) = Some (rg_LastHeartbeatAt a, is_up (ToLower (TrimSpace (rg_Status a))))"
  by (simp_all add: seen_def)

lemma same_agent_update [simp]:
  "same_agent k (a\<lparr>rg_LastHeartbeatAt := t\<rparr>) = same_agent k a"
  "same_agent k (a\<lparr>rg_LastHeartbeatAt := t, rg_Status := s\<rparr>) = same_agent k a"
  "same_agent k (a\<lparr>rg_Status := s\<rparr>) = same_agent k a"
  "same_agent k (renewed_registration request t a) = same_agent k a"
  "same_agent k (expire_agent t a) = same_agent k a"
  by (simp_all add: same_agent_def renewed_registration_def expire_agent_def)

lemma same_agent_eq: "TrimSpace k = TrimSpace i \<Longrightarrow> same_agent k = same_agent i"
  by (simp add: same_agent_def fun_eq_iff)

lemma same_agent_neq: "TrimSpace k \<noteq> TrimSpace i \<Longrightarrow> same_agent i a \<Longrightarrow> \<not> same_agent k a"
  by (simp add: same_agent_def)

lemma upsert_find:
  "find (same_agent k) (fst (upsertAgentRegistration request now as)) =
     (if TrimSpace k = TrimSpace (rr_AgentID request) then Some (snd (upsertAgentRegistration request now as))
      else find (same_agent k) as)"
proof (induction as)
  case Nil
  show ?case by (simp add: Let_def same_agent_def)
next
  case (Cons a as)
  show ?case
  proof (cases "TrimSpace k = TrimSpace (rr_AgentID request)")
    case True
    show ?thesis using Cons unfolding same_agent_eq [OF True] by (auto simp: True split: prod.split)
  next
    case False
    then show ?thesis using Cons same_agent_neq [OF False, of a] by (auto split: prod.split)
  qed
qed

lemma upsert_record:
  "rg_Status (snd (upsertAgentRegistration request now as)) = ''online'' \<and>
   rg_LastHeartbeatAt (snd (upsertAgentRegistration request now as)) = now"
  by (induction as) (auto simp: Let_def renewed_registration_def split: prod.splits)

lemma upsert_known: "list_all known_status as \<Longrightarrow> list_all known_status (fst (upsertAgentRegistration request now as))"
  by (induction as) (auto simp: Let_def known_status_def renewed_registration_def split: prod.splits)

lemma heartbeat_none:
  "updateAgentHeartbeat i now as = None \<Longrightarrow> TrimSpace k = TrimSpace i \<Longrightarrow> find (same_agent k) as = None"
  by (drule same_agent_eq, simp only:, induction as) (auto simp: Let_def split: if_splits)

lemma heartbeat_find:
  "updateAgentHeartbeat i now as = Some (as', a) \<Longrightarrow> find (same_agent k) as' =
     (if TrimSpace k = TrimSpace i then map_option (\<lambda>a. a\<lparr>rg_LastHeartbeatAt := now, rg_Status := ''online''\<rparr>) (find (same_agent k) as)
      else find (same_agent k) as)"
proof (induction as arbitrary: as')
  case (Cons b as)
  show ?case
  proof (cases "same_agent i b")
    case True
    show ?thesis
    proof (cases "TrimSpace k = TrimSpace i")
      case same: True
      show ?thesis using Cons.prems True unfolding same_agent_eq [OF same] by (auto simp: Let_def same)
    next
      case False
      then show ?thesis using Cons.prems True same_agent_neq [OF False True] by (auto simp: Let_def)
    qed
  next
    case False
    then obtain bs where "updateAgentHeartbeat i now as = Some (bs, a)" "as' = b # bs"
      using Cons.prems by auto
    then show ?thesis using Cons.IH False same_agent_eq [of k i] by auto
  qed
qed simp

lemma heartbeat_known:
  "updateAgentHeartbeat i now as = Some (as', a) \<Longrightarrow> list_all known_status as \<Longrightarrow> list_all known_status as'"
  by (induction as arbitrary: as') (auto simp: Let_def known_status_def split: if_splits)

lemma offline_none:
  "markAgentOffline i as = None \<Longrightarrow> TrimSpace k = TrimSpace i \<Longrightarrow> find (same_agent k) as = None"
  by (drule same_agent_eq, simp only:, induction as) (auto split: if_splits)

lemma offline_find:
  "markAgentOffline i as = Some as' \<Longrightarrow> find (same_agent k) as' =
     (if TrimSpace k = TrimSpace i then map_option (\<lambda>a. a\<lparr>rg_Status := ''offline''\<rparr>) (find (same_agent k) as)
      else find (same_agent k) as)"
proof (induction as arbitrary: as')
  case (Cons b as)
  show ?case
  proof (cases "same_agent i b")
    case True
    then show ?thesis
      using Cons.prems same_agent_eq [of k i] same_agent_neq [of k i b] by (cases "TrimSpace k = TrimSpace i") auto
  next
    case False
    then obtain bs where "markAgentOffline i as = Some bs" "as' = b # bs"
      using Cons.prems by auto
    then show ?thesis using Cons.IH False same_agent_eq [of k i] by auto
  qed
qed simp

lemma offline_known: "markAgentOffline i as = Some as' \<Longrightarrow> list_all known_status as \<Longrightarrow> list_all known_status as'"
  by (induction as arbitrary: as') (auto simp: known_status_def split: if_splits)

lemma find_map_expire: "find (same_agent k) (map (expire_agent now) as) = map_option (expire_agent now) (find (same_agent k) as)"
  by (induction as) auto

lemma expire_known: "known_status a \<Longrightarrow> known_status (expire_agent now a)"
  by (auto simp: expire_agent_def known_status_def)

lemma expire_seen:
  "known_status a \<Longrightarrow> seen (Some (expire_agent now a)) = agent_spec norm k (ExpireOp now) (seen (Some a))"
  by (auto simp: expire_agent_def known_status_def)

lemma find_known: "list_all known_status as \<Longrightarrow> find p as = Some a \<Longrightarrow> known_status a"
  by (induction as) (auto split: if_splits)

interpretation stored: agent_directory "Get io_ok" "registry_step io_ok" TrimSpace store_good
proof unfold_locales
  fix r :: registry and k x
  assume good: "store_good r"
  then obtain as where as: "rs_store r = Some as" "list_all known_status as"
    by (auto simp: store_good_def split: option.splits)
  have get: "Get io_ok k r = find (same_agent k) as" using as by (simp add: Get_def loadSettings_def io_ok_def)
  have "store_good (registry_step io_ok x r) \<and>
      seen (Get io_ok k (registry_step io_ok x r)) = agent_spec TrimSpace k x (seen (Get io_ok k r))"
  proof (cases x)
    case (RegisterOp request now)
    with as upsert_find [of k request now as] upsert_record [of request now as] upsert_known [OF as(2), of request now] show ?thesis
      by (auto simp: get Register_def loadSettings_def io_ok_def store_good_def Get_def split: prod.splits)
  next
    case (HeartbeatOp i now)
    show ?thesis
    proof (cases "updateAgentHeartbeat i now as")
      case None
      with as HeartbeatOp good heartbeat_none [OF None, of k] show ?thesis
        by (auto simp: Heartbeat_def Get_def loadSettings_def io_ok_def)
    next
      case (Some p)
      then obtain as' a where p: "updateAgentHeartbeat i now as = Some (as', a)" by (cases p) auto
      with as HeartbeatOp heartbeat_find [OF p, of k] heartbeat_known [OF p as(2)] show ?thesis
        by (auto simp: get Heartbeat_def loadSettings_def io_ok_def store_good_def Get_def option.map_comp comp_def seen_def)
    qed
  next
    case (UnregisterOp i)
    show ?thesis
    proof (cases "markAgentOffline i as")
      case None
      have "rs_store (Unregister_local i r) = Some as" using as(1) by (simp add: Unregister_local_def split: option.split)
      with None as UnregisterOp offline_none [OF None, of k] show ?thesis
        by (auto simp: get Unregister_def loadSettings_def io_ok_def store_good_def Get_def)
    next
      case (Some as')
      with as UnregisterOp offline_find [OF Some, of k] offline_known [OF Some as(2)] show ?thesis
        by (auto simp: get Unregister_def loadSettings_def io_ok_def store_good_def Get_def option.map_comp comp_def seen_def)
    qed
  next
    case (ExpireOp now)
    have store: "rs_store (registry_step io_ok x r) = Some (map (expire_agent now) as)"
      using as(1) ExpireOp by (simp add: expireStaleAgents_def loadSettings_def io_ok_def Let_def)
    then have "Get io_ok k (registry_step io_ok x r) = map_option (expire_agent now) (find (same_agent k) as)"
      by (simp add: Get_def loadSettings_def io_ok_def find_map_expire)
    then have "seen (Get io_ok k (registry_step io_ok x r)) = agent_spec TrimSpace k x (seen (Get io_ok k r))"
      using find_known [OF as(2)] expire_seen ExpireOp by (cases "find (same_agent k) as") (simp_all add: get)
    with store as(2) show ?thesis by (auto simp: store_good_def list_all_iff expire_known)
  qed
  then show "store_good (registry_step io_ok x r)"
    "seen (Get io_ok k (registry_step io_ok x r)) = agent_spec TrimSpace k x (seen (Get io_ok k r))" by auto
qed

lemma local_step:
  assumes "local_good r"
  shows "local_good (registry_step io x r) \<and>
    seen (rs_agents (registry_step io x r) k) = agent_spec (\<lambda>i. i) k x (seen (rs_agents r k))"
proof (cases x)
  case (ExpireOp now)
  have "seen (map_option (expire_agent now) (rs_agents r k)) = agent_spec (\<lambda>i. i) k x (seen (rs_agents r k))"
    using assms ExpireOp expire_seen by (cases "rs_agents r k") (simp_all add: local_good_def)
  with assms ExpireOp show ?thesis
    by (auto simp: local_good_def expireStaleAgents_def loadSettings_def expire_known)
qed (use assms in \<open>auto simp: local_good_def Register_def Register_local_def Heartbeat_def Heartbeat_local_def
      Unregister_def Unregister_local_def loadSettings_def known_status_def Let_def split: option.split\<close>)

interpretation unstored: agent_directory "Get io" "registry_step io" "\<lambda>i. i" local_good for io
proof unfold_locales
  fix r :: registry and k x
  assume good: "local_good r"
  note step = local_step [OF good, of io x k]
  then show "local_good (registry_step io x r)" by simp
  have "rs_store r = None" "rs_store (registry_step io x r) = None" using good step by (simp_all add: local_good_def)
  with step show "seen (Get io k (registry_step io x r)) = agent_spec (\<lambda>i. i) k x (seen (Get io k r))"
    by (simp add: Get_def loadSettings_def)
qed

subsection \<open>Properties\<close>

text \<open>C21. The registry implements the directory of agents that the dispatchers rely on. After any
  history of registrations, heartbeats, removals and expiry checks, an agent is available exactly
  when the specification says so: it has registered, its last event is not a removal, and no expiry
  check since found its last sign of life more than 30 seconds old. With a store the ids are
  compared without surrounding blanks, without one they are compared as they are.\<close>

theorem registry_implements_directory:
  "(registry_IsAvailable io_ok agentID (fold (registry_step io_ok) ops (NewRegistry (Some []))) \<longleftrightarrow>
     (\<exists>t. fold (agent_spec TrimSpace agentID) ops None = Some (t, True))) \<and>
   (registry_IsAvailable io agentID (fold (registry_step io) ops (NewRegistry None)) \<longleftrightarrow>
     (\<exists>t. fold (agent_spec (\<lambda>i. i) agentID) ops None = Some (t, True)))"
proof -
  have avail: "registry_IsAvailable io agentID r \<longleftrightarrow> (\<exists>t. seen (Get io agentID r) = Some (t, True))" for io r
    by (simp add: registry_IsAvailable_def seen_def split: option.split)
  have "store_good (NewRegistry (Some []))" "local_good (NewRegistry None)"
    by (simp_all add: store_good_def local_good_def NewRegistry_def)
  then show ?thesis
    unfolding avail
    using stored.seen_run [of "NewRegistry (Some [])" agentID ops] unstored.seen_run [of "NewRegistry None" io agentID ops]
    by (simp add: Get_def loadSettings_def NewRegistry_def)
qed

text \<open>
  A worker whose lease has already been taken away is not told to stop: the control plane answers
  the renewal with the final status and no cancellation, and the loop counts that as renewed.
\<close>

lemma expired_worker_goes_on:
  assumes "m k = Some e" "ae_status e = AssignmentFailed" "\<not> ae_cancelRequested e"
  shows "extendLease_tick ttl (snd (Extend now k agentID m)) now renewed = LeaseOn now"
  using assms by (simp add: Extend_def extendLease_tick_def)

end
