(* ===== verification/Profile_Store.thy ===== *)
theory Profile_Store
  imports Suite_Types Go_Strings
begin

text \<open>
  The managed profiles of a suite: \<open>internal/profiles\<close> (\<open>service.go\<close>, \<open>document.go\<close>, \<open>validation.go\<close>,
  \<open>identifiers.go\<close>, \<open>seed_profiles.go\<close>, \<open>yaml_secret_refs.go\<close>). The service works on the document
  that its store last saved; every operation runs under the service's mutex, so the document is
  the state. What \<open>yaml.v3\<close> reads from a text is a parameter (\<open>yaml\<close>), as are the clock and the
  errors of the store.
\<close>

subsection \<open>Data\<close>

record secret_reference =
  sr_Key :: string
  sr_Provider :: string
  sr_Ref :: string

record profile_record =
  pr_ID :: string
  pr_Name :: string
  pr_FileName :: string
  pr_Description :: string
  pr_Scope :: string
  pr_YAML :: string
  pr_SecretRefs :: "secret_reference list"
  pr_Default :: bool
  pr_ExtendsID :: string
  pr_Launchable :: bool
  pr_UpdatedAt :: gotime

record upsert_request =
  ur_Name :: string
  ur_FileName :: string
  ur_Description :: string
  ur_Scope :: string
  ur_YAML :: string
  ur_SecretRefs :: "secret_reference list"
  ur_Default :: bool
  ur_ExtendsID :: string

type_synonym document = "string \<rightharpoonup> profile_record list"

text \<open>What \<open>yaml.Unmarshal\<close> makes of a text: its error when read into \<open>any\<close>, its \<open>secretRefs\<close> and its \<open>extendsId\<close>.\<close>

record yaml_reader =
  y_error :: "string \<Rightarrow> goerr option"
  y_secretRefs :: "string \<Rightarrow> secret_reference list option"
  y_extendsId :: "string \<Rightarrow> string option"

definition ErrSuiteNotFound :: goerr where
  "ErrSuiteNotFound = ErrorsNew ''suite not found''"

definition ErrProfileNotFound :: goerr where
  "ErrProfileNotFound = ErrorsNew ''profile not found''"

subsection \<open>Identifiers\<close>

fun indexOfProfile_from :: "int \<Rightarrow> profile_record list \<Rightarrow> string \<Rightarrow> int" where
  "indexOfProfile_from i [] profileID = -1"
| "indexOfProfile_from i (r # rs) profileID =
     (if pr_ID r = TrimSpace profileID then i else indexOfProfile_from (i + 1) rs profileID)"

definition indexOfProfile :: "profile_record list \<Rightarrow> string \<Rightarrow> int" where
  "indexOfProfile records profileID = indexOfProfile_from 0 records profileID"

definition alnum :: "char \<Rightarrow> bool" where
  "alnum c = (let n = (of_char c :: nat) in (97 \<le> n \<and> n \<le> 122) \<or> (48 \<le> n \<and> n \<le> 57))"

text \<open>\<open>nonAlphaNumeric.ReplaceAllString(s, "-")\<close>: each run of other characters becomes one dash.\<close>

fun dash_runs :: "bool \<Rightarrow> string \<Rightarrow> string" where
  "dash_runs inrun [] = []"
| "dash_runs inrun (c # s) =
     (if alnum c then c # dash_runs False s
      else if inrun then dash_runs True s else CHR ''-'' # dash_runs True s)"

definition profileIDFromFileName :: "string \<Rightarrow> string" where
  "profileIDFromFileName fileName =
     TrimByte (dash_runs False (TrimSuffix (TrimSuffix (TrimSpace (ToLower fileName)) ''.yaml'') ''.yml'')) (CHR ''-'')"

text \<open>
  The loop of \<open>uniqueProfileID\<close>; \<open>fuel\<close> bounds the candidates it tries. There are more candidates
  than records, so one fuel unit per record is enough (lemma \<open>unique_loop_fresh\<close>).
\<close>

fun unique_loop :: "nat \<Rightarrow> profile_record list \<Rightarrow> string \<Rightarrow> string \<Rightarrow> nat \<Rightarrow> string" where
  "unique_loop 0 records baseID candidate index = candidate"
| "unique_loop (Suc fuel) records baseID candidate index =
     (if indexOfProfile records candidate \<noteq> -1
      then unique_loop fuel records baseID (baseID @ ''-'' @ Itoa index) (Suc index)
      else candidate)"

definition uniqueProfileID :: "string \<Rightarrow> profile_record list \<Rightarrow> string \<Rightarrow> string" where
  "uniqueProfileID uuid records fileName =
     (let baseID = profileIDFromFileName fileName;
          candidate = unique_loop (Suc (length records)) records baseID baseID 2
      in if candidate = [] then ''profile-'' @ take 8 uuid else candidate)"

definition labelFromFileName :: "string \<Rightarrow> string" where
  "labelFromFileName fileName =
     (let trimmed = TrimSuffix (TrimSuffix (TrimSpace fileName) ''.yaml'') ''.yml'';
          parts = FieldsFunc (\<lambda>c. c = CHR ''-'' \<or> c = CHR ''_'' \<or> c = CHR ''.'') [] trimmed
      in Join (map (\<lambda>part. ToUpper (take 1 part) @ ToLower (drop 1 part)) parts) '' '')"

definition scopeFromFileName :: "string \<Rightarrow> string" where
  "scopeFromFileName fileName =
     (let normalized = ToLower (TrimSpace fileName)
      in if Contains normalized ''base'' then ''Base''
         else if Contains normalized ''local'' then ''Local''
         else if Contains normalized ''ci'' then ''CI''
         else if Contains normalized ''perf'' then ''Performance''
         else if Contains normalized ''stage'' then ''Staging''
         else if Contains normalized ''canary'' then ''Canary''
         else if Contains normalized ''year'' then ''Year End''
         else labelFromFileName fileName)"

subsection \<open>Secret references\<close>

definition compactSecretRefs :: "secret_reference list \<Rightarrow> secret_reference list" where
  "compactSecretRefs refs =
     filter (\<lambda>r. \<not> (sr_Key r = [] \<and> sr_Provider r = [] \<and> sr_Ref r = []))
       (map (\<lambda>r. \<lparr>sr_Key = TrimSpace (sr_Key r), sr_Provider = TrimSpace (sr_Provider r), sr_Ref = TrimSpace (sr_Ref r)\<rparr>) refs)"

definition ExtractSecretRefsFromYAML :: "yaml_reader \<Rightarrow> string \<Rightarrow> secret_reference list" where
  "ExtractSecretRefsFromYAML yaml source =
     (let source = TrimSpace source
      in if source = [] then []
         else case y_secretRefs yaml source of None \<Rightarrow> [] | Some refs \<Rightarrow> compactSecretRefs refs)"

text \<open>
  \<open>appendRef\<close>: a reference whose key occurred before replaces the earlier one in its place, a new
  one is appended; a reference without a key is dropped. \<open>indexByKey\<close> holds the positions of
  the keys of \<open>ordered\<close>, so looking a key up is searching \<open>ordered\<close>.
\<close>

fun appendRef :: "secret_reference list \<Rightarrow> secret_reference \<Rightarrow> secret_reference list" where
  "appendRef [] ref = (if TrimSpace (sr_Key ref) = [] then [] else [ref])"
| "appendRef (r # rs) ref =
     (if TrimSpace (sr_Key ref) = [] then r # rs
      else if TrimSpace (sr_Key r) = TrimSpace (sr_Key ref) then ref # rs
      else r # appendRef rs ref)"

definition profiles_mergeSecretRefs :: "secret_reference list \<Rightarrow> secret_reference list list \<Rightarrow> secret_reference list" where
  "profiles_mergeSecretRefs base overlays =
     foldl appendRef [] (compactSecretRefs base @ concat (map compactSecretRefs overlays))"

subsection \<open>Normal form of a profile list\<close>

definition nonZeroTime :: "gotime \<Rightarrow> gotime \<Rightarrow> gotime" where
  "nonZeroTime v fallback = (if v = 0 then fallback else v)"

definition normalizeRecord :: "gotime \<Rightarrow> profile_record \<Rightarrow> profile_record" where
  "normalizeRecord now r =
     (let fileName = TrimSpace (pr_FileName r)
      in r\<lparr>pr_ID := TrimSpace (pr_ID r), pr_Name := TrimSpace (pr_Name r), pr_FileName := fileName,
           pr_Description := TrimSpace (pr_Description r),
           pr_Scope := FirstNonEmpty [TrimSpace (pr_Scope r), scopeFromFileName fileName],
           pr_YAML := TrimSpace (pr_YAML r), pr_ExtendsID := TrimSpace (pr_ExtendsID r),
           pr_SecretRefs := compactSecretRefs (pr_SecretRefs r), pr_UpdatedAt := nonZeroTime (pr_UpdatedAt r) now\<rparr>)"

text \<open>The first loop of \<open>normalizeRecords\<close>, with its flag \<open>defaultSeen\<close>.\<close>

definition settle_default :: "bool \<Rightarrow> profile_record \<Rightarrow> profile_record \<times> bool" where
  "settle_default seen r =
     (if \<not> pr_Launchable r then (r\<lparr>pr_Default := False\<rparr>, seen)
      else if pr_Default r \<and> \<not> seen then (r, True)
      else if pr_Default r \<and> seen then (r\<lparr>pr_Default := False\<rparr>, seen)
      else (r, seen))"

fun normalize_defaults :: "gotime \<Rightarrow> bool \<Rightarrow> profile_record list \<Rightarrow> profile_record list \<times> bool" where
  "normalize_defaults now seen [] = ([], seen)"
| "normalize_defaults now seen (r # rs) =
     (let (r, seen) = settle_default seen (normalizeRecord now r);
          (rs, seen) = normalize_defaults now seen rs
      in (r # rs, seen))"

fun first_launchable_default :: "profile_record list \<Rightarrow> profile_record list" where
  "first_launchable_default [] = []"
| "first_launchable_default (r # rs) =
     (if pr_Launchable r then r\<lparr>pr_Default := True\<rparr> # rs else r # first_launchable_default rs)"

definition normalizeRecords :: "gotime \<Rightarrow> profile_record list \<Rightarrow> profile_record list" where
  "normalizeRecords now records =
     (let (rs, seen) = normalize_defaults now False records
      in if seen then rs else first_launchable_default rs)"

definition defaultProfile_of :: "profile_record list \<Rightarrow> string \<times> string" where
  "defaultProfile_of records =
     (case find (\<lambda>r. pr_Launchable r \<and> pr_Default r) records of
        None \<Rightarrow> ([], []) | Some r \<Rightarrow> (pr_ID r, pr_FileName r))"

definition countLaunchable :: "profile_record list \<Rightarrow> nat" where
  "countLaunchable records = length (filter pr_Launchable records)"

definition toLaunchOptions :: "profile_record list \<Rightarrow> profile_option list" where
  "toLaunchOptions records =
     map (\<lambda>r. \<lparr>p_FileName = pr_FileName r, p_Label = pr_Name r, p_Description = pr_Description r,
             p_Default = pr_Default r, p_Content = []\<rparr>) (filter pr_Launchable records)"

subsection \<open>Profiles shipped with the suite and stored profiles\<close>

definition profileYAMLFromSourceFiles :: "source_file list \<Rightarrow> string \<Rightarrow> string" where
  "profileYAMLFromSourceFiles files fileName =
     (case find (\<lambda>f. f_Path f = ''profiles/'' @ TrimSpace fileName) files of None \<Rightarrow> [] | Some f \<Rightarrow> f_Content f)"

definition extendsIDFromYAML :: "yaml_reader \<Rightarrow> string \<Rightarrow> string" where
  "extendsIDFromYAML yaml content = (case y_extendsId yaml content of None \<Rightarrow> [] | Some e \<Rightarrow> TrimSpace e)"

definition seed_record :: "yaml_reader \<Rightarrow> gotime \<Rightarrow> suite_definition \<Rightarrow> profile_option \<Rightarrow> profile_record" where
  "seed_record yaml now d p =
     (let content = profileYAMLFromSourceFiles (g_SourceFiles d) (p_FileName p);
          scope = scopeFromFileName (p_FileName p)
      in \<lparr>pr_ID = profileIDFromFileName (p_FileName p),
          pr_Name = FirstNonEmpty [TrimSpace (p_Label p), labelFromFileName (p_FileName p)],
          pr_FileName = p_FileName p, pr_Description = TrimSpace (p_Description p), pr_Scope = scope,
          pr_YAML = content, pr_SecretRefs = ExtractSecretRefsFromYAML yaml content, pr_Default = p_Default p,
          pr_ExtendsID = extendsIDFromYAML yaml content, pr_Launchable = (scope \<noteq> ''Base''), pr_UpdatedAt = now\<rparr>)"

definition seedSuiteProfiles :: "yaml_reader \<Rightarrow> gotime \<Rightarrow> suite_definition \<Rightarrow> profile_record list" where
  "seedSuiteProfiles yaml now d = normalizeRecords now (map (seed_record yaml now d) (g_Profiles d))"

definition stored_matches :: "profile_record \<Rightarrow> profile_record \<Rightarrow> bool" where
  "stored_matches seed r \<longleftrightarrow>
     pr_ID r = pr_ID seed \<or> (pr_ID r = [] \<and> EqualFold (pr_FileName r) (pr_FileName seed))"

text \<open>
  The inner loop takes the first stored record that is not used yet and matches; \<open>stored\<close> here is
  the list of those not used yet, so the match leaves it.
\<close>

fun take_match :: "profile_record \<Rightarrow> profile_record list \<Rightarrow> (profile_record \<times> profile_record list) option" where
  "take_match seed [] = None"
| "take_match seed (r # rs) =
     (if stored_matches seed r then Some (r, rs)
      else map_option (\<lambda>(m, rest). (m, r # rest)) (take_match seed rs))"

fun merge_seeds :: "gotime \<Rightarrow> profile_record list \<Rightarrow> profile_record list \<Rightarrow> profile_record list" where
  "merge_seeds now [] stored = map (normalizeRecord now) stored"
| "merge_seeds now (seed # seeds) stored =
     (case take_match seed stored of
        None \<Rightarrow> normalizeRecord now seed # merge_seeds now seeds stored
      | Some (r, rest) \<Rightarrow>
          normalizeRecord now
            (r\<lparr>pr_ID := FirstNonEmpty [pr_ID r, pr_ID seed], pr_Launchable := pr_Launchable seed,
               pr_UpdatedAt := nonZeroTime (pr_UpdatedAt r) (pr_UpdatedAt seed)\<rparr>) # merge_seeds now seeds rest)"

definition mergeSuiteProfiles :: "yaml_reader \<Rightarrow> gotime \<Rightarrow> suite_definition \<Rightarrow> document \<Rightarrow> profile_record list" where
  "mergeSuiteProfiles yaml now d doc =
     (let seed = seedSuiteProfiles yaml now d;
          stored = (case doc (g_ID d) of None \<Rightarrow> [] | Some rs \<Rightarrow> rs)
      in if stored = [] then seed else normalizeRecords now (merge_seeds now seed stored))"

subsection \<open>Validation\<close>

definition validateRecord :: "yaml_reader \<Rightarrow> profile_record \<Rightarrow> profile_record list \<Rightarrow> string \<Rightarrow> goerr option" where
  "validateRecord yaml r current currentID =
     (if pr_Name r = [] then Some (ErrorsNew ''Profile name is required.'')
      else if pr_FileName r = [] then Some (ErrorsNew ''Profile file name is required.'')
      else if \<not> HasSuffix (ToLower (pr_FileName r)) ''.yaml'' \<and> \<not> HasSuffix (ToLower (pr_FileName r)) ''.yml''
      then Some (ErrorsNew ''Profile file names must end with .yaml or .yml.'')
      else if pr_YAML r = [] then Some (ErrorsNew ''Profile YAML is required.'')
      else case y_error yaml (pr_YAML r) of
          Some e \<Rightarrow> Some (Errorf ''Invalid YAML: %v'' [Error e])
        | None \<Rightarrow>
            if list_ex (\<lambda>x. pr_ID x \<noteq> currentID \<and> EqualFold (pr_FileName x) (pr_FileName r)) current
            then Some (ErrorsNew ''A profile with that file name already exists for this suite.'')
            else if pr_ExtendsID r \<noteq> [] \<and> pr_ExtendsID r \<noteq> ''base'' \<and>
              indexOfProfile current (pr_ExtendsID r) = -1 \<and> pr_ExtendsID r \<noteq> currentID
            then Some (ErrorsNew ''The selected base profile was not found.'')
            else if list_ex (\<lambda>s. sr_Key s = [] \<or> sr_Provider s = [] \<or> sr_Ref s = []) (pr_SecretRefs r)
            then Some (ErrorsNew ''Secret references need a key, provider, and reference.'')
            else None)"

definition applied_request :: "yaml_reader \<Rightarrow> gotime \<Rightarrow> upsert_request \<Rightarrow> profile_record \<Rightarrow> profile_record" where
  "applied_request yaml now q r =
     (let text = TrimSpace (ur_YAML q);
          extends = TrimSpace (ur_ExtendsID q)
      in r\<lparr>pr_Name := TrimSpace (ur_Name q), pr_FileName := TrimSpace (ur_FileName q),
           pr_Description := TrimSpace (ur_Description q),
           pr_Scope := FirstNonEmpty [TrimSpace (ur_Scope q), scopeFromFileName (ur_FileName q)],
           pr_YAML := text,
           pr_SecretRefs := profiles_mergeSecretRefs (ExtractSecretRefsFromYAML yaml text) [ur_SecretRefs q],
           pr_Default := ur_Default q \<and> pr_Launchable r,
           pr_ExtendsID := (if extends = [] \<and> pr_Launchable r then ''base'' else extends),
           pr_UpdatedAt := now\<rparr>)"

definition applyUpsertRequest ::
  "yaml_reader \<Rightarrow> gotime \<Rightarrow> upsert_request \<Rightarrow> profile_record list \<Rightarrow> string \<Rightarrow> profile_record \<Rightarrow> goerr + profile_record" where
  "applyUpsertRequest yaml now q current currentID r =
     (let r = applied_request yaml now q r
      in case validateRecord yaml r current currentID of Some e \<Rightarrow> Inl e | None \<Rightarrow> Inr r)"

subsection \<open>The service\<close>

text \<open>
  \<open>found\<close> is what \<open>lookupSuite\<close> returns for the suite, \<open>saveErr\<close> what the store's \<open>Save\<close> returns;
  \<open>Load\<close> returns the document. An operation returns the new document and the suite's records.
\<close>

record profile_env =
  pe_yaml :: yaml_reader
  pe_now :: gotime
  pe_uuid :: string
  pe_found :: "goerr + suite_definition"
  pe_saveErr :: "goerr option"

definition save_profiles ::
  "profile_env \<Rightarrow> suite_definition \<Rightarrow> profile_record list \<Rightarrow> document \<Rightarrow> document \<times> (goerr + profile_record list)" where
  "save_profiles env d records doc =
     (let records = normalizeRecords (pe_now env) records
      in case pe_saveErr env of
           Some e \<Rightarrow> (doc, Inl e)
         | None \<Rightarrow> (doc(g_ID d \<mapsto> records), Inr records))"

definition GetSuiteProfiles :: "profile_env \<Rightarrow> document \<Rightarrow> goerr + profile_record list" where
  "GetSuiteProfiles env doc =
     (case pe_found env of Inl e \<Rightarrow> Inl e | Inr d \<Rightarrow> Inr (mergeSuiteProfiles (pe_yaml env) (pe_now env) d doc))"

definition CreateProfile :: "profile_env \<Rightarrow> upsert_request \<Rightarrow> document \<Rightarrow> document \<times> (goerr + profile_record list)" where
  "CreateProfile env q doc =
     (case pe_found env of
        Inl e \<Rightarrow> (doc, Inl e)
      | Inr d \<Rightarrow>
          let records = mergeSuiteProfiles (pe_yaml env) (pe_now env) d doc;
              fresh = \<lparr>pr_ID = uniqueProfileID (pe_uuid env) records (ur_FileName q), pr_Name = [], pr_FileName = [],
                pr_Description = [], pr_Scope = [], pr_YAML = [], pr_SecretRefs = [], pr_Default = False,
                pr_ExtendsID = [], pr_Launchable = True, pr_UpdatedAt = 0\<rparr>
          in case applyUpsertRequest (pe_yaml env) (pe_now env) q records [] fresh of
               Inl e \<Rightarrow> (doc, Inl e)
             | Inr r \<Rightarrow> save_profiles env d (records @ [r]) doc)"

definition UpdateProfile ::
  "profile_env \<Rightarrow> string \<Rightarrow> upsert_request \<Rightarrow> document \<Rightarrow> document \<times> (goerr + profile_record list)" where
  "UpdateProfile env profileID q doc =
     (case pe_found env of
        Inl e \<Rightarrow> (doc, Inl e)
      | Inr d \<Rightarrow>
          let records = mergeSuiteProfiles (pe_yaml env) (pe_now env) d doc;
              index = indexOfProfile records profileID
          in if index = -1 then (doc, Inl ErrProfileNotFound)
             else
               let r = records ! nat index
               in case applyUpsertRequest (pe_yaml env) (pe_now env) q records (pr_ID r) r of
                    Inl e \<Rightarrow> (doc, Inl e)
                  | Inr r \<Rightarrow>
                      let r = (if pr_Launchable r then r else r\<lparr>pr_Default := False\<rparr>)
                      in save_profiles env d (records[nat index := r]) doc)"

definition DeleteProfile :: "profile_env \<Rightarrow> string \<Rightarrow> document \<Rightarrow> document \<times> (goerr + profile_record list)" where
  "DeleteProfile env profileID doc =
     (case pe_found env of
        Inl e \<Rightarrow> (doc, Inl e)
      | Inr d \<Rightarrow>
          let records = mergeSuiteProfiles (pe_yaml env) (pe_now env) d doc;
              index = indexOfProfile records profileID
          in if index = -1 then (doc, Inl ErrProfileNotFound)
             else if \<not> pr_Launchable (records ! nat index)
             then (doc, Inl (ErrorsNew ''Base profiles cannot be deleted.''))
             else save_profiles env d (take (nat index) records @ drop (Suc (nat index)) records) doc)"

definition SetDefaultProfile :: "profile_env \<Rightarrow> string \<Rightarrow> document \<Rightarrow> document \<times> (goerr + profile_record list)" where
  "SetDefaultProfile env profileID doc =
     (case pe_found env of
        Inl e \<Rightarrow> (doc, Inl e)
      | Inr d \<Rightarrow>
          let records = mergeSuiteProfiles (pe_yaml env) (pe_now env) d doc;
              index = indexOfProfile records profileID
          in if index = -1 then (doc, Inl ErrProfileNotFound)
             else if \<not> pr_Launchable (records ! nat index)
             then (doc, Inl (ErrorsNew ''Base profiles cannot be used as the default launch profile.''))
             else save_profiles env d
               (map (\<lambda>r. r\<lparr>pr_Default := pr_ID r = profileID \<and> pr_Launchable r\<rparr>) records) doc)"

subsection \<open>Lemmas\<close>

lemma normalizeRecord_simps [simp]:
  "pr_ID (normalizeRecord now r) = TrimSpace (pr_ID r)"
  "pr_Default (normalizeRecord now r) = pr_Default r"
  "pr_Launchable (normalizeRecord now r) = pr_Launchable r"
  "pr_ExtendsID (normalizeRecord now r) = TrimSpace (pr_ExtendsID r)"
  by (simp_all add: normalizeRecord_def Let_def)

text \<open>The records that are the default, and what \<open>normalizeRecords\<close> keeps of a list.\<close>

definition defaults :: "profile_record list \<Rightarrow> profile_record list" where
  "defaults rs = filter pr_Default rs"

lemma settle_default_keep:
  "settle_default seen r = (r', seen') \<Longrightarrow> pr_ID r' = pr_ID r \<and> pr_Launchable r' = pr_Launchable r \<and>
     (pr_Default r' \<longrightarrow> pr_Launchable r') \<and> (pr_Default r' \<longleftrightarrow> seen' \<and> \<not> seen) \<and> (seen \<longrightarrow> seen')"
  by (auto simp: settle_default_def split: if_splits)

lemma normalize_defaults_flag:
  "normalize_defaults now seen rs = (rs', seen') \<Longrightarrow>
     list_all pr_Launchable (defaults rs') \<and> length (defaults rs') = (if seen' \<and> \<not> seen then 1 else 0) \<and> (seen \<longrightarrow> seen')"
proof (induction rs arbitrary: seen rs')
  case Nil
  then show ?case by (simp add: defaults_def)
next
  case (Cons r rs)
  obtain r' mid where r: "settle_default seen (normalizeRecord now r) = (r', mid)" by fastforce
  obtain rest fin where rest: "normalize_defaults now mid rs = (rest, fin)" by fastforce
  have rs': "rs' = r' # rest" "seen' = fin" using Cons.prems by (simp_all add: r rest)
  show ?case
    using Cons.IH [of mid rest] rest settle_default_keep [OF r] by (auto simp: rs' defaults_def split: if_splits)
qed

lemma normalize_defaults_keep:
  "map pr_ID (fst (normalize_defaults now seen rs)) = map (\<lambda>r. TrimSpace (pr_ID r)) rs \<and>
   map pr_Launchable (fst (normalize_defaults now seen rs)) = map pr_Launchable rs"
proof (induction rs arbitrary: seen)
  case (Cons r rs)
  obtain r' mid where r: "settle_default seen (normalizeRecord now r) = (r', mid)" by fastforce
  with Cons [of mid] settle_default_keep [OF r] show ?case by (auto split: prod.split)
qed simp

lemma first_launchable_keep:
  "map pr_ID (first_launchable_default rs) = map pr_ID rs \<and>
   map pr_Launchable (first_launchable_default rs) = map pr_Launchable rs"
  by (induction rs) auto

lemma normalizeRecords_keep:
  "map pr_ID (normalizeRecords now rs) = map (\<lambda>r. TrimSpace (pr_ID r)) rs"
  "map pr_Launchable (normalizeRecords now rs) = map pr_Launchable rs"
  using normalize_defaults_keep [of now False rs] first_launchable_keep
  by (simp_all add: normalizeRecords_def split: prod.split) (metis fst_conv)+

lemma first_launchable_defaults:
  "defaults rs = [] \<Longrightarrow>
     list_all pr_Launchable (defaults (first_launchable_default rs)) \<and>
     length (defaults (first_launchable_default rs)) = (if list_ex pr_Launchable rs then 1 else 0)"
  by (induction rs) (auto simp: defaults_def split: if_splits)

lemma normalizeRecords_defaults:
  "list_all pr_Launchable (defaults (normalizeRecords now rs)) \<and>
   length (defaults (normalizeRecords now rs)) = (if list_ex pr_Launchable (normalizeRecords now rs) then 1 else 0)"
proof -
  obtain rs' seen where nd: "normalize_defaults now False rs = (rs', seen)" by fastforce
  note flag = normalize_defaults_flag [OF nd]
  show ?thesis
  proof (cases seen)
    case True
    then have "normalizeRecords now rs = rs'" by (simp add: normalizeRecords_def nd)
    moreover from flag True have "length (defaults rs') = 1" "list_all pr_Launchable (defaults rs')" by auto
    moreover have "set (defaults rs') \<subseteq> set rs'" by (auto simp: defaults_def)
    moreover have "defaults rs' \<noteq> []" using flag True by auto
    moreover from calculation have "list_ex pr_Launchable rs'"
      by (cases "defaults rs'") (auto simp: list_ex_iff)
    ultimately show ?thesis by simp
  next
    case False
    then have eq: "normalizeRecords now rs = first_launchable_default rs'" by (simp add: normalizeRecords_def nd)
    have "list_ex pr_Launchable (first_launchable_default rs') = list_ex pr_Launchable rs'" by (induction rs') auto
    with first_launchable_defaults [of rs'] flag False show ?thesis by (simp add: eq)
  qed
qed

lemma merged_normal: "\<exists>rs. mergeSuiteProfiles yaml now d doc = normalizeRecords now rs"
  by (auto simp: mergeSuiteProfiles_def seedSuiteProfiles_def Let_def)

lemma save_profiles_normal: "save_profiles env d rs doc = (doc', Inr rs') \<Longrightarrow> rs' = normalizeRecords (pe_now env) rs \<and> doc' = doc(g_ID d \<mapsto> rs')"
  by (auto simp: save_profiles_def Let_def split: option.splits)

subsection \<open>Fresh identifiers\<close>

lemma indexOfProfile_from_absent:
  "0 \<le> i \<Longrightarrow> indexOfProfile_from i rs k = -1 \<longleftrightarrow> TrimSpace k \<notin> pr_ID ` set rs"
  by (induction i rs k rule: indexOfProfile_from.induct) auto

lemma indexOfProfile_absent: "indexOfProfile rs k = -1 \<longleftrightarrow> TrimSpace k \<notin> pr_ID ` set rs"
  by (simp add: indexOfProfile_def indexOfProfile_from_absent)

lemma indexOfProfile_present:
  assumes "indexOfProfile rs k \<noteq> -1"
  shows "nat (indexOfProfile rs k) < length rs \<and> pr_ID (rs ! nat (indexOfProfile rs k)) = TrimSpace k"
proof -
  have "indexOfProfile_from i rs k \<noteq> -1 \<Longrightarrow> i \<le> indexOfProfile_from i rs k \<and>
      nat (indexOfProfile_from i rs k - i) < length rs \<and> pr_ID (rs ! nat (indexOfProfile_from i rs k - i)) = TrimSpace k" for i
  proof (induction rs arbitrary: i)
    case (Cons r rs)
    show ?case
    proof (cases "pr_ID r = TrimSpace k")
      case False
      let ?j = "indexOfProfile_from (i + 1) rs k"
      have "i + 1 \<le> ?j \<and> nat (?j - (i + 1)) < length rs \<and> pr_ID (rs ! nat (?j - (i + 1))) = TrimSpace k"
        using Cons False by simp
      moreover from calculation have "nat (?j - i) = Suc (nat (?j - (i + 1)))" by linarith
      ultimately show ?thesis using False by simp
    qed simp
  qed simp
  from this [of 0] assms show ?thesis by (simp add: indexOfProfile_def)
qed

text \<open>The candidates are plain and pairwise different, so one of them is free.\<close>

definition id_candidate :: "string \<Rightarrow> nat \<Rightarrow> string" where
  "id_candidate baseID n = (if n < 2 then baseID else baseID @ ''-'' @ Itoa n)"

lemma id_candidate_inj: "1 \<le> a \<Longrightarrow> 1 \<le> b \<Longrightarrow> id_candidate baseID a = id_candidate baseID b \<Longrightarrow> a = b"
  using Itoa_inj by (auto simp: id_candidate_def split: if_splits)

lemma Itoa_plain: "list_all plain_char (Itoa n)"
proof (induction n rule: less_induct)
  case (less n)
  have digit: "plain_char (hex_digit k)" for k
  proof -
    have "list_all plain_char ''0123456789abcdef''" by (simp add: plain_char_def)
    moreover have "k mod 16 < length ''0123456789abcdef''" by simp
    ultimately show ?thesis unfolding hex_digit_def by (metis list_all_length)
  qed
  show ?case using less digit by (subst Itoa.simps) simp
qed

lemma profileID_plain: "list_all plain_char (profileIDFromFileName f)"
proof -
  have run: "c \<in> set (dash_runs b s) \<Longrightarrow> plain_char c" for b s c
    by (induction b s rule: dash_runs.induct) (auto simp: alnum_def plain_char_def Let_def split: if_splits)
  have sub: "set (TrimByte s c) \<subseteq> set s" for s c
  proof -
    let ?t = "dropWhile (\<lambda>x. x = c) s"
    have "set (dropWhile (\<lambda>x. x = c) (rev ?t)) \<subseteq> set ?t" using set_dropWhileD [of _ "\<lambda>x. x = c" "rev ?t"] by auto
    then show ?thesis using set_dropWhileD [of _ "\<lambda>x. x = c" s] by (auto simp: TrimByte_def)
  qed
  show ?thesis
    unfolding profileIDFromFileName_def list_all_iff
    using sub [of "dash_runs False (TrimSuffix (TrimSuffix (TrimSpace (ToLower f)) ''.yaml'') ''.yml'')" "CHR ''-''"] run by blast
qed

lemma unique_loop_at:
  assumes "unique_loop fuel rs baseID (id_candidate baseID n) (Suc n) = c" "1 \<le> n"
  shows "(\<exists>k<fuel. c = id_candidate baseID (n + k) \<and> indexOfProfile rs c = -1) \<or>
    (\<forall>k<fuel. indexOfProfile rs (id_candidate baseID (n + k)) \<noteq> -1)"
  using assms
proof (induction fuel arbitrary: n)
  case (Suc fuel)
  show ?case
  proof (cases "indexOfProfile rs (id_candidate baseID n) = -1")
    case True
    with Suc.prems(1) show ?thesis by (auto intro!: exI [of _ 0])
  next
    case False
    have "baseID @ ''-'' @ Itoa (Suc n) = id_candidate baseID (Suc n)" using Suc.prems(2) by (simp add: id_candidate_def)
    with Suc.prems False have "unique_loop fuel rs baseID (id_candidate baseID (Suc n)) (Suc (Suc n)) = c" by simp
    from Suc.IH [OF this] consider
        (found) k where "k < fuel" "c = id_candidate baseID (Suc n + k)" "indexOfProfile rs c = -1"
      | (full) "\<forall>k<fuel. indexOfProfile rs (id_candidate baseID (Suc n + k)) \<noteq> -1" by auto
    then show ?thesis
    proof cases
      case found
      then show ?thesis by (intro disjI1 exI [of _ "Suc k"]) simp
    next
      case full
      with False show ?thesis by (auto simp: less_Suc_eq_0_disj)
    qed
  qed
qed simp

lemma unique_loop_fresh:
  assumes "list_all plain_char baseID"
  shows "unique_loop (Suc (length rs)) rs baseID baseID 2 \<notin> pr_ID ` set rs"
proof -
  let ?c = "unique_loop (Suc (length rs)) rs baseID baseID 2"
  have plain: "TrimSpace (id_candidate baseID n) = id_candidate baseID n" for n
    using assms Itoa_plain [of n] by (intro TrimSpace_plain) (simp add: id_candidate_def plain_char_def)
  have "unique_loop (Suc (length rs)) rs baseID (id_candidate baseID 1) (Suc 1) = ?c" by (simp add: id_candidate_def numeral_2_eq_2)
  from unique_loop_at [OF this] consider
      (found) k where "?c = id_candidate baseID (1 + k)" "indexOfProfile rs ?c = -1"
    | (full) "\<forall>k<Suc (length rs). indexOfProfile rs (id_candidate baseID (1 + k)) \<noteq> -1" by auto
  then show ?thesis
  proof cases
    case found
    then show ?thesis using plain indexOfProfile_absent [of rs ?c] by metis
  next
    case full
    have "(\<lambda>k. id_candidate baseID (1 + k)) ` {..<Suc (length rs)} \<subseteq> pr_ID ` set rs"
      using full plain by (auto simp: indexOfProfile_absent)
    moreover have "card ((\<lambda>k. id_candidate baseID (1 + k)) ` {..<Suc (length rs)}) = Suc (length rs)"
      using id_candidate_inj [of "1 + _" "1 + _" baseID] by (subst card_image) (auto simp: inj_on_def)
    moreover have "card (pr_ID ` set rs) \<le> length rs" by (meson card_image_le card_length finite_set le_trans)
    ultimately show ?thesis by (metis card_mono finite_imageI finite_set not_less_eq_eq order_trans)
  qed
qed

subsection \<open>Seeds\<close>

lemma take_match_matches: "take_match seed rs = Some (r, rest) \<Longrightarrow> stored_matches seed r"
  by (induction rs arbitrary: rest) (auto split: if_splits)

lemma merge_seeds_ids:
  "seed \<in> set seeds \<Longrightarrow> TrimSpace (pr_ID seed) \<in> pr_ID ` set (merge_seeds now seeds stored)"
proof (induction now seeds stored rule: merge_seeds.induct)
  case (2 now s seeds stored)
  show ?case
  proof (cases "take_match s stored")
    case None
    with 2 show ?thesis by auto
  next
    case (Some p)
    then obtain r rest where p: "take_match s stored = Some (r, rest)" by (cases p) auto
    have "TrimSpace (FirstNonEmpty [pr_ID r, pr_ID s]) = TrimSpace (pr_ID s)"
      using take_match_matches [OF p] by (auto simp: stored_matches_def)
    with 2 p show ?thesis by auto
  qed
qed simp

lemma seeds_listed:
  assumes "p \<in> set (g_Profiles d)"
  shows "TrimSpace (profileIDFromFileName (p_FileName p)) \<in> pr_ID ` set (mergeSuiteProfiles yaml now d doc)"
proof -
  let ?i = "TrimSpace (profileIDFromFileName (p_FileName p))" and ?seed = "seedSuiteProfiles yaml now d"
  have "?i \<in> set (map pr_ID ?seed)"
    unfolding seedSuiteProfiles_def normalizeRecords_keep(1) using assms by (auto simp: seed_record_def Let_def)
  then obtain s where s: "s \<in> set ?seed" "pr_ID s = ?i" by auto
  show ?thesis
  proof (cases "doc (g_ID d)")
    case None
    then have "mergeSuiteProfiles yaml now d doc = ?seed" by (simp add: mergeSuiteProfiles_def)
    with s show ?thesis by (simp add: image_iff) metis
  next
    case (Some stored)
    have "TrimSpace (pr_ID s) \<in> pr_ID ` set (merge_seeds now ?seed stored)" by (rule merge_seeds_ids [OF s(1)])
    then obtain r where "r \<in> set (merge_seeds now ?seed stored)" "pr_ID r = TrimSpace (pr_ID s)" by force
    then have "?i \<in> set (map pr_ID (normalizeRecords now (merge_seeds now ?seed stored)))"
      unfolding normalizeRecords_keep(1) using s(2) by force
    then have "?i \<in> pr_ID ` set (normalizeRecords now (merge_seeds now ?seed stored))" by (simp only: set_map)
    moreover have "?i \<in> pr_ID ` set ?seed" using s by force
    ultimately show ?thesis using Some by (simp add: mergeSuiteProfiles_def Let_def)
  qed
qed

subsection \<open>Properties\<close>

text \<open>Whatever is stored, every list of profiles the service returns, and every list it saves, has
  exactly one default if it has a launchable profile and none otherwise, and the default is
  launchable; so a run that names no profile has exactly one to use.\<close>

theorem profiles_one_default:
  assumes "GetSuiteProfiles env doc = Inr rs \<or> CreateProfile env q doc = (doc', Inr rs) \<or>
    UpdateProfile env i q doc = (doc', Inr rs) \<or> DeleteProfile env i doc = (doc', Inr rs) \<or>
    SetDefaultProfile env i doc = (doc', Inr rs)"
  shows "length (filter pr_Default rs) = (if list_ex pr_Launchable rs then 1 else 0) \<and>
    list_all pr_Launchable (filter pr_Default rs)"
proof -
  have "\<exists>now xs. rs = normalizeRecords now xs"
    using assms
  proof (elim disjE)
    assume "GetSuiteProfiles env doc = Inr rs"
    then show ?thesis using merged_normal by (auto simp: GetSuiteProfiles_def split: sum.splits) metis
  next
    assume "CreateProfile env q doc = (doc', Inr rs)"
    then show ?thesis by (auto simp: CreateProfile_def Let_def split: sum.splits dest!: save_profiles_normal)
  next
    assume "UpdateProfile env i q doc = (doc', Inr rs)"
    then show ?thesis by (auto simp: UpdateProfile_def Let_def split: sum.splits if_splits dest!: save_profiles_normal)
  next
    assume "DeleteProfile env i doc = (doc', Inr rs)"
    then show ?thesis by (auto simp: DeleteProfile_def Let_def split: sum.splits if_splits dest!: save_profiles_normal)
  next
    assume "SetDefaultProfile env i doc = (doc', Inr rs)"
    then show ?thesis by (auto simp: SetDefaultProfile_def Let_def split: sum.splits if_splits dest!: save_profiles_normal)
  qed
  then obtain now xs where "rs = normalizeRecords now xs" by blast
  then show ?thesis using normalizeRecords_defaults [of now xs] unfolding defaults_def by blast
qed

definition demo_yaml :: yaml_reader where
  "demo_yaml = \<lparr>y_error = (\<lambda>_. None), y_secretRefs = (\<lambda>_. None), y_extendsId = (\<lambda>_. None)\<rparr>"

definition demo_option :: profile_option where
  "demo_option = \<lparr>p_FileName = ''dev.yaml'', p_Label = ''Dev'', p_Description = [], p_Default = False, p_Content = []\<rparr>"

definition demo_profiled :: suite_definition where
  "demo_profiled =
     \<lparr>g_ID = ''s'', g_Title = [], g_Repository = [], g_Version = [], g_SuiteStar = [], g_Profiles = [demo_option],
      g_Folders = [], g_SeedSources = [], g_SourceFiles = [], g_Topology = [], g_TopologyError = [],
      g_ResolvedDependencies = []\<rparr>"

definition demo_env :: profile_env where
  "demo_env = \<lparr>pe_yaml = demo_yaml, pe_now = 1, pe_uuid = ''u'', pe_found = Inr demo_profiled, pe_saveErr = None\<rparr>"

definition demo_request :: upsert_request where
  "demo_request = \<lparr>ur_Name = ''CI'', ur_FileName = ''dev.yml'', ur_Description = [], ur_Scope = [], ur_YAML = ''a: 1'',
     ur_SecretRefs = [], ur_Default = True, ur_ExtendsID = []\<rparr>"

theorem profiles_one_default_witness:
  "\<exists>rs. GetSuiteProfiles demo_env Map.empty = Inr rs \<and> length rs = 1 \<and>
     length (filter pr_Default rs) = (if list_ex pr_Launchable rs then 1 else 0)"
proof -
  have "case GetSuiteProfiles demo_env Map.empty of Inl _ \<Rightarrow> False | Inr rs \<Rightarrow> length rs = 1" by code_simp
  then obtain rs where rs: "GetSuiteProfiles demo_env Map.empty = Inr rs" "length rs = 1" by (auto split: sum.splits)
  then show ?thesis
    using profiles_one_default [of demo_env Map.empty rs undefined undefined undefined] by blast
qed

text \<open>Creating a profile adds exactly one record at the end, under an id that no other profile of the
  suite has, and leaves the ids of the others as they were; the saved document differs from the old
  one only at this suite. The loop that looks for a free id ends, however many of its candidates are
  taken. (If the file name gives no id, the id is made from a fresh UUID, assumed unused.)\<close>

theorem CreateProfile_fresh:
  assumes "CreateProfile env q doc = (doc', Inr rs)" "pe_found env = Inr d"
    "profileIDFromFileName (ur_FileName q) \<noteq> []"
  defines "old \<equiv> mergeSuiteProfiles (pe_yaml env) (pe_now env) d doc"
    and "new \<equiv> uniqueProfileID (pe_uuid env) (mergeSuiteProfiles (pe_yaml env) (pe_now env) d doc) (ur_FileName q)"
  shows "map pr_ID rs = map pr_ID old @ [new] \<and> new \<notin> pr_ID ` set old \<and>
    doc' (g_ID d) = Some rs \<and> (\<forall>k. k \<noteq> g_ID d \<longrightarrow> doc' k = doc k)"
proof -
  let ?base = "profileIDFromFileName (ur_FileName q)"
  have new_eq: "new = unique_loop (Suc (length old)) old ?base ?base 2"
  proof -
    have "unique_loop n old ?base c k \<noteq> []" if "c \<noteq> []" for n c k
      using that by (induction n old ?base c k rule: unique_loop.induct) auto
    then show ?thesis using assms(3) by (simp add: new_def old_def uniqueProfileID_def Let_def)
  qed
  have fresh: "new \<notin> pr_ID ` set old" unfolding new_eq by (rule unique_loop_fresh [OF profileID_plain])
  have plain: "list_all plain_char (unique_loop n old ?base c k)" if "list_all plain_char c" for n c k
    using that profileID_plain [of "ur_FileName q"] Itoa_plain
    by (induction n old ?base c k rule: unique_loop.induct) (auto simp: plain_char_def)
  have trim_new: "TrimSpace new = new" unfolding new_eq by (rule TrimSpace_plain [OF plain [OF profileID_plain]])
  obtain r where r: "applyUpsertRequest (pe_yaml env) (pe_now env) q old []
      \<lparr>pr_ID = new, pr_Name = [], pr_FileName = [], pr_Description = [], pr_Scope = [], pr_YAML = [], pr_SecretRefs = [],
       pr_Default = False, pr_ExtendsID = [], pr_Launchable = True, pr_UpdatedAt = 0\<rparr> = Inr r"
    and saved: "save_profiles env d (old @ [r]) doc = (doc', Inr rs)"
    using assms(1,2) by (auto simp: CreateProfile_def old_def new_def Let_def split: sum.splits)
  have "pr_ID r = new" using r by (auto simp: applyUpsertRequest_def applied_request_def Let_def split: option.splits)
  moreover have "map (\<lambda>r. TrimSpace (pr_ID r)) old = map pr_ID old"
  proof -
    obtain xs where "old = normalizeRecords (pe_now env) xs" using merged_normal unfolding old_def by blast
    then have ids: "map pr_ID old = map (\<lambda>r. TrimSpace (pr_ID r)) xs" by (simp only: normalizeRecords_keep)
    have "map (\<lambda>r. TrimSpace (pr_ID r)) old = map TrimSpace (map pr_ID old)" by simp
    also have "\<dots> = map pr_ID old" unfolding ids by simp
    finally show ?thesis .
  qed
  ultimately have "map pr_ID rs = map pr_ID old @ [new]"
    using save_profiles_normal [OF saved] trim_new by (simp add: normalizeRecords_keep)
  with fresh save_profiles_normal [OF saved] show ?thesis by simp
qed

theorem CreateProfile_fresh_witness:
  "\<exists>doc' rs. CreateProfile demo_env demo_request Map.empty = (doc', Inr rs) \<and> map pr_ID rs = [''dev'', ''dev-2'']"
proof -
  have ok: "case snd (CreateProfile demo_env demo_request Map.empty) of Inl _ \<Rightarrow> False | Inr rs \<Rightarrow> True" by code_simp
  obtain doc' rs where c: "CreateProfile demo_env demo_request Map.empty = (doc', Inr rs)"
    using ok by (cases "CreateProfile demo_env demo_request Map.empty") (auto split: sum.splits)
  have name: "profileIDFromFileName (ur_FileName demo_request) \<noteq> []" by code_simp
  have env: "pe_found demo_env = Inr demo_profiled" by (simp add: demo_env_def)
  have "map pr_ID (mergeSuiteProfiles (pe_yaml demo_env) (pe_now demo_env) demo_profiled Map.empty) = [''dev'']" by code_simp
  moreover have "uniqueProfileID (pe_uuid demo_env)
      (mergeSuiteProfiles (pe_yaml demo_env) (pe_now demo_env) demo_profiled Map.empty) (ur_FileName demo_request) = ''dev-2''"
    by code_simp
  ultimately show ?thesis using CreateProfile_fresh [OF c env name] c by auto
qed

text \<open>A profile that the suite ships cannot be deleted for good: \<open>DeleteProfile\<close> reports success and
  saves a list without it, but the next read of the suite's profiles lists it again, because every
  shipped profile without a stored record is added back.\<close>

theorem deleted_seed_returns:
  assumes "DeleteProfile env i doc = (doc', Inr rs)" "pe_found env = Inr d" "p \<in> set (g_Profiles d)"
    "TrimSpace i = TrimSpace (profileIDFromFileName (p_FileName p))"
  shows "\<exists>rs'. GetSuiteProfiles env doc' = Inr rs' \<and> indexOfProfile rs' i \<noteq> -1"
  using assms(2,4) seeds_listed [OF assms(3)] by (simp add: GetSuiteProfiles_def indexOfProfile_absent)

theorem deleted_seed_returns_witness:
  "\<exists>doc' rs'. snd (DeleteProfile demo_env ''dev'' Map.empty) = Inr [] \<and>
     GetSuiteProfiles demo_env doc' = Inr rs' \<and> indexOfProfile rs' ''dev'' \<noteq> -1"
proof -
  have "case snd (DeleteProfile demo_env ''dev'' Map.empty) of Inl _ \<Rightarrow> False | Inr rs \<Rightarrow> rs = []" by code_simp
  then obtain doc' where c: "DeleteProfile demo_env ''dev'' Map.empty = (doc', Inr [])"
    by (cases "DeleteProfile demo_env ''dev'' Map.empty") (auto split: sum.splits)
  have env: "pe_found demo_env = Inr demo_profiled" "demo_option \<in> set (g_Profiles demo_profiled)"
    by (simp_all add: demo_env_def demo_profiled_def)
  have "TrimSpace ''dev'' = TrimSpace (profileIDFromFileName (p_FileName demo_option))" by code_simp
  from deleted_seed_returns [OF c env this] c show ?thesis by auto
qed

end
