(* ===== verification/Profile_Runtime.thy ===== *)
theory Profile_Runtime
  imports Profile_Store "HOL-Library.AList" "HOL-Library.Word"
begin

text \<open>
  What a profile gives the steps of an execution: \<open>internal/execution/profile_runtime.go\<close>. The
  profiles of the chain from the base to the chosen profile are merged, platform overrides and
  secrets are added, and each step gets its environment, devices and limits from the result. A
  \<open>map[string]string\<close> built here is an association list with \<open>map_of\<close> as its lookup; the order
  of a decoded map is the order in which the loop over it meets its keys. YAML and JSON decoding,
  \<open>fmt.Sprint\<close> of values that are not strings, Kubernetes quantities, URLs, addresses, the process
  environment and the request to Vault are parameters.
\<close>

type_synonym env = "(string \<times> string) list"

record service_spec =
  ss_Env :: env
  ss_Devices :: "string list"
  ss_Memory :: int
  ss_MilliCPU :: int

record managed_runtime =
  pf_Env :: env
  pf_Services :: "string \<rightharpoonup> service_spec"
  pf_NetworkMode :: string
  pf_SecretRefs :: "secret_reference list"
  pf_AgentTags :: "string list"

record runtime_overlay =
  ov_Env :: env
  ov_Services :: "string \<rightharpoonup> service_spec"
  ov_SecretEnv :: env
  ov_NetworkMode :: string

record global_override =
  go_Key :: string
  go_Value :: string

record secrets_config =
  sc_Provider :: string
  sc_VaultAddress :: string
  sc_VaultNamespace :: string
  sc_VaultRole :: string
  sc_SecretPrefix :: string
  sc_GlobalOverrides :: "global_override list"

definition ErrProfileRuntime :: goerr where
  "ErrProfileRuntime = ErrorsNew ''profile runtime error''"

definition errProfileSecretUnavailable :: goerr where
  "errProfileSecretUnavailable = ErrorsNew ''profile secret unavailable''"

definition empty_runtime :: managed_runtime where
  "empty_runtime = \<lparr>pf_Env = [], pf_Services = Map.empty, pf_NetworkMode = [], pf_SecretRefs = [], pf_AgentTags = []\<rparr>"

subsection \<open>Merging\<close>

definition mergeRuntimeMaps :: "env list \<Rightarrow> env" where
  "mergeRuntimeMaps items = foldl AList.merge [] items"

definition zero_spec :: service_spec where
  "zero_spec = \<lparr>ss_Env = [], ss_Devices = [], ss_Memory = 0, ss_MilliCPU = 0\<rparr>"

definition merge_spec :: "service_spec \<Rightarrow> service_spec \<Rightarrow> service_spec" where
  "merge_spec existing v =
     \<lparr>ss_Env = mergeRuntimeMaps [ss_Env existing, ss_Env v],
      ss_Devices = (if ss_Devices v \<noteq> [] then ss_Devices v else ss_Devices existing),
      ss_Memory = (if ss_Memory v > 0 then ss_Memory v else ss_Memory existing),
      ss_MilliCPU = (if ss_MilliCPU v > 0 then ss_MilliCPU v else ss_MilliCPU existing)\<rparr>"

definition mergeServiceSpecs :: "(string \<rightharpoonup> service_spec) \<Rightarrow> (string \<rightharpoonup> service_spec) \<Rightarrow> (string \<rightharpoonup> service_spec)" where
  "mergeServiceSpecs base overlay =
     (\<lambda>k. case overlay k of
            None \<Rightarrow> base k
          | Some v \<Rightarrow> Some (merge_spec (case base k of None \<Rightarrow> zero_spec | Some e \<Rightarrow> e) v))"

definition mergeSecretRefs :: "secret_reference list \<Rightarrow> secret_reference list list \<Rightarrow> secret_reference list" where
  "mergeSecretRefs base overlays = foldl appendRef [] (base @ concat overlays)"

subsection \<open>Reading a profile\<close>

record decoder =
  dc_Unmarshal :: "string \<Rightarrow> goerr + (string \<times> goany) list"
  dc_yaml :: yaml_reader
  dc_Sprint :: "goany \<Rightarrow> string"
  dc_ParseQuantity :: "string \<Rightarrow> (int \<times> int) option"
  dc_FloatInt :: "float64 \<Rightarrow> int"
  dc_FloatMilli :: "float64 \<Rightarrow> int"

definition wrap64 :: "int \<Rightarrow> int" where
  "wrap64 n = (n + 2 ^ 63) mod 2 ^ 64 - 2 ^ 63"

text \<open>One key of \<open>env_scalarStringMap\<close>; \<open>items\<close> is the decoded map.\<close>

definition scalar_entry :: "(goany \<Rightarrow> string) \<Rightarrow> (string \<times> goany) list \<Rightarrow> env \<Rightarrow> string \<Rightarrow> env" where
  "scalar_entry sprint items result key =
     (let trimmedKey = TrimSpace key
      in if trimmedKey = [] then result
         else case map_of items key of
             None \<Rightarrow> result
           | Some AnyNil \<Rightarrow> result
           | Some (AnyString s) \<Rightarrow> AList.update trimmedKey s result
           | Some v \<Rightarrow> AList.update trimmedKey (sprint v) result)"

definition env_scalarStringMap :: "(goany \<Rightarrow> string) \<Rightarrow> goany option \<Rightarrow> env" where
  "env_scalarStringMap sprint v =
     (case v of
        Some (AnyMap items) \<Rightarrow> foldl (scalar_entry sprint items) [] (sort (map fst items))
      | _ \<Rightarrow> [])"

definition at_least_zero :: "int \<Rightarrow> int" where
  "at_least_zero n = (if n \<le> 0 then 0 else n)"

definition parseMemoryQuantity :: "decoder \<Rightarrow> goany option \<Rightarrow> int" where
  "parseMemoryQuantity dc raw =
     (case raw of
        Some (AnyInt n) \<Rightarrow> at_least_zero n
      | Some (AnyFloat f) \<Rightarrow> at_least_zero (dc_FloatInt dc f)
      | Some (AnyString s) \<Rightarrow>
          let text = TrimSpace s
          in if text = [] then 0
             else (case dc_ParseQuantity dc text of None \<Rightarrow> 0 | Some (v, m) \<Rightarrow> at_least_zero v)
      | _ \<Rightarrow> 0)"

definition parseCPUQuantity :: "decoder \<Rightarrow> goany option \<Rightarrow> int" where
  "parseCPUQuantity dc raw =
     (case raw of
        Some (AnyInt n) \<Rightarrow> at_least_zero (wrap64 (n * 1000))
      | Some (AnyFloat f) \<Rightarrow> at_least_zero (dc_FloatMilli dc f)
      | Some (AnyString s) \<Rightarrow>
          let text = TrimSpace s
          in if text = [] then 0
             else (case dc_ParseQuantity dc text of None \<Rightarrow> 0 | Some (v, m) \<Rightarrow> at_least_zero m)
      | _ \<Rightarrow> 0)"

text \<open>The non-blank strings of a decoded list, trimmed: \<open>agent.tags\<close> and \<open>devices\<close>.\<close>

fun trimmed_texts :: "goany option \<Rightarrow> string list" where
  "trimmed_texts (Some (AnyList xs)) =
     List.map_filter (\<lambda>x. case x of AnyString s \<Rightarrow> if TrimSpace s \<noteq> [] then Some (TrimSpace s) else None | _ \<Rightarrow> None) xs"
| "trimmed_texts _ = []"

definition service_entry :: "decoder \<Rightarrow> (string \<times> goany) list \<Rightarrow> service_spec" where
  "service_entry dc svc =
     \<lparr>ss_Env = env_scalarStringMap (dc_Sprint dc) (map_of svc ''env''), ss_Devices = trimmed_texts (map_of svc ''devices''),
      ss_Memory = parseMemoryQuantity dc (map_of svc ''memory''), ss_MilliCPU = parseCPUQuantity dc (map_of svc ''cpu'')\<rparr>"

fun service_entries :: "decoder \<Rightarrow> (string \<times> goany) list \<Rightarrow> (string \<rightharpoonup> service_spec) \<Rightarrow> (string \<rightharpoonup> service_spec)" where
  "service_entries dc [] m = m"
| "service_entries dc ((name, AnyMap svc) # rest) m =
     (let entry = service_entry dc svc
      in service_entries dc rest
           (if ss_Env entry \<noteq> [] \<or> ss_Devices entry \<noteq> [] \<or> ss_Memory entry > 0 \<or> ss_MilliCPU entry > 0
            then m(TrimSpace name \<mapsto> entry) else m))"
| "service_entries dc (_ # rest) m = service_entries dc rest m"

definition parseManagedProfileYAML :: "decoder \<Rightarrow> string \<Rightarrow> goerr + managed_runtime" where
  "parseManagedProfileYAML dc source =
     (let source = TrimSpace source
      in if source = [] then Inr empty_runtime
         else case dc_Unmarshal dc source of
             Inl e \<Rightarrow> Inl e
           | Inr document \<Rightarrow>
               Inr \<lparr>pf_Env = env_scalarStringMap (dc_Sprint dc) (map_of document ''env''),
                    pf_Services = (case map_of document ''services'' of
                       Some (AnyMap services) \<Rightarrow> service_entries dc services Map.empty | _ \<Rightarrow> Map.empty),
                    pf_NetworkMode = (case map_of document ''network'' of
                       Some (AnyMap net) \<Rightarrow>
                         (case map_of net ''mode'' of Some (AnyString m) \<Rightarrow> TrimSpace (ToLower m) | _ \<Rightarrow> [])
                     | _ \<Rightarrow> []),
                    pf_SecretRefs = ExtractSecretRefsFromYAML (dc_yaml dc) source,
                    pf_AgentTags = (case map_of document ''agent'' of
                       Some (AnyMap agent) \<Rightarrow> trimmed_texts (map_of agent ''tags'') | _ \<Rightarrow> [])\<rparr>)"

subsection \<open>The chain of profiles\<close>

definition profile_byID :: "profile_record list \<Rightarrow> string \<Rightarrow> profile_record option" where
  "profile_byID records k = map_of (rev (map (\<lambda>r. (TrimSpace (pr_ID r), r)) records)) k"

lemma profile_byID_mem: "profile_byID records k = Some r \<Longrightarrow> k \<in> set (map (\<lambda>r. TrimSpace (pr_ID r)) records)"
  by (force simp: profile_byID_def dest: map_of_SomeD)

text \<open>
  \<open>visit\<close> with the sets it marks: \<open>visiting\<close> on the way up the chain, \<open>visited\<close> and \<open>ordered\<close> on
  the way back.
\<close>

function visit_profile ::
  "profile_record list \<Rightarrow> string list \<Rightarrow> string list \<times> profile_record list \<Rightarrow> string \<Rightarrow>
     goerr + (string list \<times> profile_record list)" where
  "visit_profile records visiting (visited, ordered) raw =
     (let i = TrimSpace raw
      in if i = [] then Inr (visited, ordered)
         else if i \<in> set visiting then Inl (Errorf ''profile inheritance cycle detected at %q'' [i])
         else if i \<in> set visited then Inr (visited, ordered)
         else case profile_byID records i of
             None \<Rightarrow> if i = ''base'' then Inr (visited, ordered)
                     else Inl (Errorf ''base profile %q was not found'' [i])
           | Some r \<Rightarrow>
               (case visit_profile records (i # visiting) (visited, ordered) (pr_ExtendsID r) of
                  Inl e \<Rightarrow> Inl e
                | Inr (visited, ordered) \<Rightarrow> Inr (i # visited, ordered @ [r])))"
  by pat_completeness auto
termination
proof (relation "measure (\<lambda>(records, visiting, _, _). card (set (map (\<lambda>r. TrimSpace (pr_ID r)) records) - set visiting))", goal_cases)
  case (2 records visiting visited ordered raw i r)
  let ?ids = "set (map (\<lambda>r. TrimSpace (pr_ID r)) records)"
  have "i \<in> ?ids - set visiting" using 2 profile_byID_mem by auto
  then have "?ids - set (i # visiting) \<subset> ?ids - set visiting" by auto
  then show ?case by (auto intro!: psubset_card_mono)
qed simp

declare visit_profile.simps [simp del]

definition resolveProfileChain :: "profile_record list \<Rightarrow> string \<Rightarrow> goerr + profile_record list" where
  "resolveProfileChain records selectedID = map_sum (\<lambda>e. e) snd (visit_profile records [] ([], []) selectedID)"

definition findProfileRecord :: "profile_record list \<Rightarrow> string \<Rightarrow> profile_record option" where
  "findProfileRecord records fileName =
     find (\<lambda>r. EqualFold (TrimSpace (pr_FileName r)) (TrimSpace fileName)) records"

definition merge_profile :: "managed_runtime \<Rightarrow> managed_runtime \<Rightarrow> profile_record \<Rightarrow> managed_runtime" where
  "merge_profile runtime parsed current =
     \<lparr>pf_Env = mergeRuntimeMaps [pf_Env runtime, pf_Env parsed],
      pf_Services = mergeServiceSpecs (pf_Services runtime) (pf_Services parsed),
      pf_NetworkMode = (if pf_NetworkMode parsed \<noteq> [] then pf_NetworkMode parsed else pf_NetworkMode runtime),
      pf_SecretRefs = mergeSecretRefs (pf_SecretRefs runtime) [pf_SecretRefs parsed, pr_SecretRefs current],
      pf_AgentTags = (if pf_AgentTags parsed \<noteq> [] then pf_AgentTags parsed else pf_AgentTags runtime)\<rparr>"

fun merge_chain :: "decoder \<Rightarrow> managed_runtime \<Rightarrow> profile_record list \<Rightarrow> goerr + managed_runtime" where
  "merge_chain dc runtime [] = Inr runtime"
| "merge_chain dc runtime (current # rest) =
     (case parseManagedProfileYAML dc (pr_YAML current) of
        Inl e \<Rightarrow> Inl (ErrorfWrap ''%w: could not parse %s: %v'' [pr_FileName current, Error e] ErrProfileRuntime)
      | Inr parsed \<Rightarrow> merge_chain dc (merge_profile runtime parsed current) rest)"

text \<open>\<open>profiles\<close> is what \<open>GetSuiteProfiles\<close> returned, nothing when the suite source has no profiles.\<close>

definition resolveManagedProfileRuntime ::
  "decoder \<Rightarrow> (goerr + profile_record list) option \<Rightarrow> string \<Rightarrow> string \<Rightarrow> goerr + managed_runtime" where
  "resolveManagedProfileRuntime dc profiles suiteID profile =
     (case profiles of
        None \<Rightarrow> Inr empty_runtime
      | Some (Inl e) \<Rightarrow>
          Inl (ErrorfWrap ''%w: could not load managed profiles for suite %q: %v'' [suiteID, Error e] ErrProfileRuntime)
      | Some (Inr records) \<Rightarrow>
          (case findProfileRecord records profile of
             None \<Rightarrow> Inr empty_runtime
           | Some record \<Rightarrow>
               (case resolveProfileChain records (pr_ID record) of
                  Inl e \<Rightarrow> Inl (ErrorfWrap ''%w: %v'' [Error e] ErrProfileRuntime)
                | Inr chain \<Rightarrow> merge_chain dc empty_runtime chain)))"

definition profileAgentTags ::
  "decoder \<Rightarrow> (goerr + profile_record list) option \<Rightarrow> string \<Rightarrow> string \<Rightarrow> string list" where
  "profileAgentTags dc profiles suiteID profile =
     (case resolveManagedProfileRuntime dc profiles suiteID profile of Inl e \<Rightarrow> [] | Inr runtime \<Rightarrow> pf_AgentTags runtime)"

subsection \<open>Platform overrides\<close>

definition override_entry :: "env \<Rightarrow> global_override \<Rightarrow> env" where
  "override_entry env ov =
     (let key = TrimSpace (go_Key ov) in if key = [] then env else AList.update key (go_Value ov) env)"

definition platformGlobalOverrideEnv :: "secrets_config option \<Rightarrow> env" where
  "platformGlobalOverrideEnv settings =
     (case settings of None \<Rightarrow> [] | Some sc \<Rightarrow> foldl override_entry [] (sc_GlobalOverrides sc))"

subsection \<open>Secrets\<close>

definition vaultUnavailable :: "secrets_config option \<Rightarrow> bool" where
  "vaultUnavailable settings =
     (case settings of
        None \<Rightarrow> True
      | Some sc \<Rightarrow>
          let provider = ToLower (TrimSpace (sc_Provider sc))
          in if provider = ''none'' then True
             else if provider = [] then
               TrimSpace (sc_VaultAddress sc) = [] \<and> TrimSpace (sc_VaultNamespace sc) = [] \<and>
               TrimSpace (sc_VaultRole sc) = [] \<and> TrimSpace (sc_SecretPrefix sc) = []
             else False)"

definition normalizeSecretProvider :: "string \<Rightarrow> string \<Rightarrow> secrets_config option \<Rightarrow> string" where
  "normalizeSecretProvider provider ref settings =
     (let lowerProvider = ToLower (TrimSpace provider); lowerRef = ToLower (TrimSpace ref)
      in if HasPrefix lowerRef ''vault://'' then ''vault''
         else if HasPrefix lowerRef ''secrets://'' then ''local''
         else if Contains lowerProvider ''vault'' then ''vault''
         else if Contains lowerProvider ''local'' then ''local''
         else if lowerProvider = [] \<and>
           (case settings of None \<Rightarrow> False | Some sc \<Rightarrow> EqualFold (TrimSpace (sc_Provider sc)) ''vault'') then ''vault''
         else lowerProvider)"

definition normalizeVaultRef :: "string \<Rightarrow> string \<Rightarrow> goerr + (string \<times> string)" where
  "normalizeVaultRef rawRef rawPrefix =
     (let ref = TrimSpace rawRef
      in if ref = [] then Inl (Errorf ''Vault secret reference is empty'' [])
         else
           let (before, after, hash) = Cut (TrimPrefix ref ''vault://'') (CHR ''#'');
               field = (if hash then TrimSpace after else []);
               pathPart = TrimByte (TrimSpace before) (CHR ''/'')
           in if pathPart = [] then Inl (Errorf ''Vault secret reference %q is missing a path'' [rawRef])
              else
                let pre = TrimByte (TrimSpace rawPrefix) (CHR ''/'');
                    mount = fst (Cut pre (CHR ''/''));
                    pathPart =
                      (if pre \<noteq> [] \<and> \<not> HasPrefix pathPart pre \<and> (mount = [] \<or> \<not> HasPrefix pathPart (mount @ ''/''))
                       then pre @ ''/'' @ pathPart else pathPart)
                in Inr (Clean pathPart, field))"

text \<open>\<open>sprint\<close> renders the scalars that are not strings.\<close>

definition scalarString :: "(goany \<Rightarrow> string) \<Rightarrow> goany \<Rightarrow> string option" where
  "scalarString sprint v =
     (case v of
        AnyString s \<Rightarrow> Some s
      | AnyBool b \<Rightarrow> Some (sprint v)
      | AnyInt n \<Rightarrow> Some (sprint v)
      | AnyFloat f \<Rightarrow> Some (sprint v)
      | _ \<Rightarrow> None)"

definition lookupScalarValue :: "(goany \<Rightarrow> string) \<Rightarrow> (string \<times> goany) list \<Rightarrow> string \<Rightarrow> string option" where
  "lookupScalarValue sprint values candidate =
     (case map_of values candidate of
        Some raw \<Rightarrow> scalarString sprint raw
      | None \<Rightarrow>
          (case find (\<lambda>(key, raw). EqualFold (TrimSpace key) (TrimSpace candidate)) values of
             Some (key, raw) \<Rightarrow> scalarString sprint raw
           | None \<Rightarrow> None))"

definition secret_candidates :: "string \<Rightarrow> string \<Rightarrow> string list" where
  "secret_candidates envKey explicitField =
     foldl (\<lambda>cs c. let c = TrimSpace c in if c = [] \<or> c \<in> set cs then cs else cs @ [c]) []
       [explicitField, envKey, ToLower envKey, ToLower (ReplaceByte envKey (CHR ''_'') (CHR ''-'')),
        ToLower (ReplaceByte envKey (CHR ''-'') (CHR ''_'')), ''value'', ''secret'', ''token'']"

definition selectSecretField :: "(goany \<Rightarrow> string) \<Rightarrow> (string \<times> goany) list \<Rightarrow> string \<Rightarrow> string \<Rightarrow> goerr + string" where
  "selectSecretField sprint values envKey explicitField =
     (if values = [] then Inl (Errorf ''secret payload for %q is empty'' [envKey])
      else case List.map_filter (lookupScalarValue sprint values) (secret_candidates envKey explicitField) of
          v # _ \<Rightarrow> Inr v
        | [] \<Rightarrow>
            (case List.map_filter (\<lambda>(key, raw). scalarString sprint raw) values of
               [v] \<Rightarrow> Inr v
             | _ \<Rightarrow> Inl (Errorf ''could not choose a field for secret %q'' [envKey])))"

definition extractVaultSecretValue :: "(goany \<Rightarrow> string) \<Rightarrow> (string \<times> goany) list \<Rightarrow> string \<Rightarrow> string \<Rightarrow> goerr + string" where
  "extractVaultSecretValue sprint payload envKey explicitField =
     (case map_of payload ''data'' of
        Some (AnyMap data) \<Rightarrow>
          (case map_of data ''data'' of
             Some (AnyMap nested) \<Rightarrow> selectSecretField sprint nested envKey explicitField
           | _ \<Rightarrow> selectSecretField sprint data envKey explicitField)
      | _ \<Rightarrow> Inl (Errorf ''Vault response is missing data for %q'' [envKey]))"

definition sanitizeEnvToken :: "string \<Rightarrow> string" where
  "sanitizeEnvToken v =
     ToUpper (map (\<lambda>c. if c \<in> {CHR ''/'', CHR ''-'', CHR ''.'', CHR '':''} then CHR ''_'' else c) (TrimSpace v))"

definition localSecretEnvCandidates :: "secret_reference \<Rightarrow> string list" where
  "localSecretEnvCandidates ref =
     (let pathRef = TrimSpace (TrimPrefix (TrimSpace (sr_Ref ref)) ''secrets://'');
          slash = LastIndex pathRef (CHR ''/'');
          candidates =
            [TrimSpace (sr_Key ref), sanitizeEnvToken pathRef, ''BABELSUITE_SECRET_'' @ sanitizeEnvToken pathRef] @
            (if slash \<ge> 0 \<and> slash + 1 < int (length pathRef) then [sanitizeEnvToken (drop (nat (slash + 1)) pathRef)] else [])
      in foldl (\<lambda>cs c. let c = TrimByte c (CHR ''_'') in if c = [] \<or> c \<in> set cs then cs else cs @ [c]) [] candidates)"

fun firstEnvValue :: "(string \<Rightarrow> string option) \<Rightarrow> string list \<Rightarrow> string option" where
  "firstEnvValue getenv [] = None"
| "firstEnvValue getenv (k # ks) = (case getenv k of Some v \<Rightarrow> Some v | None \<Rightarrow> firstEnvValue getenv ks)"

subsection \<open>Addresses a Vault may not have\<close>

text \<open>
  An address after \<open>To4\<close>: four bytes or sixteen. \<open>IPNet.Contains\<close> compares the masked bits and
  never matches an address of the other length.
\<close>

datatype ip = IP4 "32 word" | IP6 "128 word"

definition vaultBlockedNets4 :: "(32 word \<times> nat) list" where
  "vaultBlockedNets4 =
     [(0x00000000, 8), (0x7F000000, 8), (0x0A000000, 8), (0xAC100000, 12), (0xC0A80000, 16), (0xA9FE0000, 16),
      (0x64400000, 10), (0xC0000000, 24), (0xC6120000, 15), (0xF0000000, 4), (0xFFFFFFFF, 32)]"

definition vaultBlockedNets6 :: "(128 word \<times> nat) list" where
  "vaultBlockedNets6 = [(1, 128), (push_bit 120 0xFC, 7), (push_bit 112 0xFE80, 10), (0, 128)]"

definition net_contains :: "nat \<Rightarrow> ('a::len) word \<times> nat \<Rightarrow> 'a word \<Rightarrow> bool" where
  "net_contains width net a = (case net of (base, ones) \<Rightarrow> drop_bit (width - ones) a = drop_bit (width - ones) base)"

definition isVaultBlockedIP :: "ip \<Rightarrow> bool" where
  "isVaultBlockedIP a =
     (case a of
        IP4 w \<Rightarrow> list_ex (\<lambda>n. net_contains 32 n w) vaultBlockedNets4
      | IP6 w \<Rightarrow> list_ex (\<lambda>n. net_contains 128 n w) vaultBlockedNets6)"

text \<open>The outside world: \<open>url.Parse\<close> (scheme and host name), \<open>net.ParseIP\<close>, \<open>net.LookupHost\<close>, the environment, Vault.\<close>

record outside =
  ot_ParseURL :: "string \<Rightarrow> goerr + string \<times> string"
  ot_ParseIP :: "string \<Rightarrow> ip option"
  ot_LookupHost :: "string \<Rightarrow> goerr + string list"
  ot_JoinPath :: "string \<Rightarrow> string \<Rightarrow> string option"
  ot_LookupEnv :: "string \<Rightarrow> string option"
  ot_Vault :: "string \<Rightarrow> string \<Rightarrow> string \<Rightarrow> goerr + (bool \<times> string \<times> (string \<times> goany) list option)"

definition validateVaultAddress :: "outside \<Rightarrow> string \<Rightarrow> goerr option" where
  "validateVaultAddress ot raw =
     (case ot_ParseURL ot raw of
        Inl e \<Rightarrow> Some (ErrorfWrap ''invalid Vault address: %w'' [] e)
      | Inr (scheme, host) \<Rightarrow>
          if scheme \<noteq> ''http'' \<and> scheme \<noteq> ''https'' then Some (Errorf ''Vault address scheme must be http or https'' [])
          else case ot_ParseIP ot host of
              Some a \<Rightarrow>
                if isVaultBlockedIP a then Some (Errorf ''Vault address must not target a private or reserved address'' []) else None
            | None \<Rightarrow>
                (case ot_LookupHost ot host of
                   Inl e \<Rightarrow> Some (ErrorfWrap ''Vault address host could not be resolved: %w'' [] e)
                 | Inr addrs \<Rightarrow>
                     if list_ex (\<lambda>addr. case ot_ParseIP ot addr of None \<Rightarrow> False | Some a \<Rightarrow> isVaultBlockedIP a) addrs
                     then Some (Errorf ''Vault address resolves to a private or reserved address'' []) else None))"

definition resolveLocal :: "outside \<Rightarrow> secrets_config option \<Rightarrow> secret_reference \<Rightarrow> goerr + string" where
  "resolveLocal ot settings ref =
     (case find (\<lambda>ov. EqualFold (TrimSpace (go_Key ov)) (TrimSpace (sr_Key ref)))
             (case settings of None \<Rightarrow> [] | Some sc \<Rightarrow> sc_GlobalOverrides sc) of
        Some ov \<Rightarrow> Inr (go_Value ov)
      | None \<Rightarrow>
          (case firstEnvValue (ot_LookupEnv ot) (localSecretEnvCandidates ref) of
             Some v \<Rightarrow> Inr v
           | None \<Rightarrow> Inl (ErrorfWrap ''%w: could not resolve local secret %q'' [sr_Ref ref] errProfileSecretUnavailable)))"

text \<open>
  \<open>ot_Vault\<close> answers a request for an address with a token and a namespace: the error of the
  transport, or whether the status is a success, the detail reported for a failure, and the decoded
  body (nothing when it is not JSON).
\<close>

definition resolveVault :: "outside \<Rightarrow> (goany \<Rightarrow> string) \<Rightarrow> secrets_config option \<Rightarrow> secret_reference \<Rightarrow> goerr + string" where
  "resolveVault ot sprint settings ref =
     (if vaultUnavailable settings then Inl (ErrorfWrap ''%w: Vault is not configured'' [] errProfileSecretUnavailable)
      else case settings of
          None \<Rightarrow> Inl (ErrorfWrap ''%w: Vault is not configured'' [] errProfileSecretUnavailable)
        | Some sc \<Rightarrow>
            let provider = ToLower (TrimSpace (sc_Provider sc)); address = TrimSpace (sc_VaultAddress sc)
            in if provider \<noteq> [] \<and> provider \<noteq> ''vault'' \<and> provider \<noteq> ''none''
               then Inl (ErrorfWrap ''%w: platform secrets provider %q cannot resolve Vault references'' [sc_Provider sc] ErrProfileRuntime)
               else if address = [] then Inl (ErrorfWrap ''%w: Vault address is not configured'' [] ErrProfileRuntime)
               else case firstEnvValue (ot_LookupEnv ot) [''BABELSUITE_VAULT_TOKEN'', ''VAULT_TOKEN''] of
                   None \<Rightarrow> Inl (ErrorfWrap ''%w: VAULT_TOKEN or BABELSUITE_VAULT_TOKEN is required to resolve Vault secret %q'' [sr_Key ref] ErrProfileRuntime)
                 | Some token \<Rightarrow>
                     (case normalizeVaultRef (sr_Ref ref) (sc_SecretPrefix sc) of
                        Inl e \<Rightarrow> Inl (ErrorfWrap ''%w: %v'' [Error e] ErrProfileRuntime)
                      | Inr (secretPath, field) \<Rightarrow>
                          (case validateVaultAddress ot address of
                             Some e \<Rightarrow> Inl (ErrorfWrap ''%w: %v'' [Error e] ErrProfileRuntime)
                           | None \<Rightarrow>
                               (case ot_JoinPath ot (rev (dropWhile (\<lambda>c. c = CHR ''/'') (rev address))) secretPath of
                                  None \<Rightarrow> Inl (ErrorfWrap ''%w: invalid Vault address %q'' [address] ErrProfileRuntime)
                                | Some target \<Rightarrow>
                                    (case ot_Vault ot target token (TrimSpace (sc_VaultNamespace sc)) of
                                       Inl e \<Rightarrow> Inl (ErrorfWrap ''%w: Vault lookup failed for %q: %v'' [sr_Key ref, Error e] ErrProfileRuntime)
                                     | Inr (ok, detail, payload) \<Rightarrow>
                                         if \<not> ok then Inl (ErrorfWrap ''%w: Vault lookup failed for %q: %s'' [sr_Key ref, detail] ErrProfileRuntime)
                                         else case payload of
                                             None \<Rightarrow> Inl (ErrorfWrap ''%w: could not decode Vault response for %q'' [sr_Key ref] ErrProfileRuntime)
                                           | Some body \<Rightarrow>
                                               (case extractVaultSecretValue sprint body (sr_Key ref) field of
                                                  Inl e \<Rightarrow> Inl (ErrorfWrap ''%w: %v'' [Error e] ErrProfileRuntime)
                                                | Inr v \<Rightarrow> Inr v))))))"

definition Resolve_secret :: "outside \<Rightarrow> (goany \<Rightarrow> string) \<Rightarrow> secrets_config option \<Rightarrow> secret_reference \<Rightarrow> goerr + string" where
  "Resolve_secret ot sprint settings ref =
     (let provider = normalizeSecretProvider (sr_Provider ref) (sr_Ref ref) settings
      in if provider = ''vault'' then resolveVault ot sprint settings ref
         else if provider = ''local'' then resolveLocal ot settings ref
         else Inl (ErrorfWrap ''%w: unsupported profile secret provider %q for %s'' [sr_Provider ref, sr_Key ref] ErrProfileRuntime))"

text \<open>\<open>errors.Is(err, errProfileSecretUnavailable)\<close>.\<close>

fun is_unavailable :: "goerr \<Rightarrow> bool" where
  "is_unavailable (ErrorfWrap f as e) = is_unavailable e"
| "is_unavailable e = (e = errProfileSecretUnavailable)"

fun resolve_refs :: "(secret_reference \<Rightarrow> goerr + string) \<Rightarrow> secret_reference list \<Rightarrow> env \<Rightarrow> goerr + env" where
  "resolve_refs resolve [] env = Inr env"
| "resolve_refs resolve (ref # refs) env =
     (let key = TrimSpace (sr_Key ref)
      in if key = [] then resolve_refs resolve refs env
         else case resolve ref of
             Inl e \<Rightarrow> if is_unavailable e then resolve_refs resolve refs env else Inl e
           | Inr v \<Rightarrow> resolve_refs resolve refs (AList.update key v env))"

definition resolveProfileSecrets ::
  "outside \<Rightarrow> (goany \<Rightarrow> string) \<Rightarrow> secrets_config option \<Rightarrow> secret_reference list \<Rightarrow> goerr + env" where
  "resolveProfileSecrets ot sprint settings refs = resolve_refs (Resolve_secret ot sprint settings) refs []"

subsection \<open>The overlay of an execution\<close>

text \<open>\<open>loaded\<close> is what the platform source returned; a platform without settings has none.\<close>

definition resolveExecutionRuntimeOverlay ::
  "decoder \<Rightarrow> outside \<Rightarrow> goerr + secrets_config option \<Rightarrow> (goerr + profile_record list) option \<Rightarrow> string \<Rightarrow> string \<Rightarrow>
     goerr + runtime_overlay" where
  "resolveExecutionRuntimeOverlay dc ot loaded profiles suiteID profile =
     (case loaded of
        Inl e \<Rightarrow> Inl (ErrorfWrap ''%w: could not load platform settings: %v'' [Error e] ErrProfileRuntime)
      | Inr settings \<Rightarrow>
          (case resolveManagedProfileRuntime dc profiles suiteID profile of
             Inl e \<Rightarrow> Inl e
           | Inr runtime \<Rightarrow>
               (case resolveProfileSecrets ot (dc_Sprint dc) settings (pf_SecretRefs runtime) of
                  Inl e \<Rightarrow> Inl e
                | Inr secretEnv \<Rightarrow>
                    Inr \<lparr>ov_Env = mergeRuntimeMaps [pf_Env runtime, platformGlobalOverrideEnv settings],
                         ov_Services = pf_Services runtime, ov_SecretEnv = secretEnv,
                         ov_NetworkMode = pf_NetworkMode runtime\<rparr>)))"

text \<open>The service entry of a step: under its id or else under its name, whichever has the field set.\<close>

definition service_field :: "(service_spec \<Rightarrow> bool) \<Rightarrow> (string \<rightharpoonup> service_spec) \<Rightarrow> topology_node \<Rightarrow> service_spec option" where
  "service_field present services node =
     (case services (TrimSpace (n_ID node)) of
        Some spec \<Rightarrow> if present spec then Some spec
          else (case services (TrimSpace (n_Name node)) of
                  Some s \<Rightarrow> if present s then Some s else None | None \<Rightarrow> None)
      | None \<Rightarrow> (case services (TrimSpace (n_Name node)) of
                  Some s \<Rightarrow> if present s then Some s else None | None \<Rightarrow> None))"

definition serviceEnv :: "runtime_overlay \<Rightarrow> topology_node \<Rightarrow> env" where
  "serviceEnv ovl node =
     (case service_field (\<lambda>s. ss_Env s \<noteq> []) (ov_Services ovl) node of None \<Rightarrow> [] | Some s \<Rightarrow> ss_Env s)"

text \<open>The overlay is nothing when the execution is not stored (any more).\<close>

definition resolveNodeRuntimeEnv :: "runtime_overlay option \<Rightarrow> topology_node \<Rightarrow> gomap" where
  "resolveNodeRuntimeEnv ov node =
     (case ov of
        None \<Rightarrow> n_RuntimeEnv node
      | Some ovl \<Rightarrow> map_of (ov_Env ovl) ++ n_RuntimeEnv node ++ map_of (mergeRuntimeMaps [serviceEnv ovl node, ov_SecretEnv ovl]))"

definition resolveExecutionNetworkName :: "(string \<Rightarrow> string) \<Rightarrow> string \<Rightarrow> runtime_overlay option \<Rightarrow> string" where
  "resolveExecutionNetworkName networkName executionID ov =
     (case ov of
        None \<Rightarrow> []
      | Some ovl \<Rightarrow> if ov_NetworkMode ovl \<noteq> ''execution'' then [] else networkName executionID)"

definition resolveNodeDevices :: "runtime_overlay option \<Rightarrow> topology_node \<Rightarrow> string list" where
  "resolveNodeDevices ov node =
     (case ov of
        None \<Rightarrow> []
      | Some ovl \<Rightarrow> (case service_field (\<lambda>s. ss_Devices s \<noteq> []) (ov_Services ovl) node of None \<Rightarrow> [] | Some s \<Rightarrow> ss_Devices s))"

definition resolveNodeCPU :: "runtime_overlay option \<Rightarrow> topology_node \<Rightarrow> int" where
  "resolveNodeCPU ov node =
     (case ov of
        None \<Rightarrow> 0
      | Some ovl \<Rightarrow> (case service_field (\<lambda>s. ss_MilliCPU s > 0) (ov_Services ovl) node of None \<Rightarrow> 0 | Some s \<Rightarrow> ss_MilliCPU s))"

definition resolveNodeMemory :: "runtime_overlay option \<Rightarrow> topology_node \<Rightarrow> int" where
  "resolveNodeMemory ov node =
     (case ov of
        None \<Rightarrow> 0
      | Some ovl \<Rightarrow> (case service_field (\<lambda>s. ss_Memory s > 0) (ov_Services ovl) node of None \<Rightarrow> 0 | Some s \<Rightarrow> ss_Memory s))"

subsection \<open>Lookups in merged maps\<close>

lemma map_of_mergeRuntimeMaps: "map_of (mergeRuntimeMaps items) = foldl (++) Map.empty (map map_of items)"
proof -
  have "map_of (foldl AList.merge m items) = foldl (++) (map_of m) (map map_of items)" for m
    by (induction items arbitrary: m) (simp_all add: merge_conv')
  from this [of "[]"] show ?thesis by (simp add: mergeRuntimeMaps_def)
qed

text \<open>The first value that is there.\<close>

fun first_some :: "'a option list \<Rightarrow> 'a option" where
  "first_some [] = None"
| "first_some (Some v # vs) = Some v"
| "first_some (None # vs) = first_some vs"

lemma first_some_append: "first_some (xs @ ys) = (case first_some xs of None \<Rightarrow> first_some ys | Some v \<Rightarrow> Some v)"
  by (induction xs rule: first_some.induct) auto

lemma first_some_Cons: "first_some (x # xs) = (case x of None \<Rightarrow> first_some xs | Some v \<Rightarrow> Some v)"
  by (cases x) auto

text \<open>The environment that a profile's own document sets.\<close>

definition own_env :: "decoder \<Rightarrow> profile_record \<Rightarrow> gomap" where
  "own_env dc p = (case parseManagedProfileYAML dc (pr_YAML p) of Inl e \<Rightarrow> Map.empty | Inr d \<Rightarrow> map_of (pf_Env d))"

lemma merge_chain_env:
  "merge_chain dc runtime chain = Inr r \<Longrightarrow>
     map_of (pf_Env r) k = first_some (map (\<lambda>p. own_env dc p k) (rev chain) @ [map_of (pf_Env runtime) k])"
proof (induction chain arbitrary: runtime)
  case (Cons p chain)
  then obtain d where d: "parseManagedProfileYAML dc (pr_YAML p) = Inr d"
    and rest: "merge_chain dc (merge_profile runtime d p) chain = Inr r"
    by (auto split: sum.splits)
  have "map_of (pf_Env (merge_profile runtime d p)) k =
      (case own_env dc p k of None \<Rightarrow> map_of (pf_Env runtime) k | Some v \<Rightarrow> Some v)"
    by (simp add: merge_profile_def map_of_mergeRuntimeMaps own_env_def d map_add_def)
  with Cons.IH [OF rest] show ?case
    by (simp add: first_some_append first_some_Cons split: option.split)
qed (simp add: first_some_Cons split: option.split)

subsection \<open>The lineage of a profile\<close>

text \<open>
  The profiles from the root of the inheritance down to the one named \<open>raw\<close>. A name that is blank,
  or \<open>base\<close> where the suite has no such profile, is the end.
\<close>

inductive lineage :: "profile_record list \<Rightarrow> string \<Rightarrow> profile_record list \<Rightarrow> bool" for records where
  root: "TrimSpace raw = [] \<or> TrimSpace raw = ''base'' \<and> profile_byID records ''base'' = None \<Longrightarrow> lineage records raw []"
| child: "TrimSpace raw \<noteq> [] \<Longrightarrow> profile_byID records (TrimSpace raw) = Some r \<Longrightarrow>
    lineage records (pr_ExtendsID r) xs \<Longrightarrow> lineage records raw (xs @ [r])"

lemma lineage_unique: "lineage records raw xs \<Longrightarrow> lineage records raw ys \<Longrightarrow> xs = ys"
proof (induction arbitrary: ys rule: lineage.induct)
  case (root raw)
  from root(2,1) show ?case by (cases rule: lineage.cases) auto
next
  case (child raw r xs)
  from child.prems show ?case
  proof (cases rule: lineage.cases)
    case root
    with child.hyps show ?thesis by auto
  next
    case (child r' ys')
    with \<open>profile_byID records (TrimSpace raw) = Some r\<close> have "r' = r" by simp
    with child \<open>\<And>ys. lineage records (pr_ExtendsID r) ys \<Longrightarrow> xs = ys\<close> show ?thesis by auto
  qed
qed

lemma lineage_same: "TrimSpace a = TrimSpace b \<Longrightarrow> lineage records a xs \<Longrightarrow> lineage records b xs"
proof (erule lineage.cases, goal_cases)
  case (1 raw)
  then show ?case using lineage.root [of b records] by simp
next
  case (2 raw r ys)
  then show ?case using lineage.child [of b records r ys] by simp
qed

lemma lineage_trim: "lineage records (TrimSpace raw) xs \<longleftrightarrow> lineage records raw xs"
  using lineage_same [of raw "TrimSpace raw"] lineage_same [of "TrimSpace raw" raw] by (auto simp only: TrimSpace_idem)

lemma visit_lineage:
  assumes "lineage records raw xs" "\<And>v ys. v \<in> set visiting \<Longrightarrow> lineage records v ys \<Longrightarrow> length xs < length ys"
  shows "\<exists>visited. visit_profile records visiting ([], []) raw = Inr (visited, xs)"
  using assms
proof (induction arbitrary: visiting rule: lineage.induct)
  case (root raw)
  have "lineage records (TrimSpace raw) []" using root(1) lineage.root [of raw] lineage_trim by blast
  with root(2) have "TrimSpace raw \<notin> set visiting" by fastforce
  with root(1) show ?case by (auto simp: visit_profile.simps Let_def)
next
  case (child raw r xs)
  let ?i = "TrimSpace raw"
  have here: "lineage records ?i (xs @ [r])" using lineage.child [OF child.hyps(1,2,3)] lineage_trim by blast
  then have new: "?i \<notin> set visiting" using child.prems by fastforce
  have longer: "length xs < length ys" if "v \<in> set (?i # visiting)" "lineage records v ys" for v ys
    using that child.prems [of v ys] lineage_unique [OF here, of ys] by (cases "v = ?i") auto
  obtain visited where "visit_profile records (?i # visiting) ([], []) (pr_ExtendsID r) = Inr (visited, xs)"
    using child.IH [of "?i # visiting"] longer by blast
  with child.hyps(1,2) new show ?case by (simp add: visit_profile.simps [of _ visiting] Let_def)
qed

lemma visit_sound:
  "visit_profile records visiting ([], []) raw = Inr (visited, xs) \<Longrightarrow> lineage records raw xs"
proof (induction records visiting "([] :: string list, [] :: profile_record list)" raw arbitrary: visited xs rule: visit_profile.induct)
  case (1 records visiting raw)
  let ?i = "TrimSpace raw"
  show ?case
  proof (cases "?i = []")
    case True
    with "1.prems" show ?thesis by (auto simp: visit_profile.simps Let_def intro: lineage.root)
  next
    case ne: False
    have nv: "?i \<notin> set visiting" using "1.prems" ne by (auto simp: visit_profile.simps Let_def split: if_splits)
    show ?thesis
    proof (cases "profile_byID records ?i")
      case None
      with "1.prems" ne nv show ?thesis
        by (auto simp: visit_profile.simps [of _ visiting] Let_def split: if_splits intro: lineage.root)
    next
      case (Some r)
      then obtain v ys where up: "visit_profile records (?i # visiting) ([], []) (pr_ExtendsID r) = Inr (v, ys)" "xs = ys @ [r]"
        using "1.prems" ne nv by (auto simp: visit_profile.simps [of _ visiting] Let_def split: sum.splits)
      have "lineage records (pr_ExtendsID r) ys" using "1.hyps" [OF refl ne nv _ Some up(1)] by simp
      with ne Some up(2) show ?thesis by (auto intro: lineage.child)
    qed
  qed
qed

subsection \<open>Blocked address ranges\<close>

lemma nat_div_eq_iff: "0 < d \<Longrightarrow> (n::nat) div d = c \<longleftrightarrow> c * d \<le> n \<and> n < Suc c * d"
  by (metis div_less_iff_less_mult less_Suc_eq_le less_eq_div_iff_mult_less_eq order_antisym_conv le_refl)

lemma net_contains_range:
  fixes a base :: "32 word"
  assumes "ones \<le> 32"
  shows "net_contains 32 (base, ones) a \<longleftrightarrow>
    unat base div 2 ^ (32 - ones) * 2 ^ (32 - ones) \<le> unat a \<and> unat a < Suc (unat base div 2 ^ (32 - ones)) * 2 ^ (32 - ones)"
proof -
  have drop: "unat (drop_bit k w) = unat w div 2 ^ k" for k and w :: "32 word"
    unfolding unat_drop_bit_eq by (rule drop_bit_eq_div)
  have "net_contains 32 (base, ones) a \<longleftrightarrow> unat (drop_bit (32 - ones) a) = unat (drop_bit (32 - ones) base)"
    unfolding net_contains_def case_prod_conv by (rule word_unat_eq_iff)
  then have "net_contains 32 (base, ones) a \<longleftrightarrow> unat a div 2 ^ (32 - ones) = unat base div 2 ^ (32 - ones)"
    unfolding drop .
  then show ?thesis by (simp only: nat_div_eq_iff [of "2 ^ (32 - ones)"] zero_less_power zero_less_numeral)
qed

subsection \<open>Properties\<close>

text \<open>C23. Resolving the inheritance of a profile returns exactly its lineage, the root first and the
  profile itself last, and it returns an error exactly when there is none: when a parent is missing
  or the inheritance runs in a circle. It always ends.\<close>

theorem resolveProfileChain_lineage:
  "(resolveProfileChain records i = Inr chain \<longleftrightarrow> lineage records i chain) \<and>
   ((\<exists>e. resolveProfileChain records i = Inl e) \<longleftrightarrow> \<not> (\<exists>xs. lineage records i xs))"
proof -
  have "lineage records i xs \<longleftrightarrow> resolveProfileChain records i = Inr xs" for xs
  proof
    assume "lineage records i xs"
    from visit_lineage [OF this, of "[]"] show "resolveProfileChain records i = Inr xs"
      by (auto simp: resolveProfileChain_def)
  next
    assume "resolveProfileChain records i = Inr xs"
    then obtain v where "visit_profile records [] ([], []) i = Inr (v, xs)"
      by (cases "visit_profile records [] ([], []) i") (auto simp: resolveProfileChain_def)
    then show "lineage records i xs" by (rule visit_sound)
  qed
  then show ?thesis by (cases "resolveProfileChain records i") auto
qed

text \<open>C22. The environment of a step. Once the overlay of an execution has been resolved, the value of a
  variable is the first that is set among: the profile's secrets, the step's own service entry, the
  environment the suite gives the step, the platform's global overrides, and then the profiles of the
  chain from the chosen profile up to the root.\<close>

theorem node_env_precedence:
  assumes "resolveExecutionRuntimeOverlay dc ot (Inr settings) (Some (Inr records)) suiteID profile = Inr ov"
    "findProfileRecord records profile = Some r" "resolveProfileChain records (pr_ID r) = Inr chain"
  shows "resolveNodeRuntimeEnv (Some ov) node k =
    first_some ([map_of (ov_SecretEnv ov) k, map_of (serviceEnv ov node) k, n_RuntimeEnv node k,
      map_of (platformGlobalOverrideEnv settings) k] @ map (\<lambda>p. own_env dc p k) (rev chain))"
proof -
  obtain runtime where rt: "merge_chain dc empty_runtime chain = Inr runtime"
    and env: "ov_Env ov = mergeRuntimeMaps [pf_Env runtime, platformGlobalOverrideEnv settings]"
    using assms by (auto simp: resolveExecutionRuntimeOverlay_def resolveManagedProfileRuntime_def split: sum.splits)
  have "map_of (pf_Env runtime) k = first_some (map (\<lambda>p. own_env dc p k) (rev chain))"
    using merge_chain_env [OF rt, of k] by (simp add: first_some_append empty_runtime_def split: option.splits)
  then show ?thesis
    by (auto simp: resolveNodeRuntimeEnv_def env map_of_mergeRuntimeMaps map_add_def first_some_Cons split: option.split)
qed

definition demo_decoder :: decoder where
  "demo_decoder =
     \<lparr>dc_Unmarshal = (\<lambda>s. Inr [(''env'', AnyMap [(''A'', AnyString s), (s, AnyInt 1)])]),
      dc_yaml = \<lparr>y_error = (\<lambda>_. None), y_secretRefs = (\<lambda>_. None), y_extendsId = (\<lambda>_. None)\<rparr>,
      dc_Sprint = (\<lambda>_. ''1''), dc_ParseQuantity = (\<lambda>_. None), dc_FloatInt = (\<lambda>_. 0), dc_FloatMilli = (\<lambda>_. 0)\<rparr>"

definition demo_outside :: outside where
  "demo_outside =
     \<lparr>ot_ParseURL = (\<lambda>_. Inl ContextCanceled), ot_ParseIP = (\<lambda>_. None), ot_LookupHost = (\<lambda>_. Inr []),
      ot_JoinPath = (\<lambda>_ _. None), ot_LookupEnv = (\<lambda>_. None), ot_Vault = (\<lambda>_ _ _. Inl ContextCanceled)\<rparr>"

definition demo_profile :: "string \<Rightarrow> string \<Rightarrow> profile_record" where
  "demo_profile name parent =
     \<lparr>pr_ID = name, pr_Name = name, pr_FileName = name @ ''.yaml'', pr_Description = [], pr_Scope = [], pr_YAML = name,
      pr_SecretRefs = [], pr_Default = False, pr_ExtendsID = parent, pr_Launchable = True, pr_UpdatedAt = 1\<rparr>"

definition demo_profiles :: "profile_record list" where
  "demo_profiles = [demo_profile ''ci'' ''base'', demo_profile ''base'' []]"

theorem node_env_precedence_witness:
  "\<exists>ov. resolveExecutionRuntimeOverlay demo_decoder demo_outside (Inr None) (Some (Inr demo_profiles)) ''s'' ''ci.yaml'' = Inr ov \<and>
     resolveNodeRuntimeEnv (Some ov) zero_node ''A'' = Some ''ci'' \<and> resolveNodeRuntimeEnv (Some ov) zero_node ''base'' = Some ''1''"
proof -
  let ?r = "demo_profile ''ci'' ''base''" and ?chain = "[demo_profile ''base'' [], demo_profile ''ci'' ''base'']"
  have found: "findProfileRecord demo_profiles ''ci.yaml'' = Some ?r" by code_simp
  have chain: "resolveProfileChain demo_profiles (pr_ID ?r) = Inr ?chain" by code_simp
  have "case resolveExecutionRuntimeOverlay demo_decoder demo_outside (Inr None) (Some (Inr demo_profiles)) ''s'' ''ci.yaml'' of
      Inl _ \<Rightarrow> False | Inr ov \<Rightarrow> ov_SecretEnv ov = [] \<and> serviceEnv ov zero_node = []" by code_simp
  then obtain ov where ov: "resolveExecutionRuntimeOverlay demo_decoder demo_outside (Inr None) (Some (Inr demo_profiles)) ''s'' ''ci.yaml'' = Inr ov"
    "ov_SecretEnv ov = []" "serviceEnv ov zero_node = []" by (auto split: sum.splits)
  have own: "own_env demo_decoder ?r ''A'' = Some ''ci''" "own_env demo_decoder ?r ''base'' = None"
    "own_env demo_decoder (demo_profile ''base'' []) ''base'' = Some ''1''" by code_simp+
  show ?thesis
    using node_env_precedence [OF ov(1) found chain, of zero_node "''A''"] node_env_precedence [OF ov(1) found chain, of zero_node "''base''"] ov own
    by (auto simp: platformGlobalOverrideEnv_def zero_node_def)
qed

text \<open>Limits read from a profile are never negative, so an unusable value means no limit; an integer
  memory value is taken as it is, and an integer number of cores is taken exactly as a thousand
  times as many millicores as long as that fits 64 bits.\<close>

theorem limits_exact:
  assumes "0 \<le> n" "n * 1000 < 2 ^ 63"
  shows "parseCPUQuantity dc (Some (AnyInt n)) = n * 1000 \<and> parseMemoryQuantity dc (Some (AnyInt n)) = n \<and>
    0 \<le> parseCPUQuantity dc raw \<and> 0 \<le> parseMemoryQuantity dc raw"
proof -
  have "(n * 1000 + 2 ^ 63) mod 2 ^ 64 = n * 1000 + 2 ^ 63" using assms by (intro mod_pos_pos_trivial) auto
  then have "wrap64 (n * 1000) = n * 1000" by (simp add: wrap64_def)
  moreover have "0 \<le> parseCPUQuantity dc raw" "0 \<le> parseMemoryQuantity dc raw"
    by (auto simp: parseCPUQuantity_def parseMemoryQuantity_def at_least_zero_def Let_def split: option.split goany.split)
  ultimately show ?thesis using assms(1)
    by (simp add: parseCPUQuantity_def parseMemoryQuantity_def at_least_zero_def)
qed

theorem limits_exact_witness:
  "(0::int) \<le> 2 \<and> (2::int) * 1000 < 2 ^ 63 \<and> parseCPUQuantity demo_decoder (Some (AnyInt 2)) = 2000"
  using limits_exact [of 2 demo_decoder None] by simp

text \<open>Beyond that the multiplication wraps, and an absurd value can become a tiny limit.\<close>

lemma cpu_limit_wraps: "parseCPUQuantity dc (Some (AnyInt 18446744073709552)) = 384"
  by (simp add: parseCPUQuantity_def wrap64_def at_least_zero_def)

text \<open>The addresses a Vault may not have: an IPv4 address is refused exactly when it lies in one of
  the reserved ranges (this network, loopback, private use, link local, carrier-grade NAT, protocol
  assignments, benchmarking, class E and broadcast).\<close>

theorem isVaultBlockedIP_ranges:
  "isVaultBlockedIP (IP4 a) \<longleftrightarrow>
     (let n = unat a in
      n < 0x01000000 \<or> 0x7F000000 \<le> n \<and> n < 0x80000000 \<or> 0x0A000000 \<le> n \<and> n < 0x0B000000 \<or>
      0xAC100000 \<le> n \<and> n < 0xAC200000 \<or> 0xC0A80000 \<le> n \<and> n < 0xC0A90000 \<or>
      0xA9FE0000 \<le> n \<and> n < 0xA9FF0000 \<or> 0x64400000 \<le> n \<and> n < 0x64800000 \<or>
      0xC0000000 \<le> n \<and> n < 0xC0000100 \<or> 0xC6120000 \<le> n \<and> n < 0xC6140000 \<or> 0xF0000000 \<le> n)"
proof -
  have "unat a < 2 ^ 32" using unsigned_less [of a] by simp
  then show ?thesis by (auto simp: isVaultBlockedIP_def vaultBlockedNets4_def net_contains_range Let_def)
qed

text \<open>A reference with parent elements leaves the configured prefix, because it is cleaned after the prefix is checked.\<close>

lemma vault_ref_leaves_prefix: "normalizeVaultRef ''../other/token'' ''kv/team'' = Inr (''kv/other/token'', [])"
  by code_simp

end
