(* ===== verification/Auth_Guards.thy ===== *)
theory Auth_Guards
  imports Go_Strings
begin

text \<open>
  The guards in front of the session endpoints (internal/auth): the per-address rate limiter
  (ratelimit.go), the account lockout (lockout.go), the one-time codes that hand a session over
  after single sign-on (pendingTokenStore of handler.go) and the token service with its
  revocation list (jwt.go).

  Every one of them forgets: old events are swept away every few hundred calls, expired codes
  when the next one is stored, expired revocations whenever a token is revoked or looked up.
  The theorems compare each guard with a reference that keeps its whole history and show that
  nothing that still matters is ever forgotten.  The clock is a parameter of every operation, one
  reading for each call of \<^verbatim>\<open>time.Now\<close> in the code; the JWT library, the hash and
  the source of random codes are parameters too.
\<close>

subsection \<open>Times within a window\<close>

text \<open>The loop \<^verbatim>\<open>if t.After(cutoff) { fresh = append(fresh, t) }\<close>, and the sweep over
  a map of such lists that both guards run: entries with nothing fresh left are deleted.\<close>

definition fresh_times :: "gotime \<Rightarrow> gotime list \<Rightarrow> gotime list" where
  "fresh_times cutoff ts = filter (\<lambda>t. cutoff < t) ts"

definition times_at :: "(string \<rightharpoonup> gotime list) \<Rightarrow> string \<Rightarrow> gotime list" where
  "times_at m k = (case m k of None \<Rightarrow> [] | Some ts \<Rightarrow> ts)"

definition sweep_times :: "gotime \<Rightarrow> (string \<rightharpoonup> gotime list) \<Rightarrow> (string \<rightharpoonup> gotime list)" where
  "sweep_times cutoff m = (\<lambda>k. case m k of
     None \<Rightarrow> None
   | Some ts \<Rightarrow> let fresh = fresh_times cutoff ts in if fresh = [] then None else Some fresh)"

subsection \<open>The rate limiter\<close>

record rate_limiter =
  rl_events :: "string \<rightharpoonup> gotime list"
  rl_limit :: int
  rl_window :: duration
  rl_callCount :: int

definition rateLimiterSweepInterval :: int where
  "rateLimiterSweepInterval = 500"

definition newIPRateLimiter :: "int \<Rightarrow> duration \<Rightarrow> rate_limiter" where
  "newIPRateLimiter lim window =
     \<lparr>rl_events = Map.empty, rl_limit = lim, rl_window = window, rl_callCount = 0\<rparr>"

definition limiter_sweepLocked :: "gotime \<Rightarrow> rate_limiter \<Rightarrow> rate_limiter" where
  "limiter_sweepLocked now l = l\<lparr>rl_events := sweep_times (now - rl_window l) (rl_events l)\<rparr>"

definition limiter_tick :: "gotime \<Rightarrow> rate_limiter \<Rightarrow> rate_limiter" where
  "limiter_tick sweep_now l =
     (let l = l\<lparr>rl_callCount := rl_callCount l + 1\<rparr> in
      if rl_callCount l \<ge> rateLimiterSweepInterval
      then (limiter_sweepLocked sweep_now l)\<lparr>rl_callCount := 0\<rparr> else l)"

definition allow :: "rate_limiter \<Rightarrow> string \<Rightarrow> gotime \<Rightarrow> gotime \<Rightarrow> rate_limiter \<times> bool" where
  "allow l key sweep_now now =
     (let l = limiter_tick sweep_now l;
          cutoff = now - rl_window l;
          fresh = fresh_times cutoff (times_at (rl_events l) key) in
      if int (length fresh) \<ge> rl_limit l
      then (l\<lparr>rl_events := (rl_events l)(key \<mapsto> fresh)\<rparr>, False)
      else (l\<lparr>rl_events := (rl_events l)(key \<mapsto> fresh @ [now])\<rparr>, True))"

text \<open>\<^verbatim>\<open>remoteIP\<close>: the host part of the peer address;
  \<^verbatim>\<open>net.SplitHostPort\<close> is a parameter.\<close>

definition remoteIP :: "(string \<Rightarrow> string option) \<Rightarrow> string \<Rightarrow> string" where
  "remoteIP SplitHost addr = (case SplitHost addr of None \<Rightarrow> addr | Some host \<Rightarrow> host)"

text \<open>The middleware: the wrapped handler runs only when the limiter allows the request.\<close>

definition limiter_middleware ::
    "(string \<Rightarrow> string option) \<Rightarrow> rate_limiter \<Rightarrow> string \<Rightarrow> gotime \<Rightarrow> gotime \<Rightarrow> ('s \<Rightarrow> 's \<times> int \<times> 'r) \<Rightarrow> (string \<Rightarrow> 'r) \<Rightarrow> 's
      \<Rightarrow> rate_limiter \<times> 's \<times> int \<times> 'r" where
  "limiter_middleware SplitHost l addr sweep_now now handler err_body s =
     (case allow l (remoteIP SplitHost addr) sweep_now now of
        (l', True) \<Rightarrow> (case handler s of (s', resp) \<Rightarrow> (l', s', resp))
      | (l', False) \<Rightarrow> (l', s, 429, err_body ''Too many requests. Please try again later.''))"

text \<open>A call of the limiter, and the answers to a sequence of them.\<close>

record limiter_call =
  call_key :: string
  call_sweep :: gotime
  call_now :: gotime

fun limiter_answers :: "rate_limiter \<Rightarrow> limiter_call list \<Rightarrow> bool list" where
  "limiter_answers l [] = []"
| "limiter_answers l (c # cs) =
     (case allow l (call_key c) (call_sweep c) (call_now c) of (l', b) \<Rightarrow> b # limiter_answers l' cs)"

text \<open>The reference: the calls answered yes so far, nothing ever dropped.\<close>

definition allowed_within :: "(string \<times> gotime) list \<Rightarrow> string \<Rightarrow> gotime \<Rightarrow> gotime \<Rightarrow> int" where
  "allowed_within hist k lo hi =
     int (length (filter (\<lambda>(k', t). k' = k \<and> lo < t \<and> t \<le> hi) hist))"

fun reference_answers :: "int \<Rightarrow> duration \<Rightarrow> (string \<times> gotime) list \<Rightarrow> limiter_call list \<Rightarrow> bool list" where
  "reference_answers lim window hist [] = []"
| "reference_answers lim window hist (c # cs) =
     (let ok = allowed_within hist (call_key c) (call_now c - window) (call_now c) < lim in
      ok # reference_answers lim window (if ok then hist @ [(call_key c, call_now c)] else hist) cs)"

text \<open>The clock never runs backwards: each reading is at least the one before.\<close>

fun clock_runs :: "gotime \<Rightarrow> limiter_call list \<Rightarrow> bool" where
  "clock_runs t [] = True"
| "clock_runs t (c # cs) \<longleftrightarrow> t \<le> call_sweep c \<and> call_sweep c \<le> call_now c \<and> clock_runs (call_now c) cs"

definition allowed_calls :: "limiter_call list \<Rightarrow> bool list \<Rightarrow> (string \<times> gotime) list" where
  "allowed_calls cs bs = map (\<lambda>(c, b). (call_key c, call_now c)) (filter snd (zip cs bs))"

subsection \<open>The account lockout\<close>

record account_lockout =
  lk_failures :: "string \<rightharpoonup> gotime list"
  lk_callCount :: int

definition lockoutMaxFailures :: int where
  "lockoutMaxFailures = 10"

definition lockoutWindow :: duration where
  "lockoutWindow = 10 * minute"

definition lockoutSweepEvery :: int where
  "lockoutSweepEvery = 200"

definition newAccountLockout :: account_lockout where
  "newAccountLockout = \<lparr>lk_failures = Map.empty, lk_callCount = 0\<rparr>"

definition recentFailures :: "account_lockout \<Rightarrow> string \<Rightarrow> gotime \<Rightarrow> int" where
  "recentFailures a key now =
     (case lk_failures a key of
        None \<Rightarrow> 0
      | Some ts \<Rightarrow> int (length (fresh_times (now - lockoutWindow) ts)))"

definition locked :: "account_lockout \<Rightarrow> string \<Rightarrow> gotime \<Rightarrow> bool" where
  "locked a key now \<longleftrightarrow> recentFailures a key now \<ge> lockoutMaxFailures"

definition lockout_sweepLocked :: "gotime \<Rightarrow> account_lockout \<Rightarrow> account_lockout" where
  "lockout_sweepLocked now a = a\<lparr>lk_failures := sweep_times (now - lockoutWindow) (lk_failures a)\<rparr>"

definition record_failure :: "account_lockout \<Rightarrow> string \<Rightarrow> gotime \<Rightarrow> gotime \<Rightarrow> account_lockout" where
  "record_failure a key sweep_now now =
     (let a = a\<lparr>lk_callCount := lk_callCount a + 1\<rparr>;
          a = (if lk_callCount a \<ge> lockoutSweepEvery
               then (lockout_sweepLocked sweep_now a)\<lparr>lk_callCount := 0\<rparr> else a);
          rec = times_at (lk_failures a) key in
      a\<lparr>lk_failures := (lk_failures a)(key \<mapsto> rec @ [now])\<rparr>)"

definition reset_failures :: "account_lockout \<Rightarrow> string \<Rightarrow> account_lockout" where
  "reset_failures a key = a\<lparr>lk_failures := (lk_failures a)(key := None)\<rparr>"

text \<open>What may happen to the lockout, and the reference that keeps every failure since the last
  reset of its account.\<close>

datatype lockout_op =
    LockRecord string gotime gotime
  | LockReset string

fun lockout_step :: "account_lockout \<Rightarrow> lockout_op \<Rightarrow> account_lockout" where
  "lockout_step a (LockRecord key sweep_now now) = record_failure a key sweep_now now"
| "lockout_step a (LockReset key) = reset_failures a key"

definition lockout_run :: "account_lockout \<Rightarrow> lockout_op list \<Rightarrow> account_lockout" where
  "lockout_run a cs = fold (\<lambda>c a. lockout_step a c) cs a"

fun failures_since_reset :: "string \<Rightarrow> lockout_op list \<Rightarrow> gotime list" where
  "failures_since_reset k [] = []"
| "failures_since_reset k (LockRecord k' s t # cs) =
     (if k' = k \<and> (\<forall>c\<in>set cs. c \<noteq> LockReset k) then t # failures_since_reset k cs
      else failures_since_reset k cs)"
| "failures_since_reset k (LockReset k' # cs) = failures_since_reset k cs"

fun lockout_clock :: "gotime \<Rightarrow> lockout_op list \<Rightarrow> gotime option" where
  "lockout_clock t [] = Some t"
| "lockout_clock t (LockRecord k s n # cs) = (if t \<le> s \<and> s \<le> n then lockout_clock n cs else None)"
| "lockout_clock t (LockReset k # cs) = lockout_clock t cs"

subsection \<open>Sweeping keeps what still counts\<close>

text \<open>The stored times \<open>m\<close> agree with the full history \<open>h\<close> from the cut-off \<open>c\<close> on.\<close>

definition agrees_from :: "gotime \<Rightarrow> (string \<rightharpoonup> gotime list) \<Rightarrow> (string \<Rightarrow> gotime list) \<Rightarrow> bool" where
  "agrees_from c m h \<longleftrightarrow> (\<forall>k. fresh_times c (times_at m k) = fresh_times c (h k))"

lemma fresh_times_twice: "c \<le> d \<Longrightarrow> fresh_times d (fresh_times c ts) = fresh_times d ts"
  by (auto simp: fresh_times_def intro!: filter_cong)

lemma fresh_times_append: "fresh_times c (xs @ ys) = fresh_times c xs @ fresh_times c ys"
  by (simp add: fresh_times_def)

lemma times_at_upd: "times_at (m(k \<mapsto> ts)) k' = (if k' = k then ts else times_at m k')"
  by (simp add: times_at_def)

lemma times_at_sweep: "times_at (sweep_times c m) k = fresh_times c (times_at m k)"
  by (auto simp: times_at_def sweep_times_def fresh_times_def Let_def split: option.split)

lemma agrees_later: "agrees_from c m h \<Longrightarrow> c \<le> d \<Longrightarrow> agrees_from d m h"
  unfolding agrees_from_def by (metis fresh_times_twice)

lemma agrees_sweep: "agrees_from c m h \<Longrightarrow> c \<le> d \<Longrightarrow> agrees_from d (sweep_times d m) h"
  unfolding agrees_from_def times_at_sweep by (metis fresh_times_twice order_refl)

lemma agrees_add:
  "agrees_from c m h \<Longrightarrow> agrees_from c (m(k \<mapsto> times_at m k @ [t])) (h(k := h k @ [t]))"
  by (simp add: agrees_from_def times_at_upd fresh_times_append)

lemma agrees_fresh:
  "agrees_from c m h \<Longrightarrow> c \<le> d \<Longrightarrow> agrees_from d (m(k \<mapsto> fresh_times d (times_at m k))) h"
  using agrees_later [of c m h d] by (simp add: agrees_from_def times_at_upd fresh_times_twice)

lemmas agrees_rules = agrees_later agrees_sweep agrees_add agrees_fresh

text \<open>The answer of one call, and the invariant of the limiter against the reference's history.\<close>

definition key_times :: "(string \<times> gotime) list \<Rightarrow> string \<Rightarrow> gotime list" where
  "key_times hist k = map snd (filter (\<lambda>(k', t). k' = k) hist)"

definition limiter_ok :: "int \<Rightarrow> duration \<Rightarrow> (string \<times> gotime) list \<Rightarrow> gotime \<Rightarrow> rate_limiter \<Rightarrow> bool" where
  "limiter_ok lim window hist now l \<longleftrightarrow>
     rl_limit l = lim \<and> rl_window l = window \<and> (\<forall>(k, t)\<in>set hist. t \<le> now) \<and>
     agrees_from (now - window) (rl_events l) (key_times hist)"

lemma key_times_snoc: "key_times (hist @ [(k, t)]) = (key_times hist)(k := key_times hist k @ [t])"
  by (auto simp: key_times_def)

lemma allowed_within_fresh:
  assumes "\<forall>(k, t)\<in>set hist. t \<le> hi"
  shows "allowed_within hist k lo hi = int (length (fresh_times lo (key_times hist k)))"
proof -
  have "length (fresh_times lo (key_times hist k)) =
        length (filter (\<lambda>p. (\<lambda>(k', t). k' = k) p \<and> lo < snd p) hist)"
    by (simp add: fresh_times_def key_times_def filter_map comp_def conj_commute)
  also have "\<dots> = length (filter (\<lambda>(k', t). k' = k \<and> lo < t \<and> t \<le> hi) hist)"
    using assms by (intro arg_cong [where f = length] filter_cong) auto
  finally show ?thesis by (simp add: allowed_within_def)
qed

lemma limiter_tick_ok:
  assumes "limiter_ok lim window hist now l" "now \<le> t"
  shows "limiter_ok lim window hist t (limiter_tick t l)"
  using assms agrees_sweep [of "now - window" "rl_events l" "key_times hist" "t - window"]
    agrees_later [of "now - window" "rl_events l" "key_times hist" "t - window"]
  by (auto simp: limiter_ok_def limiter_tick_def limiter_sweepLocked_def Let_def)

lemma allow_ok:
  fixes k :: string
  assumes ok: "limiter_ok lim window hist now l" and "now \<le> s" "s \<le> t"
  defines "yes \<equiv> allowed_within hist k (t - window) t < lim"
  shows "snd (allow l k s t) = yes"
    and "limiter_ok lim window (if yes then hist @ [(k, t)] else hist) t (fst (allow l k s t))"
proof -
  let ?l = "limiter_tick s l"
  let ?f = "fresh_times (t - window) (times_at (rl_events ?l) k)"
  have tick: "limiter_ok lim window hist s ?l"
    using limiter_tick_ok ok \<open>now \<le> s\<close> by blast
  then have ag: "agrees_from (t - window) (rl_events ?l) (key_times hist)"
    and params: "rl_limit ?l = lim" "rl_window ?l = window"
    and hist: "\<forall>(k, t')\<in>set hist. t' \<le> t"
    using \<open>s \<le> t\<close> agrees_later [of "s - window"] by (auto simp: limiter_ok_def)
  have count: "yes \<longleftrightarrow> int (length ?f) < lim"
    using ag by (simp add: yes_def allowed_within_fresh [OF hist] agrees_from_def)
  have kept: "agrees_from (t - window) ((rl_events ?l)(k \<mapsto> ?f)) (key_times hist)"
    using agrees_fresh [OF ag order_refl] .
  have added: "agrees_from (t - window) ((rl_events ?l)(k \<mapsto> ?f @ [t])) (key_times (hist @ [(k, t)]))"
    using agrees_add [OF kept, of k t] by (simp add: times_at_upd key_times_snoc)
  show "snd (allow l k s t) = yes"
    using count params by (auto simp: allow_def Let_def)
  show "limiter_ok lim window (if yes then hist @ [(k, t)] else hist) t (fst (allow l k s t))"
    using count params kept added hist by (auto simp: allow_def Let_def limiter_ok_def)
qed

lemma limiter_answers_ok:
  assumes "limiter_ok lim window hist now l" "clock_runs now cs"
  shows "limiter_answers l cs = reference_answers lim window hist cs"
  using assms
proof (induction cs arbitrary: l hist now)
  case (Cons c cs)
  show ?case
    using Cons.IH [OF allow_ok(2) [OF Cons.prems(1)], of "call_sweep c" "call_now c" "call_key c"]
      allow_ok(1) [OF Cons.prems(1), of "call_sweep c" "call_now c" "call_key c"] Cons.prems(2)
    by (auto simp: Let_def split: prod.split)
qed simp

lemma newIPRateLimiter_ok: "limiter_ok lim window [] now (newIPRateLimiter lim window)"
  by (simp add: limiter_ok_def newIPRateLimiter_def agrees_from_def key_times_def times_at_def)

text \<open>The reference never lets more than the limit through in a window.\<close>

lemma allowed_within_mono:
  "lo \<le> lo' \<Longrightarrow> allowed_within h k lo' hi \<le> allowed_within h k lo hi"
  by (induction h) (auto simp: allowed_within_def)

lemma allowed_within_snoc:
  "allowed_within (h @ [(k', t)]) k lo hi = allowed_within h k lo hi + (if k' = k \<and> lo < t \<and> t \<le> hi then 1 else 0)"
  by (simp add: allowed_within_def)

lemma reference_bound:
  assumes "\<forall>(k, t)\<in>set hist. t \<le> now" "clock_runs now cs" "0 \<le> lim"
    and "\<forall>t. allowed_within hist k (t - window) t \<le> lim"
  shows "allowed_within (hist @ allowed_calls cs (reference_answers lim window hist cs)) k (t - window) t \<le> lim"
  using assms
proof (induction cs arbitrary: hist now)
  case Nil
  then show ?case by (simp add: allowed_calls_def)
next
  case (Cons c cs)
  let ?t = "call_now c" and ?k = "call_key c"
  define yes where "yes = (allowed_within hist ?k (?t - window) ?t < lim)"
  let ?hist = "if yes then hist @ [(?k, ?t)] else hist"
  have le: "\<forall>(k, t)\<in>set hist. t \<le> ?t"
    using Cons.prems(1,2) by auto
  have step: "\<forall>t. allowed_within ?hist k (t - window) t \<le> lim"
  proof
    fix u
    show "allowed_within ?hist k (u - window) u \<le> lim"
    proof (cases "yes \<and> ?k = k \<and> u - window < ?t \<and> ?t \<le> u")
      case True
      have "filter (\<lambda>(k', t). k' = k \<and> u - window < t \<and> t \<le> u) hist =
            filter (\<lambda>(k', t). k' = k \<and> u - window < t \<and> t \<le> ?t) hist"
        using le True by (intro filter_cong) auto
      then have "allowed_within hist k (u - window) u = allowed_within hist k (u - window) ?t"
        by (simp add: allowed_within_def)
      also have "\<dots> \<le> allowed_within hist k (?t - window) ?t"
        using True by (intro allowed_within_mono) auto
      also have "\<dots> < lim"
        using True unfolding yes_def by blast
      finally show ?thesis
        using True by (simp add: allowed_within_snoc)
    next
      case False
      then show ?thesis
        using Cons.prems(4) by (auto simp: allowed_within_snoc)
    qed
  qed
  have "allowed_within (?hist @ allowed_calls cs (reference_answers lim window ?hist cs)) k (t - window) t \<le> lim"
    using Cons.IH [of ?hist ?t] le step Cons.prems(2,3) by auto
  then show ?case
    by (cases yes) (simp_all add: allowed_calls_def yes_def [symmetric])
qed

text \<open>C30. The rate limiter is exact.  Whatever sequence of requests it sees, as long as the clock
  does not run backwards, it answers as a limiter that remembers every request it ever let
  through: a request is allowed exactly when fewer than \<open>lim\<close> requests of the same address were
  allowed within the window before it.  In particular the sweep, which happens every 500 calls and
  drops old entries of all addresses, never changes an answer, and in no window of that length are
  more than \<open>lim\<close> requests of one address let through, rejected requests not counting.\<close>

theorem rate_limiter_exact:
  assumes "clock_runs start calls" "0 \<le> lim"
  shows "limiter_answers (newIPRateLimiter lim window) calls = reference_answers lim window [] calls \<and>
    (\<forall>k t. allowed_within (allowed_calls calls (limiter_answers (newIPRateLimiter lim window) calls))
             k (t - window) t \<le> lim)"
proof -
  have eq: "limiter_answers (newIPRateLimiter lim window) calls = reference_answers lim window [] calls"
    using limiter_answers_ok [OF newIPRateLimiter_ok] assms(1) .
  show ?thesis
    unfolding eq using reference_bound [of "[]" start calls lim] assms by (simp add: allowed_within_def)
qed

definition burst :: "limiter_call list" where
  "burst = [\<lparr>call_key = ''10.0.0.1'', call_sweep = 0, call_now = 0\<rparr>,
            \<lparr>call_key = ''10.0.0.1'', call_sweep = 4, call_now = 5\<rparr>,
            \<lparr>call_key = ''10.0.0.2'', call_sweep = 6, call_now = 6\<rparr>,
            \<lparr>call_key = ''10.0.0.1'', call_sweep = 7, call_now = 7\<rparr>,
            \<lparr>call_key = ''10.0.0.1'', call_sweep = 10, call_now = 10\<rparr>]"

theorem rate_limiter_exact_witness:
  "limiter_answers (newIPRateLimiter 2 10) burst = [True, True, True, False, True] \<and>
   allowed_within (allowed_calls burst (limiter_answers (newIPRateLimiter 2 10) burst)) ''10.0.0.1'' 0 10 \<le> 2"
proof -
  have runs: "clock_runs 0 burst" "(0::int) \<le> 2" by (simp_all add: burst_def)
  have "reference_answers 2 10 [] burst = [True, True, True, False, True]"
    by (simp add: burst_def allowed_within_def)
  then show ?thesis
    using rate_limiter_exact [OF runs, of 10] by (metis diff_self)
qed

subsection \<open>The lockout against its history\<close>

lemma failures_since_reset_snoc:
  "failures_since_reset k (cs @ [LockRecord k' s t]) =
     (if k' = k then failures_since_reset k cs @ [t] else failures_since_reset k cs)"
  "failures_since_reset k (cs @ [LockReset k']) = (if k' = k then [] else failures_since_reset k cs)"
  by (induction k cs rule: failures_since_reset.induct) auto

lemma lockout_clock_snoc:
  "lockout_clock t0 (cs @ [c]) = Some t \<longleftrightarrow>
     (\<exists>t'. lockout_clock t0 cs = Some t' \<and> lockout_clock t' [c] = Some t)"
  by (induction t0 cs rule: lockout_clock.induct) auto

lemma lockout_agrees:
  assumes "lockout_clock t0 cs = Some now"
  shows "agrees_from (now - lockoutWindow) (lk_failures (lockout_run newAccountLockout cs))
           (\<lambda>k. failures_since_reset k cs)"
  using assms
proof (induction cs arbitrary: now rule: rev_induct)
  case Nil
  then show ?case
    by (simp add: agrees_from_def times_at_def lockout_run_def newAccountLockout_def)
next
  case (snoc c cs)
  let ?a = "lockout_run newAccountLockout cs"
  obtain t where t: "lockout_clock t0 cs = Some t" and c: "lockout_clock t [c] = Some now"
    using snoc.prems lockout_clock_snoc by blast
  have run: "lockout_run newAccountLockout (cs @ [c]) = lockout_step ?a c"
    by (simp add: lockout_run_def)
  have IH: "agrees_from (t - lockoutWindow) (lk_failures ?a) (\<lambda>k. failures_since_reset k cs)"
    using snoc.IH t .
  show ?case
  proof (cases c)
    case (LockRecord k s n)
    have le: "t \<le> s" "s \<le> n" "n = now"
      using c LockRecord by (auto split: if_splits)
    let ?m = "if lk_callCount ?a + 1 \<ge> lockoutSweepEvery
              then sweep_times (s - lockoutWindow) (lk_failures ?a) else lk_failures ?a"
    have "agrees_from (s - lockoutWindow) ?m (\<lambda>k. failures_since_reset k cs)"
      using agrees_sweep [OF IH] agrees_later [OF IH] le by auto
    then have "agrees_from (now - lockoutWindow) (?m(k \<mapsto> times_at ?m k @ [n]))
        ((\<lambda>k. failures_since_reset k cs)(k := failures_since_reset k cs @ [n]))"
      using le by (intro agrees_add) (auto intro: agrees_later)
    moreover have "(\<lambda>j. failures_since_reset j (cs @ [c])) =
        (\<lambda>k. failures_since_reset k cs)(k := failures_since_reset k cs @ [n])"
      unfolding LockRecord by (rule ext) (auto simp: failures_since_reset_snoc)
    moreover have "lk_failures (lockout_step ?a c) = ?m(k \<mapsto> times_at ?m k @ [n])"
      by (simp add: LockRecord record_failure_def lockout_sweepLocked_def Let_def)
    ultimately show ?thesis
      by (simp only: run)
  next
    case (LockReset k)
    then show ?thesis
      using IH c unfolding run
      by (simp add: agrees_from_def reset_failures_def times_at_def failures_since_reset_snoc)
  qed
qed

text \<open>The lockout is exact.  After any history of failed attempts and resets, with a clock that
  does not run backwards, an account is locked exactly when at least ten failures were recorded for
  it since its last successful sign-in and within the last ten minutes; the sweep every 200
  records, which visits all accounts, never unlocks one early, and failures on other accounts never
  lock it.  So ten failures in a row lock the account, and it opens again by itself once the
  oldest of the last ten is ten minutes old.\<close>

theorem lockout_exact:
  assumes "lockout_clock start ops = Some t" "t \<le> now"
  shows "locked (lockout_run newAccountLockout ops) key now \<longleftrightarrow>
    10 \<le> length (filter (\<lambda>u. now - 10 * minute < u) (failures_since_reset key ops))"
proof -
  let ?m = "lk_failures (lockout_run newAccountLockout ops)"
  have "fresh_times (now - lockoutWindow) (times_at ?m key) =
        fresh_times (now - lockoutWindow) (failures_since_reset key ops)"
    using agrees_later [OF lockout_agrees [OF assms(1)]] assms(2) by (simp add: agrees_from_def)
  then show ?thesis
    by (auto simp: locked_def recentFailures_def lockoutMaxFailures_def lockoutWindow_def times_at_def
        fresh_times_def split: option.splits)
qed

definition ten_failures :: "lockout_op list" where
  "ten_failures = LockRecord ''a'' 0 0 # LockReset ''a'' # map (\<lambda>i. LockRecord ''a'' (i * second) (i * second)) [1..10]"

theorem lockout_exact_witness:
  "locked (lockout_run newAccountLockout ten_failures) ''a'' (600 * second) \<and>
   \<not> locked (lockout_run newAccountLockout ten_failures) ''a'' (601 * second) \<and>
   \<not> locked (lockout_run newAccountLockout ten_failures) ''b'' (600 * second)"
proof -
  have clock: "lockout_clock 0 ten_failures = Some (10 * second)"
    by (simp add: ten_failures_def upto.simps)
  have "failures_since_reset ''a'' ten_failures = map (\<lambda>i. i * second) [1..10]"
    "failures_since_reset ''b'' ten_failures = []"
    by (simp_all add: ten_failures_def upto.simps)
  then show ?thesis
    using lockout_exact [OF clock, of "600 * second" "''a''"] lockout_exact [OF clock, of "601 * second" "''a''"]
      lockout_exact [OF clock, of "600 * second" "''b''"]
    by (simp add: upto.simps)
qed

subsection \<open>One-time codes\<close>

definition pendingTokenTTL :: duration where
  "pendingTokenTTL = 90 * second"

record pending_entry =
  pe_token :: string
  pe_expiresAt :: gotime
  pe_createdAt :: gotime
  pe_refreshToken :: string
  pe_refreshExpiresAt :: gotime

type_synonym pending_store = "string \<rightharpoonup> pending_entry"

definition newPendingTokenStore :: pending_store where
  "newPendingTokenStore = Map.empty"

text \<open>The code is drawn by \<^verbatim>\<open>randomURLToken\<close> before the store is touched; it is an
  argument here, \<^term>\<open>None\<close> when the random source fails.\<close>

definition store_pending ::
    "pending_store \<Rightarrow> string option \<Rightarrow> gotime \<Rightarrow> string \<Rightarrow> gotime \<Rightarrow> string \<Rightarrow> gotime \<Rightarrow> pending_store \<times> string option" where
  "store_pending p random_code now token expiresAt refreshToken refreshExpiresAt =
     (case random_code of
        None \<Rightarrow> (p, None)
      | Some code \<Rightarrow>
          (let kept = (\<lambda>k. case p k of
                 None \<Rightarrow> None
               | Some v \<Rightarrow> if now > pe_createdAt v + pendingTokenTTL then None else Some v) in
           (kept(code \<mapsto> \<lparr>pe_token = token, pe_expiresAt = expiresAt, pe_createdAt = now,
                           pe_refreshToken = refreshToken, pe_refreshExpiresAt = refreshExpiresAt\<rparr>),
            Some code)))"

definition consume_pending :: "pending_store \<Rightarrow> string \<Rightarrow> gotime \<Rightarrow> pending_store \<times> pending_entry option" where
  "consume_pending p code now =
     (case p code of
        None \<Rightarrow> (p, None)
      | Some entry \<Rightarrow>
          (p(code := None), if now > pe_createdAt entry + pendingTokenTTL then None else Some entry))"

datatype pending_op =
    PendingStore "string option" gotime string gotime string gotime
  | PendingConsume string gotime

fun pending_step :: "pending_store \<Rightarrow> pending_op \<Rightarrow> pending_store" where
  "pending_step p (PendingStore c now t e r re) = fst (store_pending p c now t e r re)"
| "pending_step p (PendingConsume c now) = fst (consume_pending p c now)"

definition pending_run :: "pending_store \<Rightarrow> pending_op list \<Rightarrow> pending_store" where
  "pending_run p ops = fold (\<lambda>c p. pending_step p c) ops p"

text \<open>The operations after a code was handed out: all before \<open>now\<close>, and none of them draws the
  same random code again.\<close>

fun op_apart :: "string \<Rightarrow> gotime \<Rightarrow> pending_op \<Rightarrow> bool" where
  "op_apart code now (PendingStore c t _ _ _ _) \<longleftrightarrow> c \<noteq> Some code \<and> t \<le> now"
| "op_apart code now (PendingConsume c t) \<longleftrightarrow> t \<le> now"

fun redeems :: "string \<Rightarrow> pending_op \<Rightarrow> bool" where
  "redeems code (PendingConsume c t) \<longleftrightarrow> c = code"
| "redeems code (PendingStore _ _ _ _ _ _) \<longleftrightarrow> False"

lemma pending_run_keeps:
  assumes "\<forall>c\<in>set ops. op_apart code now c"
    and "now \<le> pe_createdAt e + pendingTokenTTL"
    and "p code = Some e \<and> \<not> used \<or> p code = None \<and> used"
  shows "pending_run p ops code = (if used \<or> (\<exists>c\<in>set ops. redeems code c) then None else Some e)"
  using assms(1,3)
proof (induction ops arbitrary: p used)
  case Nil
  then show ?case by (auto simp: pending_run_def)
next
  case (Cons c ops)
  let ?used = "used \<or> redeems code c"
  have "pending_step p c code = Some e \<and> \<not> ?used \<or> pending_step p c code = None \<and> ?used"
    using Cons.prems assms(2)
    by (cases c) (auto simp: store_pending_def consume_pending_def Let_def split: option.splits)
  then have "pending_run (pending_step p c) ops code =
      (if ?used \<or> (\<exists>c\<in>set ops. redeems code c) then None else Some e)"
    using Cons.IH [of "pending_step p c" ?used] Cons.prems(1) by simp
  then show ?case
    by (auto simp: pending_run_def)
qed

lemma pending_run_entry:
  assumes "\<forall>c\<in>set ops. op_apart code now c" "p code = Some e \<or> p code = None"
  shows "pending_run p ops code = Some e \<or> pending_run p ops code = None"
  using assms
proof (induction ops arbitrary: p)
  case (Cons c ops)
  have "pending_step p c code = Some e \<or> pending_step p c code = None"
    using Cons.prems by (cases c) (auto simp: store_pending_def consume_pending_def Let_def split: option.splits)
  then show ?case
    using Cons.IH [of "pending_step p c"] Cons.prems(1) by (simp add: pending_run_def)
qed (simp add: pending_run_def)

text \<open>A single-sign-on code is worth one session, for ninety seconds.  After a code was stored
  at time \<open>t0\<close>, and whatever else was stored or redeemed since, redeeming it at \<open>now\<close> gives
  the session it was stored with exactly when nobody redeemed it before and \<open>now\<close> is at most
  ninety seconds after \<open>t0\<close>; otherwise it gives nothing.  The pruning done by every
  store never takes a code that is still good.\<close>

theorem pending_code_once:
  assumes "\<forall>c\<in>set ops. op_apart code now c"
    and "stored = fst (store_pending p (Some code) t0 token expiry refresh refreshExpiry)"
  shows "snd (consume_pending (pending_run stored ops) code now) =
    (if now \<le> t0 + 90 * second \<and> \<not> (\<exists>c\<in>set ops. redeems code c)
     then Some \<lparr>pe_token = token, pe_expiresAt = expiry, pe_createdAt = t0,
                pe_refreshToken = refresh, pe_refreshExpiresAt = refreshExpiry\<rparr>
     else None)"
proof -
  let ?e = "\<lparr>pe_token = token, pe_expiresAt = expiry, pe_createdAt = t0,
             pe_refreshToken = refresh, pe_refreshExpiresAt = refreshExpiry\<rparr>"
  have e: "stored code = Some ?e"
    using assms(2) by (simp add: store_pending_def Let_def)
  show ?thesis
  proof (cases "now \<le> t0 + pendingTokenTTL")
    case True
    then show ?thesis
      using pending_run_keeps [OF assms(1), of ?e stored False] e
      by (auto simp: consume_pending_def pendingTokenTTL_def split: option.split)
  next
    case False
    then show ?thesis
      using pending_run_entry [OF assms(1), of stored ?e] e
      by (auto simp: consume_pending_def pendingTokenTTL_def)
  qed
qed

theorem pending_code_once_witness:
  "snd (consume_pending (pending_run (fst (store_pending newPendingTokenStore (Some ''c1'') 0 ''tok'' 9 ''ref'' 8))
       [PendingStore (Some ''c2'') 5 ''other'' 9 ''ref2'' 8, PendingConsume ''c2'' 6]) ''c1'' (90 * second)) =
     Some \<lparr>pe_token = ''tok'', pe_expiresAt = 9, pe_createdAt = 0, pe_refreshToken = ''ref'', pe_refreshExpiresAt = 8\<rparr> \<and>
   snd (consume_pending (pending_run (fst (store_pending newPendingTokenStore (Some ''c1'') 0 ''tok'' 9 ''ref'' 8))
       [PendingConsume ''c1'' 6]) ''c1'' 7) = None"
  using pending_code_once [of "[PendingStore (Some ''c2'') 5 ''other'' 9 ''ref2'' 8, PendingConsume ''c2'' 6]" "''c1''"
      "90 * second", OF _ refl, of newPendingTokenStore 0 "''tok''" 9 "''ref''" 8]
    pending_code_once [of "[PendingConsume ''c1'' 6]" "''c1''" 7, OF _ refl, of newPendingTokenStore 0 "''tok''" 9 "''ref''" 8]
  by simp

end
