(* ===== verification/Auth_Tokens.thy ===== *)
theory Auth_Tokens
  imports Auth_Guards
begin

text \<open>
  The token service (internal/auth/jwt.go) and the session middleware (internal/auth/http.go).
  The JWT library signs and parses; it is the parameter \<open>L\<close> of the operations, a record of the
  three library functions the code calls, and the hash of a token (SHA-256 in hex) is the parameter
  \<open>hashToken\<close>.  What the theorems rely on is stated as the predicates \<open>jwt_validates\<close>,
  \<open>jwt_decodes\<close> and \<open>jwt_accepts\<close>, all documented behaviour of the library.
\<close>

subsection \<open>Claims and the library's interface\<close>

record claims =
  c_UserID :: string
  c_WorkspaceID :: string
  c_IsAdmin :: bool
  c_Groups :: "string list"
  c_Provider :: string
  c_ExpiresAt :: gotime
  c_IssuedAt :: gotime
  c_Issuer :: string
  c_Audience :: "string list"

datatype signing_method = SigningMethodHMAC | OtherMethod string

text \<open>What the key function sees of a token: its signing method and its \<^verbatim>\<open>kid\<close> header, if
  that is a string.\<close>

record token_header =
  h_method :: signing_method
  h_kid :: "string option"

record jwt_lib =
  SignedString :: "string \<Rightarrow> string \<Rightarrow> claims \<Rightarrow> string + string"
  ParseWithClaims :: "(token_header \<Rightarrow> string + string) \<Rightarrow> string \<Rightarrow> string \<Rightarrow> gotime \<Rightarrow> string \<Rightarrow> string + (claims \<times> bool)"
  NewNumericDate :: "gotime \<Rightarrow> gotime"

definition TokenTTL :: duration where
  "TokenTTL = 72 * hour"

definition RefreshTokenTTL :: duration where
  "RefreshTokenTTL = 7 * 24 * hour"

definition tokenIssuer :: string where
  "tokenIssuer = ''babelsuite''"

definition tokenAudience :: string where
  "tokenAudience = ''babelsuite.user.access''"

definition refreshTokenAudience :: string where
  "refreshTokenAudience = ''babelsuite.user.refresh''"

definition tokenKeyID :: string where
  "tokenKeyID = ''v1''"

subsection \<open>The service\<close>

record jwt_service =
  secret :: string
  blocklist :: "string \<rightharpoonup> gotime"

definition NewJWT :: "string \<Rightarrow> jwt_service" where
  "NewJWT s = \<lparr>secret = s, blocklist = Map.empty\<rparr>"

definition Sign ::
    "jwt_lib \<Rightarrow> jwt_service \<Rightarrow> gotime \<Rightarrow> string \<Rightarrow> string \<Rightarrow> bool \<Rightarrow> string list \<Rightarrow> string \<Rightarrow> string + (string \<times> gotime)" where
  "Sign L j now userID workspaceID isAdmin groups provider =
     (let expiresAt = now + TokenTTL;
          c = \<lparr>c_UserID = userID, c_WorkspaceID = workspaceID, c_IsAdmin = isAdmin, c_Groups = groups,
               c_Provider = provider, c_ExpiresAt = NewNumericDate L expiresAt,
               c_IssuedAt = NewNumericDate L now, c_Issuer = tokenIssuer, c_Audience = [tokenAudience]\<rparr> in
      case SignedString L (secret j) tokenKeyID c of
        Inl err \<Rightarrow> Inl err
      | Inr token \<Rightarrow> Inr (token, expiresAt))"

definition SignRefresh ::
    "jwt_lib \<Rightarrow> jwt_service \<Rightarrow> gotime \<Rightarrow> string \<Rightarrow> string \<Rightarrow> bool \<Rightarrow> string \<Rightarrow> string + (string \<times> gotime)" where
  "SignRefresh L j now userID workspaceID isAdmin provider =
     (let expiresAt = now + RefreshTokenTTL;
          c = \<lparr>c_UserID = userID, c_WorkspaceID = workspaceID, c_IsAdmin = isAdmin, c_Groups = [],
               c_Provider = provider, c_ExpiresAt = NewNumericDate L expiresAt,
               c_IssuedAt = NewNumericDate L now, c_Issuer = tokenIssuer, c_Audience = [refreshTokenAudience]\<rparr> in
      case SignedString L (secret j) tokenKeyID c of
        Inl err \<Rightarrow> Inl err
      | Inr token \<Rightarrow> Inr (token, expiresAt))"

definition token_key :: "jwt_service \<Rightarrow> token_header \<Rightarrow> string + string" where
  "token_key j t =
     (case h_method t of
        OtherMethod m \<Rightarrow> Inl ''unexpected signing method''
      | SigningMethodHMAC \<Rightarrow>
          (case h_kid t of
             Some kid \<Rightarrow> if kid \<noteq> tokenKeyID then Inl ''unrecognized token key'' else Inr (secret j)
           | None \<Rightarrow> Inr (secret j)))"

text \<open>\<^verbatim>\<open>isRevoked\<close> looks the hash up under the read lock, and deletes an expired entry
  under the write lock afterwards; the two critical sections are separate definitions, since
  other calls may run between them.\<close>

definition look_revoked :: "jwt_service \<Rightarrow> string \<Rightarrow> gotime option" where
  "look_revoked j h = blocklist j h"

definition drop_revoked :: "jwt_service \<Rightarrow> string \<Rightarrow> jwt_service" where
  "drop_revoked j h = j\<lparr>blocklist := (blocklist j)(h := None)\<rparr>"

definition isRevoked :: "(string \<Rightarrow> string) \<Rightarrow> jwt_service \<Rightarrow> string \<Rightarrow> gotime \<Rightarrow> jwt_service \<times> bool" where
  "isRevoked hashToken j token now =
     (let h = hashToken token in
      case look_revoked j h of
        None \<Rightarrow> (j, False)
      | Some exp \<Rightarrow> if now > exp then (drop_revoked j h, False) else (j, True))"

definition pruneExpiredLocked :: "jwt_service \<Rightarrow> gotime \<Rightarrow> jwt_service" where
  "pruneExpiredLocked j now =
     j\<lparr>blocklist := (\<lambda>h. case blocklist j h of
         None \<Rightarrow> None | Some exp \<Rightarrow> if now > exp then None else Some exp)\<rparr>"

definition Revoke :: "(string \<Rightarrow> string) \<Rightarrow> jwt_service \<Rightarrow> string \<Rightarrow> gotime \<Rightarrow> gotime \<Rightarrow> jwt_service" where
  "Revoke hashToken j token now prune_now =
     (let expiry = now + RefreshTokenTTL; h = hashToken token in
      pruneExpiredLocked (j\<lparr>blocklist := (blocklist j)(h \<mapsto> expiry)\<rparr>) prune_now)"

definition VerifyRefresh ::
    "jwt_lib \<Rightarrow> (string \<Rightarrow> string) \<Rightarrow> jwt_service \<Rightarrow> string \<Rightarrow> gotime \<Rightarrow> jwt_service \<times> (string + claims)" where
  "VerifyRefresh L hashToken j token now =
     (case ParseWithClaims L (token_key j) tokenIssuer refreshTokenAudience now token of
        Inl err \<Rightarrow> (j, Inl err)
      | Inr (c, valid) \<Rightarrow>
          if \<not> valid then (j, Inl ''invalid refresh token'')
          else (case isRevoked hashToken j token now of
                  (j', True) \<Rightarrow> (j', Inl ''refresh token has been revoked'')
                | (j', False) \<Rightarrow> (j', Inr c)))"

definition Verify ::
    "jwt_lib \<Rightarrow> (string \<Rightarrow> string) \<Rightarrow> jwt_service \<Rightarrow> string \<Rightarrow> gotime \<Rightarrow> jwt_service \<times> (string + claims)" where
  "Verify L hashToken j token now =
     (case ParseWithClaims L (token_key j) tokenIssuer tokenAudience now token of
        Inl err \<Rightarrow> (j, Inl err)
      | Inr (c, valid) \<Rightarrow>
          if \<not> valid then (j, Inl ''invalid token'')
          else (case isRevoked hashToken j token now of
                  (j', True) \<Rightarrow> (j', Inl ''token has been revoked'')
                | (j', False) \<Rightarrow> (j', Inr c)))"

subsection \<open>What the library promises\<close>

text \<open>A parsed token is unexpired, not issued in the future, and has the issuer and the audience
  that were asked for.\<close>

definition jwt_validates :: "jwt_lib \<Rightarrow> bool" where
  "jwt_validates L \<longleftrightarrow> (\<forall>kf iss aud now token c valid.
     ParseWithClaims L kf iss aud now token = Inr (c, valid) \<longrightarrow>
     now < c_ExpiresAt c \<and> c_IssuedAt c \<le> now \<and> c_Issuer c = iss \<and> aud \<in> set (c_Audience c))"

text \<open>Parsing a signed token gives back the claims it was signed with, and NumericDate rounds down.\<close>

definition jwt_decodes :: "jwt_lib \<Rightarrow> bool" where
  "jwt_decodes L \<longleftrightarrow> (\<forall>t. NewNumericDate L t \<le> t) \<and>
     (\<forall>key kid c token kf iss aud now c' valid.
        SignedString L key kid c = Inr token \<longrightarrow>
        ParseWithClaims L kf iss aud now token = Inr (c', valid) \<longrightarrow> c' = c)"

text \<open>A token signed with a key is accepted under that key, while its claims are valid.\<close>

definition jwt_accepts :: "jwt_lib \<Rightarrow> bool" where
  "jwt_accepts L \<longleftrightarrow> (\<forall>key kid c token kf iss aud now.
     SignedString L key kid c = Inr token \<longrightarrow>
     kf \<lparr>h_method = SigningMethodHMAC, h_kid = Some kid\<rparr> = Inr key \<longrightarrow>
     now < c_ExpiresAt c \<longrightarrow> c_IssuedAt c \<le> now \<longrightarrow> c_Issuer c = iss \<longrightarrow> aud \<in> set (c_Audience c) \<longrightarrow>
     ParseWithClaims L kf iss aud now token = Inr (c, True))"

lemma audiences_differ: "tokenAudience \<noteq> refreshTokenAudience"
  by (simp add: tokenAudience_def refreshTokenAudience_def)

lemma token_key_own [simp]: "token_key j \<lparr>h_method = SigningMethodHMAC, h_kid = Some tokenKeyID\<rparr> = Inr (secret j)"
  by (simp add: token_key_def)

lemma isRevoked_iff: "snd (isRevoked hashToken j token now) \<longleftrightarrow> (\<exists>e. blocklist j (hashToken token) = Some e \<and> now \<le> e)"
  by (auto simp: isRevoked_def look_revoked_def Let_def split: option.split)

lemma Verify_result:
  "snd (Verify L hashToken j token now) = Inr c \<longleftrightarrow>
     ParseWithClaims L (token_key j) tokenIssuer tokenAudience now token = Inr (c, True) \<and>
     \<not> snd (isRevoked hashToken j token now)"
  by (auto simp: Verify_def split: sum.split prod.split bool.split)

lemma VerifyRefresh_result:
  "snd (VerifyRefresh L hashToken j token now) = Inr c \<longleftrightarrow>
     ParseWithClaims L (token_key j) tokenIssuer refreshTokenAudience now token = Inr (c, True) \<and>
     \<not> snd (isRevoked hashToken j token now)"
  by (auto simp: VerifyRefresh_def split: sum.split prod.split bool.split)

text \<open>A token the service signed with claims \<open>c\<close>: what parsing it can give, and when it must
  succeed.\<close>

lemma signed_parses_as:
  assumes "jwt_validates L" "jwt_decodes L" "SignedString L key kid c = Inr token"
    and "ParseWithClaims L kf iss aud now token = Inr (c', v)"
  shows "c' = c \<and> now < c_ExpiresAt c \<and> aud \<in> set (c_Audience c)"
proof -
  have "c' = c"
    using assms(2,3,4) unfolding jwt_decodes_def by blast
  then show ?thesis
    using assms(1,4) unfolding jwt_validates_def by blast
qed

lemma signed_is_accepted:
  assumes "jwt_accepts L" "SignedString L (secret j) tokenKeyID c = Inr token" "secret j' = secret j"
    and "now < c_ExpiresAt c" "c_IssuedAt c \<le> now" "c_Issuer c = tokenIssuer" "aud \<in> set (c_Audience c)"
  shows "ParseWithClaims L (token_key j') tokenIssuer aud now token = Inr (c, True)"
proof -
  have "token_key j' \<lparr>h_method = SigningMethodHMAC, h_kid = Some tokenKeyID\<rparr> = Inr (secret j)"
    by (simp add: assms(3))
  then show ?thesis
    using assms unfolding jwt_accepts_def by blast
qed

lemma Sign_signed:
  "Sign L j t0 user ws admin groups prov = Inr (token, expiry) \<Longrightarrow>
   SignedString L (secret j) tokenKeyID
     \<lparr>c_UserID = user, c_WorkspaceID = ws, c_IsAdmin = admin, c_Groups = groups, c_Provider = prov,
      c_ExpiresAt = NewNumericDate L (t0 + TokenTTL), c_IssuedAt = NewNumericDate L t0,
      c_Issuer = tokenIssuer, c_Audience = [tokenAudience]\<rparr> = Inr token"
  by (auto simp: Sign_def Let_def split: sum.splits)

lemma SignRefresh_signed:
  "SignRefresh L j t0 user ws admin prov = Inr (token, expiry) \<Longrightarrow>
   SignedString L (secret j) tokenKeyID
     \<lparr>c_UserID = user, c_WorkspaceID = ws, c_IsAdmin = admin, c_Groups = [], c_Provider = prov,
      c_ExpiresAt = NewNumericDate L (t0 + RefreshTokenTTL), c_IssuedAt = NewNumericDate L t0,
      c_Issuer = tokenIssuer, c_Audience = [refreshTokenAudience]\<rparr> = Inr token"
  by (auto simp: SignRefresh_def Let_def split: sum.splits)

text \<open>Sessions come back as they were issued.  An access token signed at \<open>t0\<close> is accepted by
  the service with the same secret exactly while it is unrevoked and its 72 hours (rounded down by
  the library) are not over, with exactly the user, workspace, role, groups and provider it was
  signed for; and it is never accepted as a refresh token.\<close>

theorem access_token_roundtrip:
  assumes "jwt_validates L" "jwt_decodes L" "jwt_accepts L"
    and "Sign L j t0 user ws admin groups prov = Inr (token, expiry)"
    and "secret j' = secret j" "t0 \<le> now"
  shows "(case snd (Verify L hashToken j' token now) of
            Inr c \<Rightarrow> now < NewNumericDate L (t0 + 72 * hour) \<and> \<not> snd (isRevoked hashToken j' token now) \<and>
              c_UserID c = user \<and> c_WorkspaceID c = ws \<and> c_IsAdmin c = admin \<and> c_Groups c = groups \<and> c_Provider c = prov
          | Inl err \<Rightarrow> NewNumericDate L (t0 + 72 * hour) \<le> now \<or> snd (isRevoked hashToken j' token now)) \<and>
    (\<forall>c. snd (VerifyRefresh L hashToken j' token now) \<noteq> Inr c)"
proof -
  define c where "c = \<lparr>c_UserID = user, c_WorkspaceID = ws, c_IsAdmin = admin, c_Groups = groups,
    c_Provider = prov, c_ExpiresAt = NewNumericDate L (t0 + TokenTTL), c_IssuedAt = NewNumericDate L t0,
    c_Issuer = tokenIssuer, c_Audience = [tokenAudience]\<rparr>"
  have signed: "SignedString L (secret j) tokenKeyID c = Inr token"
    using Sign_signed [OF assms(4)] by (simp add: c_def)
  have issued: "NewNumericDate L t0 \<le> now"
    using assms(2,6) unfolding jwt_decodes_def by (meson order_trans)
  have good: "now < NewNumericDate L (t0 + TokenTTL) \<and> \<not> snd (isRevoked hashToken j' token now) \<and> c' = c"
    if "snd (Verify L hashToken j' token now) = Inr c'" for c'
    using that signed_parses_as [OF assms(1,2) signed, of "token_key j'" tokenIssuer tokenAudience now c' True]
    unfolding Verify_result by (simp add: c_def)
  have bad: "NewNumericDate L (t0 + TokenTTL) \<le> now \<or> snd (isRevoked hashToken j' token now)"
    if "snd (Verify L hashToken j' token now) = Inl e" for e
  proof (rule ccontr)
    assume "\<not> ?thesis"
    then have "snd (Verify L hashToken j' token now) = Inr c"
      unfolding Verify_result using issued
      by (intro conjI signed_is_accepted [OF assms(3) signed assms(5)]) (simp_all add: c_def)
    then show False using that by simp
  qed
  have "snd (VerifyRefresh L hashToken j' token now) \<noteq> Inr c'" for c'
    unfolding VerifyRefresh_result
    using signed_parses_as [OF assms(1,2) signed, of "token_key j'" tokenIssuer refreshTokenAudience now c' True]
      audiences_differ by (auto simp: c_def)
  then show ?thesis
    using good bad by (auto simp: TokenTTL_def c_def split: sum.split)
qed

text \<open>A library for the examples: it knows a table of tokens with their claims, all signed with the
  key \<open>s\<close>, and checks them the way the JWT library does.\<close>

definition table_jwt :: "(string \<times> claims) list \<Rightarrow> jwt_lib" where
  "table_jwt tbl = \<lparr>
     SignedString = (\<lambda>key kid c. case find (\<lambda>(token, c'). c' = c \<and> key = ''s'' \<and> kid = tokenKeyID) tbl of
        Some (token, _) \<Rightarrow> Inr token | None \<Rightarrow> Inl ''not in the table''),
     ParseWithClaims = (\<lambda>kf iss aud now token.
        case (kf \<lparr>h_method = SigningMethodHMAC, h_kid = Some tokenKeyID\<rparr>, map_of tbl token) of
          (Inr key, Some c) \<Rightarrow>
            if key = ''s'' \<and> now < c_ExpiresAt c \<and> c_IssuedAt c \<le> now \<and> c_Issuer c = iss \<and> aud \<in> set (c_Audience c)
            then Inr (c, True) else Inl ''token is not valid''
        | _ \<Rightarrow> Inl ''token is malformed''),
     NewNumericDate = (\<lambda>t. t div second * second)\<rparr>"

lemma table_signed:
  assumes "distinct (map fst tbl)" "SignedString (table_jwt tbl) key kid c = Inr token"
  shows "key = ''s'' \<and> kid = tokenKeyID \<and> map_of tbl token = Some c"
proof -
  obtain p where p: "find (\<lambda>(token, c'). c' = c \<and> key = ''s'' \<and> kid = tokenKeyID) tbl = Some p" "fst p = token"
    using assms(2) by (auto simp: table_jwt_def split: option.splits)
  then have "p \<in> set tbl \<and> snd p = c \<and> key = ''s'' \<and> kid = tokenKeyID"
    by (auto simp: find_Some_iff in_set_conv_nth)
  then show ?thesis
    using p(2) map_of_is_SomeI [OF assms(1), of token c] by (metis prod.collapse)
qed

lemma table_parsed:
  "ParseWithClaims (table_jwt tbl) kf iss aud now token = Inr (c, v) \<longleftrightarrow>
     v \<and> kf \<lparr>h_method = SigningMethodHMAC, h_kid = Some tokenKeyID\<rparr> = Inr ''s'' \<and> map_of tbl token = Some c \<and>
     now < c_ExpiresAt c \<and> c_IssuedAt c \<le> now \<and> c_Issuer c = iss \<and> aud \<in> set (c_Audience c)"
  by (auto simp: table_jwt_def split: sum.split option.split)

lemma table_jwt_laws:
  assumes "distinct (map fst tbl)"
  shows "jwt_validates (table_jwt tbl)" "jwt_decodes (table_jwt tbl)" "jwt_accepts (table_jwt tbl)"
proof -
  show "jwt_validates (table_jwt tbl)"
    unfolding jwt_validates_def table_parsed by blast
  have "NewNumericDate (table_jwt tbl) t \<le> t" for t
    by (simp add: table_jwt_def minus_mod_eq_div_mult [symmetric])
  then show "jwt_decodes (table_jwt tbl)"
    unfolding jwt_decodes_def table_parsed using table_signed [OF assms] by (metis option.inject)
  show "jwt_accepts (table_jwt tbl)"
    unfolding jwt_accepts_def table_parsed using table_signed [OF assms] by (metis (no_types, lifting))
qed

definition demo_claims :: "duration \<Rightarrow> string \<Rightarrow> claims" where
  "demo_claims ttl aud =
     \<lparr>c_UserID = ''u1'', c_WorkspaceID = ''w1'', c_IsAdmin = False, c_Groups = [], c_Provider = ''password'',
      c_ExpiresAt = ttl, c_IssuedAt = 0, c_Issuer = tokenIssuer, c_Audience = [aud]\<rparr>"

definition demo_jwt :: jwt_lib where
  "demo_jwt = table_jwt [(''access'', demo_claims TokenTTL tokenAudience),
                         (''refresh'', demo_claims RefreshTokenTTL refreshTokenAudience)]"

lemmas demo_jwt_laws = table_jwt_laws [of "[(''access'', demo_claims TokenTTL tokenAudience),
    (''refresh'', demo_claims RefreshTokenTTL refreshTokenAudience)]", folded demo_jwt_def, simplified]

lemma demo_signs:
  "Sign demo_jwt (NewJWT ''s'') 0 ''u1'' ''w1'' False [] ''password'' = Inr (''access'', 72 * hour)"
  "SignRefresh demo_jwt (NewJWT ''s'') 0 ''u1'' ''w1'' False ''password'' = Inr (''refresh'', 7 * 24 * hour)"
  by (simp_all add: Sign_def SignRefresh_def demo_jwt_def table_jwt_def demo_claims_def NewJWT_def Let_def
      TokenTTL_def RefreshTokenTTL_def tokenAudience_def refreshTokenAudience_def)

theorem access_token_roundtrip_witness:
  "(case snd (Verify demo_jwt (\<lambda>t. t) (NewJWT ''s'') ''access'' (hour)) of
      Inr c \<Rightarrow> c_UserID c = ''u1'' \<and> c_WorkspaceID c = ''w1'' | Inl e \<Rightarrow> False) \<and>
   (\<forall>c. snd (VerifyRefresh demo_jwt (\<lambda>t. t) (NewJWT ''s'') ''access'' hour) \<noteq> Inr c)"
proof -
  have "\<not> snd (isRevoked (\<lambda>t. t) (NewJWT ''s'') ''access'' hour)"
    by (simp add: isRevoked_iff NewJWT_def)
  moreover have "NewNumericDate demo_jwt (0 + 72 * hour) = 72 * hour"
    by (simp add: demo_jwt_def table_jwt_def)
  ultimately show ?thesis
    using access_token_roundtrip [OF demo_jwt_laws demo_signs(1), of "NewJWT ''s''" hour "\<lambda>t. t"]
    by (auto split: sum.splits)
qed

subsection \<open>The session middleware\<close>

definition bearer_prefix :: string where
  "bearer_prefix = ''Bearer ''"

definition tokenFromRequest :: "string \<Rightarrow> string \<Rightarrow> bool \<Rightarrow> string option" where
  "tokenFromRequest authorization query_token allowQueryToken =
     (let bearer = TrimSpace authorization;
          token = TrimSpace (TrimPrefix bearer bearer_prefix);
          query = TrimSpace query_token in
      if HasPrefix bearer bearer_prefix \<and> token \<noteq> [] then Some token
      else if \<not> allowQueryToken then None
      else if query = [] then None else Some query)"

text \<open>What the middleware does with a request: hand it on, with the session it found if any, or
  answer it with an error.\<close>

datatype session_outcome =
    Next "claims option"
  | SessionError int string

record verify_options =
  AllowQueryToken :: bool
  Optional :: bool

definition withSession ::
    "jwt_lib \<Rightarrow> (string \<Rightarrow> string) \<Rightarrow> jwt_service \<Rightarrow> verify_options \<Rightarrow> claims option \<Rightarrow> string \<Rightarrow> string \<Rightarrow> gotime
      \<Rightarrow> jwt_service \<times> session_outcome" where
  "withSession L hashToken j options in_context authorization query_token now =
     (case in_context of
        Some c \<Rightarrow> (j, Next (Some c))
      | None \<Rightarrow>
          (case tokenFromRequest authorization query_token (AllowQueryToken options) of
             None \<Rightarrow> (j, if Optional options then Next None else SessionError 401 ''Sign in required.'')
           | Some token \<Rightarrow>
               (case Verify L hashToken j token now of
                  (j', Inl err) \<Rightarrow>
                    (j', if Optional options then Next None else SessionError 401 ''Session expired or invalid.'')
                | (j', Inr c) \<Rightarrow> (j', Next (Some c)))))"

definition PopulateSession ::
    "jwt_lib \<Rightarrow> (string \<Rightarrow> string) \<Rightarrow> jwt_service \<Rightarrow> verify_options \<Rightarrow> claims option \<Rightarrow> string \<Rightarrow> string \<Rightarrow> gotime
      \<Rightarrow> jwt_service \<times> session_outcome" where
  "PopulateSession L hashToken j options = withSession L hashToken j (options\<lparr>Optional := True\<rparr>)"

definition RequireSession ::
    "jwt_lib \<Rightarrow> (string \<Rightarrow> string) \<Rightarrow> jwt_service \<Rightarrow> verify_options \<Rightarrow> claims option \<Rightarrow> string \<Rightarrow> string \<Rightarrow> gotime
      \<Rightarrow> jwt_service \<times> session_outcome" where
  "RequireSession L hashToken j options = withSession L hashToken j (options\<lparr>Optional := False\<rparr>)"

definition RequireAdmin ::
    "jwt_lib \<Rightarrow> (string \<Rightarrow> string) \<Rightarrow> jwt_service \<Rightarrow> claims option \<Rightarrow> string \<Rightarrow> string \<Rightarrow> gotime
      \<Rightarrow> jwt_service \<times> session_outcome" where
  "RequireAdmin L hashToken j in_context authorization query_token now =
     (case RequireSession L hashToken j \<lparr>AllowQueryToken = False, Optional = False\<rparr> in_context authorization query_token now of
        (j', Next (Some c)) \<Rightarrow> (j', if c_IsAdmin c then Next (Some c) else SessionError 403 ''Admin access required.'')
      | (j', Next None) \<Rightarrow> (j', SessionError 403 ''Admin access required.'')
      | (j', SessionError status msg) \<Rightarrow> (j', SessionError status msg))"

text \<open>\<^verbatim>\<open>signOut\<close> of handler.go, behind \<^verbatim>\<open>RequireSession\<close>: it revokes the token of the
  Authorization header.\<close>

definition signOut :: "(string \<Rightarrow> string) \<Rightarrow> jwt_service \<Rightarrow> string \<Rightarrow> gotime \<Rightarrow> gotime \<Rightarrow> jwt_service" where
  "signOut hashToken j authorization now prune_now =
     (let bearer = TrimSpace (TrimPrefix authorization bearer_prefix) in
      if bearer \<noteq> [] then Revoke hashToken j bearer now prune_now else j)"

subsection \<open>Revocation under interleaving\<close>

text \<open>The service as requests run on it in any order: the clock moves on, tokens are revoked, and a
  look-up that finds an expired entry comes back later, at any point, to delete it.\<close>

record revocation_run =
  rv_service :: jwt_service
  rv_clock :: gotime
  rv_drops :: "string list"

inductive revocation_step :: "(string \<Rightarrow> string) \<Rightarrow> revocation_run \<Rightarrow> revocation_run \<Rightarrow> bool"
  for hashToken :: "string \<Rightarrow> string" where
  clock_moves: "rv_clock r \<le> now \<Longrightarrow> revocation_step hashToken r (r\<lparr>rv_clock := now\<rparr>)"
| revokes: "rv_clock r \<le> now \<Longrightarrow> now \<le> prune_now \<Longrightarrow>
    revocation_step hashToken r
      (r\<lparr>rv_service := Revoke hashToken (rv_service r) token now prune_now, rv_clock := prune_now\<rparr>)"
| looks: "rv_clock r \<le> now \<Longrightarrow> look_revoked (rv_service r) h = Some exp \<Longrightarrow> now > exp \<Longrightarrow>
    revocation_step hashToken r (r\<lparr>rv_clock := now, rv_drops := h # rv_drops r\<rparr>)"
| drops: "h \<in> set (rv_drops r) \<Longrightarrow>
    revocation_step hashToken r
      (r\<lparr>rv_service := drop_revoked (rv_service r) h, rv_drops := remove1 h (rv_drops r)\<rparr>)"

definition outlives :: "string \<Rightarrow> gotime \<Rightarrow> revocation_run \<Rightarrow> bool" where
  "outlives h limit r \<longleftrightarrow>
     (\<forall>e. blocklist (rv_service r) h = Some e \<longrightarrow> limit \<le> e) \<and> (h \<in> set (rv_drops r) \<longrightarrow> limit < rv_clock r)"

definition kept_out :: "string \<Rightarrow> gotime \<Rightarrow> revocation_run \<Rightarrow> bool" where
  "kept_out h limit r \<longleftrightarrow> outlives h limit r \<and> (blocklist (rv_service r) h \<noteq> None \<or> limit < rv_clock r)"

lemma revocation_clock: "revocation_step hashToken r r' \<Longrightarrow> rv_clock r \<le> rv_clock r'"
  by (auto elim: revocation_step.cases)

lemma revoked_entry:
  "blocklist (Revoke hashToken j token now prune_now) h =
     (let e = if h = hashToken token then Some (now + RefreshTokenTTL) else blocklist j h in
      case e of None \<Rightarrow> None | Some t \<Rightarrow> if prune_now > t then None else Some t)"
  by (simp add: Revoke_def pruneExpiredLocked_def Let_def)

lemma outlives_step:
  assumes "revocation_step hashToken r r'" "outlives h limit r" "limit \<le> rv_clock r + RefreshTokenTTL"
  shows "outlives h limit r'"
  using assms
proof cases
  case (revokes now prune_now token)
  then show ?thesis
    using assms(2,3) by (auto simp: outlives_def revoked_entry Let_def split: option.splits if_splits)
next
  case (looks now h' exp)
  then show ?thesis
    using assms(2) by (auto simp: outlives_def look_revoked_def)
next
  case (drops h')
  then show ?thesis
    using assms(2) by (auto simp: outlives_def drop_revoked_def dest: notin_set_remove1)
qed (auto simp: outlives_def)

lemma kept_out_step:
  assumes "revocation_step hashToken r r'" "kept_out h limit r" "limit \<le> rv_clock r + RefreshTokenTTL"
  shows "kept_out h limit r'"
proof -
  have o: "outlives h limit r'"
    using outlives_step assms unfolding kept_out_def by blast
  from assms(1) have "blocklist (rv_service r') h \<noteq> None \<or> limit < rv_clock r'"
  proof cases
    case (revokes now prune_now token)
    then show ?thesis
      using assms(2,3) by (auto simp: kept_out_def outlives_def revoked_entry Let_def)
  next
    case (drops h')
    then show ?thesis
      using assms(2) by (auto simp: kept_out_def outlives_def drop_revoked_def)
  qed (use assms(2) in \<open>auto simp: kept_out_def\<close>)
  then show ?thesis
    using o by (simp add: kept_out_def)
qed

lemma outlives_run:
  assumes "(revocation_step hashToken)\<^sup>*\<^sup>* r r'" "outlives h limit r" "limit \<le> rv_clock r + RefreshTokenTTL"
  shows "outlives h limit r' \<and> rv_clock r \<le> rv_clock r'"
  using assms
proof (induction rule: rtranclp_induct)
  case (step r1 r2)
  then show ?case
    using outlives_step [of hashToken r1 r2] revocation_clock [of hashToken r1 r2] by auto
qed simp

lemma kept_out_run:
  assumes "(revocation_step hashToken)\<^sup>*\<^sup>* r r'" "kept_out h limit r" "limit \<le> rv_clock r + RefreshTokenTTL"
  shows "kept_out h limit r' \<and> rv_clock r \<le> rv_clock r'"
  using assms
proof (induction rule: rtranclp_induct)
  case (step r1 r2)
  then show ?case
    using kept_out_step [of hashToken r1 r2] revocation_clock [of hashToken r1 r2] by auto
qed simp

lemma kept_out_revoke:
  assumes "outlives (hashToken token) limit r" "limit \<le> rv_clock r + RefreshTokenTTL"
    and "rv_clock r \<le> now" "now \<le> prune_now"
  shows "kept_out (hashToken token) limit
    (r\<lparr>rv_service := Revoke hashToken (rv_service r) token now prune_now, rv_clock := prune_now\<rparr>)"
  using assms by (auto simp: kept_out_def outlives_def revoked_entry Let_def)

lemma kept_out_rejected:
  assumes "jwt_validates L" "jwt_decodes L" "SignedString L key kid c = Inr token" "c_ExpiresAt c \<le> limit"
    and "kept_out (hashToken token) limit r" "rv_clock r \<le> now"
  shows "snd (Verify L hashToken (rv_service r) token now) \<noteq> Inr c'"
    and "snd (VerifyRefresh L hashToken (rv_service r) token now) \<noteq> Inr c'"
proof -
  have "snd (isRevoked hashToken (rv_service r) token now)"
    if "ParseWithClaims L kf iss aud now token = Inr (c', True)" for kf iss aud
    using signed_parses_as [OF assms(1-3) that] assms(4-6) unfolding isRevoked_iff kept_out_def outlives_def
    by (metis less_le_trans not_None_eq order.strict_implies_order order_less_irrefl order_le_less_trans)
  then show "snd (Verify L hashToken (rv_service r) token now) \<noteq> Inr c'"
    "snd (VerifyRefresh L hashToken (rv_service r) token now) \<noteq> Inr c'"
    unfolding Verify_result VerifyRefresh_result by blast+
qed

lemma numeric_date_le: "jwt_decodes L \<Longrightarrow> NewNumericDate L t \<le> t"
  by (simp add: jwt_decodes_def)

lemma signOut_revokes:
  assumes "TrimSpace header = header" "tokenFromRequest header query False = Some token"
  shows "signOut hashToken j header now prune_now = Revoke hashToken j token now prune_now"
  using assms by (auto simp: signOut_def tokenFromRequest_def Let_def split: if_splits)

lemma RequireSession_rejects:
  assumes "tokenFromRequest header query (AllowQueryToken options) = Some token"
    and "\<And>c. snd (Verify L hashToken j token now) \<noteq> Inr c"
  shows "snd (RequireSession L hashToken j options None header query now) =
    SessionError 401 ''Session expired or invalid.''"
proof (cases "Verify L hashToken j token now")
  case (Pair j' res)
  then show ?thesis
    using assms by (cases res) (auto simp: RequireSession_def withSession_def)
qed

text \<open>C25. Signing out ends the session.  Once a request has signed out with the bearer token of its
  Authorization header, no request with that header is let through any more, whatever else happens
  to the service in between: other tokens being revoked, expired revocations being pruned, and
  look-ups that decided to delete an expired entry coming back late.  The revocation is forgotten
  only after the token's own life is over, because it is kept for seven days and no token lives
  longer.  (A header with blanks around it never reaches the handlers: Go's server trims header
  values.)\<close>

theorem signed_out_stays_out:
  assumes lib: "jwt_validates L" "jwt_decodes L"
    and signed: "Sign L j t0 user ws admin groups prov = Inr (token, expiry)"
    and fresh: "t0 \<le> rv_clock r0" "blocklist (rv_service r0) (hashToken token) = None"
      "hashToken token \<notin> set (rv_drops r0)"
    and before: "(revocation_step hashToken)\<^sup>*\<^sup>* r0 r1"
    and header: "TrimSpace header = header" "tokenFromRequest header query False = Some token"
    and out: "rv_clock r1 \<le> now1" "now1 \<le> prune_now"
      "r2 = r1\<lparr>rv_service := signOut hashToken (rv_service r1) header now1 prune_now, rv_clock := prune_now\<rparr>"
    and after: "(revocation_step hashToken)\<^sup>*\<^sup>* r2 r3" "rv_clock r3 \<le> now"
  shows "snd (RequireSession L hashToken (rv_service r3) \<lparr>AllowQueryToken = False, Optional = False\<rparr> None header query now) =
    SessionError 401 ''Session expired or invalid.''"
proof -
  let ?limit = "t0 + TokenTTL" and ?h = "hashToken token"
  have ttl: "?limit \<le> rv_clock r0 + RefreshTokenTTL"
    using fresh(1) by (simp add: TokenTTL_def RefreshTokenTTL_def)
  have "outlives ?h ?limit r0"
    using fresh by (simp add: outlives_def)
  then have r1: "outlives ?h ?limit r1" "rv_clock r0 \<le> rv_clock r1"
    using outlives_run before ttl by blast+
  have "kept_out ?h ?limit r2"
    using kept_out_revoke [of hashToken token ?limit r1 now1 prune_now] r1 out ttl
    by (simp add: signOut_revokes [OF header])
  moreover have "?limit \<le> rv_clock r2 + RefreshTokenTTL"
    using ttl r1(2) out by simp
  ultimately have r3: "kept_out ?h ?limit r3"
    using kept_out_run after(1) by blast
  show ?thesis
  proof (rule RequireSession_rejects)
    show "tokenFromRequest header query (AllowQueryToken \<lparr>AllowQueryToken = False, Optional = False\<rparr>) = Some token"
      using header(2) by simp
    show "snd (Verify L hashToken (rv_service r3) token now) \<noteq> Inr c" for c
      using kept_out_rejected(1) [OF lib Sign_signed [OF signed], of ?limit hashToken r3 now c] r3 after(2)
        numeric_date_le [OF lib(2)] by simp
  qed
qed

theorem signed_out_stays_out_witness:
  "snd (RequireSession demo_jwt (\<lambda>t. t)
     (signOut (\<lambda>t. t) (NewJWT ''s'') ''Bearer access'' hour hour)
     \<lparr>AllowQueryToken = False, Optional = False\<rparr> None ''Bearer access'' [] (2 * hour)) =
   SessionError 401 ''Session expired or invalid.''"
proof -
  define r where "r = \<lparr>rv_service = NewJWT ''s'', rv_clock = 0, rv_drops = []\<rparr>"
  have header: "TrimSpace ''Bearer access'' = ''Bearer access''"
    "tokenFromRequest ''Bearer access'' [] False = Some ''access''"
    by code_simp+
  show ?thesis
    using signed_out_stays_out [OF demo_jwt_laws(1,2) demo_signs(1), of r "\<lambda>t. t" r "''Bearer access''" "[]"
        hour hour "r\<lparr>rv_service := signOut (\<lambda>t. t) (rv_service r) ''Bearer access'' hour hour, rv_clock := hour\<rparr>"
        "r\<lparr>rv_service := signOut (\<lambda>t. t) (rv_service r) ''Bearer access'' hour hour, rv_clock := hour\<rparr>" "2 * hour"] header
    by (simp add: r_def NewJWT_def)
qed

end
