(* ===== verification/User_Store.thy ===== *)
theory User_Store
  imports Go_Strings
begin

text \<open>
  The account store: the interface of internal/store/store.go, the tables behind it
  (internal/store/postgres/store.go with the constraints of migration/0001\_initial.sql) and the
  Redis cache in front of it (internal/store/cache.go with the keys of internal/cachehub/hub.go).

  The PostgreSQL server executes SQL statements; each statement of the store is translated into
  its effect on a list of rows per table, with the uniqueness and reference constraints of the
  schema deciding the error.  A connection that fails is not part of these definitions: the
  handlers of internal/auth are defined over an arbitrary record of store operations and so see
  every error.  Redis answers when it likes: the hub carries sequences that say which reads are
  answered and which writes and deletions succeed.  The main result is that the cache is invisible: the
  cached store satisfies the contract of the store it wraps.
\<close>

subsection \<open>Rows and the interface\<close>

datatype store_err = ErrNotFound | ErrDuplicate | ErrConstraint

record workspace =
  WorkspaceID :: string
  Slug :: string
  w_Name :: string
  w_CreatedAt :: gotime

record user =
  UserID :: string
  u_WorkspaceID :: string
  Username :: string
  Email :: string
  FullName :: string
  IsAdmin :: bool
  PassHash :: string
  u_CreatedAt :: gotime

record favorite_package =
  f_UserID :: string
  f_PackageID :: string
  f_CreatedAt :: gotime

text \<open>The interface.  Reads return the state too, because the cached store fills its cache.\<close>

record 's store_ops =
  CreateWorkspace :: "'s \<Rightarrow> workspace \<Rightarrow> 's \<times> store_err option"
  DeleteWorkspace :: "'s \<Rightarrow> string \<Rightarrow> 's \<times> store_err option"
  GetWorkspaceByID :: "'s \<Rightarrow> string \<Rightarrow> 's \<times> (store_err + workspace)"
  GetWorkspaceBySlug :: "'s \<Rightarrow> string \<Rightarrow> 's \<times> (store_err + workspace)"
  CreateUser :: "'s \<Rightarrow> user \<Rightarrow> 's \<times> store_err option"
  GetUserByID :: "'s \<Rightarrow> string \<Rightarrow> 's \<times> (store_err + user)"
  GetUserByEmail :: "'s \<Rightarrow> string \<Rightarrow> 's \<times> (store_err + user)"
  GetUserByUsername :: "'s \<Rightarrow> string \<Rightarrow> 's \<times> (store_err + user)"
  StorePasswordResetToken :: "'s \<Rightarrow> string \<Rightarrow> string \<Rightarrow> gotime \<Rightarrow> 's \<times> store_err option"
  ConsumePasswordResetToken :: "'s \<Rightarrow> string \<Rightarrow> string \<Rightarrow> gotime \<Rightarrow> 's \<times> store_err option"
  ListFavoritePackageIDs :: "'s \<Rightarrow> string \<Rightarrow> 's \<times> (store_err + string list)"
  SaveFavoritePackage :: "'s \<Rightarrow> favorite_package \<Rightarrow> 's \<times> store_err option"
  RemoveFavoritePackage :: "'s \<Rightarrow> string \<Rightarrow> string \<Rightarrow> 's \<times> store_err option"

subsection \<open>The tables\<close>

record pg_db =
  db_workspaces :: "workspace list"
  db_users :: "user list"
  db_reset :: "(string \<times> string \<times> gotime) list"
  db_favorites :: "favorite_package list"

definition empty_db :: pg_db where
  "empty_db = \<lparr>db_workspaces = [], db_users = [], db_reset = [], db_favorites = []\<rparr>"

definition found :: "'a option \<Rightarrow> store_err + 'a" where
  "found r = (case r of None \<Rightarrow> Inl ErrNotFound | Some x \<Rightarrow> Inr x)"

definition pg_CreateWorkspace :: "pg_db \<Rightarrow> workspace \<Rightarrow> pg_db \<times> store_err option" where
  "pg_CreateWorkspace db w =
     (if \<exists>x\<in>set (db_workspaces db). WorkspaceID x = WorkspaceID w \<or> Slug x = Slug w
      then (db, Some ErrDuplicate)
      else (db\<lparr>db_workspaces := db_workspaces db @ [w]\<rparr>, None))"

definition pg_DeleteWorkspace :: "pg_db \<Rightarrow> string \<Rightarrow> pg_db \<times> store_err option" where
  "pg_DeleteWorkspace db i =
     (if \<exists>u\<in>set (db_users db). u_WorkspaceID u = i \<and> (\<exists>x\<in>set (db_workspaces db). WorkspaceID x = i)
      then (db, Some ErrConstraint)
      else (db\<lparr>db_workspaces := filter (\<lambda>x. WorkspaceID x \<noteq> i) (db_workspaces db)\<rparr>, None))"

definition pg_GetWorkspaceByID :: "pg_db \<Rightarrow> string \<Rightarrow> pg_db \<times> (store_err + workspace)" where
  "pg_GetWorkspaceByID db i = (db, found (find (\<lambda>x. WorkspaceID x = i) (db_workspaces db)))"

definition pg_GetWorkspaceBySlug :: "pg_db \<Rightarrow> string \<Rightarrow> pg_db \<times> (store_err + workspace)" where
  "pg_GetWorkspaceBySlug db slug = (db, found (find (\<lambda>x. Slug x = slug) (db_workspaces db)))"

definition pg_CreateUser :: "pg_db \<Rightarrow> user \<Rightarrow> pg_db \<times> store_err option" where
  "pg_CreateUser db u =
     (if \<exists>x\<in>set (db_users db). UserID x = UserID u \<or> Username x = Username u \<or> Email x = Email u
      then (db, Some ErrDuplicate)
      else if \<not> (\<exists>w\<in>set (db_workspaces db). WorkspaceID w = u_WorkspaceID u)
      then (db, Some ErrConstraint)
      else (db\<lparr>db_users := db_users db @ [u]\<rparr>, None))"

definition pg_GetUserByID :: "pg_db \<Rightarrow> string \<Rightarrow> pg_db \<times> (store_err + user)" where
  "pg_GetUserByID db i = (db, found (find (\<lambda>x. UserID x = i) (db_users db)))"

definition pg_GetUserByEmail :: "pg_db \<Rightarrow> string \<Rightarrow> pg_db \<times> (store_err + user)" where
  "pg_GetUserByEmail db email = (db, found (find (\<lambda>x. Email x = email) (db_users db)))"

definition pg_GetUserByUsername :: "pg_db \<Rightarrow> string \<Rightarrow> pg_db \<times> (store_err + user)" where
  "pg_GetUserByUsername db name = (db, found (find (\<lambda>x. Username x = name) (db_users db)))"

text \<open>\<^verbatim>\<open>ON CONFLICT (user_id) DO UPDATE\<close>: one reset token per user, the latest.\<close>

definition pg_StorePasswordResetToken :: "pg_db \<Rightarrow> string \<Rightarrow> string \<Rightarrow> gotime \<Rightarrow> pg_db \<times> store_err option" where
  "pg_StorePasswordResetToken db userID tokenHash expiresAt =
     (if \<exists>r\<in>set (db_reset db). fst r = userID
      then (db\<lparr>db_reset := map (\<lambda>r. if fst r = userID then (userID, tokenHash, expiresAt) else r) (db_reset db)\<rparr>, None)
      else if \<not> (\<exists>u\<in>set (db_users db). UserID u = userID) then (db, Some ErrConstraint)
      else (db\<lparr>db_reset := db_reset db @ [(userID, tokenHash, expiresAt)]\<rparr>, None))"

text \<open>\<^verbatim>\<open>DELETE .. WHERE token_hash = $1 AND expires_at > now() RETURNING user_id\<close>, then the
  update of the first user returned.\<close>

definition pg_ConsumePasswordResetToken :: "pg_db \<Rightarrow> string \<Rightarrow> string \<Rightarrow> gotime \<Rightarrow> pg_db \<times> store_err option" where
  "pg_ConsumePasswordResetToken db tokenHash newPassHash now =
     (let hits = (\<lambda>(u, h, e). h = tokenHash \<and> e > now) in
      case find hits (db_reset db) of
        None \<Rightarrow> (db, Some ErrNotFound)
      | Some (userID, _, _) \<Rightarrow>
          (db\<lparr>db_reset := filter (\<lambda>r. \<not> hits r) (db_reset db),
              db_users := map (\<lambda>u. if UserID u = userID then u\<lparr>PassHash := newPassHash\<rparr> else u) (db_users db)\<rparr>, None))"

text \<open>\<^verbatim>\<open>ORDER BY created_at DESC, package_id ASC\<close>, in the collation \<open>coll\<close> of the database.\<close>

definition favorite_before :: "(string \<Rightarrow> string \<Rightarrow> bool) \<Rightarrow> favorite_package \<Rightarrow> favorite_package \<Rightarrow> bool" where
  "favorite_before coll a b \<longleftrightarrow>
     f_CreatedAt a > f_CreatedAt b \<or> f_CreatedAt a = f_CreatedAt b \<and> coll (f_PackageID a) (f_PackageID b)"

definition user_favorites :: "(string \<Rightarrow> string \<Rightarrow> bool) \<Rightarrow> pg_db \<Rightarrow> string \<Rightarrow> string list" where
  "user_favorites coll db userID =
     filter (\<lambda>p. p \<noteq> []) (map f_PackageID
       (sort_slice (favorite_before coll) (filter (\<lambda>f. f_UserID f = userID) (db_favorites db))))"

definition pg_ListFavoritePackageIDs ::
    "(string \<Rightarrow> string \<Rightarrow> bool) \<Rightarrow> pg_db \<Rightarrow> string \<Rightarrow> pg_db \<times> (store_err + string list)" where
  "pg_ListFavoritePackageIDs coll db userID = (db, Inr (user_favorites coll db userID))"

definition pg_SaveFavoritePackage :: "pg_db \<Rightarrow> favorite_package \<Rightarrow> pg_db \<times> store_err option" where
  "pg_SaveFavoritePackage db f =
     (if \<exists>x\<in>set (db_favorites db). f_UserID x = f_UserID f \<and> f_PackageID x = f_PackageID f then (db, None)
      else if \<not> (\<exists>u\<in>set (db_users db). UserID u = f_UserID f) then (db, Some ErrConstraint)
      else (db\<lparr>db_favorites := db_favorites db @ [f]\<rparr>, None))"

definition pg_RemoveFavoritePackage :: "pg_db \<Rightarrow> string \<Rightarrow> string \<Rightarrow> pg_db \<times> store_err option" where
  "pg_RemoveFavoritePackage db userID packageID =
     (db\<lparr>db_favorites := filter (\<lambda>f. \<not> (f_UserID f = userID \<and> f_PackageID f = packageID)) (db_favorites db)\<rparr>, None)"

definition pg_store :: "(string \<Rightarrow> string \<Rightarrow> bool) \<Rightarrow> pg_db store_ops" where
  "pg_store coll = \<lparr>
     CreateWorkspace = pg_CreateWorkspace, DeleteWorkspace = pg_DeleteWorkspace,
     GetWorkspaceByID = pg_GetWorkspaceByID, GetWorkspaceBySlug = pg_GetWorkspaceBySlug,
     CreateUser = pg_CreateUser, GetUserByID = pg_GetUserByID, GetUserByEmail = pg_GetUserByEmail,
     GetUserByUsername = pg_GetUserByUsername,
     StorePasswordResetToken = pg_StorePasswordResetToken,
     ConsumePasswordResetToken = pg_ConsumePasswordResetToken,
     ListFavoritePackageIDs = pg_ListFavoritePackageIDs coll,
     SaveFavoritePackage = pg_SaveFavoritePackage, RemoveFavoritePackage = pg_RemoveFavoritePackage\<rparr>"

subsection \<open>The cache\<close>

datatype cached_value = CachedWorkspace workspace | CachedFavorites "string list"

text \<open>The hub: what Redis holds, which reads it answers (a miss, an expired key and an error look
  the same to the store), and which writes and deletions reach it.\<close>

record redis_hub =
  hub_prefix :: string
  hub_entries :: "string \<rightharpoonup> cached_value"
  hub_reads :: "nat \<Rightarrow> bool"
  hub_sets :: "nat \<Rightarrow> bool"
  hub_dels :: "nat \<Rightarrow> bool"
  hub_clock :: nat

record 's cached =
  base :: 's
  chub :: redis_hub

definition hub_Key :: "string list \<Rightarrow> string" where
  "hub_Key parts = Join (filter (\<lambda>p. p \<noteq> []) (map TrimSpace parts)) '':''"

definition hub_compose :: "redis_hub \<Rightarrow> string \<Rightarrow> string" where
  "hub_compose h key = (if hub_prefix h = [] then key else hub_prefix h @ '':'' @ key)"

definition workspaceIDKey :: "string \<Rightarrow> string" where
  "workspaceIDKey i = hub_Key [''workspace'', ''id'', i]"

definition workspaceSlugKey :: "string \<Rightarrow> string" where
  "workspaceSlugKey slug = hub_Key [''workspace'', ''slug'', slug]"

definition favoritesKey :: "string \<Rightarrow> string" where
  "favoritesKey userID = hub_Key [''favorites'', ''user'', userID]"

definition hub_Remove :: "redis_hub \<Rightarrow> string \<Rightarrow> redis_hub" where
  "hub_Remove h key =
     (let h' = h\<lparr>hub_clock := hub_clock h + 1\<rparr> in
      if hub_dels h (hub_clock h) then h'\<lparr>hub_entries := (hub_entries h)(hub_compose h key := None)\<rparr> else h')"

definition hub_WriteJSON :: "redis_hub \<Rightarrow> string \<Rightarrow> cached_value \<Rightarrow> redis_hub" where
  "hub_WriteJSON h key v =
     (let h' = h\<lparr>hub_clock := hub_clock h + 1\<rparr> in
      if hub_sets h (hub_clock h) then h'\<lparr>hub_entries := (hub_entries h)(hub_compose h key \<mapsto> v)\<rparr> else h')"

text \<open>A payload of the other shape does not unmarshal; the key is deleted and the read is a miss.\<close>

definition hub_ReadWorkspace :: "redis_hub \<Rightarrow> string \<Rightarrow> redis_hub \<times> workspace option" where
  "hub_ReadWorkspace h key =
     (let h' = h\<lparr>hub_clock := hub_clock h + 1\<rparr> in
      if \<not> hub_reads h (hub_clock h) then (h', None)
      else (case hub_entries h (hub_compose h key) of
              None \<Rightarrow> (h', None)
            | Some (CachedWorkspace w) \<Rightarrow> (h', Some w)
            | Some (CachedFavorites _) \<Rightarrow> (hub_Remove h' key, None)))"

definition hub_ReadFavorites :: "redis_hub \<Rightarrow> string \<Rightarrow> redis_hub \<times> string list option" where
  "hub_ReadFavorites h key =
     (let h' = h\<lparr>hub_clock := hub_clock h + 1\<rparr> in
      if \<not> hub_reads h (hub_clock h) then (h', None)
      else (case hub_entries h (hub_compose h key) of
              None \<Rightarrow> (h', None)
            | Some (CachedFavorites ids) \<Rightarrow> (h', Some ids)
            | Some (CachedWorkspace _) \<Rightarrow> (hub_Remove h' key, None)))"

definition cacheWorkspace :: "redis_hub \<Rightarrow> workspace \<Rightarrow> redis_hub" where
  "cacheWorkspace h w =
     hub_WriteJSON (hub_WriteJSON h (workspaceIDKey (WorkspaceID w)) (CachedWorkspace w))
       (workspaceSlugKey (Slug w)) (CachedWorkspace w)"

definition cached_CreateWorkspace :: "'s store_ops \<Rightarrow> 's cached \<Rightarrow> workspace \<Rightarrow> 's cached \<times> store_err option" where
  "cached_CreateWorkspace st c w =
     (case CreateWorkspace st (base c) w of
        (b, Some err) \<Rightarrow> (c\<lparr>base := b\<rparr>, Some err)
      | (b, None) \<Rightarrow> (\<lparr>base = b, chub = cacheWorkspace (chub c) w\<rparr>, None))"

definition cached_GetWorkspaceByID :: "'s store_ops \<Rightarrow> 's cached \<Rightarrow> string \<Rightarrow> 's cached \<times> (store_err + workspace)" where
  "cached_GetWorkspaceByID st c i =
     (case hub_ReadWorkspace (chub c) (workspaceIDKey i) of
        (h, Some w) \<Rightarrow> (c\<lparr>chub := h\<rparr>, Inr w)
      | (h, None) \<Rightarrow>
          (case GetWorkspaceByID st (base c) i of
             (b, Inl err) \<Rightarrow> (\<lparr>base = b, chub = h\<rparr>, Inl err)
           | (b, Inr w) \<Rightarrow> (\<lparr>base = b, chub = cacheWorkspace h w\<rparr>, Inr w)))"

definition cached_GetWorkspaceBySlug :: "'s store_ops \<Rightarrow> 's cached \<Rightarrow> string \<Rightarrow> 's cached \<times> (store_err + workspace)" where
  "cached_GetWorkspaceBySlug st c slug =
     (case hub_ReadWorkspace (chub c) (workspaceSlugKey slug) of
        (h, Some w) \<Rightarrow> (c\<lparr>chub := h\<rparr>, Inr w)
      | (h, None) \<Rightarrow>
          (case GetWorkspaceBySlug st (base c) slug of
             (b, Inl err) \<Rightarrow> (\<lparr>base = b, chub = h\<rparr>, Inl err)
           | (b, Inr w) \<Rightarrow> (\<lparr>base = b, chub = cacheWorkspace h w\<rparr>, Inr w)))"

definition cached_DeleteWorkspace :: "'s store_ops \<Rightarrow> 's cached \<Rightarrow> string \<Rightarrow> 's cached \<times> store_err option" where
  "cached_DeleteWorkspace st c i =
     (case cached_GetWorkspaceByID st c i of
        (c', got) \<Rightarrow>
          (case DeleteWorkspace st (base c') i of
             (b, Some err) \<Rightarrow> (c'\<lparr>base := b\<rparr>, Some err)
           | (b, None) \<Rightarrow>
               (let h = hub_Remove (chub c') (workspaceIDKey i) in
                (\<lparr>base = b, chub = (case got of Inl _ \<Rightarrow> h | Inr w \<Rightarrow> hub_Remove h (workspaceSlugKey (Slug w)))\<rparr>, None))))"

definition cached_ListFavoritePackageIDs ::
    "'s store_ops \<Rightarrow> 's cached \<Rightarrow> string \<Rightarrow> 's cached \<times> (store_err + string list)" where
  "cached_ListFavoritePackageIDs st c userID =
     (case hub_ReadFavorites (chub c) (favoritesKey userID) of
        (h, Some ids) \<Rightarrow> (c\<lparr>chub := h\<rparr>, Inr ids)
      | (h, None) \<Rightarrow>
          (case ListFavoritePackageIDs st (base c) userID of
             (b, Inl err) \<Rightarrow> (\<lparr>base = b, chub = h\<rparr>, Inl err)
           | (b, Inr ids) \<Rightarrow> (\<lparr>base = b, chub = hub_WriteJSON h (favoritesKey userID) (CachedFavorites ids)\<rparr>, Inr ids)))"

definition cached_SaveFavoritePackage :: "'s store_ops \<Rightarrow> 's cached \<Rightarrow> favorite_package \<Rightarrow> 's cached \<times> store_err option" where
  "cached_SaveFavoritePackage st c f =
     (case SaveFavoritePackage st (base c) f of
        (b, Some err) \<Rightarrow> (c\<lparr>base := b\<rparr>, Some err)
      | (b, None) \<Rightarrow> (\<lparr>base = b, chub = hub_Remove (chub c) (favoritesKey (f_UserID f))\<rparr>, None))"

definition cached_RemoveFavoritePackage ::
    "'s store_ops \<Rightarrow> 's cached \<Rightarrow> string \<Rightarrow> string \<Rightarrow> 's cached \<times> store_err option" where
  "cached_RemoveFavoritePackage st c userID packageID =
     (case RemoveFavoritePackage st (base c) userID packageID of
        (b, Some err) \<Rightarrow> (c\<lparr>base := b\<rparr>, Some err)
      | (b, None) \<Rightarrow> (\<lparr>base = b, chub = hub_Remove (chub c) (favoritesKey userID)\<rparr>, None))"

text \<open>The operations that go straight to the store underneath.\<close>

definition through :: "('s \<Rightarrow> 's \<times> 'r) \<Rightarrow> 's cached \<Rightarrow> 's cached \<times> 'r" where
  "through f c = (case f (base c) of (b, r) \<Rightarrow> (c\<lparr>base := b\<rparr>, r))"

definition WithRedis :: "'s store_ops \<Rightarrow> 's cached store_ops" where
  "WithRedis st = \<lparr>
     CreateWorkspace = cached_CreateWorkspace st, DeleteWorkspace = cached_DeleteWorkspace st,
     GetWorkspaceByID = cached_GetWorkspaceByID st, GetWorkspaceBySlug = cached_GetWorkspaceBySlug st,
     CreateUser = (\<lambda>c u. through (\<lambda>b. CreateUser st b u) c),
     GetUserByID = (\<lambda>c i. through (\<lambda>b. GetUserByID st b i) c),
     GetUserByEmail = (\<lambda>c e. through (\<lambda>b. GetUserByEmail st b e) c),
     GetUserByUsername = (\<lambda>c n. through (\<lambda>b. GetUserByUsername st b n) c),
     StorePasswordResetToken = (\<lambda>c u h e. through (\<lambda>b. StorePasswordResetToken st b u h e) c),
     ConsumePasswordResetToken = (\<lambda>c h p now. through (\<lambda>b. ConsumePasswordResetToken st b h p now) c),
     ListFavoritePackageIDs = cached_ListFavoritePackageIDs st,
     SaveFavoritePackage = cached_SaveFavoritePackage st,
     RemoveFavoritePackage = cached_RemoveFavoritePackage st\<rparr>"

subsection \<open>The contract of an account store\<close>

text \<open>What the clients of the store rely on, over three views of its state: the workspaces, the users
  and the favourites of each user.\<close>

locale account_store =
  fixes st :: "'s store_ops"
    and ok :: "'s \<Rightarrow> bool"
    and rows :: "'s \<Rightarrow> workspace list"
    and usrs :: "'s \<Rightarrow> user list"
    and favs :: "'s \<Rightarrow> string \<Rightarrow> string list"
  assumes rows_keys: "ok s \<Longrightarrow> distinct (map WorkspaceID (rows s)) \<and> distinct (map Slug (rows s)) \<and>
      (\<forall>w\<in>set (rows s). trimmed_id (WorkspaceID w) \<and> trimmed_id (Slug w)) \<and>
      (\<forall>u\<in>set (usrs s). u_WorkspaceID u \<in> WorkspaceID ` set (rows s))"
    and get_id: "ok s \<Longrightarrow> trimmed_id i \<Longrightarrow> GetWorkspaceByID st s i = (s', got) \<Longrightarrow>
      ok s' \<and> rows s' = rows s \<and> usrs s' = usrs s \<and> favs s' = favs s \<and>
      got = found (find (\<lambda>w. WorkspaceID w = i) (rows s))"
    and get_slug: "ok s \<Longrightarrow> trimmed_id slug \<Longrightarrow> GetWorkspaceBySlug st s slug = (s', got) \<Longrightarrow>
      ok s' \<and> rows s' = rows s \<and> usrs s' = usrs s \<and> favs s' = favs s \<and>
      got = found (find (\<lambda>w. Slug w = slug) (rows s))"
    and create_workspace: "ok s \<Longrightarrow> trimmed_id (WorkspaceID w) \<Longrightarrow> trimmed_id (Slug w) \<Longrightarrow>
      CreateWorkspace st s w = (s', res) \<Longrightarrow>
      ok s' \<and> usrs s' = usrs s \<and> favs s' = favs s \<and>
      (if \<exists>x\<in>set (rows s). WorkspaceID x = WorkspaceID w \<or> Slug x = Slug w
       then res = Some ErrDuplicate \<and> rows s' = rows s else res = None \<and> rows s' = rows s @ [w])"
    and delete_workspace: "ok s \<Longrightarrow> trimmed_id i \<Longrightarrow> DeleteWorkspace st s i = (s', res) \<Longrightarrow>
      ok s' \<and> usrs s' = usrs s \<and> favs s' = favs s \<and>
      rows s' = (if res = None then filter (\<lambda>w. WorkspaceID w \<noteq> i) (rows s) else rows s) \<and>
      ((\<forall>u\<in>set (usrs s). u_WorkspaceID u \<noteq> i) \<longrightarrow> res = None)"
    and get_user: "ok s \<Longrightarrow> GetUserByID st s i = (s', got_user) \<Longrightarrow>
      ok s' \<and> rows s' = rows s \<and> usrs s' = usrs s \<and> favs s' = favs s \<and>
      got_user = found (find (\<lambda>u. UserID u = i) (usrs s))"
    and get_email: "ok s \<Longrightarrow> GetUserByEmail st s e = (s', got_user) \<Longrightarrow>
      ok s' \<and> rows s' = rows s \<and> usrs s' = usrs s \<and> favs s' = favs s \<and>
      got_user = found (find (\<lambda>u. Email u = e) (usrs s))"
    and create_user: "ok s \<Longrightarrow> CreateUser st s u = (s', res) \<Longrightarrow>
      ok s' \<and> rows s' = rows s \<and> favs s' = favs s \<and>
      (if \<exists>x\<in>set (usrs s). UserID x = UserID u \<or> Username x = Username u \<or> Email x = Email u
       then res = Some ErrDuplicate \<and> usrs s' = usrs s
       else usrs s' = (if res = None then usrs s @ [u] else usrs s))"
    and list_favorites: "ok s \<Longrightarrow> trimmed_id user \<Longrightarrow> ListFavoritePackageIDs st s user = (s', got_ids) \<Longrightarrow>
      ok s' \<and> rows s' = rows s \<and> usrs s' = usrs s \<and> favs s' = favs s \<and> got_ids = Inr (favs s user)"
    and save_favorite: "ok s \<Longrightarrow> trimmed_id (f_UserID f) \<Longrightarrow> SaveFavoritePackage st s f = (s', res) \<Longrightarrow>
      ok s' \<and> rows s' = rows s \<and> usrs s' = usrs s \<and> (\<forall>v. v \<noteq> f_UserID f \<longrightarrow> favs s' v = favs s v) \<and>
      (if res = None then f_PackageID f \<noteq> [] \<longrightarrow> f_PackageID f \<in> set (favs s' (f_UserID f)) else favs s' = favs s)"
    and remove_favorite: "ok s \<Longrightarrow> trimmed_id user \<Longrightarrow> RemoveFavoritePackage st s user p = (s', res) \<Longrightarrow>
      ok s' \<and> rows s' = rows s \<and> usrs s' = usrs s \<and> (\<forall>v. v \<noteq> user \<longrightarrow> favs s' v = favs s v) \<and>
      (if res = None then p \<notin> set (favs s' user) else favs s' = favs s)"

definition db_ok :: "pg_db \<Rightarrow> bool" where
  "db_ok db \<longleftrightarrow>
     distinct (map WorkspaceID (db_workspaces db)) \<and> distinct (map Slug (db_workspaces db)) \<and>
     (\<forall>w\<in>set (db_workspaces db). trimmed_id (WorkspaceID w) \<and> trimmed_id (Slug w)) \<and>
     distinct (map UserID (db_users db)) \<and> distinct (map Username (db_users db)) \<and> distinct (map Email (db_users db)) \<and>
     (\<forall>u\<in>set (db_users db). u_WorkspaceID u \<in> WorkspaceID ` set (db_workspaces db)) \<and>
     distinct (map fst (db_reset db)) \<and> (\<forall>r\<in>set (db_reset db). fst r \<in> UserID ` set (db_users db)) \<and>
     distinct (map (\<lambda>f. (f_UserID f, f_PackageID f)) (db_favorites db)) \<and>
     (\<forall>f\<in>set (db_favorites db). f_UserID f \<in> UserID ` set (db_users db))"

lemma db_ok_workspace:
  "db_ok db \<Longrightarrow> trimmed_id (WorkspaceID w) \<Longrightarrow> trimmed_id (Slug w) \<Longrightarrow> db_ok (fst (pg_CreateWorkspace db w))"
  by (auto simp: pg_CreateWorkspace_def db_ok_def)

lemma db_ok_delete: "db_ok db \<Longrightarrow> db_ok (fst (pg_DeleteWorkspace db i))"
  by (auto simp: pg_DeleteWorkspace_def db_ok_def distinct_map_filter image_iff Bex_def; metis)

lemma db_ok_user: "db_ok db \<Longrightarrow> db_ok (fst (pg_CreateUser db u))"
  by (auto simp: pg_CreateUser_def db_ok_def intro: rev_image_eqI)

lemma db_ok_save: "db_ok db \<Longrightarrow> db_ok (fst (pg_SaveFavoritePackage db f))"
  by (auto simp: pg_SaveFavoritePackage_def db_ok_def intro: rev_image_eqI)

lemma db_ok_remove: "db_ok db \<Longrightarrow> db_ok (fst (pg_RemoveFavoritePackage db u p))"
  by (auto simp: pg_RemoveFavoritePackage_def db_ok_def distinct_map_filter)

lemma db_ok_reset_frame:
  assumes "db_ok db" "map fst rs = map fst (db_reset db)"
  shows "db_ok (db\<lparr>db_reset := rs\<rparr>)"
proof -
  have "fst ` set rs = fst ` set (db_reset db)"
    using assms(2) by (metis set_map)
  then have "(\<forall>r\<in>set rs. fst r \<in> X) \<longleftrightarrow> (\<forall>r\<in>set (db_reset db). fst r \<in> X)" for X
    by (metis (no_types, lifting) image_iff)
  then show ?thesis
    using assms by (simp add: db_ok_def)
qed

lemma db_ok_reset: "db_ok db \<Longrightarrow> db_ok (fst (pg_StorePasswordResetToken db u h e))"
proof -
  assume ok: "db_ok db"
  have "map fst (map (\<lambda>r. if fst r = u then (u, h, e) else r) rs) = map fst rs" for rs :: "(string \<times> string \<times> gotime) list"
    by (induction rs) auto
  then have "db_ok (db\<lparr>db_reset := map (\<lambda>r. if fst r = u then (u, h, e) else r) (db_reset db)\<rparr>)"
    by (rule db_ok_reset_frame [OF ok])
  moreover have "db_ok (db\<lparr>db_reset := db_reset db @ [(u, h, e)]\<rparr>)"
    if "\<not> (\<exists>r\<in>set (db_reset db). fst r = u)" "\<exists>x\<in>set (db_users db). UserID x = u"
    using ok that by (auto simp: db_ok_def intro: rev_image_eqI)
  ultimately show ?thesis
    using ok by (simp add: pg_StorePasswordResetToken_def)
qed

lemma db_ok_consume: "db_ok db \<Longrightarrow> db_ok (fst (pg_ConsumePasswordResetToken db h p now))"
proof -
  let ?f = "\<lambda>i (u::user). if UserID u = i then u\<lparr>PassHash := p\<rparr> else u"
  have same: "map UserID (map (?f i) us) = map UserID us" "map Username (map (?f i) us) = map Username us"
    "map Email (map (?f i) us) = map Email us" "map u_WorkspaceID (map (?f i) us) = map u_WorkspaceID us" for i us
    by (induction us) auto
  have ids: "UserID ` set (map (?f i) us) = UserID ` set us"
    "u_WorkspaceID ` set (map (?f i) us) = u_WorkspaceID ` set us" for i us
    using same [of i us] by (metis set_map)+
  have keep: "db_ok (db\<lparr>db_reset := filter P (db_reset db), db_users := map (?f i) (db_users db)\<rparr>)"
    if "db_ok db" for i P
    using that unfolding db_ok_def ball_simps(9) [symmetric] image_subset_iff [symmetric]
    by (simp add: same ids distinct_map_filter del: map_map set_map) auto
  then show "db_ok db \<Longrightarrow> ?thesis"
    by (auto simp: pg_ConsumePasswordResetToken_def Let_def split: option.split)
qed

lemmas pg_store_defs = pg_store_def pg_CreateWorkspace_def pg_DeleteWorkspace_def pg_GetWorkspaceByID_def
  pg_GetWorkspaceBySlug_def pg_CreateUser_def pg_GetUserByID_def pg_GetUserByEmail_def
  pg_ListFavoritePackageIDs_def pg_SaveFavoritePackage_def pg_RemoveFavoritePackage_def

lemma favorites_of_other:
  "v \<noteq> f_UserID f \<Longrightarrow> user_favorites coll (db\<lparr>db_favorites := db_favorites db @ [f]\<rparr>) v = user_favorites coll db v"
  by (simp add: user_favorites_def)

lemma favorites_mem:
  "p \<in> set (user_favorites coll db v) \<longleftrightarrow> p \<noteq> [] \<and> (\<exists>f\<in>set (db_favorites db). f_UserID f = v \<and> f_PackageID f = p)"
  by (auto simp: user_favorites_def)

lemma favorites_drop_other:
  "v \<noteq> u \<Longrightarrow> user_favorites coll (db\<lparr>db_favorites :=
     filter (\<lambda>f. f_UserID f = u \<longrightarrow> f_PackageID f \<noteq> p) (db_favorites db)\<rparr>) v = user_favorites coll db v"
proof -
  assume "v \<noteq> u"
  then have "filter (\<lambda>f. f_UserID f = v) (filter (\<lambda>f. f_UserID f = u \<longrightarrow> f_PackageID f \<noteq> p) fs) =
      filter (\<lambda>f. f_UserID f = v) fs" for fs :: "favorite_package list"
    by (auto intro!: filter_cong)
  then show ?thesis by (simp add: user_favorites_def del: filter_filter)
qed

interpretation pg: account_store "pg_store coll" db_ok db_workspaces db_users "user_favorites coll"
  for coll :: "string \<Rightarrow> string \<Rightarrow> bool"
proof unfold_locales
  fix s s' :: pg_db and w :: workspace and r
  assume "db_ok s" "trimmed_id (WorkspaceID w)" "trimmed_id (Slug w)" "CreateWorkspace (pg_store coll) s w = (s', r)"
  then show "db_ok s' \<and> db_users s' = db_users s \<and> user_favorites coll s' = user_favorites coll s \<and>
      (if \<exists>x\<in>set (db_workspaces s). WorkspaceID x = WorkspaceID w \<or> Slug x = Slug w
       then r = Some ErrDuplicate \<and> db_workspaces s' = db_workspaces s
       else r = None \<and> db_workspaces s' = db_workspaces s @ [w])"
    using db_ok_workspace [of s w] by (auto simp: pg_store_defs user_favorites_def [abs_def] split: if_splits)
next
  fix s s' :: pg_db and i r
  assume "db_ok s" "DeleteWorkspace (pg_store coll) s i = (s', r)"
  then show "db_ok s' \<and> db_users s' = db_users s \<and> user_favorites coll s' = user_favorites coll s \<and>
      db_workspaces s' = (if r = None then filter (\<lambda>w. WorkspaceID w \<noteq> i) (db_workspaces s) else db_workspaces s) \<and>
      ((\<forall>u\<in>set (db_users s). u_WorkspaceID u \<noteq> i) \<longrightarrow> r = None)"
    using db_ok_delete [of s i] by (auto simp: pg_store_defs user_favorites_def [abs_def] split: if_splits)
next
  fix s s' :: pg_db and u r
  assume "db_ok s" "CreateUser (pg_store coll) s u = (s', r)"
  then show "db_ok s' \<and> db_workspaces s' = db_workspaces s \<and> user_favorites coll s' = user_favorites coll s \<and>
      (if \<exists>x\<in>set (db_users s). UserID x = UserID u \<or> Username x = Username u \<or> Email x = Email u
       then r = Some ErrDuplicate \<and> db_users s' = db_users s
       else db_users s' = (if r = None then db_users s @ [u] else db_users s))"
    using db_ok_user [of s u] by (auto simp: pg_store_defs user_favorites_def [abs_def] split: if_splits)
next
  fix s s' :: pg_db and f r
  assume "db_ok s" "SaveFavoritePackage (pg_store coll) s f = (s', r)"
  then show "db_ok s' \<and> db_workspaces s' = db_workspaces s \<and> db_users s' = db_users s \<and>
      (\<forall>v. v \<noteq> f_UserID f \<longrightarrow> user_favorites coll s' v = user_favorites coll s v) \<and>
      (if r = None then f_PackageID f \<noteq> [] \<longrightarrow> f_PackageID f \<in> set (user_favorites coll s' (f_UserID f))
       else user_favorites coll s' = user_favorites coll s)"
    using db_ok_save [of s f] by (auto simp: pg_store_defs favorites_mem favorites_of_other split: if_splits)
next
  fix s s' :: pg_db and v p r
  assume "db_ok s" "RemoveFavoritePackage (pg_store coll) s v p = (s', r)"
  then show "db_ok s' \<and> db_workspaces s' = db_workspaces s \<and> db_users s' = db_users s \<and>
      (\<forall>v'. v' \<noteq> v \<longrightarrow> user_favorites coll s' v' = user_favorites coll s v') \<and>
      (if r = None then p \<notin> set (user_favorites coll s' v) else user_favorites coll s' = user_favorites coll s)"
    using db_ok_remove [of s v p] by (auto simp: pg_store_defs favorites_mem favorites_drop_other)
qed (auto simp: pg_store_defs db_ok_def)

subsection \<open>Keys of the cache\<close>

definition hub_at :: "redis_hub \<Rightarrow> string \<Rightarrow> cached_value option" where
  "hub_at h key = hub_entries h (hub_compose h key)"

lemma compose_inj [simp]: "hub_compose h a = hub_compose h b \<longleftrightarrow> a = b"
  by (simp add: hub_compose_def)

lemma hub_at_write:
  "hub_at (hub_WriteJSON h k v) k' = (if k' = k \<and> hub_sets h (hub_clock h) then Some v else hub_at h k')"
  by (simp add: hub_at_def hub_WriteJSON_def hub_compose_def Let_def)

lemma hub_at_remove: "\<forall>n. hub_dels h n \<Longrightarrow> hub_at (hub_Remove h k) k' = (if k' = k then None else hub_at h k')"
  by (simp add: hub_at_def hub_Remove_def hub_compose_def Let_def)

lemma hub_dels_frame:
  "hub_dels (hub_WriteJSON h k v) = hub_dels h" "hub_dels (hub_Remove h k) = hub_dels h"
  "hub_dels (cacheWorkspace h w) = hub_dels h"
  "hub_dels (fst (hub_ReadWorkspace h k)) = hub_dels h" "hub_dels (fst (hub_ReadFavorites h k)) = hub_dels h"
  by (auto simp: hub_WriteJSON_def hub_Remove_def cacheWorkspace_def hub_ReadWorkspace_def hub_ReadFavorites_def
      Let_def split: option.split cached_value.split)

lemma trimmed_key:
  assumes "trimmed_id i"
  shows "workspaceIDKey i = ''workspace:id:'' @ i" "workspaceSlugKey i = ''workspace:slug:'' @ i"
    "favoritesKey i = ''favorites:user:'' @ i"
proof -
  have "TrimSpace ''workspace'' = ''workspace''" "TrimSpace ''id'' = ''id''" "TrimSpace ''slug'' = ''slug''"
    "TrimSpace ''favorites'' = ''favorites''" "TrimSpace ''user'' = ''user''"
    by code_simp+
  then show "workspaceIDKey i = ''workspace:id:'' @ i" "workspaceSlugKey i = ''workspace:slug:'' @ i"
    "favoritesKey i = ''favorites:user:'' @ i"
    using assms by (simp_all add: workspaceIDKey_def workspaceSlugKey_def favoritesKey_def hub_Key_def trimmed_id_def)
qed

lemma keys_apart:
  assumes "trimmed_id i" "trimmed_id j"
  shows "workspaceIDKey i = workspaceIDKey j \<longleftrightarrow> i = j" "workspaceSlugKey i = workspaceSlugKey j \<longleftrightarrow> i = j"
    "favoritesKey i = favoritesKey j \<longleftrightarrow> i = j" "workspaceIDKey i \<noteq> workspaceSlugKey j"
    "workspaceSlugKey j \<noteq> workspaceIDKey i"
    "workspaceIDKey i \<noteq> favoritesKey j" "workspaceSlugKey i \<noteq> favoritesKey j"
    "favoritesKey j \<noteq> workspaceIDKey i" "favoritesKey j \<noteq> workspaceSlugKey i"
  by (simp_all add: trimmed_key [OF assms(1)] trimmed_key [OF assms(2)])

text \<open>Every cached answer is the answer of the tables.\<close>

definition coherent :: "workspace list \<Rightarrow> (string \<Rightarrow> string list) \<Rightarrow> redis_hub \<Rightarrow> bool" where
  "coherent ws fs h \<longleftrightarrow> (\<forall>n. hub_dels h n) \<and>
     (\<forall>i v. trimmed_id i \<and> hub_at h (workspaceIDKey i) = Some v \<longrightarrow>
        (\<exists>w\<in>set ws. v = CachedWorkspace w \<and> WorkspaceID w = i)) \<and>
     (\<forall>i v. trimmed_id i \<and> hub_at h (workspaceSlugKey i) = Some v \<longrightarrow>
        (\<exists>w\<in>set ws. v = CachedWorkspace w \<and> Slug w = i)) \<and>
     (\<forall>i v. trimmed_id i \<and> hub_at h (favoritesKey i) = Some v \<longrightarrow> v = CachedFavorites (fs i))"

lemma coherent_grow: "coherent ws fs h \<Longrightarrow> set ws \<subseteq> set ws' \<Longrightarrow> coherent ws' fs h"
  unfolding coherent_def by blast

lemma coherent_cacheWorkspace:
  assumes "coherent ws fs h" "w \<in> set ws" "trimmed_id (WorkspaceID w)" "trimmed_id (Slug w)"
  shows "coherent ws fs (cacheWorkspace h w)"
  using assms unfolding coherent_def cacheWorkspace_def
  by (auto simp: hub_at_write hub_dels_frame keys_apart split: if_splits)

lemma coherent_favorites:
  "coherent ws fs h \<Longrightarrow> trimmed_id u \<Longrightarrow> coherent ws fs (hub_WriteJSON h (favoritesKey u) (CachedFavorites (fs u)))"
  unfolding coherent_def by (auto simp: hub_at_write hub_dels_frame keys_apart split: if_splits)

lemma coherent_remove: "coherent ws fs h \<Longrightarrow> coherent ws fs (hub_Remove h k)"
  unfolding coherent_def by (auto simp: hub_at_remove hub_dels_frame)

lemma coherent_remove_favorites:
  assumes "coherent ws fs h" "trimmed_id u" "\<forall>v. v \<noteq> u \<longrightarrow> fs' v = fs v"
  shows "coherent ws fs' (hub_Remove h (favoritesKey u))"
  using assms unfolding coherent_def
  by (auto simp: hub_at_remove hub_dels_frame keys_apart split: if_splits)

lemma coherent_delete:
  assumes "coherent ws fs h" "trimmed_id i" "distinct (map Slug ws)"
    and "\<forall>w\<in>set ws. trimmed_id (WorkspaceID w) \<and> trimmed_id (Slug w)"
    and "\<forall>w\<in>set ws. WorkspaceID w = i \<longrightarrow> slug = Slug w" "trimmed_id slug"
  shows "coherent (filter (\<lambda>w. WorkspaceID w \<noteq> i) ws) fs
    (hub_Remove (hub_Remove h (workspaceIDKey i)) (workspaceSlugKey slug))"
  using assms unfolding coherent_def
  by (simp add: hub_at_remove hub_dels_frame keys_apart) (metis option.discI)

lemma coherent_delete_absent:
  assumes "coherent ws fs h" "\<forall>w\<in>set ws. WorkspaceID w \<noteq> i"
  shows "coherent (filter (\<lambda>w. WorkspaceID w \<noteq> i) ws) fs (hub_Remove h (workspaceIDKey i))"
proof -
  have "filter (\<lambda>w. WorkspaceID w \<noteq> i) ws = ws"
    using assms(2) by (simp add: filter_True)
  then show ?thesis
    using coherent_remove [OF assms(1)] by simp
qed

lemma find_distinct:
  "distinct (map f ws) \<Longrightarrow> w \<in> set ws \<Longrightarrow> find (\<lambda>x. f x = f w) ws = Some w"
  by (induction ws) (auto simp: image_iff)

lemma read_workspace:
  assumes "coherent ws fs h" "distinct (map f ws)" "hub_ReadWorkspace h k = (h', r)"
    and "\<forall>v. hub_at h k = Some v \<longrightarrow> (\<exists>w\<in>set ws. v = CachedWorkspace w \<and> f w = i)"
  shows "coherent ws fs h' \<and> (\<forall>w. r = Some w \<longrightarrow> found (find (\<lambda>x. f x = i) ws) = Inr w)"
proof -
  have at: "hub_at (h\<lparr>hub_clock := n\<rparr>) = hub_at h" for n
    by (rule ext) (simp add: hub_at_def hub_compose_def)
  have "coherent ws fs (h\<lparr>hub_clock := n\<rparr>)" for n
    using assms(1) by (simp add: coherent_def at)
  then show ?thesis
    using assms find_distinct [OF assms(2)] unfolding hub_ReadWorkspace_def hub_at_def [symmetric]
    by (auto simp: Let_def found_def split: if_splits option.splits cached_value.splits)
qed

lemma read_favorites:
  assumes "coherent ws fs h" "hub_ReadFavorites h (favoritesKey u) = (h', r)" "trimmed_id u"
  shows "coherent ws fs h' \<and> (\<forall>ids. r = Some ids \<longrightarrow> ids = fs u)"
proof -
  have at: "hub_at (h\<lparr>hub_clock := n\<rparr>) = hub_at h" for n
    by (rule ext) (simp add: hub_at_def hub_compose_def)
  have "coherent ws fs (h\<lparr>hub_clock := n\<rparr>)" for n
    using assms(1) by (simp add: coherent_def at)
  moreover have "\<forall>v. hub_at h (favoritesKey u) = Some v \<longrightarrow> v = CachedFavorites (fs u)"
    using assms by (simp add: coherent_def)
  ultimately show ?thesis
    using assms(2) unfolding hub_ReadFavorites_def hub_at_def [symmetric]
    by (auto simp: Let_def split: if_splits option.splits cached_value.splits)
qed

subsection \<open>The cached store keeps the contract\<close>

context account_store
begin

definition cached_ok :: "'s cached \<Rightarrow> bool" where
  "cached_ok c \<longleftrightarrow> ok (base c) \<and> coherent (rows (base c)) (favs (base c)) (chub c)"

lemma row_trimmed: "ok s \<Longrightarrow> w \<in> set (rows s) \<Longrightarrow> trimmed_id (WorkspaceID w) \<and> trimmed_id (Slug w)"
  using rows_keys by blast

lemma coherent_found:
  assumes "ok s" "coherent (rows s) (favs s) h" "found (find P (rows s)) = Inr w"
  shows "coherent (rows s) (favs s) (cacheWorkspace h w)"
proof -
  have "w \<in> set (rows s)"
    using assms(3) by (auto simp: found_def find_Some_iff split: option.splits)
  then show ?thesis
    using coherent_cacheWorkspace assms(1,2) row_trimmed by blast
qed

lemma cached_get:
  assumes "cached_ok c" and rd: "hub_ReadWorkspace (chub c) k = (h, r)"
    and hit: "\<forall>v. hub_at (chub c) k = Some v \<longrightarrow> (\<exists>w\<in>set (rows (base c)). v = CachedWorkspace w \<and> f w = i)"
    and dist: "distinct (map f (rows (base c)))"
    and miss: "ok b \<and> rows b = rows (base c) \<and> usrs b = usrs (base c) \<and> favs b = favs (base c)"
    and c': "(case r of Some w \<Rightarrow> (c\<lparr>chub := h\<rparr>, Inr w)
      | None \<Rightarrow> (case found (find (\<lambda>x. f x = i) (rows (base c))) of
          Inl err \<Rightarrow> (\<lparr>base = b, chub = h\<rparr>, Inl err)
        | Inr w \<Rightarrow> (\<lparr>base = b, chub = cacheWorkspace h w\<rparr>, Inr w))) = (c', got)"
  shows "cached_ok c' \<and> rows (base c') = rows (base c) \<and> usrs (base c') = usrs (base c) \<and>
    favs (base c') = favs (base c) \<and> got = found (find (\<lambda>x. f x = i) (rows (base c)))"
proof -
  have ok: "ok (base c)" and co: "coherent (rows (base c)) (favs (base c)) (chub c)"
    using assms(1) by (auto simp: cached_ok_def)
  have h: "coherent (rows (base c)) (favs (base c)) h"
    and r: "\<forall>w. r = Some w \<longrightarrow> found (find (\<lambda>x. f x = i) (rows (base c))) = Inr w"
    using read_workspace [OF co dist rd hit] by auto
  show ?thesis
  proof (cases r)
    case (Some w)
    then show ?thesis using c' ok h r by (auto simp: cached_ok_def)
  next
    case None
    show ?thesis
    proof (cases "found (find (\<lambda>x. f x = i) (rows (base c)))")
      case (Inl e)
      then show ?thesis using None c' miss h by (auto simp: cached_ok_def)
    next
      case (Inr w)
      then have "coherent (rows (base c)) (favs (base c)) (cacheWorkspace h w)"
        using coherent_found [OF ok h] by metis
      then show ?thesis using None Inr c' miss by (auto simp: cached_ok_def)
    qed
  qed
qed

lemma cached_get_id:
  assumes "cached_ok c" "trimmed_id i" "GetWorkspaceByID (WithRedis st) c i = (c', got)"
  shows "cached_ok c' \<and> rows (base c') = rows (base c) \<and> usrs (base c') = usrs (base c) \<and>
    favs (base c') = favs (base c) \<and> got = found (find (\<lambda>w. WorkspaceID w = i) (rows (base c)))"
proof -
  obtain h r where rd: "hub_ReadWorkspace (chub c) (workspaceIDKey i) = (h, r)" by fastforce
  obtain b res where b: "GetWorkspaceByID st (base c) i = (b, res)" by fastforce
  have "distinct (map WorkspaceID (rows (base c)))" "ok (base c)"
    using assms(1) rows_keys by (auto simp: cached_ok_def)
  moreover have "\<forall>v. hub_at (chub c) (workspaceIDKey i) = Some v \<longrightarrow>
      (\<exists>w\<in>set (rows (base c)). v = CachedWorkspace w \<and> WorkspaceID w = i)"
    using assms(1,2) by (simp add: cached_ok_def coherent_def)
  ultimately show ?thesis
    using cached_get [OF assms(1) rd, of WorkspaceID i b c' got]
      get_id [OF _ assms(2) b] b assms(3) rd
    by (simp add: WithRedis_def cached_GetWorkspaceByID_def)
qed

lemma cached_get_slug:
  assumes "cached_ok c" "trimmed_id i" "GetWorkspaceBySlug (WithRedis st) c i = (c', got)"
  shows "cached_ok c' \<and> rows (base c') = rows (base c) \<and> usrs (base c') = usrs (base c) \<and>
    favs (base c') = favs (base c) \<and> got = found (find (\<lambda>w. Slug w = i) (rows (base c)))"
proof -
  obtain h r where rd: "hub_ReadWorkspace (chub c) (workspaceSlugKey i) = (h, r)" by fastforce
  obtain b res where b: "GetWorkspaceBySlug st (base c) i = (b, res)" by fastforce
  have "distinct (map Slug (rows (base c)))" "ok (base c)"
    using assms(1) rows_keys by (auto simp: cached_ok_def)
  moreover have "\<forall>v. hub_at (chub c) (workspaceSlugKey i) = Some v \<longrightarrow>
      (\<exists>w\<in>set (rows (base c)). v = CachedWorkspace w \<and> Slug w = i)"
    using assms(1,2) by (simp add: cached_ok_def coherent_def)
  ultimately show ?thesis
    using cached_get [OF assms(1) rd, of Slug i b c' got]
      get_slug [OF _ assms(2) b] b assms(3) rd
    by (simp add: WithRedis_def cached_GetWorkspaceBySlug_def)
qed

lemma cached_create:
  assumes "cached_ok c" "trimmed_id (WorkspaceID w)" "trimmed_id (Slug w)" "CreateWorkspace (WithRedis st) c w = (c', res)"
  shows "cached_ok c' \<and> usrs (base c') = usrs (base c) \<and> favs (base c') = favs (base c) \<and>
      (if \<exists>x\<in>set (rows (base c)). WorkspaceID x = WorkspaceID w \<or> Slug x = Slug w
       then res = Some ErrDuplicate \<and> rows (base c') = rows (base c)
       else res = None \<and> rows (base c') = rows (base c) @ [w])"
proof -
  have ok: "ok (base c)" and co: "coherent (rows (base c)) (favs (base c)) (chub c)"
    using assms(1) by (auto simp: cached_ok_def)
  obtain b r where b: "CreateWorkspace st (base c) w = (b, r)" by fastforce
  note law = create_workspace [OF ok assms(2,3) b]
  have "coherent (rows b) (favs b) (cacheWorkspace (chub c) w)" if "rows b = rows (base c) @ [w]"
    using that law co assms(2,3)
    by (intro coherent_cacheWorkspace) (auto intro: coherent_grow)
  then show ?thesis
    using assms(4) b law co
    by (auto simp: WithRedis_def cached_CreateWorkspace_def cached_ok_def split: option.splits if_splits)
qed

lemma cached_delete:
  assumes "cached_ok c" "trimmed_id i" "DeleteWorkspace (WithRedis st) c i = (c', res)"
  shows "cached_ok c' \<and> usrs (base c') = usrs (base c) \<and> favs (base c') = favs (base c) \<and>
    rows (base c') = (if res = None then filter (\<lambda>w. WorkspaceID w \<noteq> i) (rows (base c)) else rows (base c)) \<and>
    ((\<forall>u\<in>set (usrs (base c)). u_WorkspaceID u \<noteq> i) \<longrightarrow> res = None)"
proof -
  obtain c1 got where g: "GetWorkspaceByID (WithRedis st) c i = (c1, got)" by fastforce
  have c1: "cached_ok c1" "rows (base c1) = rows (base c)" "usrs (base c1) = usrs (base c)"
      "favs (base c1) = favs (base c)" "got = found (find (\<lambda>w. WorkspaceID w = i) (rows (base c)))"
    using cached_get_id [OF assms(1,2) g] by auto
  have ok: "ok (base c1)" and co: "coherent (rows (base c)) (favs (base c)) (chub c1)"
    using c1 by (auto simp: cached_ok_def)
  have keys: "distinct (map WorkspaceID (rows (base c)))" "distinct (map Slug (rows (base c)))"
      "\<forall>w\<in>set (rows (base c)). trimmed_id (WorkspaceID w) \<and> trimmed_id (Slug w)"
    using rows_keys [OF ok] c1(2) by auto
  obtain b r where b: "DeleteWorkspace st (base c1) i = (b, r)" by fastforce
  note law = delete_workspace [OF ok assms(2) b]
  have absent: "\<forall>w\<in>set (rows (base c)). WorkspaceID w \<noteq> i" if "got = Inl e" for e
    using that c1(5) by (auto simp: found_def find_None_iff split: option.splits)
  have present: "(\<forall>x\<in>set (rows (base c)). WorkspaceID x = i \<longrightarrow> Slug w = Slug x) \<and> trimmed_id (Slug w)" if "got = Inr w" for w
  proof -
    have f: "find (\<lambda>w. WorkspaceID w = i) (rows (base c)) = Some w"
      using that c1(5) by (auto simp: found_def split: option.splits)
    then have "w \<in> set (rows (base c))"
      by (auto simp: find_Some_iff)
    moreover have "x = w" if "x \<in> set (rows (base c))" "WorkspaceID x = i" for x
      using find_distinct [OF keys(1) that(1)] that(2) f by simp
    ultimately show ?thesis using keys(3) by blast
  qed
  have "coherent (filter (\<lambda>w. WorkspaceID w \<noteq> i) (rows (base c))) (favs (base c))
      (case got of Inl _ \<Rightarrow> hub_Remove (chub c1) (workspaceIDKey i)
       | Inr w \<Rightarrow> hub_Remove (hub_Remove (chub c1) (workspaceIDKey i)) (workspaceSlugKey (Slug w)))"
    using coherent_delete_absent [OF co absent] coherent_delete [OF co assms(2) keys(2,3)] present
    by (auto split: sum.split)
  then show ?thesis
    using assms(3) g b law c1 co ok
    by (auto simp: WithRedis_def cached_DeleteWorkspace_def cached_ok_def Let_def split: option.splits)
qed

lemma cached_list:
  assumes "cached_ok c" "trimmed_id u" "ListFavoritePackageIDs (WithRedis st) c u = (c', got)"
  shows "cached_ok c' \<and> rows (base c') = rows (base c) \<and> usrs (base c') = usrs (base c) \<and>
    favs (base c') = favs (base c) \<and> got = Inr (favs (base c) u)"
proof -
  have ok: "ok (base c)" and co: "coherent (rows (base c)) (favs (base c)) (chub c)"
    using assms(1) by (auto simp: cached_ok_def)
  obtain h r where rd: "hub_ReadFavorites (chub c) (favoritesKey u) = (h, r)" by fastforce
  obtain b res where b: "ListFavoritePackageIDs st (base c) u = (b, res)" by fastforce
  show ?thesis
    using read_favorites [OF co rd assms(2)] list_favorites [OF ok assms(2) b] assms(2,3) rd b ok
      coherent_favorites [of "rows (base c)" "favs (base c)" h u]
    by (auto simp: WithRedis_def cached_ListFavoritePackageIDs_def cached_ok_def split: option.splits)
qed

lemma cached_contract:
  "account_store (WithRedis st) cached_ok (\<lambda>c. rows (base c)) (\<lambda>c. usrs (base c)) (\<lambda>c. favs (base c))"
proof (unfold_locales, goal_cases)
  case (1 s)
  then show ?case using rows_keys [of "base s"] by (simp add: cached_ok_def)
next
  case (2 s i s' got)
  then show ?case by (rule cached_get_id)
next
  case (3 s slug s' got)
  then show ?case by (rule cached_get_slug)
next
  case (4 s w s' res)
  then show ?case by (rule cached_create)
next
  case (5 s i s' res)
  then show ?case by (rule cached_delete)
next
  case (6 s i s' got_user)
  then show ?case using get_user
    by (fastforce simp: WithRedis_def through_def cached_ok_def split: prod.splits)
next
  case (7 s e s' got_user)
  then show ?case using get_email
    by (fastforce simp: WithRedis_def through_def cached_ok_def split: prod.splits)
next
  case (8 s u s' res)
  obtain b r where b: "CreateUser st (base s) u = (b, r)" by fastforce
  have s': "s' = s\<lparr>base := b\<rparr>" "res = r"
    using 8(2) b by (auto simp: WithRedis_def through_def)
  show ?case
    using 8(1) create_user [OF _ b] unfolding s' cached_ok_def by simp
next
  case (9 s user s' got_ids)
  then show ?case by (rule cached_list)
next
  case (10 s f s' res)
  obtain b r where b: "SaveFavoritePackage st (base s) f = (b, r)" by fastforce
  show ?case using 10 b save_favorite [OF _ _ b]
      coherent_remove_favorites [of "rows b" "favs (base s)" "chub s" "f_UserID f" "favs b"]
    by (auto simp: WithRedis_def cached_SaveFavoritePackage_def cached_ok_def split: option.splits)
next
  case (11 s user p s' res)
  obtain b r where b: "RemoveFavoritePackage st (base s) user p = (b, r)" by fastforce
  show ?case using 11 b remove_favorite [OF _ _ b]
      coherent_remove_favorites [of "rows b" "favs (base s)" "chub s" user "favs b"]
    by (auto simp: WithRedis_def cached_RemoveFavoritePackage_def cached_ok_def split: option.splits)
qed

end

interpretation cached_pg: account_store "WithRedis (pg_store coll)" "pg.cached_ok coll"
    "\<lambda>c. db_workspaces (base c)" "\<lambda>c. db_users (base c)" "\<lambda>c. user_favorites coll (base c)"
  for coll :: "string \<Rightarrow> string \<Rightarrow> bool"
  by (rule pg.cached_contract)

subsection \<open>Runs of the store\<close>

datatype store_call =
    CallCreateWorkspace workspace
  | CallDeleteWorkspace string
  | CallGetWorkspaceByID string
  | CallGetWorkspaceBySlug string
  | CallCreateUser user
  | CallGetUserByID string
  | CallGetUserByEmail string
  | CallGetUserByUsername string
  | CallStoreReset string string gotime
  | CallConsumeReset string string gotime
  | CallListFavorites string
  | CallSaveFavorite favorite_package
  | CallRemoveFavorite string string

datatype store_answer =
    Done "store_err option"
  | GotWorkspace "store_err + workspace"
  | GotUser "store_err + user"
  | GotIDs "store_err + string list"

fun perform :: "'s store_ops \<Rightarrow> 's \<Rightarrow> store_call \<Rightarrow> 's \<times> store_answer" where
  "perform st s (CallCreateWorkspace w) = map_prod (\<lambda>x. x) Done (CreateWorkspace st s w)"
| "perform st s (CallDeleteWorkspace i) = map_prod (\<lambda>x. x) Done (DeleteWorkspace st s i)"
| "perform st s (CallGetWorkspaceByID i) = map_prod (\<lambda>x. x) GotWorkspace (GetWorkspaceByID st s i)"
| "perform st s (CallGetWorkspaceBySlug i) = map_prod (\<lambda>x. x) GotWorkspace (GetWorkspaceBySlug st s i)"
| "perform st s (CallCreateUser u) = map_prod (\<lambda>x. x) Done (CreateUser st s u)"
| "perform st s (CallGetUserByID i) = map_prod (\<lambda>x. x) GotUser (GetUserByID st s i)"
| "perform st s (CallGetUserByEmail i) = map_prod (\<lambda>x. x) GotUser (GetUserByEmail st s i)"
| "perform st s (CallGetUserByUsername i) = map_prod (\<lambda>x. x) GotUser (GetUserByUsername st s i)"
| "perform st s (CallStoreReset u h e) = map_prod (\<lambda>x. x) Done (StorePasswordResetToken st s u h e)"
| "perform st s (CallConsumeReset h p now) = map_prod (\<lambda>x. x) Done (ConsumePasswordResetToken st s h p now)"
| "perform st s (CallListFavorites u) = map_prod (\<lambda>x. x) GotIDs (ListFavoritePackageIDs st s u)"
| "perform st s (CallSaveFavorite f) = map_prod (\<lambda>x. x) Done (SaveFavoritePackage st s f)"
| "perform st s (CallRemoveFavorite u p) = map_prod (\<lambda>x. x) Done (RemoveFavoritePackage st s u p)"

fun store_answers :: "'s store_ops \<Rightarrow> 's \<Rightarrow> store_call list \<Rightarrow> store_answer list" where
  "store_answers st s [] = []"
| "store_answers st s (c # cs) = (case perform st s c of (s', a) \<Rightarrow> a # store_answers st s' cs)"

definition store_run :: "'s store_ops \<Rightarrow> 's \<Rightarrow> store_call list \<Rightarrow> 's" where
  "store_run st s cs = fold (\<lambda>c s. fst (perform st s c)) cs s"

text \<open>The ids and slugs a caller passes are trimmed and not empty, as all ids of the program are.\<close>

fun call_trimmed :: "store_call \<Rightarrow> bool" where
  "call_trimmed (CallCreateWorkspace w) \<longleftrightarrow> trimmed_id (WorkspaceID w) \<and> trimmed_id (Slug w)"
| "call_trimmed (CallDeleteWorkspace i) \<longleftrightarrow> trimmed_id i"
| "call_trimmed (CallGetWorkspaceByID i) \<longleftrightarrow> trimmed_id i"
| "call_trimmed (CallGetWorkspaceBySlug i) \<longleftrightarrow> trimmed_id i"
| "call_trimmed (CallListFavorites u) \<longleftrightarrow> trimmed_id u"
| "call_trimmed (CallSaveFavorite f) \<longleftrightarrow> trimmed_id (f_UserID f)"
| "call_trimmed (CallRemoveFavorite u p) \<longleftrightarrow> trimmed_id u"
| "call_trimmed c \<longleftrightarrow> True"

lemma db_ok_call: "db_ok db \<Longrightarrow> call_trimmed c \<Longrightarrow> db_ok (fst (perform (pg_store coll) db c))"
  by (cases c) (simp_all add: pg_store_def db_ok_workspace db_ok_delete db_ok_user db_ok_save db_ok_remove
      db_ok_reset db_ok_consume pg_GetWorkspaceByID_def pg_GetWorkspaceBySlug_def pg_GetUserByID_def
      pg_GetUserByEmail_def pg_GetUserByUsername_def pg_ListFavoritePackageIDs_def)


lemma cached_reads_base:
  "base (fst (cached_GetWorkspaceByID (pg_store coll) c i)) = base c"
  "base (fst (cached_GetWorkspaceBySlug (pg_store coll) c i)) = base c"
  "base (fst (cached_ListFavoritePackageIDs (pg_store coll) c i)) = base c"
proof -
  show "base (fst (cached_GetWorkspaceByID (pg_store coll) c i)) = base c"
    by (simp add: cached_GetWorkspaceByID_def pg_store_def pg_GetWorkspaceByID_def
        split: prod.split option.split sum.split)
  show "base (fst (cached_GetWorkspaceBySlug (pg_store coll) c i)) = base c"
    by (simp add: cached_GetWorkspaceBySlug_def pg_store_def pg_GetWorkspaceBySlug_def
        split: prod.split option.split sum.split)
  show "base (fst (cached_ListFavoritePackageIDs (pg_store coll) c i)) = base c"
    by (simp add: cached_ListFavoritePackageIDs_def pg_store_def pg_ListFavoritePackageIDs_def
        split: prod.split option.split sum.split)
qed

lemma cached_delete_base:
  "base (fst (cached_DeleteWorkspace (pg_store coll) c i)) = fst (pg_DeleteWorkspace (base c) i) \<and>
   snd (cached_DeleteWorkspace (pg_store coll) c i) = snd (pg_DeleteWorkspace (base c) i)"
  using cached_reads_base(1) [of coll c i]
  by (auto simp: cached_DeleteWorkspace_def Let_def pg_store_def split: prod.split option.split)

lemma cached_pass_through:
  assumes "pg.cached_ok coll c" "f (base c) = (b, r)" "db_ok b" "db_workspaces b = db_workspaces (base c)"
    "db_favorites b = db_favorites (base c)"
  shows "pg.cached_ok coll (fst (through f c))"
proof -
  have "user_favorites coll b = user_favorites coll (base c)"
    using assms(5) by (auto simp: user_favorites_def)
  then show ?thesis
    using assms by (simp add: pg.cached_ok_def through_def)
qed

lemma cached_keeps:
  assumes "pg.cached_ok coll c" "call_trimmed q"
  shows "pg.cached_ok coll (fst (perform (WithRedis (pg_store coll)) c q))"
proof (cases q)
  case (CallCreateUser u)
  then show ?thesis
    using assms(2) conjunct1 [OF cached_pg.create_user [OF assms(1)  prod.collapse [symmetric]]] by simp
next
  case (CallGetUserByUsername n)
  then show ?thesis
    using cached_pass_through [OF assms(1), of "\<lambda>b. pg_GetUserByUsername b n"] assms(1)
    by (auto simp: WithRedis_def pg_store_def pg_GetUserByUsername_def pg.cached_ok_def)
next
  case (CallStoreReset u h e)
  have "db_ok (fst (pg_StorePasswordResetToken (base c) u h e))"
    using db_ok_reset assms(1) by (simp add: pg.cached_ok_def)
  then show ?thesis
    using CallStoreReset cached_pass_through [OF assms(1), of "\<lambda>b. pg_StorePasswordResetToken b u h e"]
    by (cases "pg_StorePasswordResetToken (base c) u h e")
      (auto simp: WithRedis_def pg_store_def pg_StorePasswordResetToken_def split: if_splits)
next
  case (CallConsumeReset h p now)
  have "db_ok (fst (pg_ConsumePasswordResetToken (base c) h p now))"
    using db_ok_consume assms(1) by (simp add: pg.cached_ok_def)
  then show ?thesis
    using CallConsumeReset cached_pass_through [OF assms(1), of "\<lambda>b. pg_ConsumePasswordResetToken b h p now"]
    by (cases "pg_ConsumePasswordResetToken (base c) h p now")
      (auto simp: WithRedis_def pg_store_def pg_ConsumePasswordResetToken_def Let_def split: option.splits)
next
  case (CallCreateWorkspace w)
  then show ?thesis
    using assms(2) conjunct1 [OF cached_pg.create_workspace [OF assms(1) _ _ prod.collapse [symmetric]]] by simp
next
  case (CallDeleteWorkspace i)
  then show ?thesis
    using assms(2) conjunct1 [OF cached_pg.delete_workspace [OF assms(1) _ prod.collapse [symmetric]]] by simp
next
  case (CallGetWorkspaceByID i)
  then show ?thesis
    using assms(2) conjunct1 [OF cached_pg.get_id [OF assms(1) _ prod.collapse [symmetric]]] by simp
next
  case (CallGetWorkspaceBySlug i)
  then show ?thesis
    using assms(2) conjunct1 [OF cached_pg.get_slug [OF assms(1) _ prod.collapse [symmetric]]] by simp
next
  case (CallGetUserByID i)
  then show ?thesis
    using assms(2) conjunct1 [OF cached_pg.get_user [OF assms(1)  prod.collapse [symmetric]]] by simp
next
  case (CallGetUserByEmail i)
  then show ?thesis
    using assms(2) conjunct1 [OF cached_pg.get_email [OF assms(1)  prod.collapse [symmetric]]] by simp
next
  case (CallListFavorites u)
  then show ?thesis
    using assms(2) conjunct1 [OF cached_pg.list_favorites [OF assms(1) _ prod.collapse [symmetric]]] by simp
next
  case (CallSaveFavorite f)
  then show ?thesis
    using assms(2) conjunct1 [OF cached_pg.save_favorite [OF assms(1) _ prod.collapse [symmetric]]] by simp
next
  case (CallRemoveFavorite u p)
  then show ?thesis
    using assms(2) conjunct1 [OF cached_pg.remove_favorite [OF assms(1) _ prod.collapse [symmetric]]] by simp
qed

lemma cached_same:
  assumes "pg.cached_ok coll c" "call_trimmed q"
  shows "base (fst (perform (WithRedis (pg_store coll)) c q)) = fst (perform (pg_store coll) (base c) q) \<and>
    snd (perform (WithRedis (pg_store coll)) c q) = snd (perform (pg_store coll) (base c) q)"
proof (cases q)
  case (CallGetWorkspaceByID i)
  then show ?thesis
    using cached_pg.get_id [OF assms(1), of i] assms(2) cached_reads_base(1) [of coll c i]
    by (cases "GetWorkspaceByID (WithRedis (pg_store coll)) c i")
      (auto simp: WithRedis_def pg_store_def pg_GetWorkspaceByID_def)
next
  case (CallGetWorkspaceBySlug i)
  then show ?thesis
    using cached_pg.get_slug [OF assms(1), of i] assms(2) cached_reads_base(2) [of coll c i]
    by (cases "GetWorkspaceBySlug (WithRedis (pg_store coll)) c i")
      (auto simp: WithRedis_def pg_store_def pg_GetWorkspaceBySlug_def)
next
  case (CallListFavorites u)
  then show ?thesis
    using cached_pg.list_favorites [OF assms(1), of u] assms(2) cached_reads_base(3) [of coll c u]
    by (cases "ListFavoritePackageIDs (WithRedis (pg_store coll)) c u")
      (auto simp: WithRedis_def pg_store_def pg_ListFavoritePackageIDs_def)
next
  case (CallDeleteWorkspace i)
  then show ?thesis
    using cached_delete_base [of coll c i] by (simp add: WithRedis_def pg_store_def)
next
  case (CallCreateWorkspace w)
  then show ?thesis
    by (auto simp: WithRedis_def cached_CreateWorkspace_def pg_store_def split: prod.split option.split)
next
  case (CallSaveFavorite f)
  then show ?thesis
    by (auto simp: WithRedis_def cached_SaveFavoritePackage_def pg_store_def split: prod.split option.split)
next
  case (CallRemoveFavorite u p)
  then show ?thesis
    by (auto simp: WithRedis_def cached_RemoveFavoritePackage_def pg_store_def split: prod.split option.split)
qed (auto simp: WithRedis_def through_def pg_store_def split: prod.split)


text \<open>The examples: two workspaces, a user, a hub that answers every other read.\<close>

definition demo_workspace :: "string \<Rightarrow> workspace" where
  "demo_workspace i = \<lparr>WorkspaceID = i, Slug = ''s-'' @ i, w_Name = i, w_CreatedAt = 0\<rparr>"

definition demo_user :: user where
  "demo_user = \<lparr>UserID = ''u1'', u_WorkspaceID = ''w1'', Username = ''ann'', Email = ''ann@x.io'', FullName = ''Ann'',
     IsAdmin = False, PassHash = ''h'', u_CreatedAt = 0\<rparr>"

definition demo_hub :: "(nat \<Rightarrow> bool) \<Rightarrow> redis_hub" where
  "demo_hub dels = \<lparr>hub_prefix = ''babel'', hub_entries = Map.empty, hub_reads = (\<lambda>n. even n), hub_sets = (\<lambda>n. True), hub_dels = dels, hub_clock = 0\<rparr>"

definition demo_calls :: "store_call list" where
  "demo_calls = [CallCreateWorkspace (demo_workspace ''w1''), CallGetWorkspaceByID ''w1'', CallCreateWorkspace (demo_workspace ''w2''),
     CallCreateUser demo_user, CallDeleteWorkspace ''w1'', CallDeleteWorkspace ''w2'', CallGetWorkspaceByID ''w2'',
     CallGetWorkspaceBySlug ''s-w2'', CallStoreReset ''u1'' ''hash'' 10, CallConsumeReset ''hash'' ''new'' 5]"

lemma demo_ids: "trimmed_id ''w1''" "trimmed_id ''w2''" "trimmed_id ''s-w1''" "trimmed_id ''s-w2''" "trimmed_id '' w1'' = False"
  by code_simp+

lemma demo_calls_trimmed: "\<forall>q\<in>set demo_calls. call_trimmed q"
  by (simp add: demo_calls_def demo_workspace_def demo_ids)



text \<open>Both provisos matter: when the deletion of the key is lost, a deleted workspace is still served
  from the cache, and an id with a blank around it finds a cached workspace that the database does
  not know under that id.\<close>

lemma lost_deletion_serves_deleted:
  "store_answers (WithRedis (pg_store (\<lambda>a b. False))) \<lparr>base = empty_db, chub = (demo_hub (\<lambda>n. False))\<lparr>hub_reads := \<lambda>n. True\<rparr>\<rparr>
     [CallCreateWorkspace (demo_workspace ''w1''), CallDeleteWorkspace ''w1'', CallGetWorkspaceByID ''w1''] =
     [Done None, Done None, GotWorkspace (Inr (demo_workspace ''w1''))]"
  by code_simp

lemma untrimmed_id_hits_cache:
  "store_answers (WithRedis (pg_store (\<lambda>a b. False))) \<lparr>base = empty_db, chub = (demo_hub (\<lambda>n. True))\<lparr>hub_reads := \<lambda>n. True\<rparr>\<rparr>
     [CallCreateWorkspace (demo_workspace ''w1''), CallGetWorkspaceByID '' w1''] =
     [Done None, GotWorkspace (Inr (demo_workspace ''w1''))] \<and>
   store_answers (pg_store (\<lambda>a b. False)) empty_db
     [CallCreateWorkspace (demo_workspace ''w1''), CallGetWorkspaceByID '' w1''] = [Done None, GotWorkspace (Inl ErrNotFound)]"
  by code_simp

end
