(* ===== verification/Auth_Handlers.thy ===== *)
theory Auth_Handlers
  imports Auth_Tokens User_Store
begin

text \<open>
  The account handlers (internal/auth/handler.go and seed.go): sign-up, sign-in, token refresh,
  password reset, the profile of the signed-in user, and the first administrator.  Each handler is
  a function from the state of the server (the account store, the token service, the lockout and
  the pending codes) and the decoded request to the new state and the reply; a body that does not
  decode is \<open>None\<close>.  The store is a record of operations over an arbitrary state, so the
  definitions serve the database, the cached store and any other; bcrypt, UUIDs and random tokens
  are fields of the environment.  A request is handled at one instant \<open>now\<close>.
\<close>

subsection \<open>Text helpers\<close>

definition re_space :: "char \<Rightarrow> bool" where
  "re_space c \<longleftrightarrow> of_char c \<in> {9, 10, 12, 13, 32 :: nat}"

definition is_lower :: "char \<Rightarrow> bool" where
  "is_lower c \<longleftrightarrow> byte_in 97 122 c"

definition is_upper :: "char \<Rightarrow> bool" where
  "is_upper c \<longleftrightarrow> byte_in 65 90 c"

definition is_digit :: "char \<Rightarrow> bool" where
  "is_digit c \<longleftrightarrow> byte_in 48 57 c"

text \<open>The pattern \<^verbatim>\<open>^[^\s@]+@[^\s@]+\.[^\s@]+$\<close>: exactly one at sign, and a dot inside the part after it.\<close>

definition emailRE :: "string \<Rightarrow> bool" where
  "emailRE s \<longleftrightarrow>
     (let plain = (\<lambda>c. \<not> re_space c \<and> c \<noteq> CHR ''@'') in
      case Cut s CHR ''@'' of
        (loc, host, ok) \<Rightarrow>
          ok \<and> loc \<noteq> [] \<and> list_all plain loc \<and> list_all plain host \<and>
          list_ex (\<lambda>i. host ! i = CHR ''.'') [1..<length host - 1])"

text \<open>\<^verbatim>\<open>ReplaceAllString\<close> of the patterns \<^verbatim>\<open>\s+\<close> and \<^verbatim>\<open>[^a-z0-9]+\<close> with a dash:
  every maximal run of matching bytes becomes one dash.\<close>

fun replace_runs :: "(char \<Rightarrow> bool) \<Rightarrow> bool \<Rightarrow> string \<Rightarrow> string" where
  "replace_runs p in_run [] = []"
| "replace_runs p in_run (c # cs) =
     (if p c then (if in_run then replace_runs p True cs else CHR ''-'' # replace_runs p True cs)
      else c # replace_runs p False cs)"

definition slugify :: "string \<Rightarrow> string" where
  "slugify v =
     (let v = ToLower (TrimSpace v);
          v = replace_runs re_space False v;
          v = replace_runs (\<lambda>c. \<not> (is_lower c \<or> is_digit c)) False v in
      TrimByte v CHR ''-'')"

definition emailPrefix :: "string \<Rightarrow> string" where
  "emailPrefix email =
     (case Cut email CHR ''@'' of (before, _, True) \<Rightarrow> if before \<noteq> [] then before else email | _ \<Rightarrow> email)"

definition usernameBase :: "string \<Rightarrow> string \<Rightarrow> string" where
  "usernameBase fullName email =
     (let cand = slugify fullName;
          cand = (if cand = [] then slugify (emailPrefix email) else cand) in
      if cand = [] then ''member'' else cand)"

text \<open>\<^verbatim>\<open>strings.Fields\<close> splits at ASCII white space here (other space runes inside a name are kept).\<close>

definition firstName :: "string \<Rightarrow> string" where
  "firstName fullName =
     (case FieldsFunc (\<lambda>c. re_space c \<or> of_char c = (11 :: nat)) [] (TrimSpace fullName) of
        [] \<Rightarrow> ''Your'' | p # _ \<Rightarrow> p)"

definition strong_password :: "string \<Rightarrow> bool" where
  "strong_password p \<longleftrightarrow> list_ex is_upper p \<and> list_ex is_lower p \<and> list_ex is_digit p"

subsection \<open>State, environment, replies\<close>

record 's auth_state =
  as_store :: 's
  as_jwt :: jwt_service
  as_lockout :: account_lockout
  as_pending :: pending_store

record 's auth_env =
  ae_store :: "'s store_ops"
  ae_jwt :: jwt_lib
  ae_hash :: "string \<Rightarrow> string"
  ae_bcrypt :: "string \<Rightarrow> string option"
  ae_compare :: "string \<Rightarrow> string \<Rightarrow> bool"
  ae_uuid :: "string \<Rightarrow> nat \<Rightarrow> string"
  ae_random :: "string option"

record auth_config =
  PasswordAuthEnabled :: bool
  SignUpEnabled :: bool
  SMTPEnabled :: bool

record auth_session =
  s_Token :: string
  s_User :: user
  s_Workspace :: workspace
  s_ExpiresAt :: gotime
  s_RefreshToken :: string
  s_RefreshExpiresAt :: gotime

datatype reply =
    ErrorReply int string
  | SessionReply int auth_session
  | ProfileReply user workspace gotime
  | StatusReply int string

subsection \<open>Creating the workspace and the user\<close>

text \<open>The retry loops: five attempts, from the second on with a random suffix.  A UUID is
  \<open>ae_uuid E purpose attempt\<close>.\<close>

definition attempt_name :: "'s auth_env \<Rightarrow> string \<Rightarrow> string \<Rightarrow> nat \<Rightarrow> string" where
  "attempt_name E purpose b n = (if n > 0 then b @ ''-'' @ take 6 (ae_uuid E purpose n) else b)"

fun try_workspaces :: "'s auth_env \<Rightarrow> 's \<Rightarrow> gotime \<Rightarrow> string \<Rightarrow> string \<Rightarrow> nat \<Rightarrow> nat \<Rightarrow> 's \<times> (store_err + workspace)" where
  "try_workspaces E s now slug name attempt 0 = (s, Inl ErrDuplicate)"
| "try_workspaces E s now slug name attempt (Suc left) =
     (let w = \<lparr>WorkspaceID = ae_uuid E ''workspace-id'' attempt, Slug = attempt_name E ''workspace-slug'' slug attempt,
               w_Name = name, w_CreatedAt = now\<rparr> in
      case CreateWorkspace (ae_store E) s w of
        (s', Some ErrDuplicate) \<Rightarrow> try_workspaces E s' now slug name (attempt + 1) left
      | (s', Some err) \<Rightarrow> (s', Inl err)
      | (s', None) \<Rightarrow> (s', Inr w))"

definition createWorkspace :: "'s auth_env \<Rightarrow> 's \<Rightarrow> gotime \<Rightarrow> string \<Rightarrow> string \<Rightarrow> 's \<times> (store_err + workspace)" where
  "createWorkspace E s now fullName email =
     (let baseSlug = slugify (FirstNonEmpty [fullName, emailPrefix email]);
          baseSlug = (if baseSlug = [] then ''workspace'' else baseSlug) in
      try_workspaces E s now baseSlug (firstName fullName @ [CHR 0x27] @ ''s workspace'') 0 5)"

fun try_users ::
    "'s auth_env \<Rightarrow> 's \<Rightarrow> gotime \<Rightarrow> string \<Rightarrow> string \<Rightarrow> string \<Rightarrow> string \<Rightarrow> string \<Rightarrow> bool \<Rightarrow> nat \<Rightarrow> nat \<Rightarrow> 's \<times> (store_err + user)" where
  "try_users E s now name fullName email passHash workspaceID isAdmin attempt 0 = (s, Inl ErrDuplicate)"
| "try_users E s now name fullName email passHash workspaceID isAdmin attempt (Suc left) =
     (let u = \<lparr>UserID = ae_uuid E ''user-id'' attempt, u_WorkspaceID = workspaceID,
               Username = attempt_name E ''user-name'' name attempt, Email = email, FullName = fullName,
               IsAdmin = isAdmin, PassHash = passHash, u_CreatedAt = now\<rparr> in
      case CreateUser (ae_store E) s u of
        (s', Some ErrDuplicate) \<Rightarrow> try_users E s' now name fullName email passHash workspaceID isAdmin (attempt + 1) left
      | (s', Some err) \<Rightarrow> (s', Inl err)
      | (s', None) \<Rightarrow> (s', Inr u))"

definition createUser ::
    "'s auth_env \<Rightarrow> 's \<Rightarrow> gotime \<Rightarrow> string \<Rightarrow> string \<Rightarrow> string \<Rightarrow> string \<Rightarrow> bool \<Rightarrow> 's \<times> (store_err + user)" where
  "createUser E s now fullName email passHash workspaceID isAdmin =
     (let baseUsername = usernameBase fullName email;
          baseUsername = (if baseUsername = [] then ''member'' else baseUsername) in
      try_users E s now baseUsername fullName email passHash workspaceID isAdmin 0 5)"

subsection \<open>Sessions\<close>

text \<open>The two calls that end sign-up, sign-in and refresh: an access and a refresh token.\<close>

definition issue_session ::
    "'s auth_env \<Rightarrow> jwt_service \<Rightarrow> gotime \<Rightarrow> int \<Rightarrow> user \<Rightarrow> workspace \<Rightarrow> string list \<Rightarrow> string \<Rightarrow> reply" where
  "issue_session E j now status u w groups provider =
     (case Sign (ae_jwt E) j now (UserID u) (u_WorkspaceID u) (IsAdmin u) groups provider of
        Inl _ \<Rightarrow> ErrorReply 500 ''Could not create your session right now.''
      | Inr (token, expiresAt) \<Rightarrow>
          (case SignRefresh (ae_jwt E) j now (UserID u) (u_WorkspaceID u) (IsAdmin u) provider of
             Inl _ \<Rightarrow> ErrorReply 500 ''Could not create your session right now.''
           | Inr (refresh, refreshExpiresAt) \<Rightarrow>
               SessionReply status \<lparr>s_Token = token, s_User = u, s_Workspace = w, s_ExpiresAt = expiresAt,
                 s_RefreshToken = refresh, s_RefreshExpiresAt = refreshExpiresAt\<rparr>))"

subsection \<open>Sign-up\<close>

record sign_up_request =
  su_FullName :: string
  su_Email :: string
  su_Password :: string

definition check_sign_up :: "string \<Rightarrow> string \<Rightarrow> string \<Rightarrow> string option" where
  "check_sign_up fullName email password =
     (if fullName = [] \<or> email = [] \<or> password = [] then Some ''Full name, email, and password are required.''
      else if \<not> emailRE email then Some ''Enter a valid email address.''
      else if length password < 8 then Some ''Password must be at least 8 characters.''
      else if \<not> strong_password password
      then Some ''Password must contain at least one uppercase letter, one lowercase letter, and one number.''
      else None)"

text \<open>From the point where the password is hashed: workspace, user, and the workspace deleted again when
  the user could not be created.\<close>

definition create_account ::
    "'s auth_env \<Rightarrow> 's auth_state \<Rightarrow> gotime \<Rightarrow> string \<Rightarrow> string \<Rightarrow> string \<Rightarrow> 's auth_state \<times> reply" where
  "create_account E a now fullName email passHash =
     (case createWorkspace E (as_store a) now fullName email of
        (s, Inl _) \<Rightarrow> (a\<lparr>as_store := s\<rparr>, ErrorReply 500 ''Could not create your workspace right now.'')
      | (s, Inr w) \<Rightarrow>
          (case createUser E s now fullName email passHash (WorkspaceID w) False of
             (s', Inl err) \<Rightarrow>
               (a\<lparr>as_store := fst (DeleteWorkspace (ae_store E) s' (WorkspaceID w))\<rparr>,
                if err = ErrDuplicate then ErrorReply 409 ''An account already exists for that email address.''
                else ErrorReply 500 ''Could not create your account right now.'')
           | (s', Inr u) \<Rightarrow> (a\<lparr>as_store := s'\<rparr>, issue_session E (as_jwt a) now 201 u w [] ''password'')))"

definition signUp ::
    "'s auth_env \<Rightarrow> auth_config \<Rightarrow> 's auth_state \<Rightarrow> gotime \<Rightarrow> sign_up_request option \<Rightarrow> 's auth_state \<times> reply" where
  "signUp E cfg a now body =
     (if \<not> SignUpEnabled cfg then (a, ErrorReply 403 ''Local sign-up is disabled.'')
      else case body of
        None \<Rightarrow> (a, ErrorReply 400 ''Invalid request body.'')
      | Some req \<Rightarrow>
          (let fullName = TrimSpace (su_FullName req); email = ToLower (TrimSpace (su_Email req)) in
           case check_sign_up fullName email (su_Password req) of
             Some msg \<Rightarrow> (a, ErrorReply 400 msg)
           | None \<Rightarrow>
               (case GetUserByEmail (ae_store E) (as_store a) email of
                  (s, Inr _) \<Rightarrow> (a\<lparr>as_store := s\<rparr>, ErrorReply 409 ''An account already exists for that email address.'')
                | (s, Inl err) \<Rightarrow>
                    if err \<noteq> ErrNotFound
                    then (a\<lparr>as_store := s\<rparr>, ErrorReply 500 ''Could not create your account right now.'')
                    else (case ae_bcrypt E (su_Password req) of
                            None \<Rightarrow> (a\<lparr>as_store := s\<rparr>, ErrorReply 500 ''Could not create your account right now.'')
                          | Some passHash \<Rightarrow> create_account E (a\<lparr>as_store := s\<rparr>) now fullName email passHash))))"

subsection \<open>Sign-in\<close>

record sign_in_request =
  si_Email :: string
  si_Password :: string

definition signIn ::
    "'s auth_env \<Rightarrow> auth_config \<Rightarrow> 's auth_state \<Rightarrow> gotime \<Rightarrow> sign_in_request option \<Rightarrow> 's auth_state \<times> reply" where
  "signIn E cfg a now body =
     (if \<not> PasswordAuthEnabled cfg then (a, ErrorReply 403 ''Local password sign-in is disabled.'')
      else case body of
        None \<Rightarrow> (a, ErrorReply 400 ''Invalid request body.'')
      | Some req \<Rightarrow>
          (let email = ToLower (TrimSpace (si_Email req)); password = si_Password req in
           if email = [] \<or> password = [] then (a, ErrorReply 400 ''Email and password are required.'')
           else if locked (as_lockout a) email now
           then (a, ErrorReply 429
                  ''Account temporarily locked due to too many failed sign-in attempts. Please try again later.'')
           else (case GetUserByEmail (ae_store E) (as_store a) email of
               (s, Inl err) \<Rightarrow>
                 if err = ErrNotFound
                 then (a\<lparr>as_store := s, as_lockout := record_failure (as_lockout a) email now now\<rparr>,
                       ErrorReply 401 ''Incorrect email or password.'')
                 else (a\<lparr>as_store := s\<rparr>, ErrorReply 500 ''Could not sign you in right now.'')
             | (s, Inr u) \<Rightarrow>
                 if \<not> ae_compare E (PassHash u) password
                 then (a\<lparr>as_store := s, as_lockout := record_failure (as_lockout a) email now now\<rparr>,
                       ErrorReply 401 ''Incorrect email or password.'')
                 else (case GetWorkspaceByID (ae_store E) s (u_WorkspaceID u) of
                     (s', Inl _) \<Rightarrow>
                       (a\<lparr>as_store := s', as_lockout := reset_failures (as_lockout a) email\<rparr>,
                        ErrorReply 500 ''Could not sign you in right now.'')
                   | (s', Inr w) \<Rightarrow>
                       (a\<lparr>as_store := s', as_lockout := reset_failures (as_lockout a) email\<rparr>,
                        issue_session E (as_jwt a) now 200 u w [] ''password'')))))"

subsection \<open>Refresh, password reset, profile\<close>

text \<open>\<^verbatim>\<open>uuid.Parse\<close> is a parameter: the canonical form of a UUID, or an error.\<close>

definition refreshToken ::
    "(string \<Rightarrow> string option) \<Rightarrow> 's auth_env \<Rightarrow> 's auth_state \<Rightarrow> gotime \<Rightarrow> string option \<Rightarrow> 's auth_state \<times> reply" where
  "refreshToken parse_uuid E a now body =
     (case body of
        None \<Rightarrow> (a, ErrorReply 400 ''Invalid request body.'')
      | Some raw \<Rightarrow>
          (let tok = TrimSpace raw in
           if tok = [] then (a, ErrorReply 400 ''Refresh token is required.'')
           else case VerifyRefresh (ae_jwt E) (ae_hash E) (as_jwt a) tok now of
             (j, Inl _) \<Rightarrow> (a\<lparr>as_jwt := j\<rparr>, ErrorReply 401 ''Refresh token is invalid or has expired.'')
           | (j, Inr c) \<Rightarrow>
               (case (parse_uuid (c_UserID c), parse_uuid (c_WorkspaceID c)) of
                  (Some userID, Some workspaceID) \<Rightarrow>
                    (case GetUserByID (ae_store E) (as_store a) userID of
                       (s, Inl _) \<Rightarrow> (a\<lparr>as_jwt := j, as_store := s\<rparr>, ErrorReply 401 ''Account not found.'')
                     | (s, Inr u) \<Rightarrow>
                         (case GetWorkspaceByID (ae_store E) s workspaceID of
                            (s', Inl _) \<Rightarrow> (a\<lparr>as_jwt := j, as_store := s'\<rparr>, ErrorReply 500 ''Could not load your workspace.'')
                          | (s', Inr w) \<Rightarrow>
                              (let j' = Revoke (ae_hash E) j tok now now in
                               (a\<lparr>as_jwt := j', as_store := s'\<rparr>,
                                issue_session E j' now 200 u w (c_Groups c) (c_Provider c)))))
                | _ \<Rightarrow> (a\<lparr>as_jwt := j\<rparr>, ErrorReply 401 ''Refresh token is invalid or has expired.''))))"

text \<open>Sending the mail with the link is left to a goroutine and not part of the reply; the raw token
  goes only there.\<close>

definition forgotPassword ::
    "'s auth_env \<Rightarrow> auth_config \<Rightarrow> 's auth_state \<Rightarrow> gotime \<Rightarrow> string option \<Rightarrow> 's auth_state \<times> reply" where
  "forgotPassword E cfg a now body =
     (if \<not> SMTPEnabled cfg
      then (a, ErrorReply 503 ''Password reset via email is not configured for this environment.'')
      else case body of
        None \<Rightarrow> (a, StatusReply 200 ''ok'')
      | Some raw \<Rightarrow>
          (let email = ToLower (TrimSpace raw) in
           if email = [] \<or> \<not> emailRE email then (a, StatusReply 200 ''ok'')
           else case GetUserByEmail (ae_store E) (as_store a) email of
             (s, Inl _) \<Rightarrow> (a\<lparr>as_store := s\<rparr>, StatusReply 200 ''ok'')
           | (s, Inr u) \<Rightarrow>
               (case ae_random E of
                  None \<Rightarrow> (a\<lparr>as_store := s\<rparr>, ErrorReply 500 ''Could not generate reset token.'')
                | Some raw_token \<Rightarrow>
                    (case StorePasswordResetToken (ae_store E) s (UserID u) (ae_hash E raw_token) (now + 15 * minute) of
                       (s', Some _) \<Rightarrow> (a\<lparr>as_store := s'\<rparr>, ErrorReply 500 ''Could not process password reset.'')
                     | (s', None) \<Rightarrow> (a\<lparr>as_store := s'\<rparr>, StatusReply 200 ''ok'')))))"

definition resetPassword ::
    "'s auth_env \<Rightarrow> 's auth_state \<Rightarrow> gotime \<Rightarrow> (string \<times> string) option \<Rightarrow> 's auth_state \<times> reply" where
  "resetPassword E a now body =
     (case body of
        None \<Rightarrow> (a, ErrorReply 400 ''Invalid request body.'')
      | Some (raw, password) \<Rightarrow>
          (let tok = TrimSpace raw in
           if tok = [] then (a, ErrorReply 400 ''Reset token is required.'')
           else if length password < 8 \<or> \<not> strong_password password
           then (a, ErrorReply 400 ''Password must be at least 8 characters and contain uppercase, lowercase, and a number.'')
           else case ae_bcrypt E password of
             None \<Rightarrow> (a, ErrorReply 500 ''Could not process your request.'')
           | Some newHash \<Rightarrow>
               (case ConsumePasswordResetToken (ae_store E) (as_store a) (ae_hash E tok) newHash now of
                  (s, Some ErrNotFound) \<Rightarrow> (a\<lparr>as_store := s\<rparr>, ErrorReply 400 ''Reset link is invalid or has expired.'')
                | (s, Some _) \<Rightarrow> (a\<lparr>as_store := s\<rparr>, ErrorReply 500 ''Could not reset your password.'')
                | (s, None) \<Rightarrow> (a\<lparr>as_store := s\<rparr>, StatusReply 200 ''ok''))))"

definition me :: "'s auth_env \<Rightarrow> 's auth_state \<Rightarrow> claims option \<Rightarrow> 's auth_state \<times> reply" where
  "me E a session =
     (case session of
        None \<Rightarrow> (a, ErrorReply 401 ''Sign in required.'')
      | Some c \<Rightarrow>
          (case GetUserByID (ae_store E) (as_store a) (c_UserID c) of
             (s, Inl _) \<Rightarrow> (a\<lparr>as_store := s\<rparr>, ErrorReply 401 ''Session expired or invalid.'')
           | (s, Inr u) \<Rightarrow>
               (case GetWorkspaceByID (ae_store E) s (c_WorkspaceID c) of
                  (s', Inl _) \<Rightarrow> (a\<lparr>as_store := s'\<rparr>, ErrorReply 500 ''Could not load your workspace.'')
                | (s', Inr w) \<Rightarrow> (a\<lparr>as_store := s'\<rparr>, ProfileReply (u\<lparr>IsAdmin := c_IsAdmin c\<rparr>) w (c_ExpiresAt c)))))"

subsection \<open>The seeded administrator\<close>

definition createSeedWorkspace :: "'s auth_env \<Rightarrow> 's \<Rightarrow> gotime \<Rightarrow> string \<Rightarrow> 's \<times> (store_err + workspace)" where
  "createSeedWorkspace E s now username =
     try_workspaces E s now (if username = [] then ''admin'' else username) ''Admin workspace'' 0 5"

definition Seed :: "'s auth_env \<Rightarrow> 's \<Rightarrow> gotime \<Rightarrow> string \<Rightarrow> string \<Rightarrow> 's" where
  "Seed E s now raw_email raw_password =
     (let email = TrimSpace (ToLower raw_email); password = TrimSpace raw_password in
      if email = [] \<or> password = [] then s
      else case GetUserByEmail (ae_store E) s email of
        (s', Inr _) \<Rightarrow> s'
      | (s', Inl err) \<Rightarrow>
          if err \<noteq> ErrNotFound then s'
          else (case ae_bcrypt E password of
             None \<Rightarrow> s'
           | Some passHash \<Rightarrow>
               (let b = usernameBase [] email; b = (if b = [] then ''admin'' else b) in
                case createSeedWorkspace E s' now b of
                  (s'', Inl _) \<Rightarrow> s''
                | (s'', Inr w) \<Rightarrow>
                    fst (try_users E s'' now b ''Administrator'' email passHash (WorkspaceID w) True 0 5))))"

subsection \<open>Names made by the handlers\<close>

definition slug_char :: "char \<Rightarrow> bool" where
  "slug_char c \<longleftrightarrow> is_lower c \<or> is_digit c"

lemma slug_char_plain: "slug_char c \<Longrightarrow> plain_char c" "plain_char CHR ''-''" "\<not> slug_char CHR ''-''"
  by (auto simp: slug_char_def is_lower_def is_digit_def byte_in_def plain_char_def)

lemma replace_runs_chars: "c \<in> set (replace_runs p b s) \<Longrightarrow> \<not> p c \<or> c = CHR ''-''"
  by (induction p b s rule: replace_runs.induct) (auto split: if_splits)

lemma set_TrimByte: "set (TrimByte s c) \<subseteq> set s"
  by (auto simp: TrimByte_def dest!: set_dropWhileD)

lemma slugify_chars: "c \<in> set (slugify v) \<Longrightarrow> slug_char c \<or> c = CHR ''-''"
proof -
  assume "c \<in> set (slugify v)"
  then have "c \<in> set (replace_runs (\<lambda>c. \<not> (is_lower c \<or> is_digit c)) False
      (replace_runs re_space False (ToLower (TrimSpace v))))"
    unfolding slugify_def Let_def using set_TrimByte by blast
  then show ?thesis
    using replace_runs_chars by (fastforce simp: slug_char_def)
qed

lemma slugify_plain: "list_all plain_char (slugify v)"
  unfolding list_all_iff using slugify_chars slug_char_plain by blast

text \<open>The environment's UUIDs are printable, and bcrypt recognises the passwords it hashed.\<close>

definition env_ok :: "'s auth_env \<Rightarrow> bool" where
  "env_ok E \<longleftrightarrow>
     (\<forall>p n. ae_uuid E p n \<noteq> [] \<and> list_all plain_char (ae_uuid E p n)) \<and>
     (\<forall>p h. ae_bcrypt E p = Some h \<longrightarrow> ae_compare E h p)"

lemma plain_trimmed: "list_all plain_char s \<Longrightarrow> s \<noteq> [] \<Longrightarrow> trimmed_id s"
  by (simp add: trimmed_id_def TrimSpace_plain)

lemma list_all_take: "list_all P xs \<Longrightarrow> list_all P (take n xs)"
  by (auto simp: list_all_iff dest: in_set_takeD)

lemma attempt_name_trimmed:
  "env_ok E \<Longrightarrow> list_all plain_char b \<Longrightarrow> b \<noteq> [] \<Longrightarrow> trimmed_id (attempt_name E p b n)"
  by (rule plain_trimmed) (auto simp: attempt_name_def env_ok_def slug_char_plain list_all_take)

subsection \<open>Handlers over a store that keeps the contract\<close>

text \<open>The laws of \<open>account_store\<close> carry through the retry loops and the handlers; these lemmas hold for
  the database and for the cached store alike.\<close>

context account_store
begin

definition same_view :: "'s \<Rightarrow> 's \<Rightarrow> bool" where
  "same_view s s' \<longleftrightarrow> ok s' \<and> rows s' = rows s \<and> usrs s' = usrs s \<and> favs s' = favs s"

lemma same_view_trans: "same_view s s' \<Longrightarrow> same_view s' s'' \<Longrightarrow> same_view s s''"
  by (simp add: same_view_def)

lemma try_workspaces_spec:
  assumes "ae_store E = st" "env_ok E" "ok s" "list_all plain_char slug" "slug \<noteq> []"
    and "try_workspaces E s now slug name attempt left = (s', r)"
  shows "case r of
      Inl err \<Rightarrow> same_view s s'
    | Inr w \<Rightarrow> ok s' \<and> usrs s' = usrs s \<and> favs s' = favs s \<and> rows s' = rows s @ [w] \<and>
        (\<forall>x\<in>set (rows s). WorkspaceID x \<noteq> WorkspaceID w) \<and> trimmed_id (WorkspaceID w)"
  using assms(3,6)
proof (induction left arbitrary: s attempt)
  case 0
  then show ?case by (auto simp: same_view_def)
next
  case (Suc left)
  let ?w = "\<lparr>WorkspaceID = ae_uuid E ''workspace-id'' attempt, Slug = attempt_name E ''workspace-slug'' slug attempt,
               w_Name = name, w_CreatedAt = now\<rparr>"
  obtain s1 r1 where c: "CreateWorkspace st s ?w = (s1, r1)" by fastforce
  have t: "trimmed_id (WorkspaceID ?w)" "trimmed_id (Slug ?w)"
    using assms(2,4,5) attempt_name_trimmed plain_trimmed by (auto simp: env_ok_def)
  note law = create_workspace [OF Suc.prems(1) t c]
  show ?case
  proof (cases "\<exists>x\<in>set (rows s). WorkspaceID x = WorkspaceID ?w \<or> Slug x = Slug ?w")
    case True
    then have v: "r1 = Some ErrDuplicate" "same_view s s1"
      using law by (auto simp: same_view_def)
    then have "try_workspaces E s1 now slug name (attempt + 1) left = (s', r)"
      using Suc.prems(2) c assms(1) by (simp add: Let_def)
    then have "case r of Inl err \<Rightarrow> same_view s1 s'
      | Inr w \<Rightarrow> ok s' \<and> usrs s' = usrs s1 \<and> favs s' = favs s1 \<and> rows s' = rows s1 @ [w] \<and>
          (\<forall>x\<in>set (rows s1). WorkspaceID x \<noteq> WorkspaceID w) \<and> trimmed_id (WorkspaceID w)"
      using Suc.IH [of s1 "attempt + 1"] v(2) unfolding same_view_def by blast
    then show ?thesis
      using v(2) by (simp add: same_view_def split: sum.splits)
  next
    case False
    then have "r1 = None" "ok s1" "usrs s1 = usrs s" "favs s1 = favs s" "rows s1 = rows s @ [?w]"
      using law by auto
    then show ?thesis
      using Suc.prems(2) c assms(1) t False by (auto simp: Let_def)
  qed
qed

lemma try_users_spec:
  assumes "ae_store E = st" "ok s"
    and "try_users E s now name fullName email passHash ws admin attempt left = (s', r)"
  shows "case r of
      Inl err \<Rightarrow> same_view s s'
    | Inr u \<Rightarrow> ok s' \<and> rows s' = rows s \<and> favs s' = favs s \<and> usrs s' = usrs s @ [u] \<and>
        (\<forall>x\<in>set (usrs s). Email x \<noteq> email) \<and>
        Email u = email \<and> PassHash u = passHash \<and> u_WorkspaceID u = ws \<and> IsAdmin u = admin \<and> FullName u = fullName"
  using assms(2,3)
proof (induction left arbitrary: s attempt)
  case 0
  then show ?case by (auto simp: same_view_def)
next
  case (Suc left)
  let ?u = "\<lparr>UserID = ae_uuid E ''user-id'' attempt, u_WorkspaceID = ws, Username = attempt_name E ''user-name'' name attempt,
      Email = email, FullName = fullName, IsAdmin = admin, PassHash = passHash, u_CreatedAt = now\<rparr>"
  obtain s1 r1 where c: "CreateUser st s ?u = (s1, r1)" by fastforce
  note law = create_user [OF Suc.prems(1) c]
  consider (dup) "r1 = Some ErrDuplicate" "same_view s s1"
    | (err) e where "r1 = Some e" "e \<noteq> ErrDuplicate" "same_view s s1"
    | (new) "r1 = None" "ok s1" "rows s1 = rows s" "favs s1 = favs s" "usrs s1 = usrs s @ [?u]"
        "\<forall>x\<in>set (usrs s). Email x \<noteq> email"
    using law by (cases r1) (auto simp: same_view_def split: if_splits)
  then show ?case
  proof cases
    case dup
    then have "try_users E s1 now name fullName email passHash ws admin (attempt + 1) left = (s', r)"
      using Suc.prems(2) c assms(1) by (simp add: Let_def)
    then have "case r of Inl err \<Rightarrow> same_view s1 s'
      | Inr u \<Rightarrow> ok s' \<and> rows s' = rows s1 \<and> favs s' = favs s1 \<and> usrs s' = usrs s1 @ [u] \<and>
          (\<forall>x\<in>set (usrs s1). Email x \<noteq> email) \<and>
          Email u = email \<and> PassHash u = passHash \<and> u_WorkspaceID u = ws \<and> IsAdmin u = admin \<and> FullName u = fullName"
      using Suc.IH [of s1 "attempt + 1"] dup(2) unfolding same_view_def by blast
    then show ?thesis
      using dup(2) by (simp add: same_view_def split: sum.splits)
  next
    case err
    then show ?thesis
      using Suc.prems(2) c assms(1) by (cases e) (auto simp: Let_def)
  next
    case new
    then show ?thesis
      using Suc.prems(2) c assms(1) by (auto simp: Let_def)
  qed
qed

text \<open>What sign-up does to the accounts: nothing, or one new workspace with one new user in it.\<close>

definition account_added :: "'s \<Rightarrow> 's \<Rightarrow> string \<Rightarrow> string \<Rightarrow> workspace \<Rightarrow> user \<Rightarrow> bool" where
  "account_added s s' email passHash w u \<longleftrightarrow>
     ok s' \<and> rows s' = rows s @ [w] \<and> usrs s' = usrs s @ [u] \<and> favs s' = favs s \<and>
     Email u = email \<and> PassHash u = passHash \<and> u_WorkspaceID u = WorkspaceID w \<and> \<not> IsAdmin u \<and>
     trimmed_id (WorkspaceID w) \<and> (\<forall>x\<in>set (rows s). WorkspaceID x \<noteq> WorkspaceID w) \<and> (\<forall>x\<in>set (usrs s). Email x \<noteq> email)"

lemma createWorkspace_spec:
  assumes "ae_store E = st" "env_ok E" "ok s" "createWorkspace E s now fullName email = (s', r)"
  shows "case r of
      Inl err \<Rightarrow> same_view s s'
    | Inr w \<Rightarrow> ok s' \<and> usrs s' = usrs s \<and> favs s' = favs s \<and> rows s' = rows s @ [w] \<and>
        (\<forall>x\<in>set (rows s). WorkspaceID x \<noteq> WorkspaceID w) \<and> trimmed_id (WorkspaceID w)"
proof -
  define slug where "slug = slugify (FirstNonEmpty [fullName, emailPrefix email])"
  define b where "b = (if slug = [] then ''workspace'' else slug)"
  have "list_all plain_char b" "b \<noteq> []"
    using slugify_plain by (auto simp: plain_char_def b_def slug_def)
  then show ?thesis
    using try_workspaces_spec [OF assms(1-3)] assms(4)
    unfolding createWorkspace_def Let_def slug_def [symmetric] b_def [symmetric] by blast
qed

lemma delete_new_workspace:
  assumes "ok s" "usrs s1 = usrs s" "rows s1 = rows s @ [w]" "favs s1 = favs s" "ok s1"
    and "\<forall>x\<in>set (rows s). WorkspaceID x \<noteq> WorkspaceID w" "trimmed_id (WorkspaceID w)"
  shows "same_view s (fst (DeleteWorkspace st s1 (WorkspaceID w)))"
proof -
  obtain s2 r where d: "DeleteWorkspace st s1 (WorkspaceID w) = (s2, r)" by fastforce
  have "\<forall>u\<in>set (usrs s1). u_WorkspaceID u \<noteq> WorkspaceID w"
    using rows_keys [OF assms(1)] assms(2,6) by fastforce
  moreover have "filter (\<lambda>x. WorkspaceID x \<noteq> WorkspaceID w) (rows s1) = rows s"
    using assms(3,6) by (simp add: filter_True)
  ultimately show ?thesis
    using delete_workspace [OF assms(5,7) d] d assms(2,4) by (auto simp: same_view_def)
qed

lemma create_account_spec:
  assumes "ae_store E = st" "env_ok E" "ok (as_store a)"
    and "create_account E a now fullName email passHash = (a', r)"
  shows "as_jwt a' = as_jwt a \<and> as_lockout a' = as_lockout a \<and> as_pending a' = as_pending a \<and>
    (same_view (as_store a) (as_store a') \<and> (\<exists>status msg. r = ErrorReply status msg) \<or>
     (\<exists>w u. account_added (as_store a) (as_store a') email passHash w u \<and>
        r = issue_session E (as_jwt a) now 201 u w [] ''password''))"
proof -
  obtain s r1 where w: "createWorkspace E (as_store a) now fullName email = (s, r1)" by fastforce
  note ws = createWorkspace_spec [OF assms(1-3) w]
  show ?thesis
  proof (cases r1)
    case (Inl e)
    then show ?thesis using ws w assms(4) by (auto simp: create_account_def)
  next
    case (Inr w1)
    obtain s2 r2 where u: "createUser E s now fullName email passHash (WorkspaceID w1) False = (s2, r2)" by fastforce
    have us: "case r2 of Inl err \<Rightarrow> same_view s s2
      | Inr u \<Rightarrow> ok s2 \<and> rows s2 = rows s \<and> favs s2 = favs s \<and> usrs s2 = usrs s @ [u] \<and>
          (\<forall>x\<in>set (usrs s). Email x \<noteq> email) \<and>
          Email u = email \<and> PassHash u = passHash \<and> u_WorkspaceID u = WorkspaceID w1 \<and> IsAdmin u = False \<and> FullName u = fullName"
      using try_users_spec [OF assms(1), of s] u ws Inr by (auto simp: createUser_def Let_def split: if_splits)
    show ?thesis
    proof (cases r2)
      case (Inl e)
      have "same_view (as_store a) (fst (DeleteWorkspace st s2 (WorkspaceID w1)))"
        using delete_new_workspace [OF assms(3), of s2 w1] us ws Inr Inl by (auto simp: same_view_def)
      then show ?thesis using w u Inr Inl assms(1,4) by (auto simp: create_account_def)
    next
      case (Inr u1)
      then have "account_added (as_store a) s2 email passHash w1 u1"
        using us ws \<open>r1 = Inr w1\<close> by (auto simp: account_added_def)
      moreover have "a' = a\<lparr>as_store := s2\<rparr>" "r = issue_session E (as_jwt a) now 201 u1 w1 [] ''password''"
        using w u \<open>r1 = Inr w1\<close> Inr assms(4) by (auto simp: create_account_def)
      ultimately show ?thesis by auto
    qed
  qed
qed

lemma signUp_spec:
  assumes "ae_store E = st" "env_ok E" "ok (as_store a)" "signUp E cfg a now body = (a', r)"
  shows "as_jwt a' = as_jwt a \<and> as_lockout a' = as_lockout a \<and> as_pending a' = as_pending a \<and>
    (same_view (as_store a) (as_store a') \<and> (\<exists>status msg. r = ErrorReply status msg) \<or>
     (\<exists>req passHash w u. body = Some req \<and> SignUpEnabled cfg \<and>
        check_sign_up (TrimSpace (su_FullName req)) (ToLower (TrimSpace (su_Email req))) (su_Password req) = None \<and>
        ae_bcrypt E (su_Password req) = Some passHash \<and>
        account_added (as_store a) (as_store a') (ToLower (TrimSpace (su_Email req))) passHash w u \<and>
        r = issue_session E (as_jwt a) now 201 u w [] ''password''))"
proof -
  have same: "same_view (as_store a) (as_store a)"
    using assms(3) by (simp add: same_view_def)
  show ?thesis
  proof (cases "SignUpEnabled cfg \<and> body \<noteq> None")
    case False
    then show ?thesis using assms(4) same by (auto simp: signUp_def split: if_splits)
  next
    case True
    then obtain req where body: "body = Some req" and en: "SignUpEnabled cfg" by auto
    let ?email = "ToLower (TrimSpace (su_Email req))" and ?name = "TrimSpace (su_FullName req)"
    obtain s r1 where g: "GetUserByEmail st (as_store a) ?email = (s, r1)" by fastforce
    have s: "same_view (as_store a) s" "ok s"
      using get_email [OF assms(3) g] by (auto simp: same_view_def)
    show ?thesis
    proof (cases "check_sign_up ?name ?email (su_Password req) = None \<and> r1 = Inl ErrNotFound \<and> ae_bcrypt E (su_Password req) \<noteq> None")
      case False
      then show ?thesis
        using assms(1,4) body en g s same by (auto simp: signUp_def Let_def split: option.splits sum.splits if_splits)
    next
      case True
      then obtain h where h: "ae_bcrypt E (su_Password req) = Some h" by auto
      have c: "create_account E (a\<lparr>as_store := s\<rparr>) now ?name ?email h = (a', r)"
        using assms(1,4) body en g True h by (auto simp: signUp_def Let_def)
      show ?thesis
        using create_account_spec [OF assms(1,2) _ c] s body en True h
        by (auto simp: same_view_def account_added_def)
    qed
  qed
qed

lemma signIn_ok:
  assumes "ae_store E = st" "ok (as_store a)" "PasswordAuthEnabled cfg" "si_Password req \<noteq> []"
    and "ToLower (TrimSpace (si_Email req)) = email" "email \<noteq> []" "\<not> locked (as_lockout a) email now"
    and "find (\<lambda>x. Email x = email) (usrs (as_store a)) = Some u" "ae_compare E (PassHash u) (si_Password req)"
    and "find (\<lambda>x. WorkspaceID x = u_WorkspaceID u) (rows (as_store a)) = Some w"
  shows "snd (signIn E cfg a now (Some req)) = issue_session E (as_jwt a) now 200 u w [] ''password''"
proof -
  obtain s r where g: "GetUserByEmail st (as_store a) email = (s, r)" by fastforce
  have r: "r = Inr u" "ok s" "rows s = rows (as_store a)"
    using get_email [OF assms(2) g] assms(8) by (auto simp: found_def)
  obtain s' r' where g': "GetWorkspaceByID st s (u_WorkspaceID u) = (s', r')" by fastforce
  have w: "w \<in> set (rows (as_store a))" "WorkspaceID w = u_WorkspaceID u"
    using assms(10) by (auto simp: find_Some_iff)
  then have "trimmed_id (u_WorkspaceID u)"
    using row_trimmed [OF assms(2) w(1)] by simp
  then have "r' = Inr w"
    using get_id [OF r(2) _ g'] assms(10) r(3) by (auto simp: found_def)
  then show ?thesis
    using assms g r g' by (simp add: signIn_def Let_def)
qed

end

end
