(* ===== verification/Auth_Accounts.thy ===== *)
theory Auth_Accounts
  imports Auth_Handlers
begin

text \<open>
  Properties that span the handlers, the store, the token service and the lockout: accounts are
  created whole or not at all, a new account can be used, guessing a password is bounded, a refresh
  token works once, and so does a reset link.
\<close>

subsection \<open>Accounts\<close>


lemma issue_session_reply:
  "issue_session E j now status u w groups provider = SessionReply status' sess \<Longrightarrow>
     status' = status \<and> s_User sess = u \<and> s_Workspace sess = w"
  by (auto simp: issue_session_def split: sum.splits)

text \<open>Signing with a byte key never fails.\<close>

definition jwt_signs :: "jwt_lib \<Rightarrow> bool" where
  "jwt_signs L \<longleftrightarrow> (\<forall>key kid c. \<exists>token. SignedString L key kid c = Inr token)"

lemma issue_session_ok:
  assumes "jwt_signs (ae_jwt E)"
  obtains sess where "issue_session E j now status u w groups provider = SessionReply status sess"
    "s_User sess = u" "s_Workspace sess = w" "s_ExpiresAt sess = now + TokenTTL"
    "s_RefreshExpiresAt sess = now + RefreshTokenTTL"
proof -
  obtain x where x: "Sign (ae_jwt E) j now (UserID u) (u_WorkspaceID u) (IsAdmin u) groups provider = Inr (x, now + TokenTTL)"
    using assms unfolding jwt_signs_def Sign_def Let_def by (metis sum.simps(6))
  obtain y where y: "SignRefresh (ae_jwt E) j now (UserID u) (u_WorkspaceID u) (IsAdmin u) provider = Inr (y, now + RefreshTokenTTL)"
    using assms unfolding jwt_signs_def SignRefresh_def Let_def by (metis sum.simps(6))
  show thesis
    by (rule that [of "\<lparr>s_Token = x, s_User = u, s_Workspace = w, s_ExpiresAt = now + TokenTTL, s_RefreshToken = y,
        s_RefreshExpiresAt = now + RefreshTokenTTL\<rparr>"]) (simp_all add: issue_session_def x y)
qed

text \<open>C27. Who signed up can sign in.  After a successful sign-up, and whatever happened since as long
  as the user and its workspace are still in the database, a sign-in with the same password and the
  same address, in any capitalisation and with blanks around it, is answered with a session for the
  same user and workspace, unless the account is locked at that time.\<close>

theorem sign_up_then_sign_in:
  assumes env: "ae_store E = pg_store coll" "env_ok E" "jwt_signs (ae_jwt E)"
    and up: "db_ok (as_store a)" "signUp E cfg a now (Some req) = (a', SessionReply 201 sess)"
    and later: "db_ok (as_store b)" "s_User sess \<in> set (db_users (as_store b))"
      "s_Workspace sess \<in> set (db_workspaces (as_store b))"
    and request: "PasswordAuthEnabled cfg" "si_Password rq = su_Password req"
      "ToLower (TrimSpace (si_Email rq)) = ToLower (TrimSpace (su_Email req))"
      "\<not> locked (as_lockout b) (ToLower (TrimSpace (si_Email rq))) now'"
  shows "\<exists>sess'. snd (signIn E cfg b now' (Some rq)) = SessionReply 200 sess' \<and>
    s_User sess' = s_User sess \<and> s_Workspace sess' = s_Workspace sess \<and> s_ExpiresAt sess' = now' + 72 * hour"
proof -
  obtain h w u where
    chk: "check_sign_up (TrimSpace (su_FullName req)) (ToLower (TrimSpace (su_Email req))) (su_Password req) = None" and
    h: "ae_bcrypt E (su_Password req) = Some h" and
    added: "pg.account_added coll (as_store a) (as_store a') (ToLower (TrimSpace (su_Email req))) h w u" and
    rep: "SessionReply 201 sess = issue_session E (as_jwt a) now 201 u w [] ''password''"
    using pg.signUp_spec [OF env(1,2) up] by auto
  have uw: "s_User sess = u" "s_Workspace sess = w"
    using issue_session_reply [OF rep [symmetric]] by auto
  have acc: "Email u = ToLower (TrimSpace (su_Email req))" "PassHash u = h" "u_WorkspaceID u = WorkspaceID w"
    using added unfolding pg.account_added_def by blast+
  have req: "su_Password req \<noteq> []" "ToLower (TrimSpace (su_Email req)) \<noteq> []"
    using chk by (auto simp: check_sign_up_def split: if_splits)
  have "find (\<lambda>x. Email x = Email u) (db_users (as_store b)) = Some u"
    using find_distinct [of Email "db_users (as_store b)" u] later(1,2) uw by (simp add: db_ok_def)
  moreover have "find (\<lambda>x. WorkspaceID x = WorkspaceID w) (db_workspaces (as_store b)) = Some w"
    using find_distinct [of WorkspaceID "db_workspaces (as_store b)" w] later(1,3) uw by (simp add: db_ok_def)
  moreover have "ae_compare E h (su_Password req)"
    using env(2) h unfolding env_ok_def by blast
  ultimately have "snd (signIn E cfg b now' (Some rq)) = issue_session E (as_jwt b) now' 200 u w [] ''password''"
    using pg.signIn_ok [OF env(1) later(1) request(1), of rq "Email u" now' u w] request req acc by simp
  moreover obtain sess' where "issue_session E (as_jwt b) now' 200 u w [] ''password'' = SessionReply 200 sess'"
      "s_User sess' = u" "s_Workspace sess' = w" "s_ExpiresAt sess' = now' + TokenTTL"
    using issue_session_ok [OF env(3)] by metis
  ultimately show ?thesis
    using uw by (simp add: TokenTTL_def)
qed

text \<open>The environment of the examples.\<close>

definition demo_env :: "(string \<Rightarrow> string \<Rightarrow> bool) \<Rightarrow> pg_db auth_env" where
  "demo_env coll = \<lparr>ae_store = pg_store coll,
     ae_jwt = \<lparr>SignedString = (\<lambda>key kid c. Inr (c_UserID c @ ''.'' @ concat (c_Audience c))),
               ParseWithClaims = (\<lambda>kf iss aud now tok. Inl ''not used''), NewNumericDate = (\<lambda>t. t)\<rparr>,
     ae_hash = (\<lambda>t. t), ae_bcrypt = (\<lambda>p. Some (''#'' @ p)), ae_compare = (\<lambda>h p. h = ''#'' @ p),
     ae_uuid = (\<lambda>purpose n. purpose @ ''1''), ae_random = Some ''raw''\<rparr>"

definition demo_cfg :: auth_config where
  "demo_cfg = \<lparr>PasswordAuthEnabled = True, SignUpEnabled = True, SMTPEnabled = True\<rparr>"

definition demo_auth :: "pg_db auth_state" where
  "demo_auth = \<lparr>as_store = empty_db, as_jwt = NewJWT ''s'', as_lockout = newAccountLockout, as_pending = newPendingTokenStore\<rparr>"

definition demo_sign_up :: sign_up_request where
  "demo_sign_up = \<lparr>su_FullName = ''Ann Lee'', su_Email = '' Ann@X.io'', su_Password = ''Secret99''\<rparr>"

text \<open>The UUIDs of the example are letters and a digit, for the purposes the handlers ask for.\<close>

definition plain_env :: "pg_db auth_env" where
  "plain_env = (demo_env (\<lambda>a b. False))\<lparr>ae_uuid := (\<lambda>purpose n. if list_all plain_char purpose then purpose @ ''1'' else ''1'')\<rparr>"

lemma plain_env_ok: "env_ok plain_env" "ae_store plain_env = pg_store (\<lambda>a b. False)" "jwt_signs (ae_jwt plain_env)"
  by (auto simp: plain_env_def demo_env_def env_ok_def plain_char_def jwt_signs_def)

definition signed_up :: "pg_db auth_state" where
  "signed_up = fst (signUp plain_env demo_cfg demo_auth 0 (Some demo_sign_up))"

definition ann :: user where
  "ann = \<lparr>UserID = ''user-id1'', u_WorkspaceID = ''workspace-id1'', Username = ''ann-lee'', Email = ''ann@x.io'',
     FullName = ''Ann Lee'', IsAdmin = False, PassHash = ''#Secret99'', u_CreatedAt = 0\<rparr>"

definition ann_workspace :: workspace where
  "ann_workspace = \<lparr>WorkspaceID = ''workspace-id1'', Slug = ''ann-lee'', w_Name = ''Ann'' @ [CHR 0x27] @ ''s workspace'', w_CreatedAt = 0\<rparr>"

lemma signed_up_result:
  "db_users (as_store signed_up) = [ann]" "db_workspaces (as_store signed_up) = [ann_workspace]"
  "case snd (signUp plain_env demo_cfg demo_auth 0 (Some demo_sign_up)) of
     SessionReply st sess \<Rightarrow> st = 201 \<and> s_User sess = ann \<and> s_Workspace sess = ann_workspace | _ \<Rightarrow> False"
  "locked (as_lockout signed_up) ''ann@x.io'' 5 = False"
  by code_simp+

lemma demo_auth_ok: "db_ok (as_store demo_auth)"
  by (simp add: demo_auth_def db_ok_def empty_db_def)


theorem sign_up_then_sign_in_witness:
  "\<exists>sess'. snd (signIn plain_env demo_cfg signed_up 5 (Some \<lparr>si_Email = ''ANN@x.io '', si_Password = ''Secret99''\<rparr>)) =
     SessionReply 200 sess' \<and> s_User sess' = ann"
proof -
  obtain sess where up: "signUp plain_env demo_cfg demo_auth 0 (Some demo_sign_up) = (signed_up, SessionReply 201 sess)"
      and s: "s_User sess = ann" "s_Workspace sess = ann_workspace"
    using signed_up_result(3) unfolding signed_up_def
    by (cases "signUp plain_env demo_cfg demo_auth 0 (Some demo_sign_up)") (auto split: reply.splits)
  have "db_ok (as_store signed_up)"
    using pg.signUp_spec [OF plain_env_ok(2,1) demo_auth_ok up]
    by (auto simp: pg.same_view_def pg.account_added_def)
  moreover have "ToLower (TrimSpace ''ANN@x.io '') = ''ann@x.io''" "ToLower (TrimSpace '' Ann@X.io'') = ''ann@x.io''"
    by code_simp+
  ultimately show ?thesis
    using sign_up_then_sign_in [OF plain_env_ok(2,1,3) demo_auth_ok up, of signed_up
        "\<lparr>si_Email = ''ANN@x.io '', si_Password = ''Secret99''\<rparr>" 5] signed_up_result s
    by (auto simp: demo_cfg_def demo_sign_up_def)
qed

subsection \<open>Guessing passwords\<close>

text \<open>What one sign-in request adds to the history of the lockout: a failure when it was answered with
  401, a reset when the password was right.\<close>

definition password_accepted :: "'s auth_env \<Rightarrow> auth_config \<Rightarrow> 's auth_state \<Rightarrow> gotime \<Rightarrow> sign_in_request \<Rightarrow> bool" where
  "password_accepted E cfg a now req \<longleftrightarrow>
     (let email = ToLower (TrimSpace (si_Email req)) in
      PasswordAuthEnabled cfg \<and> email \<noteq> [] \<and> si_Password req \<noteq> [] \<and> \<not> locked (as_lockout a) email now \<and>
      (case snd (GetUserByEmail (ae_store E) (as_store a) email) of
         Inr u \<Rightarrow> ae_compare E (PassHash u) (si_Password req) | Inl _ \<Rightarrow> False))"

definition sign_in_op ::
    "'s auth_env \<Rightarrow> auth_config \<Rightarrow> 's auth_state \<Rightarrow> gotime \<Rightarrow> sign_in_request option \<Rightarrow> lockout_op list" where
  "sign_in_op E cfg a now body =
     (case body of None \<Rightarrow> []
      | Some req \<Rightarrow>
          (let email = ToLower (TrimSpace (si_Email req)) in
           case snd (signIn E cfg a now body) of
             ErrorReply status _ \<Rightarrow>
               if status = 401 then [LockRecord email now now]
               else if password_accepted E cfg a now req then [LockReset email] else []
           | _ \<Rightarrow> if password_accepted E cfg a now req then [LockReset email] else []))"

text \<open>A sequence of sign-in requests; between them other requests may change the store in any way.\<close>

fun sign_in_log ::
    "'s auth_env \<Rightarrow> auth_config \<Rightarrow> 's auth_state \<Rightarrow> ('s \<times> gotime \<times> sign_in_request option) list \<Rightarrow> lockout_op list" where
  "sign_in_log E cfg a [] = []"
| "sign_in_log E cfg a ((s, now, body) # rs) =
     sign_in_op E cfg (a\<lparr>as_store := s\<rparr>) now body @ sign_in_log E cfg (fst (signIn E cfg (a\<lparr>as_store := s\<rparr>) now body)) rs"

lemma issue_session_not_401: "issue_session E j now status u w g p \<noteq> ErrorReply 401 msg"
  by (auto simp: issue_session_def split: sum.splits)

lemma signIn_lockout: "as_lockout (fst (signIn E cfg a now body)) = lockout_run (as_lockout a) (sign_in_op E cfg a now body)"
proof (cases body)
  case (Some req)
  show ?thesis
    unfolding Some
    by (auto simp: signIn_def sign_in_op_def password_accepted_def Let_def lockout_run_def issue_session_not_401
        split: prod.splits sum.splits reply.splits if_splits)
qed (simp add: signIn_def sign_in_op_def lockout_run_def)

lemma sign_in_op_cases:
  obtains "sign_in_op E cfg a now body = []"
    | k where "sign_in_op E cfg a now body = [LockReset k]"
    | k where "sign_in_op E cfg a now body = [LockRecord k now now]" "\<not> locked (as_lockout a) k now"
proof (cases body)
  case (Some req)
  have "\<not> locked (as_lockout a) (ToLower (TrimSpace (si_Email req))) now" if "snd (signIn E cfg a now (Some req)) = ErrorReply 401 msg" for msg
    using that by (auto simp: signIn_def Let_def split: if_splits)
  note unlocked = this
  show thesis
  proof (cases "\<exists>msg. snd (signIn E cfg a now (Some req)) = ErrorReply 401 msg")
    case True
    then show thesis
      using that(3) [of "ToLower (TrimSpace (si_Email req))"] unlocked unfolding Some by (auto simp: sign_in_op_def Let_def)
  next
    case False
    then have "sign_in_op E cfg a now (Some req) =
        (if password_accepted E cfg a now req then [LockReset (ToLower (TrimSpace (si_Email req)))] else [])"
      by (cases "snd (signIn E cfg a now (Some req))") (auto simp: sign_in_op_def Let_def)
    then show thesis
      using that(1,2) unfolding Some by (cases "password_accepted E cfg a now req") auto
  qed
qed (auto simp: sign_in_op_def intro: that(1))

lemma length_filter_mono: "(\<And>x. P x \<Longrightarrow> Q x) \<Longrightarrow> length (filter P xs) \<le> length (filter Q xs)"
  by (induction xs) auto

lemma lockout_run_append: "lockout_run (lockout_run a xs) ys = lockout_run a (xs @ ys)"
  by (simp add: lockout_run_def)

definition guesses_within :: "string \<Rightarrow> lockout_op list \<Rightarrow> gotime \<Rightarrow> nat" where
  "guesses_within k ops t = length (filter (\<lambda>u. t - 10 * minute < u \<and> u \<le> t) (failures_since_reset k ops))"

lemma guesses_step:
  assumes "lockout_clock start ops = Some t" "t \<le> now" "\<forall>u. guesses_within k ops u \<le> 10"
    and "\<not> locked (lockout_run newAccountLockout ops) k' now"
  shows "guesses_within k (ops @ [LockRecord k' now now]) u \<le> 10"
proof (cases "k' = k \<and> u - 10 * minute < now \<and> now \<le> u")
  case True
  have "length (filter (\<lambda>x. u - 10 * minute < x \<and> x \<le> u) (failures_since_reset k ops)) \<le>
        length (filter (\<lambda>x. now - 10 * minute < x) (failures_since_reset k ops))"
    using True by (intro length_filter_mono) auto
  also have "\<dots> < 10"
    using lockout_exact [OF assms(1,2), of k] assms(4) True by auto
  finally show ?thesis
    using True by (simp add: guesses_within_def failures_since_reset_snoc)
next
  case False
  then show ?thesis
    using assms(3) by (auto simp: guesses_within_def failures_since_reset_snoc)
qed

fun requests_in_order :: "gotime \<Rightarrow> ('s \<times> gotime \<times> sign_in_request option) list \<Rightarrow> bool" where
  "requests_in_order t [] = True"
| "requests_in_order t ((s, now, body) # rs) \<longleftrightarrow> t \<le> now \<and> requests_in_order now rs"

lemma requests_later: "requests_in_order now rs \<Longrightarrow> t \<le> now \<Longrightarrow> requests_in_order t rs"
  by (cases rs) auto

lemma guesses_run:
  assumes "as_lockout a = lockout_run newAccountLockout ops" "lockout_clock start ops = Some t"
    and "requests_in_order t rs" "\<forall>u. guesses_within k ops u \<le> 10"
  shows "guesses_within k (ops @ sign_in_log E cfg a rs) u \<le> 10"
  using assms
proof (induction rs arbitrary: a ops t)
  case (Cons r rs)
  obtain s now body where r: "r = (s, now, body)" by (cases r)
  let ?a = "a\<lparr>as_store := s\<rparr>"
  let ?op = "sign_in_op E cfg ?a now body"
  have le: "t \<le> now" and rs: "requests_in_order now rs"
    using Cons.prems(3) r by auto
  have lock: "as_lockout (fst (signIn E cfg ?a now body)) = lockout_run newAccountLockout (ops @ ?op)"
    using signIn_lockout [of E cfg ?a now body] Cons.prems(1) by (simp add: lockout_run_append)
  have "\<exists>t'. lockout_clock start (ops @ ?op) = Some t' \<and> t' \<le> now \<and> (\<forall>u. guesses_within k (ops @ ?op) u \<le> 10)"
  proof (rule sign_in_op_cases [of E cfg ?a now body])
    fix k' assume "?op = [LockReset k']"
    then show ?thesis
      using Cons.prems(2,4) le by (auto simp: lockout_clock_snoc guesses_within_def failures_since_reset_snoc)
  next
    fix k' assume "?op = [LockRecord k' now now]" "\<not> locked (as_lockout ?a) k' now"
    then show ?thesis
      using guesses_step [OF Cons.prems(2) le Cons.prems(4), of k'] Cons.prems(1,2) le
      by (auto simp: lockout_clock_snoc)
  qed (use Cons.prems le in auto)
  then show ?case
    using Cons.IH [OF lock] requests_later [OF rs] r by auto
qed simp


definition wrong_guess :: "nat \<Rightarrow> pg_db \<times> gotime \<times> sign_in_request option" where
  "wrong_guess n = (as_store signed_up, int n * second, Some \<lparr>si_Email = ''ann@x.io'', si_Password = ''guess''\<rparr>)"


subsection \<open>Refresh tokens and reset links\<close>

lemma refresh_revokes:
  assumes "refreshToken parse E a now (Some token) = (a', SessionReply status sess)" "TrimSpace token = token"
  shows "\<exists>j. as_jwt a' = Revoke (ae_hash E) j token now now"
  using assms by (auto simp: refreshToken_def Let_def split: if_splits sum.splits prod.splits option.splits)

lemma refresh_rejects:
  assumes "\<And>c. snd (VerifyRefresh (ae_jwt E) (ae_hash E) (as_jwt b) token now) \<noteq> Inr c" "TrimSpace token = token" "token \<noteq> []"
  shows "snd (refreshToken parse E b now (Some token)) = ErrorReply 401 ''Refresh token is invalid or has expired.''"
proof (cases "VerifyRefresh (ae_jwt E) (ae_hash E) (as_jwt b) token now")
  case (Pair j r)
  then show ?thesis
    using assms by (cases r) (auto simp: refreshToken_def Let_def)
qed

text \<open>A refresh token works once.  After a refresh token has been exchanged for a new session, every
  later attempt with the same token is answered with 401, whatever else happens to the token
  service in between.\<close>

theorem refresh_token_once:
  assumes lib: "jwt_validates (ae_jwt E)" "jwt_decodes (ae_jwt E)"
    and signed: "SignRefresh (ae_jwt E) j t0 user ws admin prov = Inr (token, expiry)" "t0 \<le> now"
    and token: "TrimSpace token = token" "token \<noteq> []"
    and first: "refreshToken parse E a now (Some token) = (a', SessionReply status sess)"
    and rest: "r = \<lparr>rv_service = as_jwt a', rv_clock = now, rv_drops = drops\<rparr>" "ae_hash E token \<notin> set drops"
      "(revocation_step (ae_hash E))\<^sup>*\<^sup>* r r'" "as_jwt b = rv_service r'" "rv_clock r' \<le> now'"
  shows "snd (refreshToken parse E b now' (Some token)) = ErrorReply 401 ''Refresh token is invalid or has expired.''"
proof -
  let ?limit = "t0 + RefreshTokenTTL" and ?h = "ae_hash E token"
  obtain j' where j': "as_jwt a' = Revoke (ae_hash E) j' token now now"
    using refresh_revokes [OF first token(1)] by blast
  have "kept_out ?h ?limit r"
    using signed(2) rest(2) unfolding rest(1) j'
    by (auto simp: kept_out_def outlives_def revoked_entry Let_def RefreshTokenTTL_def)
  moreover have "?limit \<le> rv_clock r + RefreshTokenTTL"
    using signed(2) rest(1) by simp
  ultimately have kept: "kept_out ?h ?limit r'"
    using kept_out_run [OF rest(3)] by blast
  have "snd (VerifyRefresh (ae_jwt E) (ae_hash E) (as_jwt b) token now') \<noteq> Inr c" for c
    using kept_out_rejected(2) [OF lib SignRefresh_signed [OF signed(1)], of ?limit "ae_hash E" r' now' c] kept rest(4,5)
      numeric_date_le [OF lib(2)] by simp
  then show ?thesis
    using refresh_rejects token by blast
qed

definition claims_at :: "gotime \<Rightarrow> duration \<Rightarrow> string \<Rightarrow> claims" where
  "claims_at t ttl aud =
     \<lparr>c_UserID = ''u1'', c_WorkspaceID = ''w1'', c_IsAdmin = False, c_Groups = [], c_Provider = ''password'',
      c_ExpiresAt = t + ttl, c_IssuedAt = t, c_Issuer = tokenIssuer, c_Audience = [aud]\<rparr>"

definition rotation_table :: "(string \<times> claims) list" where
  "rotation_table = [(''refresh0'', claims_at 0 RefreshTokenTTL refreshTokenAudience),
     (''access1'', claims_at hour TokenTTL tokenAudience), (''refresh1'', claims_at hour RefreshTokenTTL refreshTokenAudience)]"

definition rotation_env :: "pg_db auth_env" where
  "rotation_env = plain_env\<lparr>ae_jwt := table_jwt rotation_table\<rparr>"

definition rotation_state :: "pg_db auth_state" where
  "rotation_state = demo_auth\<lparr>as_store := empty_db\<lparr>db_workspaces := [demo_workspace ''w1''], db_users := [demo_user]\<rparr>\<rparr>"

definition rotated :: "pg_db auth_state" where
  "rotated = fst (refreshToken Some rotation_env rotation_state hour (Some ''refresh0''))"

theorem refresh_token_once_witness:
  "snd (refreshToken Some rotation_env rotated (2 * hour) (Some ''refresh0'')) =
     ErrorReply 401 ''Refresh token is invalid or has expired.'' \<and>
   (case snd (refreshToken Some rotation_env rotation_state hour (Some ''refresh0'')) of
      SessionReply st sess \<Rightarrow> s_RefreshToken sess = ''refresh1'' | _ \<Rightarrow> False)"
proof -
  have laws: "jwt_validates (ae_jwt rotation_env)" "jwt_decodes (ae_jwt rotation_env)"
    using table_jwt_laws [of rotation_table] by (simp_all add: rotation_env_def rotation_table_def)
  have signed: "SignRefresh (ae_jwt rotation_env) (NewJWT ''s'') 0 ''u1'' ''w1'' False ''password'' = Inr (''refresh0'', RefreshTokenTTL)"
    by code_simp
  have ok: "case snd (refreshToken Some rotation_env rotation_state hour (Some ''refresh0'')) of
      SessionReply st sess \<Rightarrow> s_RefreshToken sess = ''refresh1'' | _ \<Rightarrow> False"
    by code_simp
  then obtain st sess where first: "refreshToken Some rotation_env rotation_state hour (Some ''refresh0'') = (rotated, SessionReply st sess)"
    unfolding rotated_def
    by (cases "refreshToken Some rotation_env rotation_state hour (Some ''refresh0'')") (auto split: reply.splits)
  have trim: "TrimSpace ''refresh0'' = ''refresh0''" by code_simp
  show ?thesis
    using refresh_token_once [OF laws signed _ trim _ first refl, of "[]" "\<lparr>rv_service = as_jwt rotated, rv_clock = hour, rv_drops = []\<rparr>"
        rotated "2 * hour"] ok by simp
qed

text \<open>A reset link works once, for one account.  When a reset succeeds, exactly the user the token
  was stored for gets the new password hash, the token was stored for it and had not expired, and a
  second reset with the same link is refused at any later time unless the same token was stored
  again.\<close>

theorem reset_link_once:
  assumes env: "ae_store E = pg_store coll"
    and first: "resetPassword E a now (Some (link, password)) = (a', StatusReply 200 msg)"
    and later: "now \<le> now'" "\<forall>e\<in>set (db_reset (as_store b)).
      fst (snd e) = ae_hash E (TrimSpace link) \<longrightarrow> e \<in> set (db_reset (as_store a'))"
    and second: "length password' \<ge> 8" "strong_password password'" "ae_bcrypt E password' \<noteq> None"
  shows "(\<exists>i expiry newHash. (i, ae_hash E (TrimSpace link), expiry) \<in> set (db_reset (as_store a)) \<and> now < expiry \<and>
      ae_bcrypt E password = Some newHash \<and>
      db_users (as_store a') = map (\<lambda>u. if UserID u = i then u\<lparr>PassHash := newHash\<rparr> else u) (db_users (as_store a))) \<and>
    snd (resetPassword E b now' (Some (link, password'))) = ErrorReply 400 ''Reset link is invalid or has expired.''"
proof -
  let ?h = "ae_hash E (TrimSpace link)"
  let ?hits = "\<lambda>(u :: string, h, e). h = ?h \<and> e > now"
  obtain newHash where ne: "TrimSpace link \<noteq> []" and h: "ae_bcrypt E password = Some newHash"
    and c: "pg_ConsumePasswordResetToken (as_store a) ?h newHash now = (as_store a', None)"
    using first env
    by (auto simp: resetPassword_def Let_def pg_store_def split: if_splits option.splits prod.splits store_err.splits)
  obtain i h' e where f: "find ?hits (db_reset (as_store a)) = Some (i, h', e)"
    and a': "as_store a' = as_store a\<lparr>db_reset := filter (\<lambda>r. \<not> ?hits r) (db_reset (as_store a)),
        db_users := map (\<lambda>u. if UserID u = i then u\<lparr>PassHash := newHash\<rparr> else u) (db_users (as_store a))\<rparr>"
    using c by (auto simp: pg_ConsumePasswordResetToken_def Let_def split: option.splits)
  have i: "(i, ?h, e) \<in> set (db_reset (as_store a))" "now < e"
    using f by (auto simp: find_Some_iff in_set_conv_nth)
  have "find (\<lambda>(u, h, e). h = ?h \<and> e > now') (db_reset (as_store b)) = None"
    using later a' by (fastforce simp: find_None_iff)
  then have "pg_ConsumePasswordResetToken (as_store b) ?h hash' now' = (as_store b, Some ErrNotFound)" for hash'
    by (simp add: pg_ConsumePasswordResetToken_def Let_def)
  then have "snd (resetPassword E b now' (Some (link, password'))) = ErrorReply 400 ''Reset link is invalid or has expired.''"
    using second ne env by (auto simp: resetPassword_def Let_def pg_store_def)
  then show ?thesis
    using i h a' by auto
qed

definition link_sent :: "pg_db auth_state" where
  "link_sent = fst (forgotPassword plain_env demo_cfg signed_up 0 (Some ''ann@x.io''))"

definition password_reset :: "pg_db auth_state" where
  "password_reset = fst (resetPassword plain_env link_sent (15 * minute - 1) (Some ('' raw '', ''Newpass99'')))"

theorem reset_link_once_witness:
  "map PassHash (db_users (as_store password_reset)) = [''#Newpass99''] \<and>
   snd (resetPassword plain_env password_reset (20 * minute) (Some ('' raw '', ''Other123''))) =
     ErrorReply 400 ''Reset link is invalid or has expired.''"
proof -
  have first: "snd (resetPassword plain_env link_sent (15 * minute - 1) (Some ('' raw '', ''Newpass99''))) = StatusReply 200 ''ok''"
    and pw: "map PassHash (db_users (as_store password_reset)) = [''#Newpass99'']"
    and strong: "strong_password ''Other123''" "ae_bcrypt plain_env ''Other123'' = Some ''#Other123''"
    by code_simp+
  have "resetPassword plain_env link_sent (15 * minute - 1) (Some ('' raw '', ''Newpass99'')) = (password_reset, StatusReply 200 ''ok'')"
    using first by (simp add: password_reset_def prod_eq_iff)
  then show ?thesis
    using reset_link_once [OF plain_env_ok(2), of link_sent "15 * minute - 1" "'' raw ''" "''Newpass99''" password_reset "''ok''"
        "20 * minute" password_reset "''Other123''"] pw strong by simp
qed

end
