(* ===== verification/Auth_Oidc.thy ===== *)
theory Auth_Oidc
  imports Auth_Accounts
begin

text \<open>
  Single sign-on (internal/auth/oidc.go, the OIDC part of config.go, and the OIDC handlers of
  handler.go): the signed state cookie, the identity read from the provider's claims, the mapping of
  groups to administrators, the user that belongs to an identity, the callback and the exchange of
  the one-time code for the session.

  What runs outside the program is a parameter: the provider's endpoints (token exchange, ID-token
  verification, user info), HMAC, base64 and JSON of the state, and the parser of URLs.
\<close>

subsection \<open>Configuration\<close>

record oidc_config =
  oc_Enabled :: bool
  oc_ProviderID :: string
  oc_ProviderName :: string
  oc_IssuerURL :: string
  oc_ClientID :: string
  oc_RedirectURL :: string
  oc_Scopes :: "string list"
  oc_PKCEEnabled :: bool
  oc_StateCookieName :: string
  oc_StateSecret :: string
  oc_EmailClaim :: string
  oc_NameClaim :: string
  oc_GroupsClaim :: string
  oc_AdminGroups :: "string list"

definition or_default :: "string \<Rightarrow> string \<Rightarrow> string" where
  "or_default v d = (let v = TrimSpace v in if v = [] then d else v)"

definition IsConfigured :: "oidc_config \<Rightarrow> bool" where
  "IsConfigured c \<longleftrightarrow> TrimSpace (oc_IssuerURL c) \<noteq> [] \<and> TrimSpace (oc_ClientID c) \<noteq> [] \<and>
     TrimSpace (oc_RedirectURL c) \<noteq> [] \<and> length (oc_StateSecret c) > 0"

definition OIDCEnabled :: "oidc_config \<Rightarrow> bool" where
  "OIDCEnabled c \<longleftrightarrow> oc_Enabled c \<and> IsConfigured c"

definition NormalizedProviderID :: "oidc_config \<Rightarrow> string" where
  "NormalizedProviderID c = or_default (oc_ProviderID c) ''oidc''"

definition NormalizedProviderName :: "oidc_config \<Rightarrow> string" where
  "NormalizedProviderName c = or_default (oc_ProviderName c) ''Single Sign-On''"

definition NormalizedStateCookieName :: "oidc_config \<Rightarrow> string" where
  "NormalizedStateCookieName c = or_default (oc_StateCookieName c) ''babelsuite_oidc_state''"

definition default_scopes :: "string list" where
  "default_scopes = [''openid'', ''profile'', ''email'', ''groups'']"

definition NormalizedScopes :: "oidc_config \<Rightarrow> string list" where
  "NormalizedScopes c =
     (if oc_Scopes c = [] then default_scopes
      else let scopes = filter (\<lambda>s. s \<noteq> []) (map TrimSpace (oc_Scopes c)) in
           if scopes = [] then default_scopes else scopes)"

definition NormalizedEmailClaim :: "oidc_config \<Rightarrow> string" where
  "NormalizedEmailClaim c = or_default (oc_EmailClaim c) ''email''"

definition NormalizedNameClaim :: "oidc_config \<Rightarrow> string" where
  "NormalizedNameClaim c = or_default (oc_NameClaim c) ''name''"

definition NormalizedGroupsClaim :: "oidc_config \<Rightarrow> string" where
  "NormalizedGroupsClaim c = or_default (oc_GroupsClaim c) ''groups''"

subsection \<open>Identities\<close>

text \<open>A decoded claim: a string, an array (its items that are strings, in order, others \<open>None\<close>), or
  something else.\<close>

datatype claim_value = ClaimString string | ClaimArray "string option list" | ClaimOther

type_synonym claim_map = "string \<rightharpoonup> claim_value"

record oidc_identity =
  oi_Subject :: string
  oi_Email :: string
  oi_FullName :: string
  oi_Groups :: "string list"

fun extractStringClaim :: "claim_map \<Rightarrow> string list \<Rightarrow> string" where
  "extractStringClaim claims [] = []"
| "extractStringClaim claims (key # keys) =
     (let key = TrimSpace key in
      if key = [] then extractStringClaim claims keys
      else case claims key of
        Some (ClaimString v) \<Rightarrow> if TrimSpace v \<noteq> [] then TrimSpace v else extractStringClaim claims keys
      | _ \<Rightarrow> extractStringClaim claims keys)"

definition normalizeGroups :: "string list \<Rightarrow> string list" where
  "normalizeGroups gs = filter (\<lambda>g. g \<noteq> []) (map TrimSpace gs)"

fun extractGroupsClaim :: "claim_map \<Rightarrow> string list \<Rightarrow> string list" where
  "extractGroupsClaim claims [] = []"
| "extractGroupsClaim claims (key # keys) =
     (let key = TrimSpace key in
      if key = [] then extractGroupsClaim claims keys
      else case claims key of
        Some (ClaimArray items) \<Rightarrow> normalizeGroups (map the (filter (\<lambda>i. i \<noteq> None) items))
      | Some (ClaimString v) \<Rightarrow> normalizeGroups (SplitByte v CHR '','')
      | _ \<Rightarrow> extractGroupsClaim claims keys)"

definition identityFromClaims :: "oidc_config \<Rightarrow> claim_map \<Rightarrow> oidc_identity" where
  "identityFromClaims c claims =
     \<lparr>oi_Subject = [],
      oi_Email = extractStringClaim claims [NormalizedEmailClaim c, ''email''],
      oi_FullName = extractStringClaim claims [NormalizedNameClaim c, ''name'', ''preferred_username''],
      oi_Groups = extractGroupsClaim claims [NormalizedGroupsClaim c, ''groups'']\<rparr>"

definition mergeOIDCIdentity :: "oidc_identity \<Rightarrow> oidc_identity \<Rightarrow> oidc_identity" where
  "mergeOIDCIdentity primary fallback =
     primary\<lparr>oi_Email := (if oi_Email primary = [] then oi_Email fallback else oi_Email primary),
             oi_FullName := (if oi_FullName primary = [] then oi_FullName fallback else oi_FullName primary),
             oi_Groups := (if oi_Groups primary = [] then oi_Groups fallback else oi_Groups primary)\<rparr>"

text \<open>\<^verbatim>\<open>identityFromToken\<close>: the claims of the ID token (\<open>None\<close> when they do not decode), its
  subject, the access token, and the answer of the user-info endpoint: its claims, if they decode,
  and its e-mail.\<close>

record user_info =
  ui_claims :: "claim_map option"
  ui_email :: string

definition merge_user_info :: "oidc_config \<Rightarrow> oidc_identity \<Rightarrow> user_info \<Rightarrow> oidc_identity" where
  "merge_user_info c identity info =
     (let identity = (case ui_claims info of None \<Rightarrow> identity
                      | Some extra \<Rightarrow> mergeOIDCIdentity identity (identityFromClaims c extra)) in
      if oi_Email identity = [] then identity\<lparr>oi_Email := TrimSpace (ui_email info)\<rparr> else identity)"

definition identityFromToken ::
    "oidc_config \<Rightarrow> claim_map option \<Rightarrow> string \<Rightarrow> string \<Rightarrow> user_info option \<Rightarrow> string + oidc_identity" where
  "identityFromToken c id_claims subject access_token info =
     (case id_claims of
        None \<Rightarrow> Inl ''oidc: claims not set''
      | Some claims \<Rightarrow>
          (let identity = identityFromClaims c claims;
               incomplete = (oi_Email identity = [] \<or> oi_FullName identity = [] \<or> oi_Groups identity = []);
               identity = (if TrimSpace access_token \<noteq> [] \<and> incomplete
                           then (case info of None \<Rightarrow> identity | Some i \<Rightarrow> merge_user_info c identity i)
                           else identity);
               identity = identity\<lparr>oi_Subject := TrimSpace subject\<rparr> in
           if oi_Email identity = [] then Inl ''oidc identity did not include an email claim''
           else Inr (if oi_FullName identity = []
                     then identity\<lparr>oi_FullName := FirstNonEmpty [oi_Email identity, ''Member'']\<rparr> else identity)))"

definition MapsGroupsToAdmin :: "oidc_config \<Rightarrow> string list \<Rightarrow> bool" where
  "MapsGroupsToAdmin c groups \<longleftrightarrow>
     (if groups = [] \<or> oc_AdminGroups c = [] then False
      else let expected = filter (\<lambda>g. g \<noteq> []) (map (\<lambda>g. ToLower (TrimSpace g)) (oc_AdminGroups c)) in
           list_ex (\<lambda>g. ToLower (TrimSpace g) \<in> set expected) groups)"

subsection \<open>The state cookie\<close>

record oidc_state =
  st_State :: string
  st_CodeVerifier :: string
  st_ReturnURL :: string
  st_ExpiresAt :: gotime

record cookie_codec =
  cc_b64 :: "string \<Rightarrow> string"
  cc_unb64 :: "string \<Rightarrow> string option"
  cc_json :: "oidc_state \<Rightarrow> string"
  cc_unjson :: "string \<Rightarrow> oidc_state option"
  cc_hmac :: "string \<Rightarrow> string \<Rightarrow> string"

datatype oidc_error = OIDCDisabled | InvalidOIDCState | MissingOIDCCookie | ProviderError string

definition oidcStateTTL :: duration where
  "oidcStateTTL = 10 * minute"

definition signStateCookie :: "cookie_codec \<Rightarrow> string \<Rightarrow> oidc_state \<Rightarrow> string" where
  "signStateCookie K stateSecret st =
     (let payload = cc_b64 K (cc_json K st) in
      payload @ ''.'' @ cc_b64 K (cc_hmac K payload stateSecret))"

definition newStateCookie :: "cookie_codec \<Rightarrow> string \<Rightarrow> string \<Rightarrow> string \<Rightarrow> gotime \<Rightarrow> string \<Rightarrow> oidc_state \<times> string" where
  "newStateCookie K stateSecret stateValue verifier now returnURL =
     (let st = \<lparr>st_State = stateValue, st_CodeVerifier = verifier, st_ReturnURL = returnURL,
                st_ExpiresAt = now + oidcStateTTL\<rparr> in
      (st, signStateCookie K stateSecret st))"

definition readStateCookie :: "cookie_codec \<Rightarrow> string \<Rightarrow> string option \<Rightarrow> oidc_error + oidc_state" where
  "readStateCookie K stateSecret cookie =
     (case cookie of
        None \<Rightarrow> Inl MissingOIDCCookie
      | Some v \<Rightarrow>
          if TrimSpace v = [] then Inl MissingOIDCCookie
          else (case SplitByte v CHR ''.'' of
             [payload, sig] \<Rightarrow>
               (case cc_unb64 K sig of
                  None \<Rightarrow> Inl InvalidOIDCState
                | Some signature \<Rightarrow>
                    if signature \<noteq> cc_hmac K payload stateSecret then Inl InvalidOIDCState
                    else (case cc_unb64 K payload of
                       None \<Rightarrow> Inl InvalidOIDCState
                     | Some raw \<Rightarrow> (case cc_unjson K raw of None \<Rightarrow> Inl InvalidOIDCState | Some st \<Rightarrow> Inr st)))
           | _ \<Rightarrow> Inl InvalidOIDCState))"

text \<open>The provider: discovery, the token endpoint (access token and raw ID token), the verifier of ID
  tokens (subject and claims), and the user-info endpoint.\<close>

record oidc_provider =
  op_discovery :: "string option"
  op_exchange :: "string \<Rightarrow> string option \<Rightarrow> string + (string \<times> string)"
  op_verify :: "string \<Rightarrow> string + (string \<times> claim_map option)"
  op_userinfo :: "string \<Rightarrow> user_info option"

text \<open>The second half of \<^verbatim>\<open>Exchange\<close>: code for tokens, ID token for claims, claims for an identity.\<close>

definition fetch_identity :: "oidc_config \<Rightarrow> oidc_provider \<Rightarrow> string \<Rightarrow> string \<Rightarrow> string + oidc_identity" where
  "fetch_identity c P code verifier =
     (case op_discovery P of
        Some err \<Rightarrow> Inl err
      | None \<Rightarrow>
          (case op_exchange P code (if oc_PKCEEnabled c then Some verifier else None) of
             Inl err \<Rightarrow> Inl err
           | Inr (access, rawIDToken) \<Rightarrow>
               if TrimSpace rawIDToken = [] then Inl ''oidc response did not include an id token''
               else (case op_verify P rawIDToken of
                  Inl err \<Rightarrow> Inl err
                | Inr (subject, claims) \<Rightarrow> identityFromToken c claims subject access (op_userinfo P access))))"

definition Exchange ::
    "oidc_config \<Rightarrow> cookie_codec \<Rightarrow> oidc_provider \<Rightarrow> gotime \<Rightarrow> string \<Rightarrow> string \<Rightarrow> string option
      \<Rightarrow> oidc_error + (oidc_identity \<times> string)" where
  "Exchange c K P now requestState code cookie =
     (if \<not> OIDCEnabled c then Inl OIDCDisabled
      else case readStateCookie K (oc_StateSecret c) cookie of
        Inl err \<Rightarrow> Inl err
      | Inr st \<Rightarrow>
          if now > st_ExpiresAt st then Inl InvalidOIDCState
          else if st_State st \<noteq> requestState then Inl InvalidOIDCState
          else (case fetch_identity c P code (st_CodeVerifier st) of
             Inl err \<Rightarrow> Inl (ProviderError err)
           | Inr identity \<Rightarrow> Inr (identity, st_ReturnURL st)))"

subsection \<open>Return addresses\<close>

text \<open>The parts of a parsed URL that the code looks at.\<close>

record parsed_url =
  url_Scheme :: string
  url_Host :: string
  url_EscapedPath :: string
  url_RawQuery :: string

definition sanitizeReturnURL :: "(string \<Rightarrow> parsed_url option) \<Rightarrow> string \<Rightarrow> string \<Rightarrow> string" where
  "sanitizeReturnURL url_Parse frontendURL raw =
     (let cand = TrimSpace raw in
      if cand = [] then ''/''
      else if HasPrefix cand ''/'' \<and> \<not> HasPrefix cand ''//'' then cand
      else case (url_Parse frontendURL, url_Parse cand) of
        (Some b, Some target) \<Rightarrow>
          if url_Scheme target = [] \<or> \<not> EqualFold (url_Scheme b) (url_Scheme target) \<or> \<not> EqualFold (url_Host b) (url_Host target)
          then ''/''
          else (let result = (if url_EscapedPath target = [] then ''/'' else url_EscapedPath target) in
                if url_RawQuery target \<noteq> [] then result @ ''?'' @ url_RawQuery target else result)
      | _ \<Rightarrow> ''/'')"

subsection \<open>The handlers\<close>

definition resolveOIDCUser ::
    "oidc_config \<Rightarrow> 's auth_env \<Rightarrow> 's \<Rightarrow> gotime \<Rightarrow> oidc_identity \<Rightarrow> 's \<times> (store_err + (user \<times> workspace \<times> bool))" where
  "resolveOIDCUser c E s now identity =
     (let email = ToLower (TrimSpace (oi_Email identity)) in
      if email = [] then (s, Inl ErrNotFound)
      else case GetUserByEmail (ae_store E) s email of
        (s', Inr u) \<Rightarrow>
          (case GetWorkspaceByID (ae_store E) s' (u_WorkspaceID u) of
             (s'', Inl err) \<Rightarrow> (s'', Inl err)
           | (s'', Inr w) \<Rightarrow> (s'', Inr (u, w, IsAdmin u \<or> MapsGroupsToAdmin c (oi_Groups identity))))
      | (s', Inl err) \<Rightarrow>
          if err \<noteq> ErrNotFound then (s', Inl err)
          else (let fullName = TrimSpace (oi_FullName identity);
                    fullName = (if fullName = [] then emailPrefix email else fullName) in
                case createWorkspace E s' now fullName email of
                  (s1, Inl err) \<Rightarrow> (s1, Inl err)
                | (s1, Inr w) \<Rightarrow>
                    (let admin = MapsGroupsToAdmin c (oi_Groups identity) in
                     case createUser E s1 now fullName email [] (WorkspaceID w) admin of
                       (s2, Inl err) \<Rightarrow> (fst (DeleteWorkspace (ae_store E) s2 (WorkspaceID w)), Inl err)
                     | (s2, Inr u) \<Rightarrow> (s2, Inr (u, w, admin)))))"

text \<open>The callback answers with a redirect to the frontend: with the one-time code, or with an error
  message.  The request carries the query parameters \<^verbatim>\<open>error\<close>, \<^verbatim>\<open>error_description\<close>,
  \<^verbatim>\<open>code\<close> and \<^verbatim>\<open>state\<close> and the cookie.\<close>

datatype callback_reply =
    NotConfigured
  | RedirectError int string
  | RedirectCode string string

record callback_request =
  cq_error :: string
  cq_error_description :: string
  cq_code :: string
  cq_state :: string
  cq_cookie :: "string option"

definition statusToRedirect :: "int \<Rightarrow> int" where
  "statusToRedirect status = (if status \<ge> 400 then 302 else status)"

definition redirectOIDCError :: "int \<Rightarrow> string \<Rightarrow> callback_reply" where
  "redirectOIDCError status msg = RedirectError (statusToRedirect status) msg"

definition finish_callback ::
    "oidc_config \<Rightarrow> 's auth_env \<Rightarrow> 's auth_state \<Rightarrow> gotime \<Rightarrow> oidc_identity \<Rightarrow> string \<Rightarrow> 's auth_state \<times> callback_reply" where
  "finish_callback c E a now identity returnURL =
     (let failed = redirectOIDCError 500 ''Could not create your session right now.''; prov = NormalizedProviderID c in
      case resolveOIDCUser c E (as_store a) now identity of
        (s, Inl _) \<Rightarrow> (a\<lparr>as_store := s\<rparr>, failed)
      | (s, Inr (u, w, admin)) \<Rightarrow>
          (case Sign (ae_jwt E) (as_jwt a) now (UserID u) (WorkspaceID w) admin (oi_Groups identity) prov of
             Inl _ \<Rightarrow> (a\<lparr>as_store := s\<rparr>, failed)
           | Inr (token, expiresAt) \<Rightarrow>
               (case SignRefresh (ae_jwt E) (as_jwt a) now (UserID u) (WorkspaceID w) admin prov of
                  Inl _ \<Rightarrow> (a\<lparr>as_store := s\<rparr>, failed)
                | Inr (refresh, refreshExpiresAt) \<Rightarrow>
                    (case store_pending (as_pending a) (ae_random E) now token expiresAt refresh refreshExpiresAt of
                       (p, None) \<Rightarrow> (a\<lparr>as_store := s, as_pending := p\<rparr>, failed)
                     | (p, Some code) \<Rightarrow> (a\<lparr>as_store := s, as_pending := p\<rparr>, RedirectCode code returnURL)))))"

definition oidcCallback ::
    "oidc_config \<Rightarrow> cookie_codec \<Rightarrow> oidc_provider \<Rightarrow> 's auth_env \<Rightarrow> 's auth_state \<Rightarrow> gotime
      \<Rightarrow> callback_request \<Rightarrow> 's auth_state \<times> callback_reply" where
  "oidcCallback c K P E a now q =
     (if \<not> OIDCEnabled c then (a, NotConfigured)
      else if TrimSpace (cq_error_description q) \<noteq> [] \<or> TrimSpace (cq_error q) \<noteq> []
      then (a, redirectOIDCError 401 ''Single sign-on failed.'')
      else if cq_cookie q = None
      then (a, redirectOIDCError 401 ''Single sign-on state has expired. Please try again.'')
      else (let code = TrimSpace (cq_code q); stateValue = TrimSpace (cq_state q) in
            if code = [] \<or> stateValue = []
            then (a, redirectOIDCError 400 ''Single sign-on response is missing the required state.'')
            else case Exchange c K P now stateValue code (cq_cookie q) of
              Inl _ \<Rightarrow> (a, redirectOIDCError 401 ''Could not complete single sign-on right now.'')
            | Inr (identity, returnURL) \<Rightarrow> finish_callback c E a now identity returnURL))"

definition oidcTokenExchange :: "'s auth_env \<Rightarrow> 's auth_state \<Rightarrow> gotime \<Rightarrow> string \<Rightarrow> 's auth_state \<times> reply" where
  "oidcTokenExchange E a now raw_code =
     (let code = TrimSpace raw_code in
      if code = [] then (a, ErrorReply 400 ''Code is required.'')
      else case consume_pending (as_pending a) code now of
        (p, None) \<Rightarrow> (a\<lparr>as_pending := p\<rparr>, ErrorReply 401 ''Code is invalid or has expired.'')
      | (p, Some entry) \<Rightarrow>
          (case Verify (ae_jwt E) (ae_hash E) (as_jwt a) (pe_token entry) now of
             (j, Inl _) \<Rightarrow> (a\<lparr>as_pending := p, as_jwt := j\<rparr>, ErrorReply 401 ''Session token is invalid.'')
           | (j, Inr cl) \<Rightarrow>
               (case GetUserByID (ae_store E) (as_store a) (c_UserID cl) of
                  (s, Inl _) \<Rightarrow> (a\<lparr>as_pending := p, as_jwt := j, as_store := s\<rparr>, ErrorReply 500 ''Could not load your account.'')
                | (s, Inr u) \<Rightarrow>
                    (case GetWorkspaceByID (ae_store E) s (c_WorkspaceID cl) of
                       (s', Inl _) \<Rightarrow>
                         (a\<lparr>as_pending := p, as_jwt := j, as_store := s'\<rparr>, ErrorReply 500 ''Could not load your workspace.'')
                     | (s', Inr w) \<Rightarrow>
                         (a\<lparr>as_pending := p, as_jwt := j, as_store := s'\<rparr>,
                          SessionReply 200 \<lparr>s_Token = pe_token entry, s_User = u, s_Workspace = w,
                            s_ExpiresAt = pe_expiresAt entry, s_RefreshToken = pe_refreshToken entry,
                            s_RefreshExpiresAt = pe_refreshExpiresAt entry\<rparr>)))))"

text \<open>\<^verbatim>\<open>requestIsSecure\<close>: TLS, or the header of a trusted proxy.  \<open>ParseIP\<close> and the containment
  of a network are parameters.\<close>

definition requestIsSecure ::
    "(string \<Rightarrow> string option) \<Rightarrow> (string \<Rightarrow> 'ip option) \<Rightarrow> ('ip \<Rightarrow> bool) list \<Rightarrow> bool \<Rightarrow> string \<Rightarrow> string \<Rightarrow> bool" where
  "requestIsSecure SplitHost ParseIP proxies tls addr forwarded_proto \<longleftrightarrow>
     (if tls then True
      else case ParseIP (remoteIP SplitHost addr) of
        Some ip \<Rightarrow> list_ex (\<lambda>net. net ip) proxies \<and> EqualFold (TrimSpace forwarded_proto) ''https''
      | None \<Rightarrow> False)"

subsection \<open>The state cookie protects the callback\<close>

text \<open>Base64 (URL alphabet, no padding) decodes what it encoded and never contains a dot or a blank, and
  the state survives JSON: what is needed of the encodings, on the values of one cookie.\<close>

definition b64_ok :: "cookie_codec \<Rightarrow> string \<Rightarrow> bool" where
  "b64_ok K x \<longleftrightarrow> cc_unb64 K (cc_b64 K x) = Some x \<and> CHR ''.'' \<notin> set (cc_b64 K x) \<and> list_all plain_char (cc_b64 K x)"

definition codec_ok :: "cookie_codec \<Rightarrow> string \<Rightarrow> oidc_state \<Rightarrow> bool" where
  "codec_ok K key st \<longleftrightarrow> b64_ok K (cc_json K st) \<and> b64_ok K (cc_hmac K (cc_b64 K (cc_json K st)) key) \<and>
     cc_unjson K (cc_json K st) = Some st"

lemma readStateCookie_signed:
  assumes "codec_ok K key st"
  shows "readStateCookie K key (Some (signStateCookie K key st)) = Inr st"
proof -
  let ?p = "cc_b64 K (cc_json K st)"
  let ?s = "cc_b64 K (cc_hmac K ?p key)"
  have "list_all plain_char (?p @ ''.'' @ ?s)"
    using assms by (simp add: codec_ok_def b64_ok_def plain_char_def)
  then have "TrimSpace (?p @ ''.'' @ ?s) = ?p @ ''.'' @ ?s"
    by (rule TrimSpace_plain)
  moreover have "SplitByte (?p @ ''.'' @ ?s) CHR ''.'' = [?p, ?s]"
    using assms SplitByte_append [of "CHR ''.''" ?p ?s] SplitByte_word [of "CHR ''.''" ?s]
    by (simp add: codec_ok_def b64_ok_def)
  ultimately show ?thesis
    using assms by (simp add: readStateCookie_def signStateCookie_def Let_def codec_ok_def b64_ok_def)
qed

lemma readStateCookie_sound:
  assumes "readStateCookie K key cookie = Inr st"
  shows "\<exists>payload sig raw. cookie = Some (payload @ ''.'' @ sig) \<and> cc_unb64 K sig = Some (cc_hmac K payload key) \<and>
    cc_unb64 K payload = Some raw \<and> cc_unjson K raw = Some st"
proof -
  obtain v payload sig where v: "cookie = Some v" "SplitByte v CHR ''.'' = [payload, sig]"
    and sig: "cc_unb64 K sig = Some (cc_hmac K payload key)"
    and raw: "\<exists>raw. cc_unb64 K payload = Some raw \<and> cc_unjson K raw = Some st"
    using assms by (auto simp: readStateCookie_def split: option.splits if_splits list.splits)
  have "v = payload @ ''.'' @ sig"
    using Join_SplitByte [of v "CHR ''.''"] v(2) by simp
  then show ?thesis using v(1) sig raw by blast
qed

text \<open>C29. The callback is bound to the login.  A state cookie made at \<open>t0\<close> is accepted exactly when the
  request brings the same state value back within ten minutes, and the browser is then sent to the
  return address of that login; and no cookie is accepted whose signature is not the HMAC of its
  payload under the server's secret, so a callback without a login of this server never reaches the
  provider.\<close>

theorem callback_bound_to_login:
  assumes "codec_ok K (oc_StateSecret c) (fst (newStateCookie K (oc_StateSecret c) stateValue verifier t0 returnURL))" "OIDCEnabled c"
  shows "Exchange c K P now requestState code
      (Some (snd (newStateCookie K (oc_StateSecret c) stateValue verifier t0 returnURL))) =
    (if now > t0 + 10 * minute \<or> stateValue \<noteq> requestState then Inl InvalidOIDCState
     else case fetch_identity c P code verifier of Inl err \<Rightarrow> Inl (ProviderError err) | Inr identity \<Rightarrow> Inr (identity, returnURL)) \<and>
   (\<forall>cookie. (\<forall>payload sig. cookie = Some (payload @ ''.'' @ sig) \<longrightarrow> cc_unb64 K sig \<noteq> Some (cc_hmac K payload (oc_StateSecret c))) \<longrightarrow>
      Exchange c K P now requestState code cookie \<in> {Inl MissingOIDCCookie, Inl InvalidOIDCState})"
proof -
  have "Exchange c K P now requestState code cookie \<in> {Inl MissingOIDCCookie, Inl InvalidOIDCState}"
    if no: "\<forall>payload sig. cookie = Some (payload @ ''.'' @ sig) \<longrightarrow> cc_unb64 K sig \<noteq> Some (cc_hmac K payload (oc_StateSecret c))" for cookie
  proof (cases "readStateCookie K (oc_StateSecret c) cookie")
    case (Inl e)
    then have "e = MissingOIDCCookie \<or> e = InvalidOIDCState"
      by (auto simp: readStateCookie_def split: option.splits if_splits list.splits)
    then show ?thesis using Inl assms(2) by (auto simp: Exchange_def)
  next
    case (Inr st)
    then show ?thesis using readStateCookie_sound no by blast
  qed
  note forged = this
  have "Exchange c K P now requestState code
      (Some (snd (newStateCookie K (oc_StateSecret c) stateValue verifier t0 returnURL))) =
    (if now > t0 + 10 * minute \<or> stateValue \<noteq> requestState then Inl InvalidOIDCState
     else case fetch_identity c P code verifier of Inl err \<Rightarrow> Inl (ProviderError err) | Inr identity \<Rightarrow> Inr (identity, returnURL))"
    using readStateCookie_signed [OF assms(1)] assms(2)
    by (simp add: Exchange_def newStateCookie_def Let_def oidcStateTTL_def split: sum.split)
  then show ?thesis using forged by blast
qed

definition demo_state :: oidc_state where
  "demo_state = \<lparr>st_State = ''S'', st_CodeVerifier = ''V'', st_ReturnURL = ''/runs'', st_ExpiresAt = 10 * minute\<rparr>"

definition demo_codec :: cookie_codec where
  "demo_codec = \<lparr>cc_b64 = (\<lambda>x. ''b'' @ x), cc_unb64 = (\<lambda>x. case x of [] \<Rightarrow> None | _ # y \<Rightarrow> Some y), cc_json = st_State,
     cc_unjson = (\<lambda>x. if x = ''S'' then Some demo_state else None), cc_hmac = (\<lambda>p k. k @ p)\<rparr>"

definition demo_oidc :: oidc_config where
  "demo_oidc = \<lparr>oc_Enabled = True, oc_ProviderID = [], oc_ProviderName = [], oc_IssuerURL = ''https://idp'', oc_ClientID = ''id'',
     oc_RedirectURL = ''https://app/cb'', oc_Scopes = [], oc_PKCEEnabled = True, oc_StateCookieName = [], oc_StateSecret = ''k'',
     oc_EmailClaim = [], oc_NameClaim = [], oc_GroupsClaim = [], oc_AdminGroups = ['' Ops '']\<rparr>"

definition demo_provider :: oidc_provider where
  "demo_provider = \<lparr>op_discovery = None, op_exchange = (\<lambda>code v. if v = Some ''V'' then Inr (''at'', ''idt'') else Inl ''bad verifier''),
     op_verify = (\<lambda>raw. Inr (''sub'', Some [''email'' \<mapsto> ClaimString ''ann@x.io'', ''groups'' \<mapsto> ClaimArray [Some ''OPS'', None]])),
     op_userinfo = (\<lambda>a. None)\<rparr>"

theorem callback_bound_to_login_witness:
  "Exchange demo_oidc demo_codec demo_provider minute ''S'' ''c'' (Some (snd (newStateCookie demo_codec ''k'' ''S'' ''V'' 0 ''/runs''))) =
     Inr (\<lparr>oi_Subject = ''sub'', oi_Email = ''ann@x.io'', oi_FullName = ''ann@x.io'', oi_Groups = [''OPS'']\<rparr>, ''/runs'') \<and>
   Exchange demo_oidc demo_codec demo_provider minute ''S'' ''c'' (Some ''bS.bbad'') \<in> {Inl MissingOIDCCookie, Inl InvalidOIDCState}"
proof -
  have ok: "codec_ok demo_codec (oc_StateSecret demo_oidc) (fst (newStateCookie demo_codec (oc_StateSecret demo_oidc) ''S'' ''V'' 0 ''/runs''))"
    "OIDCEnabled demo_oidc" by code_simp+
  have f: "fetch_identity demo_oidc demo_provider ''c'' ''V'' =
      Inr \<lparr>oi_Subject = ''sub'', oi_Email = ''ann@x.io'', oi_FullName = ''ann@x.io'', oi_Groups = [''OPS'']\<rparr>"
    by code_simp
  have bad: "\<forall>payload sig. Some ''bS.bbad'' = Some (payload @ ''.'' @ sig) \<longrightarrow>
      cc_unb64 demo_codec sig \<noteq> Some (cc_hmac demo_codec payload (oc_StateSecret demo_oidc))"
    by (auto simp: demo_codec_def demo_oidc_def append_eq_Cons_conv Cons_eq_append_conv)
  show ?thesis
    using callback_bound_to_login [OF ok, of demo_provider minute "''S''" "''c''"] f bad
    by (auto simp: demo_oidc_def)
qed

subsection \<open>The code is the session\<close>

text \<open>C28. Single sign-on ends in a session.  When the callback has resolved an identity to a user and
  redirected with a code, redeeming the code within ninety seconds, once, while the token is not
  revoked and the account still exists, gives a session for exactly that user and workspace, whose
  token carries the administrator flag and the groups the provider's identity was mapped to.
  Redeeming it again gives nothing.\<close>

theorem sso_code_gives_session:
  assumes lib: "jwt_validates (ae_jwt E)" "jwt_decodes (ae_jwt E)" "jwt_accepts (ae_jwt E)"
    and env: "ae_store E = pg_store coll" "TrimSpace code = code" "code \<noteq> []"
    and cb: "resolveOIDCUser c E (as_store a) now identity = (s, Inr (u, w, admin))"
      "finish_callback c E a now identity returnURL = (a', RedirectCode code returnURL)"
      "Sign (ae_jwt E) (as_jwt a) now (UserID u) (WorkspaceID w) admin (oi_Groups identity) (NormalizedProviderID c) = Inr (token, expiry)"
    and later: "\<forall>q\<in>set ops. op_apart code now' q \<and> \<not> redeems code q" "as_pending b = pending_run (as_pending a') ops"
      "now \<le> now'" "now' \<le> now + 90 * second" "now' < NewNumericDate (ae_jwt E) (now + 72 * hour)"
      "secret (as_jwt b) = secret (as_jwt a)" "\<not> snd (isRevoked (ae_hash E) (as_jwt b) token now')"
    and account: "db_ok (as_store b)" "u \<in> set (db_users (as_store b))" "w \<in> set (db_workspaces (as_store b))"
  shows "(\<exists>sess. snd (oidcTokenExchange E b now' code) = SessionReply 200 sess \<and>
      s_Token sess = token \<and> s_User sess = u \<and> s_Workspace sess = w) \<and>
    (case snd (Verify (ae_jwt E) (ae_hash E) (as_jwt b) token now') of
       Inr cl \<Rightarrow> c_UserID cl = UserID u \<and> c_IsAdmin cl = admin \<and> c_Groups cl = oi_Groups identity | Inl _ \<Rightarrow> False) \<and>
    snd (oidcTokenExchange E (fst (oidcTokenExchange E b now' code)) now'' code) =
      ErrorReply 401 ''Code is invalid or has expired.''"
proof -
  let ?V = "Verify (ae_jwt E) (ae_hash E) (as_jwt b) token now'"
  obtain refresh rexp where st: "store_pending (as_pending a) (ae_random E) now token expiry refresh rexp = (as_pending a', Some code)"
    using cb by (auto simp: finish_callback_def Let_def redirectOIDCError_def split: sum.splits prod.splits option.splits)
  then have stored: "as_pending a' = fst (store_pending (as_pending a) (Some code) now token expiry refresh rexp)"
    by (cases "ae_random E") (auto simp: store_pending_def Let_def)
  define e where "e = \<lparr>pe_token = token, pe_expiresAt = expiry, pe_createdAt = now, pe_refreshToken = refresh,
      pe_refreshExpiresAt = rexp\<rparr>"
  have got: "snd (consume_pending (as_pending b) code now') = Some e"
    using pending_code_once [OF _ stored, of ops now'] later(1,2,4) by (auto simp: e_def)
  then have gone: "fst (consume_pending (as_pending b) code now') code = None"
    by (auto simp: consume_pending_def split: option.splits)
  obtain cl where v: "snd ?V = Inr cl" "c_UserID cl = UserID u" "c_WorkspaceID cl = WorkspaceID w"
      "c_IsAdmin cl = admin" "c_Groups cl = oi_Groups identity"
    using access_token_roundtrip [OF lib cb(3) later(6,3), of "ae_hash E"] later(5,7)
    by (cases "snd ?V") auto
  have "find (\<lambda>x. UserID x = UserID u) (db_users (as_store b)) = Some u"
    "find (\<lambda>x. WorkspaceID x = WorkspaceID w) (db_workspaces (as_store b)) = Some w"
    using account find_distinct by (auto simp: db_ok_def)
  then have "(\<exists>sess. snd (oidcTokenExchange E b now' code) = SessionReply 200 sess \<and>
      s_Token sess = token \<and> s_User sess = u \<and> s_Workspace sess = w) \<and>
      as_pending (fst (oidcTokenExchange E b now' code)) = fst (consume_pending (as_pending b) code now')"
    using env got v
    by (auto simp: oidcTokenExchange_def Let_def pg_store_def pg_GetUserByID_def pg_GetWorkspaceByID_def found_def e_def
        split: prod.split)
  then show ?thesis
    using v env(2,3) gone by (auto simp: oidcTokenExchange_def Let_def consume_pending_def)
qed

definition sso_table :: "(string \<times> claims) list" where
  "sso_table = [(''access'', (claims_at 0 TokenTTL tokenAudience)\<lparr>c_Provider := ''oidc'', c_Groups := [''OPS''], c_IsAdmin := True\<rparr>),
     (''refresh'', (claims_at 0 RefreshTokenTTL refreshTokenAudience)\<lparr>c_Provider := ''oidc'', c_IsAdmin := True\<rparr>)]"

definition sso_env :: "pg_db auth_env" where
  "sso_env = plain_env\<lparr>ae_jwt := table_jwt sso_table\<rparr>"

definition sso_identity :: oidc_identity where
  "sso_identity = \<lparr>oi_Subject = ''sub'', oi_Email = ''Ann@x.io'', oi_FullName = [], oi_Groups = [''OPS'']\<rparr>"

definition sso_done :: "pg_db auth_state" where
  "sso_done = fst (finish_callback demo_oidc sso_env rotation_state 0 sso_identity ''/runs'')"

theorem sso_code_gives_session_witness:
  "(\<exists>sess. snd (oidcTokenExchange sso_env sso_done (90 * second) ''raw'') = SessionReply 200 sess \<and>
      s_Token sess = ''access'' \<and> s_User sess = demo_user \<and> s_Workspace sess = demo_workspace ''w1'') \<and>
   snd (oidcTokenExchange sso_env (fst (oidcTokenExchange sso_env sso_done (90 * second) ''raw'')) (90 * second) ''raw'') =
     ErrorReply 401 ''Code is invalid or has expired.''"
proof -
  have laws: "jwt_validates (ae_jwt sso_env)" "jwt_decodes (ae_jwt sso_env)" "jwt_accepts (ae_jwt sso_env)"
    using table_jwt_laws [of sso_table] by (simp_all add: sso_env_def sso_table_def)
  have env: "ae_store sso_env = pg_store (\<lambda>a b. False)" "TrimSpace ''raw'' = ''raw''" "''raw'' \<noteq> []"
    by (simp_all add: sso_env_def plain_env_ok) code_simp
  have user: "snd (resolveOIDCUser demo_oidc sso_env (as_store rotation_state) 0 sso_identity) =
      Inr (demo_user, demo_workspace ''w1'', True)" by code_simp
  have code: "snd (finish_callback demo_oidc sso_env rotation_state 0 sso_identity ''/runs'') = RedirectCode ''raw'' ''/runs''"
    by code_simp
  have sign: "Sign (ae_jwt sso_env) (as_jwt rotation_state) 0 (UserID demo_user) (WorkspaceID (demo_workspace ''w1'')) True
      (oi_Groups sso_identity) (NormalizedProviderID demo_oidc) = Inr (''access'', TokenTTL)" by code_simp
  have facts: "(90::int) * second < NewNumericDate (ae_jwt sso_env) (0 + 72 * hour)"
    "secret (as_jwt sso_done) = secret (as_jwt rotation_state)"
    "\<not> snd (isRevoked (ae_hash sso_env) (as_jwt sso_done) ''access'' (90 * second))"
    "db_users (as_store sso_done) = [demo_user]" "db_workspaces (as_store sso_done) = [demo_workspace ''w1'']"
    "db_reset (as_store sso_done) = []" "db_favorites (as_store sso_done) = []"
    by code_simp+
  have "db_ok (as_store sso_done)"
    using facts demo_ids by (simp add: db_ok_def demo_workspace_def demo_user_def)
  then show ?thesis
    using sso_code_gives_session [OF laws env prod.expand [of _ "(_, _)"] prod.expand [of _ "(_, _)"] sign, of
        "fst (resolveOIDCUser demo_oidc sso_env (as_store rotation_state) 0 sso_identity)" "''/runs''" sso_done
        "[]" "90 * second" sso_done] facts user code
    by (simp add: sso_done_def pending_run_def)
qed

subsection \<open>Groups and return addresses\<close>

text \<open>A group makes an administrator exactly when, without case and outer blanks, it is one of the
  configured groups; a blank entry on either side never counts.\<close>

lemma MapsGroupsToAdmin_iff:
  "MapsGroupsToAdmin c groups \<longleftrightarrow>
     (\<exists>g\<in>set groups. \<exists>h\<in>set (oc_AdminGroups c). TrimSpace g \<noteq> [] \<and> EqualFold (TrimSpace g) (TrimSpace h))"
  by (auto simp: MapsGroupsToAdmin_def EqualFold_def ToLower_def list_ex_iff Let_def image_iff)

text \<open>The sanitised address is a path of the site when it starts with one slash and no second one
  follows; an address of the frontend itself may still carry a path that starts with two slashes,
  which browsers read as another host, and so may a backslash after the first slash.\<close>

lemma sanitizeReturnURL_rooted:
  assumes "\<forall>s u. url_Parse s = Some u \<and> url_Host u \<noteq> [] \<longrightarrow> url_EscapedPath u = [] \<or> HasPrefix (url_EscapedPath u) ''/''"
    and "\<forall>b. url_Parse frontend = Some b \<longrightarrow> url_Host b \<noteq> []"
  shows "HasPrefix (sanitizeReturnURL url_Parse frontend raw) ''/''"
proof -
  have host: "url_Host t \<noteq> []" if "EqualFold (url_Host b) (url_Host t)" "url_Parse frontend = Some b" for b t :: parsed_url
    using that assms(2) by (auto simp: EqualFold_def ToLower_def)
  have "HasPrefix (url_EscapedPath t) ''/''" if "EqualFold (url_Host b) (url_Host t)" "url_Parse frontend = Some b"
      "url_Parse x = Some t" "url_EscapedPath t \<noteq> []" for b t x
    using assms(1) host that by blast
  then show ?thesis
    by (auto simp: sanitizeReturnURL_def Let_def HasPrefix_def split: option.split)
qed

lemma sanitizeReturnURL_leaves_site:
  assumes "url_Parse ''https://app.io'' = Some \<lparr>url_Scheme = ''https'', url_Host = ''app.io'', url_EscapedPath = [], url_RawQuery = []\<rparr>"
    and "url_Parse ''https://app.io//evil.io'' =
      Some \<lparr>url_Scheme = ''https'', url_Host = ''app.io'', url_EscapedPath = ''//evil.io'', url_RawQuery = []\<rparr>"
  shows "sanitizeReturnURL url_Parse ''https://app.io'' ''https://app.io//evil.io'' = ''//evil.io''"
    and "sanitizeReturnURL url_Parse ''https://app.io'' [CHR ''/'', CHR 0x5C, CHR ''e''] = [CHR ''/'', CHR 0x5C, CHR ''e'']"
proof -
  have "TrimSpace ''https://app.io//evil.io'' = ''https://app.io//evil.io''" by code_simp
  then show "sanitizeReturnURL url_Parse ''https://app.io'' ''https://app.io//evil.io'' = ''//evil.io''"
    using assms by (simp add: sanitizeReturnURL_def HasPrefix_def EqualFold_def)
  have "TrimSpace [CHR ''/'', CHR 0x5C, CHR ''e''] = [CHR ''/'', CHR 0x5C, CHR ''e'']" by code_simp
  then show "sanitizeReturnURL url_Parse ''https://app.io'' [CHR ''/'', CHR 0x5C, CHR ''e''] = [CHR ''/'', CHR 0x5C, CHR ''e'']"
    by (simp add: sanitizeReturnURL_def HasPrefix_def)
qed

end
