(* ===== verification/Mock_Types.thy ===== *)
theory Mock_Types
  imports Go_Strings Suite_Types "HOL-Library.AList"
begin

text \<open>
  The data of the mock server: the API surface of a suite (\<open>suites/types.go\<close>) and the types of
  \<open>mocking/types.go\<close>. An \<open>any\<close> that the engine handles is a value of \<open>mvalue\<close>, one constructor per
  dynamic type the package builds or decodes; a map is an association list whose order is the
  order in which one run ranges over it. A nil map and an empty one behave alike in everything
  the package does with them and are the same list.
\<close>

datatype mvalue =
    MNil
  | MBool bool
  | MInt int
  | MFloat float64
  | MString string
  | MList "mvalue list"
  | MStrList "string list"
  | MMap "(string \<times> mvalue) list"
  | MStrMap "(string \<times> string) list"

type_synonym strmap = "(string \<times> string) list"

text \<open>Indexing a \<open>map[string]string\<close>: the zero value where the key is missing.\<close>

definition str_at :: "strmap \<Rightarrow> string \<Rightarrow> string" where
  "str_at m k = (case map_of m k of None \<Rightarrow> [] | Some v \<Rightarrow> v)"

subsection \<open>The API surface of a suite\<close>

record api_header =
  h_Name :: string
  h_Value :: string

record parameter_constraint =
  pc_Name :: string
  pc_Source :: string
  pc_Required :: bool
  pc_Forward :: bool
  pc_Pattern :: string

record mock_fallback =
  fb_Mode :: string
  fb_ExampleName :: string
  fb_ProxyURL :: string
  fb_Status :: string
  fb_MediaType :: string
  fb_Body :: string
  fb_Headers :: "api_header list"

record mock_state_transition =
  mt_OnExample :: string
  mt_MutationKeyTemplate :: string
  mt_Set :: strmap
  mt_Delete :: "string list"
  mt_Increment :: "(string \<times> int) list"

record mock_state =
  ms_LookupKeyTemplate :: string
  ms_MutationKeyTemplate :: string
  ms_Defaults :: strmap
  ms_Transitions :: "mock_state_transition list"

record match_condition =
  mc_From :: string
  mc_Param :: string
  mc_Value :: string

record mock_operation_metadata =
  om_Adapter :: string
  om_Dispatcher :: string
  om_DispatcherRules :: string
  om_DelayMillis :: int
  om_ParameterConstraints :: "parameter_constraint list"
  om_Fallback :: "mock_fallback option"
  om_State :: "mock_state option"
  om_MetadataPath :: string
  om_ResolverURL :: string
  om_RuntimeURL :: string

record exchange_example =
  ex_Name :: string
  ex_SourceArtifact :: string
  ex_When :: "match_condition list"
  ex_RequestHeaders :: "api_header list"
  ex_RequestBody :: string
  ex_ResponseStatus :: string
  ex_ResponseMediaType :: string
  ex_ResponseHeaders :: "api_header list"
  ex_ResponseBody :: string

record api_operation =
  op_ID :: string
  op_Method :: string
  op_Name :: string
  op_Summary :: string
  op_ContractPath :: string
  op_MockPath :: string
  op_MockURL :: string
  op_CurlCommand :: string
  op_Dispatcher :: string
  op_MockMetadata :: mock_operation_metadata
  op_Exchanges :: "exchange_example list"

record api_surface =
  sf_ID :: string
  sf_Title :: string
  sf_Protocol :: string
  sf_MockHost :: string
  sf_Description :: string
  sf_Operations :: "api_operation list"

text \<open>A suite definition with its API surfaces.\<close>

record suite_with_api = suite_definition +
  g_APISurfaces :: "api_surface list"

subsection \<open>The types of the engine\<close>

text \<open>\<open>http.Header\<close>: canonical names with their values.\<close>

type_synonym http_header = "(string \<times> string list) list"

record mock_result =
  rs_Status :: int
  rs_MediaType :: string
  rs_Headers :: http_header
  rs_Body :: string
  rs_Adapter :: string
  rs_Dispatcher :: string
  rs_ResolverURL :: string
  rs_RuntimeURL :: string
  rs_MatchedExample :: string

record request_snapshot =
  sn_Method :: string
  sn_Query :: strmap
  sn_Headers :: strmap
  sn_Path :: strmap
  sn_BodyRaw :: string
  sn_BodyJSON :: mvalue
  sn_BodyObject :: "(string \<times> mvalue) list"

record schema_request_spec =
  rq_Headers :: mvalue
  rq_Body :: mvalue

record schema_response_spec =
  rp_Status :: string
  rp_MediaType :: string
  rp_Headers :: mvalue
  rp_Body :: mvalue

record schema_example_entry =
  en_Dispatch :: "match_condition list"
  en_RequestSchema :: schema_request_spec
  en_ResponseSchema :: schema_response_spec

record schema_backed_example =
  sx_Name :: string
  sx_Dispatch :: "match_condition list"
  sx_Request :: schema_request_spec
  sx_Response :: schema_response_spec

subsection \<open>Library calls on headers and numbers\<close>

text \<open>
  \<open>textproto.CanonicalMIMEHeaderKey\<close>: a name made of token bytes gets an upper-case letter at its
  start and after each hyphen and lower-case letters elsewhere; any other name is kept.
\<close>

definition token_byte :: "char \<Rightarrow> bool" where
  "token_byte c \<longleftrightarrow>
     byte_in 0x30 0x39 c \<or> byte_in 0x41 0x5A c \<or> byte_in 0x61 0x7A c \<or> c \<in> set ''!#$%&*+-.^_`|~'' \<or> c = CHR 0x27"

fun canonical_from :: "bool \<Rightarrow> string \<Rightarrow> string" where
  "canonical_from up [] = []"
| "canonical_from up (c # s) =
     (if up then ToUpper [c] else ToLower [c]) @ canonical_from (c = CHR ''-'') s"

definition CanonicalHeaderKey :: "string \<Rightarrow> string" where
  "CanonicalHeaderKey s = (if list_all token_byte s then canonical_from True s else s)"

definition header_Set :: "string \<Rightarrow> string \<Rightarrow> http_header \<Rightarrow> http_header" where
  "header_Set k v h = AList.update (CanonicalHeaderKey k) [v] h"

definition header_Add :: "string \<Rightarrow> string \<Rightarrow> http_header \<Rightarrow> http_header" where
  "header_Add k v h =
     AList.update (CanonicalHeaderKey k) ((case map_of h (CanonicalHeaderKey k) of None \<Rightarrow> [] | Some vs \<Rightarrow> vs) @ [v]) h"

definition header_Get :: "http_header \<Rightarrow> string \<Rightarrow> string" where
  "header_Get h k = (case map_of h (CanonicalHeaderKey k) of Some (v # vs) \<Rightarrow> v | _ \<Rightarrow> [])"

text \<open>
  \<open>strconv.Atoi\<close>: the value and whether there is no error. A number out of the range of \<open>int\<close> gives
  the nearest bound together with an error, everything else that is not a number gives 0.
\<close>

definition digit_value :: "char \<Rightarrow> int option" where
  "digit_value c = (if byte_in 0x30 0x39 c then Some (int (of_char c) - 48) else None)"

fun digits_value :: "int \<Rightarrow> string \<Rightarrow> int option" where
  "digits_value acc [] = Some acc"
| "digits_value acc (c # s) = (case digit_value c of None \<Rightarrow> None | Some d \<Rightarrow> digits_value (10 * acc + d) s)"

abbreviation (input) MaxInt64 :: int where
  "MaxInt64 \<equiv> 9223372036854775807"

abbreviation (input) MinInt64 :: int where
  "MinInt64 \<equiv> - 9223372036854775808"

definition Atoi :: "string \<Rightarrow> int \<times> bool" where
  "Atoi s =
     (let neg = HasPrefix s ''-'';
          body = (if neg \<or> HasPrefix s ''+'' then drop 1 s else s)
      in if body = [] then (0, False)
         else case digits_value 0 body of
             None \<Rightarrow> (0, False)
           | Some n \<Rightarrow>
               let v = (if neg then - n else n) in
               if v > MaxInt64 then (MaxInt64, False)
               else if v < MinInt64 then (MinInt64, False)
               else (v, True))"

text \<open>\<open>strconv.Itoa\<close> on any \<open>int\<close>, and the sum of two of them.\<close>

definition FormatInt :: "int \<Rightarrow> string" where
  "FormatInt n = (if n < 0 then CHR ''-'' # Itoa (nat (- n)) else Itoa (nat n))"

definition int64_add :: "int \<Rightarrow> int \<Rightarrow> int" where
  "int64_add a b = sint (word_of_int (a + b) :: 64 word)"

text \<open>\<open>fmt.Sprint\<close> of one value; \<open>ff\<close> is the shortest decimal form of a \<open>float64\<close>.\<close>

fun Sprint :: "(float64 \<Rightarrow> string) \<Rightarrow> mvalue \<Rightarrow> string" where
  "Sprint ff MNil = ''<nil>''"
| "Sprint ff (MBool b) = (if b then ''true'' else ''false'')"
| "Sprint ff (MInt n) = FormatInt n"
| "Sprint ff (MFloat x) = ff x"
| "Sprint ff (MString s) = s"
| "Sprint ff (MList vs) = ''['' @ Join (map (Sprint ff) vs) '' '' @ '']''"
| "Sprint ff (MStrList vs) = ''['' @ Join vs '' '' @ '']''"
| "Sprint ff (MMap m) =
     ''map['' @ Join (map (\<lambda>(k, t). k @ '':'' @ t) (sort_key fst (map (\<lambda>(k, v). (k, Sprint ff v)) m))) '' '' @ '']''"
| "Sprint ff (MStrMap m) =
     ''map['' @ Join (map (\<lambda>(k, t). k @ '':'' @ t) (sort_key fst m)) '' '' @ '']''"

end
