(* ===== verification/Mock_Template.thy ===== *)
theory Mock_Template
  imports Mock_Types
begin

text \<open>
  The template language of the mock server, \<open>mocking/template.go\<close>: texts with tokens
  \<open>{{ expression }}\<close>, where an expression is a path into the request, the state or the suite, a quoted
  literal, or alternatives separated by \<open>||\<close>. The first lemmas say that evaluation ends; the
  properties say what a text made of literals and tokens renders to and which alternative wins.
\<close>

subsection \<open>Splitting expressions and paths\<close>

definition compactTemplateParts :: "string list \<Rightarrow> string list" where
  "compactTemplateParts input = filter (\<lambda>v. v \<noteq> []) (map TrimSpace input)"

text \<open>
  The loop of \<open>splitTemplateExpression\<close> with its only delimiter \<open>||\<close>. \<open>scan_char\<close> is the switch on the
  current byte: \<open>depth\<close>, \<open>inSingleQuote\<close> and \<open>inDoubleQuote\<close>. \<open>split_scan\<close> keeps the bytes since \<open>start\<close> (last one
  first) and the rest of the input.
\<close>

type_synonym scan_state = "nat \<times> bool \<times> bool"

fun scan_char :: "char \<Rightarrow> scan_state \<Rightarrow> scan_state" where
  "scan_char c (depth, inSingle, inDouble) =
     (if c = CHR 0x27 then (depth, if inDouble then inSingle else \<not> inSingle, inDouble)
      else if c = CHR 0x22 then (depth, inSingle, if inSingle then inDouble else \<not> inDouble)
      else if c = CHR ''('' \<and> \<not> inSingle \<and> \<not> inDouble then (depth + 1, inSingle, inDouble)
      else if c = CHR '')'' \<and> \<not> inSingle \<and> \<not> inDouble \<and> depth > 0 then (depth - 1, inSingle, inDouble)
      else (depth, inSingle, inDouble))"

fun nested :: "scan_state \<Rightarrow> bool" where
  "nested (depth, inSingle, inDouble) \<longleftrightarrow> inSingle \<or> inDouble \<or> depth > 0"

fun split_scan :: "scan_state \<Rightarrow> string \<Rightarrow> string \<Rightarrow> string list" where
  "split_scan st buf [] = [TrimSpace (rev buf)]"
| "split_scan st buf (c # s) =
     (let st' = scan_char c st in
      if \<not> nested st' \<and> HasPrefix (c # s) ''||'' then TrimSpace (rev buf) # split_scan st' [] (drop 1 s)
      else split_scan st' (c # buf) s)"

definition splitTemplateExpression :: "string \<Rightarrow> string list" where
  "splitTemplateExpression input =
     (if TrimSpace input = [] then [] else compactTemplateParts (split_scan (0, False, False) [] input))"

definition trim_set :: "string \<Rightarrow> string \<Rightarrow> string" where
  "trim_set s cs = rev (dropWhile (\<lambda>x. x \<in> set cs) (rev (dropWhile (\<lambda>x. x \<in> set cs) s)))"

lemma Cut_length: "Cut s c = (a, b, True) \<Longrightarrow> length b < length s"
  by (induction s arbitrary: a b) (auto simp: Cut_def Let_def split: if_splits)

function path_scan :: "string \<Rightarrow> string \<Rightarrow> string list" where
  "path_scan buf [] = (if buf = [] then [] else [rev buf])"
| "path_scan buf (c # s) =
     (let flushed = (if buf = [] then [] else [rev buf]) in
      if c = CHR ''.'' \<or> c = CHR ''/'' then flushed @ path_scan [] s
      else if c = CHR ''['' then
        flushed @
        (case Cut s (CHR '']'') of
           (inner, after, found) \<Rightarrow>
             if \<not> found then path_scan [] s
             else let key = trim_set (TrimSpace inner) [CHR 0x22, CHR 0x27]
                  in (if key \<noteq> [] then [key] else []) @ path_scan [] after)
      else path_scan (c # buf) s)"
  by pat_completeness auto
termination
  by (relation "measure (\<lambda>(buf, s). length s)") (auto dest!: Cut_length [OF sym])

definition templatePathSegments :: "string \<Rightarrow> string list" where
  "templatePathSegments path =
     (let trimmed = TrimSpace path in
      if trimmed = [] then [] else compactTemplateParts (path_scan [] trimmed))"

fun lookupContextValue :: "mvalue \<Rightarrow> string list \<Rightarrow> mvalue option" where
  "lookupContextValue current [] = Some current"
| "lookupContextValue current (segment # segments) =
     (case current of
        MMap m \<Rightarrow> (case map_of m segment of None \<Rightarrow> None | Some v \<Rightarrow> lookupContextValue v segments)
      | MStrMap m \<Rightarrow> (case map_of m segment of None \<Rightarrow> None | Some v \<Rightarrow> lookupContextValue (MString v) segments)
      | _ \<Rightarrow> None)"

subsection \<open>Quoted literals\<close>

text \<open>\<open>utf8.AppendRune\<close> for a valid code point.\<close>

definition rune_bytes :: "nat \<Rightarrow> string" where
  "rune_bytes v =
     (if v < 0x80 then [char_of v]
      else if v < 0x800 then [char_of (0xC0 + v div 64), char_of (0x80 + v mod 64)]
      else if v < 0x10000 then
        [char_of (0xE0 + v div 4096), char_of (0x80 + v div 64 mod 64), char_of (0x80 + v mod 64)]
      else [char_of (0xF0 + v div 262144), char_of (0x80 + v div 4096 mod 64), char_of (0x80 + v div 64 mod 64),
        char_of (0x80 + v mod 64)])"

definition ValidRune :: "nat \<Rightarrow> bool" where
  "ValidRune v \<longleftrightarrow> v < 0xD800 \<or> 0xDFFF < v \<and> v \<le> 0x10FFFF"

definition unhex :: "char \<Rightarrow> nat option" where
  "unhex c =
     (if byte_in 0x30 0x39 c then Some (of_char c - 0x30)
      else if byte_in 0x61 0x66 c then Some (of_char c - 0x61 + 10)
      else if byte_in 0x41 0x46 c then Some (of_char c - 0x41 + 10)
      else None)"

fun hex_run :: "nat \<Rightarrow> nat \<Rightarrow> string \<Rightarrow> (nat \<times> string) option" where
  "hex_run 0 v s = Some (v, s)"
| "hex_run (Suc n) v [] = None"
| "hex_run (Suc n) v (c # s) = (case unhex c of None \<Rightarrow> None | Some x \<Rightarrow> hex_run n (16 * v + x) s)"

text \<open>The first rune of a byte string as \<open>utf8.DecodeRuneInString\<close> reads it, an invalid byte as U+FFFD.\<close>

definition decoded_rune :: "string \<Rightarrow> string \<times> string" where
  "decoded_rune s =
     (case find (\<lambda>n. n \<le> length s \<and> ValidUTF8 (take n s)) [1, 2, 3, 4] of
        Some n \<Rightarrow> (take n s, drop n s)
      | None \<Rightarrow> ([CHR 0xEF, CHR 0xBF, CHR 0xBD], drop 1 s))"

text \<open>
  \<open>strconv.UnquoteChar\<close> inside double quotes: the bytes of the next character and the rest. \<open>unquote_escape\<close>
  reads what follows a backslash.
\<close>

definition unquote_octal :: "char \<Rightarrow> string \<Rightarrow> (string \<times> string) option" where
  "unquote_octal e r =
     (case r of
        a # b # r' \<Rightarrow>
          if byte_in 0x30 0x37 a \<and> byte_in 0x30 0x37 b then
            (let v = (of_char e - 48) * 64 + (of_char a - 48) * 8 + (of_char b - 48 :: nat)
             in if v > 255 then None else Some ([char_of v], r'))
          else None
      | _ \<Rightarrow> None)"

definition unquote_unicode :: "nat \<Rightarrow> string \<Rightarrow> (string \<times> string) option" where
  "unquote_unicode n r =
     (case hex_run n 0 r of
        None \<Rightarrow> None
      | Some (v, r') \<Rightarrow> if ValidRune v then Some (rune_bytes v, r') else None)"

definition simple_escape :: "char \<Rightarrow> char option" where
  "simple_escape = map_of (zip ''abfnrtv'' [CHR 7, CHR 8, CHR 12, CHR 10, CHR 13, CHR 9, CHR 11])"

definition unquote_escape :: "char \<Rightarrow> string \<Rightarrow> (string \<times> string) option" where
  "unquote_escape e r =
     (case simple_escape e of
        Some b \<Rightarrow> Some ([b], r)
      | None \<Rightarrow>
          if e = CHR ''x'' then map_option (\<lambda>(v, r'). ([char_of v], r')) (hex_run 2 0 r)
          else if e = CHR ''u'' then unquote_unicode 4 r
          else if e = CHR ''U'' then unquote_unicode 8 r
          else if byte_in 0x30 0x37 e then unquote_octal e r
          else if e = CHR 0x5C \<or> e = CHR 0x22 then Some ([e], r)
          else None)"

fun UnquoteChar :: "string \<Rightarrow> (string \<times> string) option" where
  "UnquoteChar [] = None"
| "UnquoteChar (c # s) =
     (if byte_in 0x80 0xFF c then Some (decoded_rune (c # s))
      else if c \<noteq> CHR 0x5C then Some ([c], s)
      else case s of [] \<Rightarrow> None | e # r \<Rightarrow> unquote_escape e r)"

lemma hex_run_length: "hex_run n v s = Some (w, r) \<Longrightarrow> length r \<le> length s"
  by (induction n v s rule: hex_run.induct) (auto split: option.splits)

lemma unquote_octal_length: "unquote_octal e r = Some (b, r') \<Longrightarrow> length r' \<le> length r"
  by (auto simp: unquote_octal_def Let_def split: list.splits if_splits)

lemma unquote_unicode_length: "unquote_unicode n r = Some (b, r') \<Longrightarrow> length r' \<le> length r"
  by (auto simp: unquote_unicode_def dest: hex_run_length split: option.splits if_splits)

lemma unquote_escape_length:
  assumes "unquote_escape e r = Some (b, r')"
  shows "length r' \<le> length r"
proof (cases "simple_escape e")
  case None
  note esc = assms [unfolded unquote_escape_def None option.case]
  have hex: "length r' \<le> length r" if "map_option (\<lambda>(v, r'). ([char_of v], r')) (hex_run 2 0 r) = Some (b, r')"
    using that by (auto dest: hex_run_length)
  show ?thesis
    using esc hex unquote_octal_length [of e r b r'] unquote_unicode_length [of 4 r b r'] unquote_unicode_length [of 8 r b r']
    by (metis option.distinct(1) option.inject order.refl prod.inject)
qed (use assms in \<open>simp add: unquote_escape_def\<close>)

lemma UnquoteChar_shorter: "UnquoteChar s = Some (b, r) \<Longrightarrow> length r < length s"
proof (cases s)
  case (Cons c t)
  have "length (snd (decoded_rune (c # t))) < length (c # t)"
  proof (cases "find (\<lambda>n. n \<le> length (c # t) \<and> ValidUTF8 (take n (c # t))) [1, 2, 3, 4]")
    case (Some n)
    then have "n \<in> set [1, 2, 3, 4]" by (metis find_Some_iff nth_mem)
    then show ?thesis unfolding decoded_rune_def Some by auto
  qed (simp add: decoded_rune_def)
  moreover assume "UnquoteChar s = Some (b, r)"
  ultimately show ?thesis
    unfolding Cons by (auto dest!: unquote_escape_length split: if_splits list.splits)
qed simp

text \<open>
  \<open>strconv.Unquote\<close> of a double-quoted string, from after the opening quote: an unescaped newline, a
  bad escape, a missing closing quote or anything after it is an error.
\<close>

function unquote_from :: "string \<Rightarrow> string option" where
  "unquote_from s =
     (case s of
        [] \<Rightarrow> None
      | c # r \<Rightarrow>
          if c = CHR 0x22 then (if r = [] then Some [] else None)
          else if c = CHR 0x0A then None
          else case UnquoteChar s of
              None \<Rightarrow> None
            | Some (b, rest) \<Rightarrow> map_option (\<lambda>out. b @ out) (unquote_from rest))"
  by pat_completeness auto
termination
  by (relation "measure length") (auto dest: UnquoteChar_shorter simp del: UnquoteChar.simps)

declare unquote_from.simps [simp del]

definition unquoteTemplateLiteral :: "string \<Rightarrow> string option" where
  "unquoteTemplateLiteral value =
     (if length value < 2 then None
      else if hd value = CHR 0x27 \<and> last value = CHR 0x27 \<or> hd value = CHR 0x22 \<and> last value = CHR 0x22 then
        (let inner = take (length value - 2) (drop 1 value);
             escaped = concat (map (\<lambda>c. if c = CHR 0x22 then [CHR 0x5C, CHR 0x22] else [c]) inner)
         in case unquote_from (escaped @ [CHR 0x22]) of None \<Rightarrow> Some inner | Some out \<Rightarrow> Some out)
      else None)"

subsection \<open>Evaluation\<close>

primrec first_answer :: "('a \<Rightarrow> 'b option) \<Rightarrow> 'a list \<Rightarrow> 'b option" where
  "first_answer f [] = None"
| "first_answer f (x # xs) = (case f x of None \<Rightarrow> first_answer f xs | Some y \<Rightarrow> Some y)"

lemma first_answer_cong [fundef_cong]:
  "xs = ys \<Longrightarrow> (\<And>x. x \<in> set ys \<Longrightarrow> f x = g x) \<Longrightarrow> first_answer f xs = first_answer g ys"
  by (induction xs arbitrary: ys) (auto split: option.split)

lemma TrimSpace_length: "length (TrimSpace s) \<le> length s"
  by (metis TrimSpace_def length_rev suffix_length_le trim_left_suffix order_trans)

lemma split_scan_length:
  "sum_list (map length (split_scan st buf s)) + 2 * length (split_scan st buf s) \<le> length buf + length s + 2"
proof (induction st buf s rule: split_scan.induct)
  case (1 st buf)
  then show ?case using TrimSpace_length [of "rev buf"] by simp
next
  case (2 st buf c s)
  show ?case
  proof (cases "\<not> nested (scan_char c st) \<and> HasPrefix (c # s) ''||''")
    case True
    then have "length (drop 1 s) + 2 \<le> length (c # s)" by (cases s) (auto simp: HasPrefix_def)
    then show ?thesis
      using 2(1) [OF refl True] TrimSpace_length [of "rev buf"] True by (simp add: Let_def)
  next
    case False
    then show ?thesis using 2(2) [OF refl False] by (auto simp: Let_def)
  qed
qed

lemma compact_length: "sum_list (map length (compactTemplateParts ps)) \<le> sum_list (map length ps)"
    "length (compactTemplateParts ps) \<le> length ps"
proof -
  show "sum_list (map length (compactTemplateParts ps)) \<le> sum_list (map length ps)"
    unfolding compactTemplateParts_def
  proof (induction ps)
    case (Cons p ps)
    then show ?case using TrimSpace_length [of p] by simp
  qed simp
qed (simp add: compactTemplateParts_def le_trans [OF length_filter_le])

lemma option_shorter:
  assumes "x \<in> set (splitTemplateExpression e)" "1 < length (splitTemplateExpression e)"
  shows "length x < length e"
proof -
  let ?ps = "split_scan (0, False, False) [] e"
  have ps: "splitTemplateExpression e = compactTemplateParts ?ps"
    using assms(1) by (auto simp: splitTemplateExpression_def split: if_splits)
  have "length x \<le> sum_list (map length (compactTemplateParts ?ps))"
    using assms(1) unfolding ps by (simp add: member_le_sum_list)
  also have "\<dots> \<le> sum_list (map length ?ps)" by (rule compact_length(1))
  finally show ?thesis
    using split_scan_length [of "(0, False, False)" "[]" e] compact_length(2) [of ?ps] assms(2) unfolding ps by simp
qed

function evaluateTemplateExpression :: "(float64 \<Rightarrow> string) \<Rightarrow> mvalue \<Rightarrow> string \<Rightarrow> string option" where
  "evaluateTemplateExpression ff contextMap expression =
     (let options = splitTemplateExpression expression in
      if length options > 1 then
        first_answer (\<lambda>opt. case evaluateTemplateExpression ff contextMap opt of
            None \<Rightarrow> None | Some v \<Rightarrow> if TrimSpace v \<noteq> [] then Some v else None) options
      else
        let trimmed = TrimSpace expression in
        if trimmed = [] then None
        else case unquoteTemplateLiteral trimmed of
            Some literal \<Rightarrow> Some literal
          | None \<Rightarrow> map_option (Sprint ff) (lookupContextValue contextMap (templatePathSegments trimmed)))"
  by pat_completeness auto
termination
  by (relation "measure (\<lambda>(ff, m, e). length e)") (auto simp: option_shorter)

declare evaluateTemplateExpression.simps [simp del]

subsection \<open>Rendering\<close>

text \<open>
  The pattern \<open>(?s)\{\{\s*(.*?)\s*\}\}\<close>: the leftmost \<open>{{\<close> with a \<open>}}\<close> after it. The first \<open>\s*\<close> takes all the
  space after \<open>{{\<close>, the lazy group ends where only space is left before the first \<open>}}\<close>. The result is the
  text before the match, the match, the group and the text after.
\<close>

definition tpl_space :: "char \<Rightarrow> bool" where
  "tpl_space c \<longleftrightarrow> c \<in> {CHR 9, CHR 10, CHR 12, CHR 13, CHR '' ''}"

fun cut_at :: "string \<Rightarrow> string \<Rightarrow> (string \<times> string) option" where
  "cut_at sep [] = None"
| "cut_at sep (c # s) =
     (if HasPrefix (c # s) sep then Some ([], drop (length sep) (c # s))
      else map_option (\<lambda>(a, b). (c # a, b)) (cut_at sep s))"

definition find_token :: "string \<Rightarrow> (string \<times> string \<times> string \<times> string) option" where
  "find_token s =
     (case cut_at ''{{'' s of
        None \<Rightarrow> None
      | Some (before, inner) \<Rightarrow>
          (case cut_at ''}}'' (dropWhile tpl_space inner) of
             None \<Rightarrow> None
           | Some (body, after) \<Rightarrow>
               Some (before, take (length s - length before - length after) (drop (length before) s),
                 rev (dropWhile tpl_space (rev body)), after)))"

lemma cut_at_append: "cut_at sep s = Some (a, b) \<Longrightarrow> s = a @ sep @ b"
  by (induction sep s arbitrary: a b rule: cut_at.induct)
    (auto simp: HasPrefix_def prefix_def split: if_splits)

lemma find_token_shorter: "find_token s = Some (before, token, g, after) \<Longrightarrow> length after < length s"
proof -
  assume "find_token s = Some (before, token, g, after)"
  then obtain inner body where in1: "cut_at ''{{'' s = Some (before, inner)"
    and in2: "cut_at ''}}'' (dropWhile tpl_space inner) = Some (body, after)"
    by (auto simp: find_token_def split: option.splits)
  show ?thesis
    using cut_at_append [OF in1] cut_at_append [OF in2] length_dropWhile_le [of tpl_space inner] by simp
qed

function replace_tokens :: "(string \<Rightarrow> string) \<Rightarrow> string \<Rightarrow> string" where
  "replace_tokens repl s =
     (case find_token s of
        None \<Rightarrow> s
      | Some (before, token, g, after) \<Rightarrow> before @ repl token @ replace_tokens repl after)"
  by pat_completeness auto
termination
  by (relation "measure (\<lambda>(f, s). length s)") (auto dest: find_token_shorter)

declare replace_tokens.simps [simp del]

definition render_token :: "(float64 \<Rightarrow> string) \<Rightarrow> mvalue \<Rightarrow> string \<Rightarrow> string" where
  "render_token ff contextMap token =
     (case find_token token of
        None \<Rightarrow> token
      | Some (before, whole, g, after) \<Rightarrow>
          (case evaluateTemplateExpression ff contextMap g of None \<Rightarrow> [] | Some v \<Rightarrow> v))"

definition renderTemplate :: "(float64 \<Rightarrow> string) \<Rightarrow> mvalue \<Rightarrow> string \<Rightarrow> string" where
  "renderTemplate ff contextMap input =
     (if TrimSpace input = [] then input else replace_tokens (render_token ff contextMap) input)"

subsection \<open>The context of a request\<close>

text \<open>
  \<open>firstNonNil\<close> sees a nil map as a value (an interface that holds a typed nil is not nil), so \<open>body\<close> is the
  decoded body, or the empty object when there is none.
\<close>

definition buildTemplateContext ::
  "'a suite_with_api_scheme \<Rightarrow> api_surface \<Rightarrow> api_operation \<Rightarrow> request_snapshot \<Rightarrow> strmap \<Rightarrow>
     (string \<times> mvalue) list \<Rightarrow> string \<Rightarrow> mvalue" where
  "buildTemplateContext suite surface operation snapshot state responseBody exampleName =
     MMap
       [(''suite'', MMap
          [(''id'', MString (g_ID suite)), (''title'', MString (g_Title suite)),
           (''repository'', MString (g_Repository suite)), (''surfaceId'', MString (sf_ID surface)),
           (''surfaceTitle'', MString (sf_Title surface))]),
        (''operation'', MMap
          [(''id'', MString (op_ID operation)), (''name'', MString (op_Name operation)),
           (''resolverUrl'', MString (om_ResolverURL (op_MockMetadata operation))),
           (''runtimeUrl'', MString (om_RuntimeURL (op_MockMetadata operation)))]),
        (''request'', MMap
          [(''method'', MString (sn_Method snapshot)), (''query'', MStrMap (sn_Query snapshot)),
           (''path'', MStrMap (sn_Path snapshot)), (''headers'', MStrMap (sn_Headers snapshot)),
           (''body'', if sn_BodyJSON snapshot \<noteq> MNil then sn_BodyJSON snapshot else MMap (sn_BodyObject snapshot)),
           (''rawBody'', MString (sn_BodyRaw snapshot))]),
        (''response'', MMap [(''body'', MMap responseBody)]),
        (''state'', MStrMap state),
        (''match'', MMap [(''example'', MString exampleName)])]"

subsection \<open>A reference semantics\<close>

text \<open>
  Templates as data: a text is a sequence of literal pieces and tokens, a token a list of
  alternatives, an alternative a path or a quoted literal. \<open>template_text\<close> writes a template down,
  \<open>template_value\<close> says what it stands for.
\<close>

datatype operand = Path "string list" | Literal string
datatype piece = Plain string | Token nat "operand list"

primrec operand_text :: "operand \<Rightarrow> string" where
  "operand_text (Path segments) = Join segments ''.''"
| "operand_text (Literal t) = [CHR 0x27] @ t @ [CHR 0x27]"

primrec piece_text :: "piece \<Rightarrow> string" where
  "piece_text (Plain t) = t"
| "piece_text (Token n os) =
     ''{{'' @ replicate n (CHR '' '') @ Join (map operand_text os) '' || '' @ replicate n (CHR '' '') @ ''}}''"

definition template_text :: "piece list \<Rightarrow> string" where
  "template_text ps = concat (map piece_text ps)"

primrec operand_value :: "(float64 \<Rightarrow> string) \<Rightarrow> mvalue \<Rightarrow> operand \<Rightarrow> string option" where
  "operand_value ff m (Path segments) = map_option (Sprint ff) (lookupContextValue m segments)"
| "operand_value ff m (Literal t) = Some t"

definition token_value :: "(float64 \<Rightarrow> string) \<Rightarrow> mvalue \<Rightarrow> operand list \<Rightarrow> string" where
  "token_value ff m os =
     (let values = map (operand_value ff m) os;
          chosen = (case os of [x] \<Rightarrow> operand_value ff m x
            | _ \<Rightarrow> (case find (\<lambda>v. \<exists>t. v = Some t \<and> TrimSpace t \<noteq> []) values of None \<Rightarrow> None | Some v \<Rightarrow> v))
      in case chosen of None \<Rightarrow> [] | Some t \<Rightarrow> t)"

primrec piece_value :: "(float64 \<Rightarrow> string) \<Rightarrow> mvalue \<Rightarrow> piece \<Rightarrow> string" where
  "piece_value ff m (Plain t) = t"
| "piece_value ff m (Token n os) = token_value ff m os"

definition template_value :: "(float64 \<Rightarrow> string) \<Rightarrow> mvalue \<Rightarrow> piece list \<Rightarrow> string" where
  "template_value ff m ps = concat (map (piece_value ff m) ps)"

text \<open>The templates that can be written: names of letters, digits, hyphens and underscores, literals without escapes.\<close>

definition ident_char :: "char \<Rightarrow> bool" where
  "ident_char c \<longleftrightarrow> byte_in 0x30 0x39 c \<or> byte_in 0x41 0x5A c \<or> byte_in 0x61 0x7A c \<or> c = CHR ''_'' \<or> c = CHR ''-''"

definition literal_char :: "char \<Rightarrow> bool" where
  "literal_char c \<longleftrightarrow> byte_in 0x20 0x7E c \<and> c \<notin> {CHR 0x22, CHR 0x27, CHR 0x5C, CHR ''}''}"

primrec operand_ok :: "operand \<Rightarrow> bool" where
  "operand_ok (Path segments) \<longleftrightarrow> segments \<noteq> [] \<and> list_all (\<lambda>s. s \<noteq> [] \<and> list_all ident_char s) segments"
| "operand_ok (Literal t) \<longleftrightarrow> list_all literal_char t"

primrec piece_ok :: "piece \<Rightarrow> bool" where
  "piece_ok (Plain t) \<longleftrightarrow> CHR ''{'' \<notin> set t"
| "piece_ok (Token n os) \<longleftrightarrow> os \<noteq> [] \<and> list_all operand_ok os"

subsection \<open>Trimming\<close>

lemma strip_one_plain_head:
  assumes "\<And>r. r \<in> set rs \<Longrightarrow> list_all (\<lambda>c. \<not> plain_char c) r" "s \<noteq> []" "plain_char (hd s)"
  shows "strip_one rs s = None"
proof -
  have "\<not> prefix r s" if "r \<in> set rs" "r \<noteq> []" for r
    using assms(1) [OF that(1)] that(2) assms(2,3) by (cases r; cases s) auto
  then show ?thesis by (simp add: strip_one_None)
qed

lemma no_plain_rune: "r \<in> set space_runes \<Longrightarrow> list_all (\<lambda>c. \<not> plain_char c) r"
    "r \<in> set (map rev space_runes) \<Longrightarrow> list_all (\<lambda>c. \<not> plain_char c) r"
  using space_runes_no_plain by (auto simp: list_all_iff)

lemma trim_left_blanks:
  "trim_left space_runes (replicate n (CHR '' '') @ s) = trim_left space_runes s"
  "trim_left (map rev space_runes) (replicate n (CHR '' '') @ s) = trim_left (map rev space_runes) s"
proof -
  have one: "strip_one space_runes (CHR '' '' # t) = Some t" "strip_one (map rev space_runes) (CHR '' '' # t) = Some t" for t
    by (simp_all add: strip_one_def space_runes_def)
  show "trim_left space_runes (replicate n (CHR '' '') @ s) = trim_left space_runes s"
    by (induction n) (simp, subst trim_left.simps, simp add: one)
  show "trim_left (map rev space_runes) (replicate n (CHR '' '') @ s) = trim_left (map rev space_runes) s"
    by (induction n) (simp, subst trim_left.simps, simp add: one)
qed

lemma TrimSpace_padded:
  assumes "s \<noteq> []" "plain_char (hd s)" "plain_char (last s)"
  shows "TrimSpace (replicate m (CHR '' '') @ s @ replicate n (CHR '' '')) = s"
proof -
  have left: "trim_left space_runes (s @ t) = s @ t" for t
    using assms by (intro trim_left_id strip_one_plain_head) (auto dest: no_plain_rune(1))
  have right: "trim_left (map rev space_runes) (rev s) = rev s"
    using assms by (intro trim_left_id strip_one_plain_head) (auto dest: no_plain_rune(1) simp: hd_rev)
  show ?thesis
    unfolding TrimSpace_def trim_left_blanks left by (simp add: trim_left_blanks right)
qed

lemma TrimSpace_ends: "s \<noteq> [] \<Longrightarrow> plain_char (hd s) \<Longrightarrow> plain_char (last s) \<Longrightarrow> TrimSpace s = s"
  using TrimSpace_padded [of s 0 0] by simp

subsection \<open>Alternatives\<close>

text \<open>A stretch that the scanner crosses without a split and leaves in the state outside quotes and parentheses.\<close>

fun quiet_scan :: "scan_state \<Rightarrow> string \<Rightarrow> bool" where
  "quiet_scan st [] \<longleftrightarrow> \<not> nested st"
| "quiet_scan st (c # s) \<longleftrightarrow> (nested (scan_char c st) \<or> c \<noteq> CHR ''|'') \<and> quiet_scan (scan_char c st) s"

lemma nested_start: "\<not> nested st \<longleftrightarrow> st = (0, False, False)"
  by (cases st) auto

lemma split_scan_end: "quiet_scan st a \<Longrightarrow> split_scan st buf a = [TrimSpace (rev buf @ a)]"
  by (induction st a arbitrary: buf rule: quiet_scan.induct) (auto simp: Let_def HasPrefix_def)

lemma split_scan_sep:
  "quiet_scan st a \<Longrightarrow> split_scan st buf (a @ ''||'' @ b) = TrimSpace (rev buf @ a) # split_scan (0, False, False) [] b"
proof (induction st a arbitrary: buf rule: quiet_scan.induct)
  case (1 st)
  then have "st = (0, False, False)" by (simp add: nested_start)
  then show ?case by (simp add: HasPrefix_def)
next
  case (2 st c s)
  then show ?case by (auto simp: Let_def HasPrefix_def)
qed

lemma quiet_scan_append: "quiet_scan st a \<Longrightarrow> quiet_scan (0, False, False) b \<Longrightarrow> quiet_scan st (a @ b)"
proof (induction st a rule: quiet_scan.induct)
  case (1 st)
  then have "st = (0, False, False)" by (simp add: nested_start)
  with 1(2) show ?case by simp
qed auto

lemma quiet_scan_calm:
  "list_all (\<lambda>c. c \<notin> {CHR 0x22, CHR 0x27, CHR ''('', CHR '')'', CHR ''|''}) s \<Longrightarrow> quiet_scan (0, False, False) s"
  by (induction s) auto

lemma quiet_scan_quoted: "list_all (\<lambda>c. c \<noteq> CHR 0x27) t \<Longrightarrow> quiet_scan (0, False, False) ([CHR 0x27] @ t @ [CHR 0x27])"
proof -
  assume "list_all (\<lambda>c. c \<noteq> CHR 0x27) t"
  then have "quiet_scan (0, True, False) (t @ [CHR 0x27])" by (induction t) auto
  then show ?thesis by simp
qed

lemma ident_char_facts:
  assumes "ident_char c"
  shows "plain_char c" "c \<notin> {CHR 0x22, CHR 0x27, CHR ''('', CHR '')'', CHR ''|''}" "c \<notin> {CHR ''.'', CHR ''/'', CHR ''['', CHR ''}''}"
  using assms by (auto simp: ident_char_def plain_char_def byte_in_def)

text \<open>What the scanner and the evaluator need to know of an operand's text.\<close>

definition operand_like :: "string \<Rightarrow> bool" where
  "operand_like t \<longleftrightarrow> t \<noteq> [] \<and> plain_char (hd t) \<and> plain_char (last t) \<and> quiet_scan (0, False, False) t \<and> CHR ''}'' \<notin> set t"

lemma Join_chars: "set (Join ws sep) \<subseteq> \<Union> (set ` set ws) \<union> set sep"
  by (induction ws sep rule: Join.induct) auto

lemma Join_ends:
  assumes "ws \<noteq> []" "\<forall>w\<in>set ws. w \<noteq> []"
  shows "Join ws sep \<noteq> []" "hd (Join ws sep) = hd (hd ws)" "last (Join ws sep) = last (last ws)"
  using assms by (induction ws sep rule: Join.induct) auto

lemma path_like:
  assumes "segs \<noteq> []" "list_all (\<lambda>s. s \<noteq> [] \<and> list_all ident_char s) segs"
  shows "operand_like (Join segs ''.'')" "hd (Join segs ''.'') \<notin> {CHR 0x22, CHR 0x27}"
proof -
  have chars: "ident_char c \<or> c = CHR ''.''" if "c \<in> set (Join segs ''.'')" for c
    using that Join_chars [of segs "''.''"] assms(2) by (fastforce simp: list_all_iff)
  have ends: "Join segs ''.'' \<noteq> []" "hd (Join segs ''.'') = hd (hd segs)" "last (Join segs ''.'') = last (last segs)"
    using Join_ends [of segs "''.''"] assms by (auto simp: list_all_iff)
  have "ident_char (hd (hd segs))" "ident_char (last (last segs))"
    using assms unfolding list_all_iff by (metis list.set_sel(1) last_in_set)+
  then have "plain_char (hd (hd segs))" "plain_char (last (last segs))" "hd (hd segs) \<notin> {CHR 0x22, CHR 0x27}"
    using ident_char_facts by auto
  moreover have "quiet_scan (0, False, False) (Join segs ''.'')"
    using chars ident_char_facts(2) by (intro quiet_scan_calm) (auto simp: list_all_iff)
  moreover have "CHR ''}'' \<notin> set (Join segs ''.'')" using chars ident_char_facts(3) by force
  ultimately show "operand_like (Join segs ''.'')" "hd (Join segs ''.'') \<notin> {CHR 0x22, CHR 0x27}"
    by (simp_all add: operand_like_def ends)
qed

lemma operand_like_ok: "operand_ok x \<Longrightarrow> operand_like (operand_text x)"
proof (cases x)
  case (Path segs)
  moreover assume "operand_ok x"
  ultimately show ?thesis using path_like(1) [of segs] by simp
next
  case (Literal t)
  moreover assume "operand_ok x"
  ultimately have "list_all literal_char t" by simp
  then have "quiet_scan (0, False, False) ([CHR 0x27] @ t @ [CHR 0x27])" "CHR ''}'' \<notin> set t"
    using quiet_scan_quoted [of t] by (auto simp: list_all_iff literal_char_def)
  then show ?thesis unfolding Literal by (simp add: operand_like_def plain_char_def)
qed

lemma split_scan_operands:
  "os \<noteq> [] \<Longrightarrow> \<forall>x\<in>set os. operand_like x \<Longrightarrow>
     split_scan (0, False, False) [] (replicate k (CHR '' '') @ Join os '' || '') = os"
proof (induction os arbitrary: k)
  case (Cons x os)
  have x: "operand_like x" using Cons.prems by simp
  have pad: "quiet_scan (0, False, False) (replicate j (CHR '' ''))" for j by (rule quiet_scan_calm) (simp add: list_all_iff)
  have quiet: "quiet_scan (0, False, False) (replicate k (CHR '' '') @ x @ replicate j (CHR '' ''))" for j
    using x pad by (auto simp: operand_like_def intro!: quiet_scan_append)
  have trim: "TrimSpace (replicate k (CHR '' '') @ x @ replicate j (CHR '' '')) = x" for j
    using x by (intro TrimSpace_padded) (auto simp: operand_like_def)
  show ?case
  proof (cases os)
    case Nil
    then show ?thesis using split_scan_end [OF quiet [of 0], of "[]"] trim [of 0] by simp
  next
    case (Cons y ys)
    have "split_scan (0, False, False) [] ((replicate k (CHR '' '') @ x @ replicate 1 (CHR '' '')) @ ''||'' @
        (replicate 1 (CHR '' '') @ Join os '' || '')) = x # os"
      unfolding split_scan_sep [OF quiet] using Cons.IH [of 1] Cons.prems trim [of 1] Cons by simp
    then show ?thesis unfolding Cons by simp
  qed
qed simp

lemma splitTemplateExpression_operands:
  assumes "os \<noteq> []" "\<forall>x\<in>set os. operand_like x"
  shows "splitTemplateExpression (Join os '' || '') = os"
proof -
  have "Join os '' || '' \<noteq> []" "hd (Join os '' || '') = hd (hd os)"
    using Join_ends [of os "'' || ''"] assms by (auto simp: operand_like_def)
  then have "hd (hd os) \<in> set (Join os '' || '')" by (metis list.set_sel(1))
  then have "TrimSpace (Join os '' || '') \<noteq> []"
    using assms by (intro TrimSpace_not_blank [of "hd (hd os)"]) (auto simp: operand_like_def)
  moreover have "compactTemplateParts os = os"
    using assms by (simp add: compactTemplateParts_def map_idI TrimSpace_ends operand_like_def)
  ultimately show ?thesis
    using split_scan_operands [OF assms, of 0] by (simp add: splitTemplateExpression_def)
qed

lemma path_scan_word: "list_all ident_char w \<Longrightarrow> path_scan buf (w @ s) = path_scan (rev w @ buf) s"
proof (induction w arbitrary: buf)
  case (Cons c w)
  then have "ident_char c" by simp
  then show ?case using Cons ident_char_facts(3) [of c] by simp
qed simp

lemma path_scan_Join:
  "segs \<noteq> [] \<Longrightarrow> list_all (\<lambda>s. s \<noteq> [] \<and> list_all ident_char s) segs \<Longrightarrow> path_scan [] (Join segs ''.'') = segs"
proof (induction segs "''.''" rule: Join.induct)
  case (2 w)
  then show ?case using path_scan_word [of w "[]" "[]"] by simp
next
  case (3 w v ws)
  then show ?case using path_scan_word [of w "[]" "''.'' @ Join (v # ws) ''.''"] by simp
qed simp

lemma templatePathSegments_Join:
  assumes "segs \<noteq> []" "list_all (\<lambda>s. s \<noteq> [] \<and> list_all ident_char s) segs"
  shows "templatePathSegments (Join segs ''.'') = segs"
proof -
  have "TrimSpace (Join segs ''.'') = Join segs ''.''" "Join segs ''.'' \<noteq> []"
    using path_like(1) [OF assms] by (auto simp: operand_like_def TrimSpace_ends)
  moreover have "compactTemplateParts segs = segs"
    using assms(2) ident_char_facts(1) by (auto simp: compactTemplateParts_def list_all_iff map_idI TrimSpace_plain filter_id_conv)
  ultimately show ?thesis by (simp add: templatePathSegments_def path_scan_Join [OF assms])
qed

lemma unquote_from_plain: "list_all literal_char t \<Longrightarrow> unquote_from (t @ [CHR 0x22]) = Some t"
proof (induction t)
  case Nil
  show ?case by (subst unquote_from.simps) simp
next
  case (Cons c t)
  then have c: "c \<noteq> CHR 0x22" "c \<noteq> CHR 0x0A" "\<not> byte_in 0x80 0xFF c" "c \<noteq> CHR 0x5C"
    by (auto simp: literal_char_def byte_in_def)
  then have "UnquoteChar (c # t @ [CHR 0x22]) = Some ([c], t @ [CHR 0x22])" by simp
  then show ?case using Cons c by (subst unquote_from.simps) simp
qed

lemma unquote_literal:
  assumes "list_all literal_char t"
  shows "unquoteTemplateLiteral ([CHR 0x27] @ t @ [CHR 0x27]) = Some t"
proof -
  have "concat (map (\<lambda>c. if c = CHR 0x22 then [CHR 0x5C, CHR 0x22] else [c]) t) = t"
    using assms by (induction t) (auto simp: literal_char_def)
  then show ?thesis
    using unquote_from_plain [OF assms] by (simp add: unquoteTemplateLiteral_def Let_def del: unquote_from.simps)
qed

lemma evaluate_operand:
  assumes "operand_ok x"
  shows "evaluateTemplateExpression ff m (operand_text x) = operand_value ff m x"
proof -
  have like: "operand_like (operand_text x)" using assms by (rule operand_like_ok)
  then have one: "splitTemplateExpression (operand_text x) = [operand_text x]"
    using splitTemplateExpression_operands [of "[operand_text x]"] by simp
  have trim: "TrimSpace (operand_text x) = operand_text x" "operand_text x \<noteq> []"
    using like by (auto simp: operand_like_def TrimSpace_ends)
  show ?thesis
  proof (cases x)
    case (Path segs)
    have segs: "segs \<noteq> []" "list_all (\<lambda>s. s \<noteq> [] \<and> list_all ident_char s) segs" using assms Path by simp_all
    have "unquoteTemplateLiteral (Join segs ''.'') = None"
      using path_like(2) [OF segs] by (auto simp: unquoteTemplateLiteral_def)
    with one trim show ?thesis
      unfolding evaluateTemplateExpression.simps [of ff m "operand_text x"]
      by (simp add: Path templatePathSegments_Join [OF segs] Let_def)
  next
    case (Literal t)
    with one trim unquote_literal [of t] assms show ?thesis
      unfolding evaluateTemplateExpression.simps [of ff m "operand_text x"] by (simp add: Let_def)
  qed
qed

lemma first_answer_nonblank:
  "first_answer (\<lambda>x. case f x of None \<Rightarrow> None | Some v \<Rightarrow> if TrimSpace v \<noteq> [] then Some v else None) xs =
     (case find (\<lambda>v. \<exists>t. v = Some t \<and> TrimSpace t \<noteq> []) (map f xs) of None \<Rightarrow> None | Some v \<Rightarrow> v)"
  by (induction xs) (auto split: option.split)

lemma evaluate_token:
  assumes "os \<noteq> []" "list_all operand_ok os"
  shows "(case evaluateTemplateExpression ff m (Join (map operand_text os) '' || '') of None \<Rightarrow> [] | Some v \<Rightarrow> v) = token_value ff m os"
proof -
  have each: "evaluateTemplateExpression ff m (operand_text x) = operand_value ff m x" if "x \<in> set os" for x
    using assms(2) that by (auto simp: list_all_iff intro: evaluate_operand)
  have split: "splitTemplateExpression (Join (map operand_text os) '' || '') = map operand_text os"
    using assms by (intro splitTemplateExpression_operands) (auto simp: list_all_iff intro: operand_like_ok)
  show ?thesis
  proof (cases "length os > 1")
    case False
    with assms(1) obtain x where "os = [x]" by (cases os; cases "tl os") auto
    then show ?thesis using each by (simp add: token_value_def)
  next
    case True
    then have chosen: "(case os of [x] \<Rightarrow> operand_value ff m x | _ \<Rightarrow> v) = v" for v by (auto split: list.split)
    have vals: "map (evaluateTemplateExpression ff m) (map operand_text os) = map (operand_value ff m) os" using each by simp
    show ?thesis
      unfolding evaluateTemplateExpression.simps [of ff m "Join (map operand_text os) '' || ''"] split first_answer_nonblank
        token_value_def Let_def chosen vals using True by simp
  qed
qed

subsection \<open>Finding tokens\<close>

lemma cut_at_absent: "c \<notin> set s \<Longrightarrow> cut_at [c, d] s = None"
  by (induction s) (auto simp: HasPrefix_def)

lemma cut_at_first: "c \<notin> set a \<Longrightarrow> cut_at [c, d] (a @ [c, d] @ b) = Some (a, b)"
  by (induction a) (auto simp: HasPrefix_def)

lemma find_token_at:
  assumes lit: "CHR ''{'' \<notin> set lit" and e: "CHR ''}'' \<notin> set e" "e \<noteq> []" "\<not> tpl_space (hd e)" "\<not> tpl_space (last e)"
    and w: "\<forall>c\<in>set w. tpl_space c"
  shows "find_token (lit @ ''{{'' @ w @ e @ w @ ''}}'' @ rest) = Some (lit, ''{{'' @ w @ e @ w @ ''}}'', e, rest)"
proof -
  have "\<not> tpl_space (CHR ''}'')" by (simp add: tpl_space_def)
  then have w': "CHR ''}'' \<notin> set w" using w by blast
  have drop: "dropWhile tpl_space (w @ e @ w @ ''}}'' @ rest) = (e @ w) @ ''}}'' @ rest"
    using w e(2,3) by (simp add: dropWhile_append2 dropWhile_eq_self_iff)
  have "dropWhile tpl_space (rev w @ rev e) = dropWhile tpl_space (rev e)" using w by (intro dropWhile_append2) simp
  also have "\<dots> = rev e" using e(2,4) by (simp add: dropWhile_eq_self_iff hd_rev)
  finally have ends: "rev (dropWhile tpl_space (rev (e @ w))) = e" by simp
  have shut: "cut_at ''}}'' ((e @ w) @ ''}}'' @ rest) = Some (e @ w, rest)"
    using e(1) w' by (intro cut_at_first) simp
  have part: "take (length (a @ t @ b) - length a - length b) (drop (length a) (a @ t @ b)) = t" for a t b :: string by simp
  show ?thesis
    using part [of lit "''{{'' @ w @ e @ w @ ''}}''" rest]
    unfolding find_token_def cut_at_first [OF lit] option.case prod.case drop shut ends by (simp only: append_assoc)
qed

lemma find_token_none: "CHR ''{'' \<notin> set s \<Longrightarrow> find_token s = None"
  by (simp add: find_token_def cut_at_absent)

lemma token_text_like:
  assumes "os \<noteq> []" "list_all operand_ok os"
  defines "e \<equiv> Join (map operand_text os) '' || ''"
  shows "CHR ''}'' \<notin> set e" "e \<noteq> []" "\<not> tpl_space (hd e)" "\<not> tpl_space (last e)"
proof -
  have like: "\<forall>x\<in>set os. operand_like (operand_text x)" using assms(2) by (auto simp: list_all_iff operand_like_ok)
  have plain: "\<not> tpl_space c" if "plain_char c" for c using that by (auto simp: plain_char_def tpl_space_def)
  have ends: "e \<noteq> []" "hd e = hd (hd (map operand_text os))" "last e = last (last (map operand_text os))"
    using Join_ends [of "map operand_text os" "'' || ''"] assms(1) like unfolding e_def by (auto simp: operand_like_def)
  show "CHR ''}'' \<notin> set e"
    using Join_chars [of "map operand_text os" "'' || ''"] like unfolding e_def operand_like_def by fastforce
  show "e \<noteq> []" by (rule ends(1))
  have "operand_like (hd (map operand_text os))" "operand_like (last (map operand_text os))"
    using like assms(1) by (simp_all add: hd_map last_map)
  then show "\<not> tpl_space (hd e)" "\<not> tpl_space (last e)" unfolding ends operand_like_def by (auto dest: plain)
qed

lemma replace_tokens_pieces:
  "list_all piece_ok ps \<Longrightarrow> CHR ''{'' \<notin> set lit \<Longrightarrow>
     replace_tokens (render_token ff m) (lit @ template_text ps) = lit @ template_value ff m ps"
proof (induction ps arbitrary: lit)
  case Nil
  then show ?case by (subst replace_tokens.simps) (simp add: template_text_def template_value_def find_token_none)
next
  case (Cons p ps)
  show ?case
  proof (cases p)
    case (Plain t)
    then show ?thesis using Cons.IH [of "lit @ t"] Cons.prems by (simp add: template_text_def template_value_def)
  next
    case (Token n os)
    let ?e = "Join (map operand_text os) '' || ''" and ?w = "replicate n (CHR '' '')"
    have os: "os \<noteq> []" "list_all operand_ok os" using Cons.prems Token by simp_all
    have w: "\<forall>c\<in>set ?w. tpl_space c" by (simp add: tpl_space_def)
    note found = find_token_at [OF _ token_text_like [OF os] w]
    have token: "render_token ff m (''{{'' @ ?w @ ?e @ ?w @ ''}}'') = token_value ff m os"
      using found [of "[]" "[]"] evaluate_token [OF os, of ff m] by (simp add: render_token_def)
    have "replace_tokens (render_token ff m) (lit @ ''{{'' @ ?w @ ?e @ ?w @ ''}}'' @ template_text ps) =
        lit @ token_value ff m os @ replace_tokens (render_token ff m) ([] @ template_text ps)"
      by (subst replace_tokens.simps) (simp only: found [OF Cons.prems(2)] option.case prod.case token append_Nil)
    then show ?thesis
      using Cons.IH [of "[]"] Cons.prems unfolding Token by (simp add: template_text_def template_value_def)
  qed
qed

lemma blank_no_token: "TrimSpace s = [] \<Longrightarrow> replace_tokens f s = s"
proof -
  assume "TrimSpace s = []"
  then have "CHR ''{'' \<notin> set s" using TrimSpace_not_blank [of "CHR ''{''" s] by (auto simp: plain_char_def)
  then show ?thesis by (subst replace_tokens.simps) (simp add: find_token_none)
qed

lemma render_plain: "CHR ''{'' \<notin> set t \<Longrightarrow> renderTemplate ff m t = t"
  by (simp add: renderTemplate_def replace_tokens.simps [of _ t] find_token_none)

subsection \<open>Properties\<close>

text \<open>C35. Rendering a template implements the template language: a text built from literal pieces and
  tokens, each token a list of alternative paths and quoted literals, renders to the literal pieces and
  the values of the tokens in order. The value of a token with one alternative is that alternative's
  value, of a token with several the first one that is present and not blank, and nothing when none
  is.\<close>

theorem renderTemplate_correct:
  assumes "list_all piece_ok ps"
  shows "renderTemplate ff m (template_text ps) = template_value ff m ps"
proof -
  have "renderTemplate ff m (template_text ps) = replace_tokens (render_token ff m) (template_text ps)"
    using blank_no_token [of "template_text ps"] by (simp add: renderTemplate_def)
  then show ?thesis using replace_tokens_pieces [OF assms, of "[]"] by simp
qed

theorem renderTemplate_correct_witness:
  "renderTemplate (\<lambda>_. []) (MMap [(''request'', MMap [(''path'', MStrMap [(''id'', ''42'')])]), (''state'', MStrMap [])])
     ''order {{request.path.id}} for {{ state.owner || 'nobody || else' }}'' = ''order 42 for nobody || else''"
proof -
  let ?m = "MMap [(''request'', MMap [(''path'', MStrMap [(''id'', ''42'')])]), (''state'', MStrMap [])]"
  let ?ps = "[Plain ''order '', Token 0 [Path [''request'', ''path'', ''id'']], Plain '' for '',
    Token 1 [Path [''state'', ''owner''], Literal ''nobody || else'']]"
  have ok: "list_all piece_ok ?ps" by (simp add: ident_char_def literal_char_def byte_in_def)
  have "TrimSpace ''nobody || else'' = ''nobody || else''" by (rule TrimSpace_ends) (simp_all add: plain_char_def)
  then have "template_value (\<lambda>_. []) ?m ?ps = ''order 42 for nobody || else''"
    by (simp add: template_value_def token_value_def)
  moreover have "template_text ?ps = ''order {{request.path.id}} for {{ state.owner || 'nobody || else' }}''"
    by (simp add: template_text_def)
  ultimately show ?thesis using renderTemplate_correct [OF ok, of "\<lambda>_. []" ?m] by (simp only:)
qed

text \<open>
  An alternative that is left blank does not count: \<open>x || \<close> has one alternative after the blank one is
  dropped, so the whole text is taken for a path, and nothing is rendered although \<open>x\<close> has a value.
\<close>

lemma trailing_alternative_hides_value:
  "evaluateTemplateExpression ff (MMap [(''x'', MString ''v'')]) ''x'' = Some ''v''"
  "evaluateTemplateExpression ff (MMap [(''x'', MString ''v'')]) ''x ||'' = None"
proof -
  have trim: "TrimSpace ''x'' = ''x''" "TrimSpace ''x ||'' = ''x ||''" "TrimSpace ''x '' = ''x''"
    using TrimSpace_padded [of "''x''" 0 0] TrimSpace_padded [of "''x ||''" 0 0] TrimSpace_padded [of "''x''" 0 1]
    by (simp_all add: plain_char_def)
  show "evaluateTemplateExpression ff (MMap [(''x'', MString ''v'')]) ''x'' = Some ''v''"
    using evaluate_operand [of "Path [''x'']" ff "MMap [(''x'', MString ''v'')]"] by (simp add: ident_char_def byte_in_def)
  have "splitTemplateExpression ''x ||'' = [''x'']"
    by (simp add: splitTemplateExpression_def compactTemplateParts_def trim HasPrefix_def)
  moreover have "templatePathSegments ''x ||'' = [''x ||'']"
    by (simp add: templatePathSegments_def compactTemplateParts_def trim)
  ultimately show "evaluateTemplateExpression ff (MMap [(''x'', MString ''v'')]) ''x ||'' = None"
    by (subst evaluateTemplateExpression.simps) (simp add: trim unquoteTemplateLiteral_def)
qed

end
