(* ===== verification/Mock_Schema.thy ===== *)
theory Mock_Schema
  imports Mock_Template
begin

text \<open>
  Schema-backed examples of the mock server: \<open>mocking/schema_runtime.go\<close> (validating a request against a
  schema, rendering a response from one) and \<open>mocking/cue_schema.go\<close> (reading the schemas). The CUE and
  JSON libraries, the conversions of a \<open>float64\<close> and the source of random numbers are parameters; a
  random draw is named by the place in the schema that asks for it, since each place is rendered once.
  A function that may panic returns an option, \<open>None\<close> for the panic.
\<close>

record mock_lib =
  ml_Float :: "float64 \<Rightarrow> string"
  ml_FloatInt :: "float64 \<Rightarrow> int"
  ml_IntFloat :: "int \<Rightarrow> float64"
  ml_ParseFloat :: "string \<Rightarrow> float64 option"
  ml_MarshalIndent :: "mvalue \<Rightarrow> string option"
  ml_Marshal :: "mvalue \<Rightarrow> string"
  ml_Unmarshal :: "string \<Rightarrow> mvalue option"
  ml_Document :: "string \<Rightarrow> (string \<times> schema_example_entry) list option"
  ml_Regexp :: "string \<Rightarrow> (string \<Rightarrow> bool) option"
  ml_ParseURLPath :: "string \<Rightarrow> (string \<times> (string \<times> string list) list) option"

record draws =
  dr_Int :: "string list \<Rightarrow> nat \<Rightarrow> int \<Rightarrow> int option"
  dr_UUID :: "string list \<Rightarrow> string"
  dr_Now :: "string list \<Rightarrow> string \<Rightarrow> string"

subsection \<open>Values\<close>

definition node_at :: "(string \<times> mvalue) list \<Rightarrow> string \<Rightarrow> mvalue" where
  "node_at node k = (case map_of node k of None \<Rightarrow> MNil | Some v \<Rightarrow> v)"

definition node_type :: "mock_lib \<Rightarrow> (string \<times> mvalue) list \<Rightarrow> string" where
  "node_type E node = TrimSpace (Sprint (ml_Float E) (node_at node ''type''))"

definition capitalize :: "string \<Rightarrow> string" where
  "capitalize s = (case s of [] \<Rightarrow> [] | c # r \<Rightarrow> ToUpper [c] @ r)"

fun toMapAny :: "mvalue \<Rightarrow> (string \<times> mvalue) list option" where
  "toMapAny (MMap m) = Some m"
| "toMapAny (MStrMap m) = Some (map (\<lambda>(k, v). (k, MString v)) m)"
| "toMapAny _ = None"

fun schemaStringList :: "mock_lib \<Rightarrow> mvalue \<Rightarrow> string list" where
  "schemaStringList E (MList vs) = filter (\<lambda>t. t \<noteq> []) (map (\<lambda>v. TrimSpace (Sprint (ml_Float E) v)) vs)"
| "schemaStringList E _ = []"

fun isNumericValue :: "mvalue \<Rightarrow> bool" where
  "isNumericValue (MInt n) = True"
| "isNumericValue (MFloat x) = True"
| "isNumericValue _ = False"

fun isIntegerValue :: "mock_lib \<Rightarrow> mvalue \<Rightarrow> bool" where
  "isIntegerValue E (MInt n) = True"
| "isIntegerValue E (MFloat x) = (x = ml_IntFloat E (ml_FloatInt E x))"
| "isIntegerValue E _ = False"

fun isZeroBoolean :: "mvalue \<Rightarrow> bool" where
  "isZeroBoolean (MBool b) = (\<not> b)"
| "isZeroBoolean _ = False"

fun body_walk :: "mvalue \<Rightarrow> string list \<Rightarrow> mvalue option" where
  "body_walk current [] = Some current"
| "body_walk (MMap m) (segment # segments) = body_walk (node_at m segment) segments"
| "body_walk _ (segment # segments) = None"

definition bodyLookup :: "mock_lib \<Rightarrow> mvalue \<Rightarrow> string \<Rightarrow> string" where
  "bodyLookup E body key =
     (if body = MNil \<or> TrimSpace key = [] then []
      else case body_walk body (SplitByte key (CHR ''.'')) of
          None \<Rightarrow> []
        | Some MNil \<Rightarrow> []
        | Some v \<Rightarrow> Sprint (ml_Float E) v)"

definition stringValue :: "mock_lib \<Rightarrow> mvalue \<Rightarrow> string" where
  "stringValue E value = (if value = MNil then [] else TrimSpace (Sprint (ml_Float E) value))"

fun intValue :: "mock_lib \<Rightarrow> mvalue \<Rightarrow> int option" where
  "intValue E (MInt n) = Some n"
| "intValue E (MFloat x) = Some (ml_FloatInt E x)"
| "intValue E (MString t) = (case Atoi (TrimSpace t) of (n, ok) \<Rightarrow> if ok then Some n else None)"
| "intValue E _ = None"

fun anySlice :: "mvalue \<Rightarrow> mvalue list" where
  "anySlice (MList vs) = vs"
| "anySlice (MStrList ts) = map MString ts"
| "anySlice _ = []"

definition ParseBool :: "string \<Rightarrow> bool option" where
  "ParseBool t =
     (if t \<in> {''1'', ''t'', ''T'', ''TRUE'', ''true'', ''True''} then Some True
      else if t \<in> {''0'', ''f'', ''F'', ''FALSE'', ''false'', ''False''} then Some False
      else None)"

definition coerceSchemaPrimitive :: "mock_lib \<Rightarrow> string \<Rightarrow> string \<Rightarrow> mvalue" where
  "coerceSchemaPrimitive E schemaType value =
     (if schemaType = ''integer'' then (case Atoi (TrimSpace value) of (n, ok) \<Rightarrow> if ok then MInt n else MString value)
      else if schemaType = ''number'' then
        (case ml_ParseFloat E (TrimSpace value) of Some x \<Rightarrow> MFloat x | None \<Rightarrow> MString value)
      else if schemaType = ''boolean'' then
        (case ParseBool (TrimSpace value) of Some b \<Rightarrow> MBool b | None \<Rightarrow> MString value)
      else if schemaType = ''null'' then MNil
      else MString value)"

fun coerceSchemaAny :: "mock_lib \<Rightarrow> string \<Rightarrow> mvalue \<Rightarrow> mvalue" where
  "coerceSchemaAny E schemaType MNil = MNil"
| "coerceSchemaAny E schemaType (MString t) = coerceSchemaPrimitive E schemaType t"
| "coerceSchemaAny E schemaType value = (if schemaType = ''string'' then MString (Sprint (ml_Float E) value) else value)"

subsection \<open>Validating a request\<close>

lemma size_member: "(k, v) \<in> set m \<Longrightarrow> size v < size (MMap m)"
  by (induction m) auto

lemma size_node_at: "size (node_at m k) < size (MMap m)"
  using map_of_SomeD [of m k] size_member [of k _ m] by (auto simp: node_at_def split: option.split)

lemma size_property: "node_at node p = MMap ps \<Longrightarrow> (k, v) \<in> set ps \<Longrightarrow> size v < size (MMap node)"
  using size_node_at [of node p] size_member [of k v ps] by (simp del: mvalue.size)

definition reported :: "string \<Rightarrow> string option" where
  "reported message = (if message \<noteq> [] then Some message else None)"

definition lacks_required :: "mock_lib \<Rightarrow> (string \<times> mvalue) list \<Rightarrow> string \<Rightarrow> bool" where
  "lacks_required E object key =
     (case map_of object key of
        None \<Rightarrow> True
      | Some actual \<Rightarrow>
          actual = MNil \<or>
          TrimSpace (Sprint (ml_Float E) actual) = [] \<and> \<not> isZeroBoolean actual \<and> \<not> isNumericValue actual)"

function validateSchemaValue :: "mock_lib \<Rightarrow> mvalue \<Rightarrow> mvalue \<Rightarrow> string \<Rightarrow> string" where
  "validateSchemaValue E schema value location =
     (case schema of
        MMap node \<Rightarrow>
          (let schemaType = node_type E node in
           if node = [] then []
           else if schemaType = ''null'' then
             (if value \<noteq> MNil then Sprintf ''%s must be empty.'' [capitalize location] else [])
           else if schemaType = ''object'' then
             (case toMapAny value of
                None \<Rightarrow> Sprintf ''%s must be an object.'' [capitalize location]
              | Some object \<Rightarrow>
                  (case find (lacks_required E object) (schemaStringList E (node_at node ''required'')) of
                     Some key \<Rightarrow> Sprintf ''Missing required %s field %q.'' [location, key]
                   | None \<Rightarrow>
                       (case node_at node ''properties'' of
                          MMap properties \<Rightarrow>
                            (case first_answer (\<lambda>(key, propertySchema).
                                 (case map_of object key of
                                    None \<Rightarrow> None
                                  | Some actual \<Rightarrow>
                                      reported (validateSchemaValue E propertySchema actual (location @ ''.'' @ key))))
                               properties of
                               None \<Rightarrow> [] | Some message \<Rightarrow> message)
                        | _ \<Rightarrow> [])))
           else if schemaType = ''array'' then
             (case value of
                MList items \<Rightarrow>
                  (case first_answer (\<lambda>(index, item).
                       reported (validateSchemaValue E (node_at node ''items'') item
                         (location @ ''['' @ Itoa index @ '']''))) (enumerate 0 items) of
                     None \<Rightarrow> [] | Some message \<Rightarrow> message)
              | MNil \<Rightarrow> []
              | _ \<Rightarrow> Sprintf ''%s must be an array.'' [capitalize location])
           else if schemaType = ''string'' then
             (case value of MNil \<Rightarrow> [] | MString t \<Rightarrow> [] | _ \<Rightarrow> Sprintf ''%s must be a string.'' [capitalize location])
           else if schemaType = ''integer'' then
             (if value = MNil \<or> isIntegerValue E value then [] else Sprintf ''%s must be an integer.'' [capitalize location])
           else if schemaType = ''number'' then
             (if value = MNil \<or> isNumericValue value then [] else Sprintf ''%s must be a number.'' [capitalize location])
           else if schemaType = ''boolean'' then
             (case value of MNil \<Rightarrow> [] | MBool b \<Rightarrow> [] | _ \<Rightarrow> Sprintf ''%s must be a boolean.'' [capitalize location])
           else [])
      | _ \<Rightarrow> [])"
  by pat_completeness auto
termination
  by (relation "measure (\<lambda>(E, schema, value, location). size schema)")
    (auto simp: size_node_at dest: size_property simp del: mvalue.size)

declare validateSchemaValue.simps [simp del]

definition errorResult :: "int \<Rightarrow> string \<Rightarrow> string \<Rightarrow> mock_result" where
  "errorResult status mediaType body =
     \<lparr>rs_Status = status, rs_MediaType = mediaType, rs_Headers = [], rs_Body = body, rs_Adapter = [], rs_Dispatcher = [],
      rs_ResolverURL = [], rs_RuntimeURL = [], rs_MatchedExample = []\<rparr>"

definition jsonErrorBody :: "mock_lib \<Rightarrow> string \<Rightarrow> string" where
  "jsonErrorBody E msg = ml_Marshal E (MStrMap [(''error'', msg)])"

definition validateSchemaRequest :: "mock_lib \<Rightarrow> schema_request_spec \<Rightarrow> request_snapshot \<Rightarrow> mock_result option" where
  "validateSchemaRequest E requestSchema snapshot =
     (case reported (validateSchemaValue E (rq_Headers requestSchema) (MStrMap (sn_Headers snapshot)) ''request headers'') of
        Some message \<Rightarrow> Some (errorResult 400 ''application/json'' (jsonErrorBody E message))
      | None \<Rightarrow>
          (case reported (validateSchemaValue E (rq_Body requestSchema) (sn_BodyJSON snapshot) ''request body'') of
             Some message \<Rightarrow> Some (errorResult 400 ''application/json'' (jsonErrorBody E message))
           | None \<Rightarrow> None))"

subsection \<open>Rendering a response\<close>

definition int64_sub :: "int \<Rightarrow> int \<Rightarrow> int" where
  "int64_sub a b = sint (word_of_int (a - b) :: 64 word)"

text \<open>\<open>rand.Int\<close> panics when the bound is not positive.\<close>

definition generateIntInRange :: "draws \<Rightarrow> string list \<Rightarrow> int \<Rightarrow> int \<Rightarrow> int option" where
  "generateIntInRange D site minimum maximum =
     (let lo = (if maximum < minimum then maximum else minimum);
          hi = (if maximum < minimum then minimum else maximum)
      in if hi = lo then Some lo
         else
           let span = int64_add (int64_sub hi lo) 1 in
           if span \<le> 0 then None
           else case dr_Int D site 0 span of None \<Rightarrow> Some lo | Some v \<Rightarrow> Some (int64_add lo v))"

definition random_alphabet :: string where
  "random_alphabet = ''abcdefghijklmnopqrstuvwxyzABCDEFGHIJKLMNOPQRSTUVWXYZ0123456789''"

definition generateRandomString :: "draws \<Rightarrow> string list \<Rightarrow> nat \<Rightarrow> string" where
  "generateRandomString D site len =
     map (\<lambda>index. case dr_Int D site index 62 of
         None \<Rightarrow> random_alphabet ! (index mod 62)
       | Some position \<Rightarrow> random_alphabet ! nat position) [0..<len]"

fun ReplaceAll :: "string \<Rightarrow> string \<Rightarrow> string \<Rightarrow> string" where
  "ReplaceAll [] old new = []"
| "ReplaceAll (c # s) old new =
     (if old \<noteq> [] \<and> HasPrefix (c # s) old then new @ ReplaceAll (drop (length old - 1) s) old new
      else c # ReplaceAll s old new)"

definition timeLayoutForTemplateArg :: "string \<Rightarrow> string" where
  "timeLayoutForTemplateArg value =
     (let trimmed = TrimSpace value in
      if trimmed = [] then ''2006-01-02T15:04:05.999999999Z07:00''
      else foldl (\<lambda>layout (old, new). ReplaceAll layout old new) trimmed
        [(''yyyy'', ''2006''), (''MM'', ''01''), (''dd'', ''02''), (''HH'', ''15''), (''mm'', ''04''), (''ss'', ''05'')])"

text \<open>The outer option is the panic of \<open>generateIntInRange\<close>, the inner one the result \<open>ok\<close>.\<close>

definition renderSchemaGeneratedValue :: "mock_lib \<Rightarrow> draws \<Rightarrow> string list \<Rightarrow> string \<Rightarrow> mvalue \<Rightarrow> mvalue option option" where
  "renderSchemaGeneratedValue E D site schemaType spec =
     (case spec of
        MMap node \<Rightarrow>
          (let kind = ToLower (TrimSpace (stringValue E (node_at node ''kind'')));
               pre = stringValue E (node_at node ''prefix'');
               suf = stringValue E (node_at node ''suffix'');
               layout = stringValue E (node_at node ''layout'');
               texty = (pre \<noteq> [] \<or> suf \<noteq> [] \<or> schemaType = ''string'');
               answer = (\<lambda>v. Some (Some (coerceSchemaAny E schemaType v)))
           in if kind = ''uuid'' then answer (MString (dr_UUID D site))
              else if kind = ''timestamp'' then
                answer (MString (dr_Now D site
                  (if TrimSpace layout = [] then ''2006-01-02T15:04:05.999999999Z07:00'' else timeLayoutForTemplateArg layout)))
              else if kind = ''int'' then
                (case generateIntInRange D site
                     (case intValue E (node_at node ''min'') of None \<Rightarrow> 0 | Some v \<Rightarrow> v)
                     (case intValue E (node_at node ''max'') of None \<Rightarrow> 2147483647 | Some v \<Rightarrow> v) of
                   None \<Rightarrow> None
                 | Some n \<Rightarrow> answer (if texty then MString (pre @ FormatInt n @ suf) else MInt n))
              else if kind = ''string'' then
                (let len = (case intValue E (node_at node ''length'') of None \<Rightarrow> 0 | Some v \<Rightarrow> v)
                 in answer (MString (pre @ generateRandomString D site (if len \<le> 0 then 12 else nat len) @ suf)))
              else if kind = ''pick'' then
                (let options = anySlice (node_at node ''options'') in
                 if options = [] then Some None
                 else case generateIntInRange D site 0 (int (length options) - 1) of
                     None \<Rightarrow> None
                   | Some index \<Rightarrow> answer (MString (pre @ Sprint (ml_Float E) (options ! nat index) @ suf)))
              else if kind = ''boolean'' then
                (case generateIntInRange D site 0 1 of
                   None \<Rightarrow> None
                 | Some n \<Rightarrow> answer (if texty then MString (pre @ (if n = 1 then ''true'' else ''false'') @ suf) else MBool (n = 1)))
              else Some None)
      | _ \<Rightarrow> Some None)"

definition renderSchemaResolvedValue :: "mock_lib \<Rightarrow> string \<Rightarrow> mvalue \<Rightarrow> mvalue \<Rightarrow> mvalue option" where
  "renderSchemaResolvedValue E schemaType spec contextMap =
     (case spec of
        MMap node \<Rightarrow>
          (let path = TrimSpace (stringValue E (node_at node ''path'')) in
           if path = [] then None
           else
             let looked = lookupContextValue contextMap (templatePathSegments path);
                 blank = (case looked of
                     None \<Rightarrow> True
                   | Some v \<Rightarrow> v = MNil \<or> TrimSpace (Sprint (ml_Float E) v) = []);
                 found = (if blank then (case map_of node ''fallback'' of Some f \<Rightarrow> Some f | None \<Rightarrow> looked) else looked)
             in case found of
                 None \<Rightarrow> None
               | Some value \<Rightarrow>
                   let pre = stringValue E (node_at node ''prefix''); suf = stringValue E (node_at node ''suffix'')
                   in if pre \<noteq> [] \<or> suf \<noteq> [] then
                        Some (coerceSchemaAny E schemaType (MString (pre @ Sprint (ml_Float E) value @ suf)))
                      else Some (coerceSchemaAny E schemaType value))
      | _ \<Rightarrow> None)"

fun compose_parts :: "mock_lib \<Rightarrow> draws \<Rightarrow> string list \<Rightarrow> mvalue \<Rightarrow> nat \<Rightarrow> mvalue list \<Rightarrow> string option option" where
  "compose_parts E D site contextMap i [] = Some (Some [])"
| "compose_parts E D site contextMap i (part # parts) =
     (let followed = (\<lambda>text.
            case compose_parts E D site contextMap (i + 1) parts of
              None \<Rightarrow> None | Some None \<Rightarrow> Some None | Some (Some rest) \<Rightarrow> Some (Some (text @ rest)))
      in case part of
          MString t \<Rightarrow> followed t
        | MMap node \<Rightarrow>
            (case map_of node ''generate'' of
               Some generate \<Rightarrow>
                 (case renderSchemaGeneratedValue E D (site @ [''compose'', Itoa i]) ''string'' generate of
                    None \<Rightarrow> None
                  | Some None \<Rightarrow> Some None
                  | Some (Some v) \<Rightarrow> followed (Sprint (ml_Float E) v))
             | None \<Rightarrow>
                 (case map_of node ''resolve'' of
                    Some resolve \<Rightarrow>
                      (case renderSchemaResolvedValue E ''string'' resolve contextMap of
                         None \<Rightarrow> Some None
                       | Some v \<Rightarrow> followed (Sprint (ml_Float E) v))
                  | None \<Rightarrow> Some None))
        | _ \<Rightarrow> Some None)"

definition renderSchemaComposedValue ::
  "mock_lib \<Rightarrow> draws \<Rightarrow> string list \<Rightarrow> mvalue \<Rightarrow> mvalue \<Rightarrow> string option option" where
  "renderSchemaComposedValue E D site spec contextMap =
     (case spec of
        MList parts \<Rightarrow> if parts = [] then Some None else compose_parts E D site contextMap 0 parts
      | _ \<Rightarrow> Some None)"

text \<open>The directives of a node, in the order of the code; \<open>Some None\<close> when none of them gives a value.\<close>

definition renderSchemaDirective ::
  "mock_lib \<Rightarrow> draws \<Rightarrow> string list \<Rightarrow> (string \<times> mvalue) list \<Rightarrow> mvalue \<Rightarrow> mvalue option option" where
  "renderSchemaDirective E D site node contextMap =
     (case (case map_of node ''x-babel-compose'' of
              None \<Rightarrow> Some None | Some compose \<Rightarrow> renderSchemaComposedValue E D site compose contextMap) of
        None \<Rightarrow> None
      | Some (Some text) \<Rightarrow> Some (Some (coerceSchemaAny E (node_type E node) (MString text)))
      | Some None \<Rightarrow>
          (case (case map_of node ''x-babel-generate'' of
                   None \<Rightarrow> Some None
                 | Some generate \<Rightarrow> renderSchemaGeneratedValue E D (site @ [''generate'']) (node_type E node) generate) of
             None \<Rightarrow> None
           | Some (Some v) \<Rightarrow> Some (Some v)
           | Some None \<Rightarrow>
               (case (case map_of node ''x-babel-resolve'' of
                        None \<Rightarrow> None | Some resolve \<Rightarrow> renderSchemaResolvedValue E (node_type E node) resolve contextMap) of
                  Some v \<Rightarrow> Some (Some v)
                | None \<Rightarrow>
                    (case map_of node ''x-babel-template'' of
                       Some (MString template) \<Rightarrow>
                         Some (Some (coerceSchemaPrimitive E (node_type E node) (renderTemplate (ml_Float E) contextMap template)))
                     | _ \<Rightarrow> Some (map_of node ''example'')))))"

function renderSchemaValue :: "mock_lib \<Rightarrow> draws \<Rightarrow> string list \<Rightarrow> mvalue \<Rightarrow> mvalue \<Rightarrow> mvalue option" where
  "renderSchemaValue E D site schema contextMap =
     (case schema of
        MMap node \<Rightarrow>
          (case renderSchemaDirective E D site node contextMap of
             None \<Rightarrow> None
           | Some (Some v) \<Rightarrow> Some v
           | Some None \<Rightarrow>
               (let schemaType = node_type E node in
                if schemaType = ''object'' then
                  (case node_at node ''properties'' of
                     MMap properties \<Rightarrow>
                       (let keys = sort (map fst properties) in
                        map_option (\<lambda>vs. MMap (zip keys vs))
                          (those (map (\<lambda>key. renderSchemaValue E D (site @ [key]) (node_at properties key) contextMap) keys)))
                   | _ \<Rightarrow> Some (MMap []))
                else if schemaType = ''array'' then
                  (if map_of node ''items'' = None then Some (MList [])
                   else map_option (\<lambda>v. MList [v]) (renderSchemaValue E D (site @ [''items'']) (node_at node ''items'') contextMap))
                else if schemaType = ''integer'' then Some (MInt 0)
                else if schemaType = ''number'' then Some (MFloat 0)
                else if schemaType = ''boolean'' then Some (MBool False)
                else if schemaType = ''null'' then Some MNil
                else Some (MString [])))
      | _ \<Rightarrow> Some schema)"
  by pat_completeness auto

lemma size_nested_property: "node_at node p = MMap ps \<Longrightarrow> size (node_at ps k) < size (MMap node)"
  using size_node_at [of node p] size_node_at [of ps k] by (simp del: mvalue.size)

termination renderSchemaValue
  by (relation "measure (\<lambda>(E, D, site, schema, contextMap). size schema)")
    (auto simp: size_node_at size_nested_property simp del: mvalue.size)

declare renderSchemaValue.simps [simp del]

fun header_fields :: "mock_lib \<Rightarrow> (string \<times> mvalue) list \<Rightarrow> string list \<Rightarrow> http_header \<Rightarrow> http_header" where
  "header_fields E fieldMap [] headers = headers"
| "header_fields E fieldMap (key # keys) headers =
     header_fields E fieldMap keys
       (if node_at fieldMap key = MNil then headers
        else header_Set key (Sprint (ml_Float E) (node_at fieldMap key)) headers)"

definition renderSchemaHeaders :: "mock_lib \<Rightarrow> draws \<Rightarrow> mvalue \<Rightarrow> mvalue \<Rightarrow> http_header option" where
  "renderSchemaHeaders E D schema contextMap =
     map_option (\<lambda>rendered. case rendered of
         MMap fieldMap \<Rightarrow> header_fields E fieldMap (sort (map fst fieldMap)) []
       | _ \<Rightarrow> []) (renderSchemaValue E D [''headers''] schema contextMap)"

definition inferredMediaType :: "string \<Rightarrow> string" where
  "inferredMediaType body =
     (let trimmed = TrimSpace body in
      if HasPrefix trimmed ''{'' \<or> HasPrefix trimmed ''['' then ''application/json''
      else if HasPrefix trimmed ''<'' then ''application/xml''
      else ''text/plain; charset=utf-8'')"

fun is_container :: "mvalue \<Rightarrow> bool" where
  "is_container (MMap m) = True"
| "is_container (MList vs) = True"
| "is_container _ = False"

definition renderSchemaBody :: "mock_lib \<Rightarrow> draws \<Rightarrow> mvalue \<Rightarrow> string \<Rightarrow> mvalue \<Rightarrow> string option" where
  "renderSchemaBody E D schema mediaType contextMap =
     map_option (\<lambda>rendered.
         if rendered = MNil then []
         else
           let printed = Sprint (ml_Float E) rendered;
               normalized = ToLower (TrimSpace mediaType);
               normalized = (if normalized = [] then inferredMediaType printed else normalized)
           in case (if is_container rendered then ml_MarshalIndent E rendered else None) of
               Some body \<Rightarrow> body
             | None \<Rightarrow>
                 (case (if Contains normalized ''json'' then ml_MarshalIndent E rendered else None) of
                    Some body \<Rightarrow> body
                  | None \<Rightarrow> printed))
       (renderSchemaValue E D [''body''] schema contextMap)"

subsection \<open>Reading the examples\<close>

definition normalizeSchemaDocumentContent :: "string \<Rightarrow> string" where
  "normalizeSchemaDocumentContent content =
     (if \<not> Contains content ''//'' then content
      else Join (filter (\<lambda>line. \<not> HasPrefix (TrimSpace line) ''//'') (SplitByte content (CHR 0x0A))) [CHR 0x0A])"

definition sourceFileContent :: "source_file list \<Rightarrow> string \<Rightarrow> string option" where
  "sourceFileContent files path =
     map_option f_Content (find (\<lambda>file. TrimSpace (f_Path file) = TrimSpace path) files)"

definition flattenSchemaDocument :: "(string \<times> schema_example_entry) list \<Rightarrow> schema_backed_example list" where
  "flattenSchemaDocument examples =
     map (\<lambda>name. case the (map_of examples name) of
         entry \<Rightarrow> \<lparr>sx_Name = name, sx_Dispatch = en_Dispatch entry, sx_Request = en_RequestSchema entry,
                  sx_Response = en_ResponseSchema entry\<rparr>)
       (sort (map fst examples))"

text \<open>
  What the code asks of a CUE value: its attributes, its incomplete kind (a set of basic kinds), the
  literals it may hold, its fields, its elements, its JSON form and its printed form. \<open>LookupPath\<close> with one
  label reads a field. \<open>CompileString\<close> is the parameter \<open>cue\<close> below, \<open>None\<close> for a value with an error.
\<close>

datatype cue_kind = StructKind | ListKind | StringKind | IntKind | FloatKind | BoolKind | NullKind

record cue_attribute =
  at_Args :: "(string \<times> string) list"
  at_RawArgs :: "string list"
  at_String :: "goerr + string"

datatype cue_value = Cue
  (cue_attributes: "(string \<times> cue_attribute) list")
  (cue_kinds: "cue_kind list")
  (cue_String: "goerr + string")
  (cue_Int64: "goerr + int")
  (cue_Float64: "goerr + float64")
  (cue_Bool: "goerr + bool")
  (cue_MarshalJSON: "goerr + string")
  (cue_Fields: "goerr + (string \<times> cue_value) list")
  (cue_List: "goerr + cue_value list")
  (cue_Sprint: string)

definition cue_lookup :: "cue_value option \<Rightarrow> string \<Rightarrow> cue_value option" where
  "cue_lookup value label =
     (case value of
        None \<Rightarrow> None
      | Some v \<Rightarrow> (case cue_Fields v of Inl e \<Rightarrow> None | Inr items \<Rightarrow> map_of items label))"

text \<open>Calling a function on each element until the first error.\<close>

primrec collect :: "('a \<Rightarrow> goerr + 'b) \<Rightarrow> 'a list \<Rightarrow> goerr + 'b list" where
  "collect f [] = Inr []"
| "collect f (x # xs) =
     (case f x of
        Inl e \<Rightarrow> Inl e
      | Inr y \<Rightarrow> (case collect f xs of Inl e \<Rightarrow> Inl e | Inr ys \<Rightarrow> Inr (y # ys)))"

lemma collect_cong [fundef_cong]:
  "xs = ys \<Longrightarrow> (\<And>x. x \<in> set ys \<Longrightarrow> f x = g x) \<Longrightarrow> collect f xs = collect g ys"
  by (induction xs arbitrary: ys) (auto split: sum.split)

definition cueStringOrDefault :: "cue_value option \<Rightarrow> string" where
  "cueStringOrDefault value =
     (case value of
        None \<Rightarrow> []
      | Some v \<Rightarrow> (case cue_String v of Inr literal \<Rightarrow> literal | Inl e \<Rightarrow> TrimSpace (cue_Sprint v)))"

definition cueKindToSchemaType :: "cue_kind list \<Rightarrow> string" where
  "cueKindToSchemaType kinds =
     (if IntKind \<in> set kinds then ''integer''
      else if FloatKind \<in> set kinds then ''number''
      else if BoolKind \<in> set kinds then ''boolean''
      else if NullKind \<in> set kinds then ''null''
      else ''string'')"

definition decode_json :: "mock_lib \<Rightarrow> goerr + string \<Rightarrow> goerr + mvalue" where
  "decode_json E body =
     (case body of
        Inl e \<Rightarrow> Inl e
      | Inr text \<Rightarrow> (case ml_Unmarshal E text of Some v \<Rightarrow> Inr v | None \<Rightarrow> Inl (ErrorsNew ''invalid JSON'')))"

definition decode_element :: "mock_lib \<Rightarrow> cue_value \<Rightarrow> goerr + mvalue" where
  "decode_element E item =
     (if StringKind \<in> set (cue_kinds item) then map_sum (\<lambda>e. e) MString (cue_String item)
      else if IntKind \<in> set (cue_kinds item) then map_sum (\<lambda>e. e) MInt (cue_Int64 item)
      else decode_json E (cue_MarshalJSON item))"

definition decodeCueAttributeValue :: "mock_lib \<Rightarrow> (string \<Rightarrow> goerr + cue_value) \<Rightarrow> string \<Rightarrow> goerr + mvalue" where
  "decodeCueAttributeValue E cue raw =
     (let trimmed = TrimSpace raw in
      if trimmed = [] then Inr (MString [])
      else if trimmed = ''true'' then Inr (MBool True)
      else if trimmed = ''false'' then Inr (MBool False)
      else if trimmed = ''null'' then Inr MNil
      else case Atoi trimmed of
          (integer, ok) \<Rightarrow>
            if ok then Inr (MInt integer)
            else if HasPrefix trimmed ''['' \<or> HasPrefix trimmed ''{'' \<or> HasPrefix trimmed [CHR 0x22] then
              (case cue (''x: '' @ trimmed) of
                 Inl e \<Rightarrow> Inl e
               | Inr document \<Rightarrow>
                   (case cue_lookup (Some document) ''x'' of
                      None \<Rightarrow> Inl (ErrorsNew ''field not found: x'')
                    | Some value \<Rightarrow>
                        if ListKind \<in> set (cue_kinds value) then
                          (case cue_List value of
                             Inl e \<Rightarrow> Inl e
                           | Inr items \<Rightarrow> map_sum (\<lambda>e. e) MList (collect (decode_element E) items))
                        else
                          (case cue_String value of
                             Inr literal \<Rightarrow> Inr (MString literal)
                           | Inl e \<Rightarrow> decode_json E (cue_MarshalJSON value))))
            else Inr (MString (trim_set trimmed [CHR 0x22, CHR 0x27])))"

definition parseDirectiveAttribute :: "mock_lib \<Rightarrow> (string \<Rightarrow> goerr + cue_value) \<Rightarrow> cue_attribute \<Rightarrow> goerr + mvalue" where
  "parseDirectiveAttribute E cue attr =
     map_sum (\<lambda>e. e) (\<lambda>entries. MMap (foldl (\<lambda>m (k, v). AList.update k v m) [] entries))
       (collect (\<lambda>(key, value). map_sum (\<lambda>e. e) (Pair (TrimSpace key)) (decodeCueAttributeValue E cue value))
         (filter (\<lambda>(key, value). TrimSpace key \<noteq> []) (at_Args attr)))"

text \<open>\<open>splitCueArguments\<close>: the loop keeps the three depths, the quote flags and the bytes since the last comma.\<close>

record cue_scan =
  cs_paren :: nat
  cs_bracket :: nat
  cs_brace :: nat
  cs_single :: bool
  cs_double :: bool

definition cue_scan_char :: "char \<Rightarrow> cue_scan \<Rightarrow> cue_scan" where
  "cue_scan_char c st =
     (let quoted = cs_single st \<or> cs_double st in
      if c = CHR 0x27 then (if cs_double st then st else st\<lparr>cs_single := \<not> cs_single st\<rparr>)
      else if c = CHR 0x22 then (if cs_single st then st else st\<lparr>cs_double := \<not> cs_double st\<rparr>)
      else if quoted then st
      else if c = CHR ''('' then st\<lparr>cs_paren := cs_paren st + 1\<rparr>
      else if c = CHR '')'' then st\<lparr>cs_paren := cs_paren st - 1\<rparr>
      else if c = CHR ''['' then st\<lparr>cs_bracket := cs_bracket st + 1\<rparr>
      else if c = CHR '']'' then st\<lparr>cs_bracket := cs_bracket st - 1\<rparr>
      else if c = CHR ''{'' then st\<lparr>cs_brace := cs_brace st + 1\<rparr>
      else if c = CHR ''}'' then st\<lparr>cs_brace := cs_brace st - 1\<rparr>
      else st)"

fun cue_split :: "cue_scan \<Rightarrow> string \<Rightarrow> string \<Rightarrow> string list" where
  "cue_split st buf [] = [TrimSpace (rev buf)]"
| "cue_split st buf (c # s) =
     (let st' = cue_scan_char c st in
      if cs_single st' \<or> cs_double st' \<or> cs_paren st' > 0 \<or> cs_bracket st' > 0 \<or> cs_brace st' > 0 then cue_split st' (c # buf) s
      else if c = CHR '','' then TrimSpace (rev buf) # cue_split st' [] s
      else cue_split st' (c # buf) s)"

definition splitCueArguments :: "string \<Rightarrow> string list" where
  "splitCueArguments input =
     (if TrimSpace input = [] then []
      else compactTemplateParts (cue_split \<lparr>cs_paren = 0, cs_bracket = 0, cs_brace = 0, cs_single = False, cs_double = False\<rparr> [] input))"

definition parseInlineDirective ::
  "mock_lib \<Rightarrow> (string \<Rightarrow> goerr + cue_value) \<Rightarrow> string \<Rightarrow> string \<Rightarrow> goerr + mvalue" where
  "parseInlineDirective E cue raw name =
     (let trimmed = TrimSpace raw;
          opening = (case Cut trimmed (CHR ''('') of (a, b, found) \<Rightarrow> if found then int (length a) else -1);
          closing = LastIndex trimmed (CHR '')'')
      in if opening \<le> 0 \<or> closing \<noteq> int (length trimmed) - 1 \<or> TrimSpace (take (nat opening) trimmed) \<noteq> name
         then Inl (Errorf ''invalid directive %q'' [raw])
         else
           map_sum (\<lambda>e. e) (\<lambda>entries. MMap (foldl (\<lambda>m (k, v). AList.update k v m) [] entries))
             (collect (\<lambda>arg.
                 case Cut arg (CHR ''='') of
                   (key, value, found) \<Rightarrow>
                     if \<not> found then Inl (Errorf ''invalid directive argument %q'' [arg])
                     else map_sum (\<lambda>e. e) (Pair (TrimSpace key)) (decodeCueAttributeValue E cue value))
               (splitCueArguments (take (nat closing - nat opening - 1) (drop (nat opening + 1) trimmed)))))"

definition parseComposeAttribute :: "mock_lib \<Rightarrow> (string \<Rightarrow> goerr + cue_value) \<Rightarrow> cue_attribute \<Rightarrow> goerr + mvalue" where
  "parseComposeAttribute E cue attr =
     map_sum (\<lambda>e. e) MList
       (collect (\<lambda>arg.
           let raw = TrimSpace arg in
           if HasPrefix raw ''gen('' then
             map_sum (\<lambda>e. e) (\<lambda>spec. MMap [(''generate'', spec)]) (parseInlineDirective E cue raw ''gen'')
           else if HasPrefix raw ''resolve('' then
             map_sum (\<lambda>e. e) (\<lambda>spec. MMap [(''resolve'', spec)]) (parseInlineDirective E cue raw ''resolve'')
           else map_sum (\<lambda>e. e) (\<lambda>v. MString (Sprint (ml_Float E) v)) (decodeCueAttributeValue E cue raw))
         (at_RawArgs attr))"

text \<open>The four attributes in the order in which \<open>parseSchemaFieldValue\<close> asks for them.\<close>

definition parse_attribute :: "mock_lib \<Rightarrow> (string \<Rightarrow> goerr + cue_value) \<Rightarrow> cue_value \<Rightarrow> (goerr + mvalue) option" where
  "parse_attribute E cue v =
     (let tagged = (\<lambda>key. map_sum (\<lambda>e. e)
            (\<lambda>x. MMap [(''type'', MString (cueKindToSchemaType (cue_kinds v))), (key, x)]))
      in case map_of (cue_attributes v) ''compose'' of
          Some attr \<Rightarrow> Some (tagged ''x-babel-compose'' (parseComposeAttribute E cue attr))
        | None \<Rightarrow>
            (case map_of (cue_attributes v) ''gen'' of
               Some attr \<Rightarrow> Some (tagged ''x-babel-generate'' (parseDirectiveAttribute E cue attr))
             | None \<Rightarrow>
                 (case map_of (cue_attributes v) ''resolve'' of
                    Some attr \<Rightarrow> Some (tagged ''x-babel-resolve'' (parseDirectiveAttribute E cue attr))
                  | None \<Rightarrow>
                      (case map_of (cue_attributes v) ''template'' of
                         Some attr \<Rightarrow> Some (tagged ''x-babel-template'' (map_sum (\<lambda>e. e) MString (at_String attr)))
                       | None \<Rightarrow> None))))"

text \<open>A scalar's schema: its type, and the literal as example where the value is a literal.\<close>

definition scalar_schema :: "string \<Rightarrow> mvalue option \<Rightarrow> mvalue" where
  "scalar_schema ty example =
     MMap ((''type'', MString ty) # (case example of None \<Rightarrow> [] | Some v \<Rightarrow> [(''example'', v)]))"

definition literal :: "('a \<Rightarrow> mvalue) \<Rightarrow> goerr + 'a \<Rightarrow> mvalue option" where
  "literal f r = (case r of Inl e \<Rightarrow> None | Inr x \<Rightarrow> Some (f x))"

definition number_schema :: "mock_lib \<Rightarrow> goerr + float64 \<Rightarrow> mvalue" where
  "number_schema E r =
     (case r of
        Inl e \<Rightarrow> scalar_schema ''number'' None
      | Inr x \<Rightarrow>
          if x = ml_IntFloat E (ml_FloatInt E x) then scalar_schema ''integer'' (Some (MInt (ml_FloatInt E x)))
          else scalar_schema ''number'' (Some (MFloat x)))"

lemma cue_sizes:
  "cue_Fields v = Inr items \<Longrightarrow> (k, w) \<in> set items \<Longrightarrow> size w < size v"
  "cue_List v = Inr ws \<Longrightarrow> w \<in> set ws \<Longrightarrow> size w < size v"
proof -
  have pairs: "size w < Suc (size_list (size_prod (\<lambda>_. 0) size) items)" if "(k, w) \<in> set items" for items
    using that by (induction items) auto
  have elems: "size w < Suc (size_list size ws)" if "w \<in> set ws" for ws :: "cue_value list"
    using that by (induction ws) auto
  show "size w < size v" if "cue_Fields v = Inr items" "(k, w) \<in> set items"
    using that pairs [OF that(2)] by (cases v) auto
  show "size w < size v" if "cue_List v = Inr ws" "w \<in> set ws"
    using that elems [OF that(2)] by (cases v) auto
qed

function parseSchemaFieldValue ::
  "mock_lib \<Rightarrow> (string \<Rightarrow> goerr + cue_value) \<Rightarrow> cue_value option \<Rightarrow> bool \<Rightarrow> goerr + mvalue" where
  "parseSchemaFieldValue E cue value headersRequired =
     (case value of
        None \<Rightarrow> Inr MNil
      | Some v \<Rightarrow>
          (case parse_attribute E cue v of
             Some answer \<Rightarrow> answer
           | None \<Rightarrow>
               if StructKind \<in> set (cue_kinds v) then
                 (case cue_Fields v of
                    Inl e \<Rightarrow> Inl e
                  | Inr items \<Rightarrow>
                      (case collect (\<lambda>(label, w). parseSchemaFieldValue E cue (Some w) False) items of
                         Inl e \<Rightarrow> Inl e
                       | Inr schemas \<Rightarrow>
                           Inr (MMap ([(''type'', MString ''object''), (''properties'', MMap (zip (map fst items) schemas))] @
                             (if headersRequired \<and> items \<noteq> [] then [(''required'', MStrList (sort (map fst items)))] else [])))))
               else if ListKind \<in> set (cue_kinds v) then
                 (case cue_List v of
                    Inr (w # ws) \<Rightarrow>
                      (case parseSchemaFieldValue E cue (Some w) False of
                         Inl e \<Rightarrow> Inl e
                       | Inr schema \<Rightarrow> Inr (MMap [(''type'', MString ''array''), (''items'', schema)]))
                  | _ \<Rightarrow> Inr (MMap [(''type'', MString ''array'')]))
               else if StringKind \<in> set (cue_kinds v) then Inr (scalar_schema ''string'' (literal MString (cue_String v)))
               else if IntKind \<in> set (cue_kinds v) then Inr (scalar_schema ''integer'' (literal MInt (cue_Int64 v)))
               else if FloatKind \<in> set (cue_kinds v) then Inr (number_schema E (cue_Float64 v))
               else if BoolKind \<in> set (cue_kinds v) then Inr (scalar_schema ''boolean'' (literal MBool (cue_Bool v)))
               else if NullKind \<in> set (cue_kinds v) then Inr (scalar_schema ''null'' None)
               else Inr (scalar_schema ''string'' None)))"
  by pat_completeness auto
termination
  by (relation "measure (\<lambda>(E, cue, value, h). case value of None \<Rightarrow> 0 | Some v \<Rightarrow> size v)") (auto dest: cue_sizes)

declare parseSchemaFieldValue.simps [simp del]

definition parseMatchConditionsValue :: "cue_value option \<Rightarrow> match_condition list" where
  "parseMatchConditionsValue value =
     (case value of
        None \<Rightarrow> []
      | Some v \<Rightarrow>
          (case cue_List v of
             Inl e \<Rightarrow> []
           | Inr items \<Rightarrow>
               map (\<lambda>item. \<lparr>mc_From = cueStringOrDefault (cue_lookup (Some item) ''from''),
                   mc_Param = cueStringOrDefault (cue_lookup (Some item) ''param''),
                   mc_Value = cueStringOrDefault (cue_lookup (Some item) ''value'')\<rparr>) items))"

definition parseSchemaExampleEntryValue ::
  "mock_lib \<Rightarrow> (string \<Rightarrow> goerr + cue_value) \<Rightarrow> cue_value \<Rightarrow> goerr + schema_example_entry" where
  "parseSchemaExampleEntryValue E cue value =
     (let requestValue = cue_lookup (Some value) ''requestSchema'';
          responseValue = cue_lookup (Some value) ''responseSchema''
      in case parseSchemaFieldValue E cue (cue_lookup requestValue ''headers'') True of
          Inl e \<Rightarrow> Inl e
        | Inr requestHeaders \<Rightarrow>
            (case parseSchemaFieldValue E cue (cue_lookup requestValue ''body'') False of
               Inl e \<Rightarrow> Inl e
             | Inr requestBody \<Rightarrow>
                 (case parseSchemaFieldValue E cue (cue_lookup responseValue ''headers'') True of
                    Inl e \<Rightarrow> Inl e
                  | Inr responseHeaders \<Rightarrow>
                      (case parseSchemaFieldValue E cue (cue_lookup responseValue ''body'') False of
                         Inl e \<Rightarrow> Inl e
                       | Inr responseBody \<Rightarrow>
                           Inr \<lparr>en_Dispatch = parseMatchConditionsValue (cue_lookup (Some value) ''dispatch''),
                             en_RequestSchema = \<lparr>rq_Headers = requestHeaders, rq_Body = requestBody\<rparr>,
                             en_ResponseSchema = \<lparr>rp_Status = cueStringOrDefault (cue_lookup responseValue ''status''),
                               rp_MediaType = cueStringOrDefault (cue_lookup responseValue ''mediaType''),
                               rp_Headers = responseHeaders, rp_Body = responseBody\<rparr>\<rparr>))))"

definition parseSchemaExamplesFromCUE ::
  "mock_lib \<Rightarrow> (string \<Rightarrow> goerr + cue_value) \<Rightarrow> string \<Rightarrow> goerr + schema_backed_example list" where
  "parseSchemaExamplesFromCUE E cue content =
     (case cue content of
        Inl e \<Rightarrow> Inl e
      | Inr value \<Rightarrow>
          (case cue_lookup (Some value) ''examples'' of
             None \<Rightarrow> Inl (Errorf ''examples field not found'' [])
           | Some examplesValue \<Rightarrow>
               (case cue_Fields examplesValue of
                  Inl e \<Rightarrow> Inl e
                | Inr items \<Rightarrow>
                    map_sum (\<lambda>e. e) (sort_slice (\<lambda>a b. sx_Name a < sx_Name b))
                      (collect (\<lambda>(name, v). map_sum (\<lambda>e. e)
                           (\<lambda>entry. \<lparr>sx_Name = name, sx_Dispatch = en_Dispatch entry, sx_Request = en_RequestSchema entry,
                              sx_Response = en_ResponseSchema entry\<rparr>)
                           (parseSchemaExampleEntryValue E cue v)) items))))"

definition parseSchemaExamplesDocument ::
  "mock_lib \<Rightarrow> (string \<Rightarrow> goerr + cue_value) \<Rightarrow> string \<Rightarrow> goerr + schema_backed_example list" where
  "parseSchemaExamplesDocument E cue content =
     (let normalized = normalizeSchemaDocumentContent content in
      case ml_Document E normalized of
        Some (x # xs) \<Rightarrow> Inr (flattenSchemaDocument (x # xs))
      | _ \<Rightarrow> parseSchemaExamplesFromCUE E cue normalized)"

definition loadSchemaExamples ::
  "mock_lib \<Rightarrow> (string \<Rightarrow> goerr + cue_value) \<Rightarrow> 'a suite_with_api_scheme \<Rightarrow> api_operation \<Rightarrow> schema_backed_example list" where
  "loadSchemaExamples E cue suite operation =
     (case sourceFileContent (g_SourceFiles suite) (op_MockPath operation) of
        None \<Rightarrow> []
      | Some content \<Rightarrow> (case parseSchemaExamplesDocument E cue content of Inl e \<Rightarrow> [] | Inr examples \<Rightarrow> examples))"

subsection \<open>What a schema accepts\<close>

definition schema_types :: "string set" where
  "schema_types = {''null'', ''object'', ''array'', ''string'', ''integer'', ''number'', ''boolean''}"

text \<open>The requests a schema allows, without the messages of the validator.\<close>

inductive conforms :: "mock_lib \<Rightarrow> mvalue \<Rightarrow> mvalue \<Rightarrow> bool" for E where
  unconstrained: "\<forall>node. schema = MMap node \<longrightarrow> node = [] \<or> node_type E node \<notin> schema_types \<Longrightarrow> conforms E schema value"
| absent: "node_type E node \<notin> {''object''} \<Longrightarrow> conforms E (MMap node) MNil"
| object: "node_type E node = ''object'' \<Longrightarrow> toMapAny value = Some object \<Longrightarrow>
    \<forall>key\<in>set (schemaStringList E (node_at node ''required'')). \<not> lacks_required E object key \<Longrightarrow>
    \<forall>properties key ps actual. node_at node ''properties'' = MMap properties \<longrightarrow> (key, ps) \<in> set properties \<longrightarrow>
      map_of object key = Some actual \<longrightarrow> conforms E ps actual \<Longrightarrow>
    conforms E (MMap node) value"
| elements: "node_type E node = ''array'' \<Longrightarrow> \<forall>item\<in>set items. conforms E (node_at node ''items'') item \<Longrightarrow>
    conforms E (MMap node) (MList items)"
| text_value: "node_type E node = ''string'' \<Longrightarrow> conforms E (MMap node) (MString t)"
| integer: "node_type E node = ''integer'' \<Longrightarrow> isIntegerValue E value \<Longrightarrow> conforms E (MMap node) value"
| number: "node_type E node = ''number'' \<Longrightarrow> isNumericValue value \<Longrightarrow> conforms E (MMap node) value"
| boolean: "node_type E node = ''boolean'' \<Longrightarrow> conforms E (MMap node) (MBool b)"

inductive_cases conforms_MMap: "conforms E (MMap node) value"

lemma first_answer_None: "first_answer f xs = None \<longleftrightarrow> (\<forall>x\<in>set xs. f x = None)"
  by (induction xs) (auto split: option.split)

lemma first_answer_Some: "first_answer f xs = Some y \<Longrightarrow> \<exists>x\<in>set xs. f x = Some y"
  by (induction xs) (auto split: option.splits)

lemma reported_None [simp]: "reported m = None \<longleftrightarrow> m = []"
  by (simp add: reported_def)

lemma first_message:
  assumes "\<And>x y. x \<in> set xs \<Longrightarrow> f x = Some y \<Longrightarrow> y \<noteq> []"
  shows "(case first_answer f xs of None \<Rightarrow> [] | Some m \<Rightarrow> m) = [] \<longleftrightarrow> (\<forall>x\<in>set xs. f x = None)"
proof (cases "first_answer f xs")
  case None
  then show ?thesis using first_answer_None [of f xs] by simp
next
  case (Some m)
  with first_answer_Some [OF Some] assms show ?thesis by auto
qed

lemma message_texts:
  "Sprintf ''%s must be empty.'' as \<noteq> []" "Sprintf ''%s must be an object.'' as \<noteq> []"
  "Sprintf ''Missing required %s field %q.'' as \<noteq> []" "Sprintf ''%s must be an array.'' as \<noteq> []"
  "Sprintf ''%s must be a string.'' as \<noteq> []" "Sprintf ''%s must be an integer.'' as \<noteq> []"
  "Sprintf ''%s must be a number.'' as \<noteq> []" "Sprintf ''%s must be a boolean.'' as \<noteq> []"
  by (cases as; simp add: Sprintf_def Sprintw.simps)+

lemma conforms_properties:
  assumes IH: "\<And>ps v l. size ps < size (MMap node) \<Longrightarrow> validateSchemaValue E ps v l = [] \<longleftrightarrow> conforms E ps v"
    and props: "node_at node ''properties'' = MMap properties"
  shows "(case first_answer (\<lambda>(key, ps). case map_of object key of None \<Rightarrow> None
           | Some actual \<Rightarrow> reported (validateSchemaValue E ps actual (location @ ''.'' @ key))) properties of
             None \<Rightarrow> [] | Some message \<Rightarrow> message) = [] \<longleftrightarrow>
         (\<forall>key ps actual. (key, ps) \<in> set properties \<longrightarrow> map_of object key = Some actual \<longrightarrow> conforms E ps actual)"
proof -
  have each: "validateSchemaValue E ps v l = [] \<longleftrightarrow> conforms E ps v" if "(key, ps) \<in> set properties" for key ps v l
    using size_property [OF props that] by (rule IH)
  show ?thesis
    by (subst first_message) (fastforce simp: reported_def each split: option.splits prod.splits if_splits)+
qed

lemma conforms_elements:
  assumes IH: "\<And>ps v l. size ps < size (MMap node) \<Longrightarrow> validateSchemaValue E ps v l = [] \<longleftrightarrow> conforms E ps v"
  shows "(case first_answer (\<lambda>(index, item). reported (validateSchemaValue E (node_at node ''items'') item
             (location @ ''['' @ Itoa index @ '']''))) (enumerate 0 items) of None \<Rightarrow> [] | Some message \<Rightarrow> message) = [] \<longleftrightarrow>
         (\<forall>item\<in>set items. conforms E (node_at node ''items'') item)"
proof -
  have each: "validateSchemaValue E (node_at node ''items'') v l = [] \<longleftrightarrow> conforms E (node_at node ''items'') v" for v l
    by (rule IH) (rule size_node_at)
  have "set items = snd ` set (enumerate 0 items)" by (metis list.set_map map_snd_enumerate)
  then have all: "(\<forall>x\<in>set (enumerate 0 items). P (snd x)) \<longleftrightarrow> (\<forall>item\<in>set items. P item)" for P by simp
  show ?thesis
    unfolding all [symmetric] by (subst first_message) (auto simp: reported_def each split: if_splits)
qed

text \<open>What \<open>conforms\<close> says of a node, type by type.\<close>

lemma conforms_by_type:
  "node_type E node = ''null'' \<Longrightarrow> conforms E (MMap node) value \<longleftrightarrow> value = MNil \<or> node = []"
  "node_type E node = ''string'' \<Longrightarrow> conforms E (MMap node) value \<longleftrightarrow> value = MNil \<or> (\<exists>t. value = MString t) \<or> node = []"
  "node_type E node = ''boolean'' \<Longrightarrow> conforms E (MMap node) value \<longleftrightarrow> value = MNil \<or> (\<exists>b. value = MBool b) \<or> node = []"
  "node_type E node = ''integer'' \<Longrightarrow> conforms E (MMap node) value \<longleftrightarrow> value = MNil \<or> isIntegerValue E value \<or> node = []"
  "node_type E node = ''number'' \<Longrightarrow> conforms E (MMap node) value \<longleftrightarrow> value = MNil \<or> isNumericValue value \<or> node = []"
  "node_type E node = ''array'' \<Longrightarrow> conforms E (MMap node) value \<longleftrightarrow> value = MNil \<or> node = [] \<or>
     (\<exists>items. value = MList items \<and> (\<forall>item\<in>set items. conforms E (node_at node ''items'') item))"
  "node_type E node = ''object'' \<Longrightarrow> conforms E (MMap node) value \<longleftrightarrow> node = [] \<or>
     (\<exists>object. toMapAny value = Some object \<and>
        (\<forall>key\<in>set (schemaStringList E (node_at node ''required'')). \<not> lacks_required E object key) \<and>
        (\<forall>properties key ps actual. node_at node ''properties'' = MMap properties \<longrightarrow> (key, ps) \<in> set properties \<longrightarrow>
           map_of object key = Some actual \<longrightarrow> conforms E ps actual))"
  "node_type E node \<notin> schema_types \<Longrightarrow> conforms E (MMap node) value"
  by (auto simp: schema_types_def elim!: conforms_MMap intro: conforms.intros)

lemma validate_object:
  assumes IH: "\<And>ps v l. size ps < size (MMap node) \<Longrightarrow> validateSchemaValue E ps v l = [] \<longleftrightarrow> conforms E ps v"
    and ne: "node \<noteq> []" and ty: "node_type E node = ''object''"
  shows "validateSchemaValue E (MMap node) v location = [] \<longleftrightarrow> conforms E (MMap node) v"
proof -
  note run' = validateSchemaValue.simps [of E "MMap node" v location, unfolded mvalue.case Let_def ty]
  show ?thesis
  proof (cases "toMapAny v")
    case None
    then show ?thesis unfolding run' conforms_by_type(7) [OF ty] using ne by (simp add: message_texts)
  next
    case (Some object)
    note run'' = run' [unfolded Some option.case]
    show ?thesis
    proof (cases "find (lacks_required E object) (schemaStringList E (node_at node ''required''))")
      case (Some key)
      then have "key \<in> set (schemaStringList E (node_at node ''required''))" "lacks_required E object key"
        by (auto simp: find_Some_iff)
      then show ?thesis
        unfolding run'' conforms_by_type(7) [OF ty] Some using ne \<open>toMapAny v = Some object\<close>
        by (auto simp: message_texts)
    next
      case None
      then have "\<forall>key\<in>set (schemaStringList E (node_at node ''required'')). \<not> lacks_required E object key"
        by (auto simp: find_None_iff)
      then show ?thesis
        unfolding run'' conforms_by_type(7) [OF ty] None using ne conforms_properties [OF IH, where object = object and location = location] Some
        by (cases "node_at node ''properties''") simp_all
    qed
  qed
qed

lemma validate_conforms: "validateSchemaValue E schema v location = [] \<longleftrightarrow> conforms E schema v"
proof (induction schema arbitrary: v location rule: measure_induct_rule [of size])
  case (less schema)
  show ?case
  proof (cases "\<exists>node. schema = MMap node \<and> node \<noteq> [] \<and> node_type E node \<in> schema_types")
    case False
    then have "conforms E schema v" by (intro conforms.unconstrained) auto
    moreover have "validateSchemaValue E schema v location = []"
    proof (cases schema)
      case (MMap node)
      with False have "node = [] \<or> node_type E node \<notin> schema_types" by simp
      then show ?thesis
        unfolding MMap validateSchemaValue.simps [of E "MMap node"] mvalue.case Let_def schema_types_def
        by (elim disjE; simp)
    qed (subst validateSchemaValue.simps, simp)+
    ultimately show ?thesis by simp
  next
    case True
    then obtain node where schema: "schema = MMap node" "node \<noteq> []" and ty: "node_type E node \<in> schema_types" by blast
    note IH = less [unfolded schema(1)]
    note arr = conforms_elements [of node E, OF IH]
    note run = validateSchemaValue.simps [of E "MMap node" v location, unfolded mvalue.case Let_def]
    from ty consider "node_type E node \<in> {''null'', ''string'', ''integer'', ''number'', ''boolean''}"
      | "node_type E node = ''array''" | "node_type E node = ''object''" by (auto simp: schema_types_def)
    then show ?thesis
    proof cases
      case 1
      then show ?thesis
        unfolding schema(1) run
        by (elim insertE emptyE; simp add: schema(2) conforms_by_type message_texts split: mvalue.split)
    next
      case 2
      show ?thesis
        unfolding schema(1) run conforms_by_type(6) [OF 2] using schema(2) 2 arr [of location]
        by (cases v) (simp_all add: message_texts)
    next
      case 3
      show ?thesis unfolding schema(1) by (rule validate_object [OF IH schema(2) 3])
    qed
  qed
qed


subsection \<open>Random numbers\<close>

lemma int64_exact: "MinInt64 \<le> x \<Longrightarrow> x \<le> MaxInt64 \<Longrightarrow> sint (word_of_int x :: 64 word) = x"
  by (simp add: sint_sbintrunc' signed_take_bit_int_eq_self)

lemma int64_wraps: "MaxInt64 < x \<Longrightarrow> x \<le> 18446744073709551616 + MaxInt64 \<Longrightarrow> sint (word_of_int x :: 64 word) = x - 18446744073709551616"
proof -
  assume x: "MaxInt64 < x" "x \<le> 18446744073709551616 + MaxInt64"
  have "(word_of_int (2 ^ LENGTH(64)) :: 64 word) = 0" by (rule word_of_int_2p_len)
  then have zero: "(word_of_int 18446744073709551616 :: 64 word) = 0" by simp
  have "(word_of_int (x - 18446744073709551616) :: 64 word) = word_of_int x - word_of_int 18446744073709551616"
    by (rule wi_hom_sub [symmetric])
  then have "(word_of_int x :: 64 word) = word_of_int (x - 18446744073709551616)" by (simp only: zero diff_zero)
  moreover have "sint (word_of_int (x - 18446744073709551616) :: 64 word) = x - 18446744073709551616"
    using x by (intro int64_exact) auto
  ultimately show ?thesis by (simp only:)
qed

text \<open>What \<open>rand.Int\<close> documents: a result at least 0 and below the bound.\<close>

definition draws_in_range :: "draws \<Rightarrow> bool" where
  "draws_in_range D \<longleftrightarrow> (\<forall>site i span n. dr_Int D site i span = Some n \<longrightarrow> 0 \<le> n \<and> n < span)"

text \<open>C40. A generated number lies between the two bounds of its schema, given in either order, for all bounds
  whose distance is below the largest \<open>int\<close>; where the distance is not, and only there, the subtraction
  or the addition of one overflows and the draw panics.\<close>

theorem generateIntInRange_bounds:
  assumes D: "draws_in_range D"
    and a: "MinInt64 \<le> a" "a \<le> MaxInt64" and b: "MinInt64 \<le> b" "b \<le> MaxInt64"
  shows "case generateIntInRange D site a b of
           None \<Rightarrow> MaxInt64 \<le> \<bar>b - a\<bar>
         | Some n \<Rightarrow> \<bar>b - a\<bar> < MaxInt64 \<and> min a b \<le> n \<and> n \<le> max a b"
proof -
  define lo hi where "lo = min a b" and "hi = max a b"
  have dist: "\<bar>b - a\<bar> = hi - lo" and le: "lo \<le> hi" and range: "MinInt64 \<le> lo" "hi \<le> MaxInt64"
    using a b by (auto simp: lo_def hi_def)
  have ends: "(if b < a then b else a) = lo" "(if b < a then a else b) = hi" by (auto simp: lo_def hi_def)
  have run: "generateIntInRange D site a b =
      (if hi = lo then Some lo
       else let span = int64_add (int64_sub hi lo) 1 in
         if span \<le> 0 then None
         else case dr_Int D site 0 span of None \<Rightarrow> Some lo | Some n \<Rightarrow> Some (int64_add lo n))"
    unfolding generateIntInRange_def ends Let_def ..
  show ?thesis
  proof (cases "hi - lo < MaxInt64")
    case True
    then have "int64_sub hi lo = hi - lo" unfolding int64_sub_def using le by (intro int64_exact) auto
    moreover have "sint (word_of_int (hi - lo + 1) :: 64 word) = hi - lo + 1" using True le by (intro int64_exact) auto
    ultimately have span: "int64_add (int64_sub hi lo) 1 = hi - lo + 1" by (simp only: int64_add_def)
    have "int64_add lo n = lo + n" if "0 \<le> n" "n < hi - lo + 1" for n
      using that range unfolding int64_add_def by (intro int64_exact) auto
    then have draw: "lo \<le> int64_add lo n \<and> int64_add lo n \<le> hi" if "dr_Int D site 0 (hi - lo + 1) = Some n" for n
      using D that unfolding draws_in_range_def by fastforce
    then show ?thesis
      unfolding run span dist lo_def [symmetric] hi_def [symmetric]
      using True le by (auto simp: Let_def split: option.split)
  next
    case False
    have "int64_add (int64_sub hi lo) 1 \<le> 0"
    proof (cases "hi - lo = MaxInt64")
      case True
      then have "int64_sub hi lo = MaxInt64" unfolding int64_sub_def using int64_exact [of MaxInt64] by simp
      then show ?thesis by (simp add: int64_add_def)
    next
      case wide: False
      then have "int64_sub hi lo = hi - lo - 18446744073709551616"
        unfolding int64_sub_def using False range by (intro int64_wraps) auto
      moreover have "sint (word_of_int (hi - lo - 18446744073709551616 + 1) :: 64 word) = hi - lo - 18446744073709551616 + 1"
        using False range by (intro int64_exact) auto
      ultimately show ?thesis unfolding int64_add_def using range by simp
    qed
    then show ?thesis unfolding run dist using False by (auto simp: Let_def)
  qed
qed

theorem generateIntInRange_bounds_witness:
  "generateIntInRange \<lparr>dr_Int = (\<lambda>_ _ span. Some (span - 1)), dr_UUID = (\<lambda>_. []), dr_Now = (\<lambda>_ _. [])\<rparr> [] 10 3 = Some 10 \<and>
   (case generateIntInRange \<lparr>dr_Int = (\<lambda>_ _ span. if 0 < span then Some (span - 1) else None), dr_UUID = (\<lambda>_. []), dr_Now = (\<lambda>_ _. [])\<rparr>
        [] MinInt64 MaxInt64 of None \<Rightarrow> True | Some n \<Rightarrow> False)"
proof -
  let ?D = "\<lparr>dr_Int = (\<lambda>_ _ span. if 0 < span then Some (span - 1) else None), dr_UUID = (\<lambda>_. []), dr_Now = (\<lambda>_ _. [])\<rparr>"
  have "draws_in_range ?D" by (simp add: draws_in_range_def)
  from generateIntInRange_bounds [OF this, of "MinInt64" "MaxInt64" "[]"]
  have "case generateIntInRange ?D [] MinInt64 MaxInt64 of None \<Rightarrow> True | Some n \<Rightarrow> False"
    by (simp split: option.splits)
  then show ?thesis by (simp add: generateIntInRange_def int64_add_def int64_sub_def)
qed

subsection \<open>From a CUE example to a response\<close>

text \<open>CUE values without attributes, at every depth, and with distinct labels.\<close>

function plain_cue :: "cue_value \<Rightarrow> bool" where
  "plain_cue v \<longleftrightarrow> cue_attributes v = [] \<and>
     (case cue_Fields v of
        Inl e \<Rightarrow> True | Inr items \<Rightarrow> distinct (map fst items) \<and> list_all (\<lambda>(label, w). plain_cue w) items) \<and>
     (case cue_List v of Inl e \<Rightarrow> True | Inr ws \<Rightarrow> list_all plain_cue ws)"
  by pat_completeness auto
termination
  by (relation "measure size") (auto dest: cue_sizes)

declare plain_cue.simps [simp del]

lemma collect_Inr: "collect f xs = Inr ys \<Longrightarrow> list_all2 (\<lambda>x y. f x = Inr y) xs ys"
  by (induction xs arbitrary: ys) (auto split: sum.splits)

lemma those_map: "\<forall>k\<in>set ks. f k = Some (g k) \<Longrightarrow> those (map f ks) = Some (map g ks)"
  by (induction ks) auto

lemma type_of_node [simp]: "list_all plain_char t \<Longrightarrow> node_type E ((''type'', MString t) # node) = t"
  by (simp add: node_type_def node_at_def TrimSpace_plain)

lemma no_directive:
  "\<forall>k\<in>{''x-babel-compose'', ''x-babel-generate'', ''x-babel-resolve'', ''x-babel-template''}. map_of node k = None \<Longrightarrow>
     renderSchemaDirective E D site node m = Some (map_of node ''example'')"
  by (simp add: renderSchemaDirective_def)

definition fits :: "mock_lib \<Rightarrow> draws \<Rightarrow> mvalue \<Rightarrow> mvalue \<Rightarrow> bool" where
  "fits E D m schema \<longleftrightarrow> (\<forall>site. \<exists>body. renderSchemaValue E D site schema m = Some body \<and> conforms E schema body)"

lemma fits_scalar:
  "fits E D m (scalar_schema ''string'' (literal MString r))" "fits E D m (scalar_schema ''string'' None)"
  "fits E D m (scalar_schema ''integer'' (literal MInt i))" "fits E D m (number_schema E x)"
  "fits E D m (scalar_schema ''boolean'' (literal MBool b))" "fits E D m (scalar_schema ''null'' None)"
  unfolding fits_def scalar_schema_def literal_def number_schema_def
  by (auto simp: renderSchemaValue.simps [of E D _ "MMap _"] no_directive plain_char_def conforms_by_type Let_def
      split: sum.split)

lemma fits_array:
  "fits E D m (MMap [(''type'', MString ''array'')])"
  "fits E D m schema \<Longrightarrow> fits E D m (MMap [(''type'', MString ''array''), (''items'', schema)])"
proof -
  let ?node = "[(''type'', MString ''array''), (''items'', schema)]"
  show "fits E D m (MMap [(''type'', MString ''array'')])"
    unfolding fits_def
    by (simp add: renderSchemaValue.simps [of E D _ "MMap _"] no_directive plain_char_def conforms_by_type)
  assume fit: "fits E D m schema"
  have ty: "node_type E ?node = ''array''" by (simp add: plain_char_def)
  have items: "node_at ?node ''items'' = schema" by (simp add: node_at_def)
  have "renderSchemaValue E D site (MMap ?node) m = map_option (\<lambda>v. MList [v]) (renderSchemaValue E D (site @ [''items'']) schema m)" for site
    by (subst renderSchemaValue.simps) (simp add: no_directive ty items)
  then show "fits E D m (MMap ?node)"
    using fit unfolding fits_def conforms_by_type(6) [OF ty] items by force
qed

lemma fits_object:
  assumes dist: "distinct labels" and len: "length schemas = length labels"
    and each: "\<forall>s\<in>set schemas. fits E D m s"
    and rest: "rest = [] \<or> (\<exists>ls. rest = [(''required'', MStrList ls)])"
  shows "fits E D m (MMap ([(''type'', MString ''object''), (''properties'', MMap (zip labels schemas))] @ rest))"
proof -
  let ?props = "zip labels schemas" and ?keys = "sort labels"
  let ?node = "[(''type'', MString ''object''), (''properties'', MMap ?props)] @ rest"
  have parts: "node_at ?node ''properties'' = MMap ?props" "schemaStringList E (node_at ?node ''required'') = []"
    using rest by (auto simp: node_at_def)
  have ty: "node_type E ?node = ''object''" by (simp add: plain_char_def)
  have none: "renderSchemaDirective E D site ?node m = Some None" for site
    using rest by (auto simp: no_directive)
  have propfit: "fits E D m (node_at ?props k)" if k: "k \<in> set labels" for k
  proof -
    obtain s where "map_of ?props k = Some s" using k len by (metis map_of_zip_is_Some)
    then have "s \<in> set schemas" "node_at ?props k = s" by (auto simp: node_at_def dest!: map_of_SomeD set_zip_rightD)
    then show ?thesis using each by simp
  qed
  show ?thesis unfolding fits_def
  proof
    fix site
    have "\<forall>k\<in>set labels. \<exists>body. renderSchemaValue E D (site @ [k]) (node_at ?props k) m = Some body \<and> conforms E (node_at ?props k) body"
      using propfit unfolding fits_def by blast
    from bchoice [OF this] obtain g where
      g: "\<forall>k\<in>set labels. renderSchemaValue E D (site @ [k]) (node_at ?props k) m = Some (g k) \<and> conforms E (node_at ?props k) (g k)" ..
    have keys: "map fst ?props = labels" using len by simp
    have those: "those (map (\<lambda>key. renderSchemaValue E D (site @ [key]) (node_at ?props key) m) ?keys) = Some (map g ?keys)"
      using g by (intro those_map) simp
    have "renderSchemaValue E D site (MMap ?node) m = Some (MMap (zip ?keys (map g ?keys)))"
      unfolding renderSchemaValue.simps [of E D site "MMap ?node"] mvalue.case none option.case ty Let_def parts(1) keys those
      by simp
    moreover have "conforms E (MMap ?node) (MMap (zip ?keys (map g ?keys)))"
    proof (rule conforms.object [OF ty])
      show "toMapAny (MMap (zip ?keys (map g ?keys))) = Some (zip ?keys (map g ?keys))" by simp
      show "\<forall>key\<in>set (schemaStringList E (node_at ?node ''required'')). \<not> lacks_required E (zip ?keys (map g ?keys)) key"
        unfolding parts(2) by simp
      have "conforms E ps actual" if "(key, ps) \<in> set ?props" "map_of (zip ?keys (map g ?keys)) key = Some actual" for key ps actual
      proof -
        have "key \<in> set labels" using that(1) by (rule set_zip_leftD)
        moreover have "node_at ?props key = ps" using that(1) dist len by (simp add: node_at_def)
        moreover have "actual = g key" using that(2) calculation(1) by (simp add: map_of_zip_map)
        ultimately show ?thesis using g by auto
      qed
      then show "\<forall>properties key ps actual. node_at ?node ''properties'' = MMap properties \<longrightarrow> (key, ps) \<in> set properties \<longrightarrow>
          map_of (zip ?keys (map g ?keys)) key = Some actual \<longrightarrow> conforms E ps actual" unfolding parts(1) by auto
    qed
    ultimately show "\<exists>body. renderSchemaValue E D site (MMap ?node) m = Some body \<and> conforms E (MMap ?node) body" by blast
  qed
qed

lemma parsed_fits: "plain_cue v \<Longrightarrow> parseSchemaFieldValue E cue (Some v) h = Inr schema \<Longrightarrow> fits E D m schema"
proof (induction v arbitrary: h schema rule: measure_induct_rule [of size])
  case (less v)
  have none: "parse_attribute E cue v = None" using less.prems(1) by (simp add: parse_attribute_def plain_cue.simps [of v])
  note parsed = less.prems(2) [unfolded parseSchemaFieldValue.simps [of E cue "Some v"] option.case none]
  consider (struct) "StructKind \<in> set (cue_kinds v)" | (arr) "StructKind \<notin> set (cue_kinds v)" "ListKind \<in> set (cue_kinds v)"
    | (scalar) "StructKind \<notin> set (cue_kinds v)" "ListKind \<notin> set (cue_kinds v)" by blast
  then show ?case
  proof cases
    case struct
    note fields_parsed = parsed [unfolded if_P [OF struct]]
    obtain items where items: "cue_Fields v = Inr items" using fields_parsed by (cases "cue_Fields v") simp_all
    obtain schemas where coll: "collect (\<lambda>(label, w). parseSchemaFieldValue E cue (Some w) False) items = Inr schemas"
      using fields_parsed unfolding items sum.case
      by (cases "collect (\<lambda>(label, w). parseSchemaFieldValue E cue (Some w) False) items") simp_all
    have schema: "schema = MMap ([(''type'', MString ''object''), (''properties'', MMap (zip (map fst items) schemas))] @
        (if h \<and> items \<noteq> [] then [(''required'', MStrList (sort (map fst items)))] else []))"
      using fields_parsed unfolding items sum.case coll by simp
    note all = collect_Inr [OF coll]
    have "fits E D m s" if s: "s \<in> set schemas" for s
    proof -
      obtain i where i: "i < length schemas" "schemas ! i = s" using s by (auto simp: in_set_conv_nth)
      obtain label w where lw: "items ! i = (label, w)" by (cases "items ! i")
      have "i < length items" using i(1) list_all2_lengthD [OF all] by simp
      with lw list_all2_nthD [OF all this] i
      have w: "(label, w) \<in> set items" "parseSchemaFieldValue E cue (Some w) False = Inr s" by (metis nth_mem, simp)
      moreover have "plain_cue w" using w(1) less.prems(1) items by (auto simp: plain_cue.simps [of v] list_all_iff)
      ultimately show ?thesis using less.IH [OF cue_sizes(1) [OF items w(1)]] by blast
    qed
    moreover have "distinct (map fst items)" using less.prems(1) items by (simp add: plain_cue.simps [of v])
    moreover have "length schemas = length (map fst items)" using list_all2_lengthD [OF all] by simp
    ultimately show ?thesis unfolding schema by (intro fits_object) auto
  next
    case arr
    have elem: "fits E D m s" if "cue_List v = Inr (w # ws)" "parseSchemaFieldValue E cue (Some w) False = Inr s" for w ws s
      using that less.prems(1) less.IH [OF cue_sizes(2) [OF that(1)], of w False s] by (simp add: plain_cue.simps [of v])
    show ?thesis using arr parsed by (auto split: sum.splits list.splits intro: fits_array elem)
  next
    case scalar
    then show ?thesis using parsed by (auto split: if_splits intro: fits_scalar)
  qed
qed


definition no_literal :: "goerr + 'a" where
  "no_literal = Inl (ErrorsNew ''not a literal'')"

text \<open>The CUE value \<open>{id: "a-1", tags: [true]}\<close> and the header pattern \<open>{"X-Tenant": string}\<close>.\<close>

definition demo_text :: "(goerr + string) \<Rightarrow> cue_value" where
  "demo_text t = Cue [] [StringKind] t no_literal no_literal no_literal no_literal no_literal no_literal []"

definition demo_cue :: cue_value where
  "demo_cue =
     Cue [] [StructKind] no_literal no_literal no_literal no_literal no_literal
       (Inr [(''id'', demo_text (Inr ''a-1'')),
          (''tags'', Cue [] [ListKind] no_literal no_literal no_literal no_literal no_literal no_literal
             (Inr [Cue [] [BoolKind] no_literal no_literal no_literal (Inr True) no_literal no_literal no_literal []]) [])])
       no_literal []"

definition demo_headers :: cue_value where
  "demo_headers =
     Cue [] [StructKind] no_literal no_literal no_literal no_literal no_literal
       (Inr [(''X-Tenant'', demo_text no_literal)]) no_literal []"

definition no_lib :: mock_lib where
  "no_lib = \<lparr>ml_Float = (\<lambda>_. []), ml_FloatInt = (\<lambda>_. 0), ml_IntFloat = (\<lambda>_. 0), ml_ParseFloat = (\<lambda>_. None),
     ml_MarshalIndent = (\<lambda>_. None), ml_Marshal = (\<lambda>_. []), ml_Unmarshal = (\<lambda>_. None), ml_Document = (\<lambda>_. None),
     ml_Regexp = (\<lambda>_. None), ml_ParseURLPath = (\<lambda>_. None)\<rparr>"

definition no_draws :: draws where
  "no_draws = \<lparr>dr_Int = (\<lambda>_ _ _. None), dr_UUID = (\<lambda>_. []), dr_Now = (\<lambda>_ _. [])\<rparr>"


text \<open>
  The headers a CUE example requires are never enforced: \<open>parseSchemaFieldValue\<close> stores their names as a
  list of strings, and \<open>schemaStringList\<close> reads only a list of values, so a request without any header
  passes.
\<close>

lemma required_headers_ignored:
  "\<exists>schema. parseSchemaFieldValue E cue (Some demo_headers) True = Inr (MMap schema) \<and>
     node_at schema ''required'' = MStrList [''X-Tenant''] \<and>
     validateSchemaValue E (MMap schema) (MStrMap []) ''request headers'' = []"
proof -
  let ?schema = "[(''type'', MString ''object''),
    (''properties'', MMap [(''X-Tenant'', scalar_schema ''string'' None)]), (''required'', MStrList [''X-Tenant''])]"
  have "parseSchemaFieldValue E cue (Some demo_headers) True = Inr (MMap ?schema)"
    by (simp add: demo_headers_def demo_text_def parseSchemaFieldValue.simps [of _ _ "Some (Cue _ _ _ _ _ _ _ _ _ _)"]
        parse_attribute_def no_literal_def literal_def)
  moreover have "node_at ?schema ''required'' = MStrList [''X-Tenant'']" by (simp add: node_at_def)
  moreover have "conforms E (MMap ?schema) (MStrMap [])"
    by (rule conforms.object [of _ _ _ "[]"]) (simp_all add: plain_char_def node_at_def)
  ultimately show ?thesis unfolding validate_conforms by blast
qed

end
