(* ===== verification/Mock_Request.thy ===== *)
theory Mock_Request
  imports Mock_Schema Profile_Runtime
begin

text \<open>
  How the mock server reads a request, \<open>mocking/request.go\<close>: the snapshot, parameter constraints,
  matching an example, matching a path, the guard of proxy targets, and the schema-backed examples that
  a request selects (\<open>matchSchemaExample\<close>, \<open>buildSchemaResult\<close> of \<open>schema_runtime.go\<close>).
\<close>

subsection \<open>Requests\<close>

text \<open>
  An HTTP request: \<open>hr_Body\<close> is what reading the whole body gives, \<open>hr_Done\<close> the error of its context
  when the context ends before the configured delay.
\<close>

record http_request =
  hr_Method :: string
  hr_Path :: string
  hr_Query :: "(string \<times> string list) list"
  hr_Header :: http_header
  hr_Body :: "goerr + string"
  hr_Done :: "goerr option"

definition maxMockRequestBodyBytes :: nat where
  "maxMockRequestBodyBytes = 10485760"

fun object_of :: "mvalue \<Rightarrow> (string \<times> mvalue) list" where
  "object_of (MMap m) = m"
| "object_of _ = []"

definition readRequestBody :: "mock_lib \<Rightarrow> http_request \<Rightarrow> goerr + (string \<times> mvalue \<times> (string \<times> mvalue) list)" where
  "readRequestBody E request =
     (case hr_Body request of
        Inl e \<Rightarrow> Inl e
      | Inr whole \<Rightarrow>
          (let body = take maxMockRequestBodyBytes whole; trimmed = TrimSpace body in
           if trimmed = [] then Inr ([], MNil, [])
           else case ml_Unmarshal E body of
               None \<Rightarrow> Inr (trimmed, MString trimmed, [])
             | Some parsed \<Rightarrow> Inr (trimmed, parsed, object_of parsed)))"

definition flattenValues :: "(string \<times> string list) list \<Rightarrow> strmap" where
  "flattenValues input = map (\<lambda>(k, vs). (k, hd vs)) (filter (\<lambda>(k, vs). vs \<noteq> []) input)"

definition flattenHeader :: "http_header \<Rightarrow> strmap" where
  "flattenHeader input =
     foldl (\<lambda>output (k, vs). AList.update (ToLower k) (hd vs) output) [] (filter (\<lambda>(k, vs). vs \<noteq> []) input)"

subsection \<open>Constraints and conditions\<close>

definition requestValueAt :: "string \<Rightarrow> string \<Rightarrow> request_snapshot \<Rightarrow> string" where
  "requestValueAt location key snapshot =
     (let place = ToLower (TrimSpace location) in
      if place = ''path'' then str_at (sn_Path snapshot) key
      else if place = ''header'' then str_at (sn_Headers snapshot) (ToLower key)
      else str_at (sn_Query snapshot) key)"

definition valueAt :: "mock_lib \<Rightarrow> string \<Rightarrow> string \<Rightarrow> request_snapshot \<Rightarrow> string" where
  "valueAt E place param snapshot =
     (let place = ToLower (TrimSpace place) in
      if place = ''path'' then str_at (sn_Path snapshot) param
      else if place = ''header'' then str_at (sn_Headers snapshot) (ToLower param)
      else if place = ''body'' then bodyLookup E (sn_BodyJSON snapshot) param
      else str_at (sn_Query snapshot) param)"

text \<open>The outer option is the panic of \<open>constraint.Source[:1]\<close> on an empty source.\<close>

fun validateConstraints ::
  "mock_lib \<Rightarrow> parameter_constraint list \<Rightarrow> request_snapshot \<Rightarrow> mock_result option option" where
  "validateConstraints E [] snapshot = Some None"
| "validateConstraints E (constraint # constraints) snapshot =
     (let value = requestValueAt (pc_Source constraint) (pc_Name constraint) snapshot;
          refuse = (\<lambda>msg. Some (Some (errorResult 400 ''application/json'' (jsonErrorBody E msg))))
      in if pc_Required constraint \<and> TrimSpace value = [] then
           refuse (Sprintf ''Missing required %s parameter %q.'' [pc_Source constraint, pc_Name constraint])
         else if TrimSpace value = [] \<or> TrimSpace (pc_Pattern constraint) = [] then validateConstraints E constraints snapshot
         else case ml_Regexp E (pc_Pattern constraint) of
             None \<Rightarrow> validateConstraints E constraints snapshot
           | Some matches \<Rightarrow>
               if matches value then validateConstraints E constraints snapshot
               else case pc_Source constraint of
                   [] \<Rightarrow> None
                 | c # s \<Rightarrow> refuse (Sprintf ''%s parameter %q failed validation.'' [ToUpper [c] @ ToLower s, pc_Name constraint]))"

definition matchWhen :: "mock_lib \<Rightarrow> match_condition list \<Rightarrow> request_snapshot \<Rightarrow> bool" where
  "matchWhen E conditions snapshot =
     list_all (\<lambda>cond. valueAt E (mc_From cond) (mc_Param cond) snapshot = mc_Value cond) conditions"

definition matchExample :: "mock_lib \<Rightarrow> api_operation \<Rightarrow> request_snapshot \<Rightarrow> exchange_example option" where
  "matchExample E operation snapshot =
     (case op_Exchanges operation of
        [example] \<Rightarrow> if ex_When example = [] then Some example
                     else find (\<lambda>example. matchWhen E (ex_When example) snapshot) [example]
      | examples \<Rightarrow> find (\<lambda>example. matchWhen E (ex_When example) snapshot) examples)"

definition applyRecopiedConstraintHeaders ::
  "parameter_constraint list \<Rightarrow> request_snapshot \<Rightarrow> http_header \<Rightarrow> http_header" where
  "applyRecopiedConstraintHeaders constraints snapshot headers =
     foldl (\<lambda>headers constraint.
         let value = requestValueAt (pc_Source constraint) (pc_Name constraint) snapshot in
         if \<not> pc_Forward constraint \<or> TrimSpace value = [] then headers
         else header_Set (pc_Name constraint) value headers)
       headers constraints"

definition parseJSONMap :: "mock_lib \<Rightarrow> string \<Rightarrow> (string \<times> mvalue) list" where
  "parseJSONMap E body =
     (if TrimSpace body = [] then [] else case ml_Unmarshal E body of None \<Rightarrow> [] | Some v \<Rightarrow> object_of v)"

subsection \<open>Paths\<close>

definition splitPath :: "string \<Rightarrow> string list" where
  "splitPath path =
     (let trimmed = TrimByte (TrimSpace path) (CHR ''/'') in
      if trimmed = [] then [] else SplitByte trimmed (CHR ''/''))"

fun match_segments :: "strmap \<Rightarrow> string list \<Rightarrow> string list \<Rightarrow> strmap option" where
  "match_segments params [] [] = Some params"
| "match_segments params (l # left) (r # right) =
     (if HasPrefix l ''{'' \<and> HasSuffix l ''}'' then
        match_segments (AList.update (TrimSuffix (TrimPrefix l ''{'') ''}'') r params) left right
      else if l \<noteq> r then None
      else match_segments params left right)"
| "match_segments params _ _ = None"

definition matchOperationPath :: "string \<Rightarrow> string \<Rightarrow> strmap option" where
  "matchOperationPath pattern path =
     (let left = splitPath pattern; right = splitPath path in
      if length left \<noteq> length right then None else match_segments [] left right)"

definition normalizedResolverPath :: "mock_lib \<Rightarrow> string \<Rightarrow> string" where
  "normalizedResolverPath E given =
     (let raw = TrimSpace given in
      if raw = [] then []
      else if HasPrefix raw ''/'' then raw
      else case ml_ParseURLPath E raw of
          Some (path, query) \<Rightarrow> if TrimSpace path \<noteq> [] then path else ''/'' @ TrimByte raw (CHR ''/'')
        | None \<Rightarrow> ''/'' @ TrimByte raw (CHR ''/''))"

definition resolverOriginalMethod :: "http_request \<Rightarrow> api_operation \<Rightarrow> string" where
  "resolverOriginalMethod request operation =
     (let original = ToUpper (TrimSpace (header_Get (hr_Header request) ''X-Babelsuite-Original-Method''));
          given = ToUpper (TrimSpace (hr_Method request));
          own = ToUpper (TrimSpace (op_Method operation))
      in if original \<noteq> [] then original
         else if given \<noteq> [] \<and> given \<noteq> ''POST'' then given
         else if own = [] \<or> own = ''RPC'' \<or> own = ''EVENT'' then ''POST''
         else own)"

definition resolverOriginalPath :: "mock_lib \<Rightarrow> http_request \<Rightarrow> api_operation \<Rightarrow> string" where
  "resolverOriginalPath E request operation =
     (case find (\<lambda>path. path \<noteq> []) (map (normalizedResolverPath E)
             [header_Get (hr_Header request) ''X-Babelsuite-Original-Path'',
              (case map_of (hr_Query request) ''_path'' of Some (v # vs) \<Rightarrow> v | _ \<Rightarrow> []),
              op_MockURL operation, op_Name operation]) of
        Some path \<Rightarrow> path
      | None \<Rightarrow>
          if TrimSpace (op_ID operation) = [] then ''/'' else ''/'' @ TrimByte (TrimSpace (op_ID operation)) (CHR ''/''))"

definition cloneResolverRequest :: "http_request \<Rightarrow> api_operation \<Rightarrow> string \<Rightarrow> http_request" where
  "cloneResolverRequest request operation originalPath =
     request\<lparr>hr_Method := resolverOriginalMethod request operation, hr_Path := originalPath\<rparr>"

subsection \<open>Results\<close>

definition parseStatusCode :: "string \<Rightarrow> int \<Rightarrow> int" where
  "parseStatusCode text fallback = (case Atoi (TrimSpace text) of (status, ok) \<Rightarrow> if \<not> ok \<or> status \<le> 0 then fallback else status)"

definition withOperationMetadata :: "mock_result \<Rightarrow> api_operation \<Rightarrow> string \<Rightarrow> mock_result" where
  "withOperationMetadata result operation adapter =
     (let keep = (\<lambda>old new. if TrimSpace old = [] then new else old) in
      result\<lparr>rs_Adapter := keep (rs_Adapter result) (TrimSpace adapter),
        rs_Dispatcher := keep (rs_Dispatcher result)
          (FirstNonEmpty [op_Dispatcher operation, om_Dispatcher (op_MockMetadata operation)]),
        rs_ResolverURL := keep (rs_ResolverURL result) (om_ResolverURL (op_MockMetadata operation)),
        rs_RuntimeURL := keep (rs_RuntimeURL result) (om_RuntimeURL (op_MockMetadata operation))\<rparr>)"

text \<open>The fields that every answer of an operation carries.\<close>

definition operation_result ::
  "api_operation \<Rightarrow> string \<Rightarrow> int \<Rightarrow> string \<Rightarrow> http_header \<Rightarrow> string \<Rightarrow> string \<Rightarrow> mock_result" where
  "operation_result operation adapter status mediaType headers body matched =
     \<lparr>rs_Status = status, rs_MediaType = mediaType, rs_Headers = headers, rs_Body = body, rs_Adapter = adapter,
      rs_Dispatcher = FirstNonEmpty [op_Dispatcher operation, om_Dispatcher (op_MockMetadata operation)],
      rs_ResolverURL = om_ResolverURL (op_MockMetadata operation),
      rs_RuntimeURL = om_RuntimeURL (op_MockMetadata operation), rs_MatchedExample = matched\<rparr>"

subsection \<open>Schema-backed examples\<close>

datatype schema_match = NoExample | Invalid mock_result | Matched schema_backed_example

definition check_example :: "mock_lib \<Rightarrow> request_snapshot \<Rightarrow> schema_backed_example \<Rightarrow> schema_match" where
  "check_example E snapshot example =
     (case validateSchemaRequest E (sx_Request example) snapshot of Some result \<Rightarrow> Invalid result | None \<Rightarrow> Matched example)"

definition matchSchemaExample :: "mock_lib \<Rightarrow> schema_backed_example list \<Rightarrow> request_snapshot \<Rightarrow> schema_match" where
  "matchSchemaExample E examples snapshot =
     (let scan = (case find (\<lambda>example. matchWhen E (sx_Dispatch example) snapshot) examples of
            None \<Rightarrow> NoExample | Some example \<Rightarrow> check_example E snapshot example)
      in case examples of
          [example] \<Rightarrow> if sx_Dispatch example = [] then check_example E snapshot example else scan
        | _ \<Rightarrow> scan)"

definition buildSchemaResult ::
  "mock_lib \<Rightarrow> draws \<Rightarrow> 'a suite_with_api_scheme \<Rightarrow> api_surface \<Rightarrow> api_operation \<Rightarrow> request_snapshot \<Rightarrow> strmap \<Rightarrow> string \<Rightarrow>
     schema_backed_example \<Rightarrow> mock_result option" where
  "buildSchemaResult E D suite surface operation snapshot state adapter example =
     (let contextMap = buildTemplateContext suite surface operation snapshot state [] (sx_Name example) in
      case renderSchemaHeaders E D (rp_Headers (sx_Response example)) contextMap of
        None \<Rightarrow> None
      | Some headers \<Rightarrow>
          (case renderSchemaBody E D (rp_Body (sx_Response example)) (rp_MediaType (sx_Response example)) contextMap of
             None \<Rightarrow> None
           | Some body \<Rightarrow>
               Some (operation_result operation adapter (parseStatusCode (rp_Status (sx_Response example)) 200)
                 (FirstNonEmpty [rp_MediaType (sx_Response example), inferredMediaType body])
                 (applyRecopiedConstraintHeaders (om_ParameterConstraints (op_MockMetadata operation)) snapshot headers)
                 body (sx_Name example))))"

subsection \<open>Proxy targets\<close>

definition privateIPNets4 :: "(32 word \<times> nat) list" where
  "privateIPNets4 =
     [(0x00000000, 8), (0x7F000000, 8), (0x0A000000, 8), (0xAC100000, 12), (0xC0A80000, 16), (0xA9FE0000, 16),
      (0x64400000, 10), (0xC0000000, 24), (0xC6120000, 15), (0xF0000000, 4), (0xFFFFFFFF, 32)]"

definition privateIPNets6 :: "(128 word \<times> nat) list" where
  "privateIPNets6 = [(1, 128), (push_bit 120 0xFC, 7), (push_bit 112 0xFE80, 10), (0, 128)]"

definition isBlockedIP :: "ip \<Rightarrow> bool" where
  "isBlockedIP a =
     (case a of
        IP4 w \<Rightarrow> list_ex (\<lambda>n. net_contains 32 n w) privateIPNets4
      | IP6 w \<Rightarrow> list_ex (\<lambda>n. net_contains 128 n w) privateIPNets6)"

definition blocked_address :: "outside \<Rightarrow> string \<Rightarrow> bool" where
  "blocked_address ot addr = (case ot_ParseIP ot addr of None \<Rightarrow> False | Some a \<Rightarrow> isBlockedIP a)"

definition validateProxyTarget :: "outside \<Rightarrow> string \<Rightarrow> goerr option" where
  "validateProxyTarget ot raw =
     (case ot_ParseURL ot raw of
        Inl e \<Rightarrow> Some (ErrorfWrap ''invalid proxy URL: %w'' [] e)
      | Inr (scheme, host) \<Rightarrow>
          if scheme \<noteq> ''http'' \<and> scheme \<noteq> ''https'' then Some (Errorf ''proxy URL scheme must be http or https'' [])
          else case ot_ParseIP ot host of
              Some a \<Rightarrow>
                if isBlockedIP a then Some (Errorf ''proxy URL must not target a private or reserved address'' []) else None
            | None \<Rightarrow>
                (case ot_LookupHost ot host of
                   Inl e \<Rightarrow> Some (ErrorfWrap ''proxy URL host could not be resolved: %w'' [] e)
                 | Inr addrs \<Rightarrow>
                     if list_ex (blocked_address ot) addrs
                     then Some (Errorf ''proxy URL resolves to a private or reserved address'' []) else None))"

text \<open>
  \<open>safeDialContext\<close> up to the call of the dialer: the host of the address is looked up again and the first
  result is dialled; \<open>split\<close> is \<open>net.SplitHostPort\<close>. \<open>None\<close> is the panic of \<open>ips[0]\<close> on an empty list.
\<close>

definition safeDialContext ::
  "outside \<Rightarrow> (string \<Rightarrow> goerr + string \<times> string) \<Rightarrow> string \<Rightarrow> (goerr + string \<times> string) option" where
  "safeDialContext ot split addr =
     (case split addr of
        Inl e \<Rightarrow> Some (Inl (ErrorfWrap ''proxy: invalid address %q: %w'' [addr] e))
      | Inr (host, port) \<Rightarrow>
          (case ot_LookupHost ot host of
             Inl e \<Rightarrow> Some (Inl (ErrorfWrap ''proxy: could not resolve %q: %w'' [host] e))
           | Inr ips \<Rightarrow>
               if list_ex (blocked_address ot) ips
               then Some (Inl (Errorf ''proxy: target %q resolves to a private or reserved address'' [host]))
               else case ips of [] \<Rightarrow> None | ip # _ \<Rightarrow> Some (Inr (ip, port))))"

text \<open>\<open>CheckRedirect\<close> of the proxy client: \<open>via\<close> is the number of requests already made.\<close>

definition checkRedirect :: "outside \<Rightarrow> string \<Rightarrow> nat \<Rightarrow> goerr option" where
  "checkRedirect ot url via =
     (case validateProxyTarget ot url of
        Some e \<Rightarrow> Some e
      | None \<Rightarrow> if via \<ge> 5 then Some (Errorf ''too many redirects'' []) else None)"

subsection \<open>Path templates\<close>

definition is_param :: "string \<Rightarrow> bool" where
  "is_param seg \<longleftrightarrow> HasPrefix seg ''{'' \<and> HasSuffix seg ''}''"

definition param_name :: "string \<Rightarrow> string" where
  "param_name seg = TrimSuffix (TrimPrefix seg ''{'') ''}''"

text \<open>A segment of the template with the parameters filled in.\<close>

definition fill_segment :: "strmap \<Rightarrow> string \<Rightarrow> string" where
  "fill_segment params seg = (if is_param seg then str_at params (param_name seg) else seg)"

definition param_names :: "string list \<Rightarrow> string list" where
  "param_names segs = map param_name (filter is_param segs)"

text \<open>The parameters that matching adds, in the order of the segments.\<close>

definition bindings :: "string list \<Rightarrow> string list \<Rightarrow> strmap" where
  "bindings left right = map (\<lambda>(l, r). (param_name l, r)) (filter (\<lambda>(l, r). is_param l) (zip left right))"

lemma match_segments_Cons:
  "match_segments params (l # left) (r # right) =
     (if is_param l then match_segments (AList.update (param_name l) r params) left right
      else if l \<noteq> r then None else match_segments params left right)"
  by (simp add: is_param_def param_name_def)

lemma match_segments_exact:
  "length left = length right \<Longrightarrow> distinct (map fst params) \<Longrightarrow> distinct (param_names left) \<Longrightarrow>
     set (map fst params) \<inter> set (param_names left) = {} \<Longrightarrow>
   match_segments params left right =
     (if \<forall>(l, r)\<in>set (zip left right). is_param l \<or> l = r then Some (params @ bindings left right) else None)"
proof (induction left right arbitrary: params rule: list_induct2)
  case Nil
  then show ?case by (simp add: bindings_def)
next
  case (Cons l left r right)
  show ?case
  proof (cases "is_param l")
    case True
    have fresh: "param_name l \<notin> set (map fst params)" "param_name l \<notin> set (param_names left)"
      using Cons.prems True by (auto simp: param_names_def)
    then have upd: "AList.update (param_name l) r params = params @ [(param_name l, r)]"
      by (induction params) auto
    have "match_segments (params @ [(param_name l, r)]) left right =
        (if \<forall>(l, r)\<in>set (zip left right). is_param l \<or> l = r then Some ((params @ [(param_name l, r)]) @ bindings left right) else None)"
      using Cons.prems fresh True by (intro Cons.IH) (auto simp: param_names_def)
    then show ?thesis unfolding match_segments_Cons upd using True by (auto simp: bindings_def)
  next
    case False
    have "match_segments params left right =
        (if \<forall>(l, r)\<in>set (zip left right). is_param l \<or> l = r then Some (params @ bindings left right) else None)"
      using Cons.prems False by (intro Cons.IH) (auto simp: param_names_def)
    then show ?thesis unfolding match_segments_Cons using False by (auto simp: bindings_def)
  qed
qed

lemma bindings_at:
  "length left = length right \<Longrightarrow> distinct (param_names left) \<Longrightarrow> (l, r) \<in> set (zip left right) \<Longrightarrow> is_param l \<Longrightarrow>
     map_of (bindings left right) (param_name l) = Some r"
proof (induction left right rule: list_induct2)
  case (Cons x left y right)
  have "param_name l \<in> set (param_names left)" if "(l, r) \<in> set (zip left right)"
    using that Cons.prems(3) by (auto simp: param_names_def dest: set_zip_leftD)
  with Cons show ?case by (auto simp: bindings_def param_names_def split: if_splits)
qed simp

lemma bindings_names: "length left = length right \<Longrightarrow> map fst (bindings left right) = param_names left"
  unfolding bindings_def param_names_def by (induction left right rule: list_induct2) auto

text \<open>C38. Matching a path against a path template inverts filling the template in: for a template whose
  parameter names are distinct, a path matches exactly when it has as many segments and agrees with every
  segment that is not a parameter, and the parameters that matching returns, filled into the template, give
  back the path.\<close>

theorem matchOperationPath_inverts:
  assumes "distinct (param_names (splitPath template))"
  shows "case matchOperationPath template path of
           None \<Rightarrow> \<not> (\<exists>params. map (fill_segment params) (splitPath template) = splitPath path)
         | Some params \<Rightarrow> map (fill_segment params) (splitPath template) = splitPath path \<and>
             map fst params = param_names (splitPath template)"
proof -
  let ?l = "splitPath template" and ?r = "splitPath path"
  show ?thesis
  proof (cases "length ?l = length ?r")
    case False
    then have "map (fill_segment params) ?l \<noteq> ?r" for params by (metis length_map)
    then show ?thesis using False by (simp add: matchOperationPath_def Let_def)
  next
    case len: True
    have run: "matchOperationPath template path =
        (if \<forall>(l, r)\<in>set (zip ?l ?r). is_param l \<or> l = r then Some (bindings ?l ?r) else None)"
      using match_segments_exact [OF len, of "[]"] assms len by (simp add: matchOperationPath_def Let_def)
    show ?thesis
    proof (cases "\<forall>(l, r)\<in>set (zip ?l ?r). is_param l \<or> l = r")
      case True
      have "map (fill_segment (bindings ?l ?r)) ?l = ?r"
      proof (rule nth_equalityI)
        show "length (map (fill_segment (bindings ?l ?r)) ?l) = length ?r" using len by simp
        fix i assume "i < length (map (fill_segment (bindings ?l ?r)) ?l)"
        then have i: "i < length ?l" "(?l ! i, ?r ! i) \<in> set (zip ?l ?r)" using len by (auto simp: set_zip)
        then show "map (fill_segment (bindings ?l ?r)) ?l ! i = ?r ! i"
          using True bindings_at [OF len assms i(2)] by (auto simp: fill_segment_def str_at_def)
      qed
      moreover have "map fst (bindings ?l ?r) = param_names ?l"
        using len by (rule bindings_names)
      ultimately show ?thesis unfolding run using True by simp
    next
      case False
      then obtain l r where lr: "(l, r) \<in> set (zip ?l ?r)" "\<not> is_param l" "l \<noteq> r" by blast
      then obtain i where "i < length ?l" "?l ! i = l" "?r ! i = r" using len by (auto simp: set_zip)
      then have "map (fill_segment params) ?l \<noteq> ?r" for params
        using lr by (metis fill_segment_def nth_map)
      then show ?thesis unfolding run using False by auto
    qed
  qed
qed

theorem matchOperationPath_inverts_witness:
  "matchOperationPath ''/items/{id}'' ''/items/42/'' = Some [(''id'', ''42'')] \<and>
   map (fill_segment [(''id'', ''42'')]) (splitPath ''/items/{id}'') = splitPath ''/items/42/''"
proof -
  have "TrimSpace ''/items/{id}'' = ''/items/{id}''" "TrimSpace ''/items/42/'' = ''/items/42/''"
    by (rule TrimSpace_plain, simp add: plain_char_def)+
  then have split: "splitPath ''/items/{id}'' = [''items'', ''{id}'']" "splitPath ''/items/42/'' = [''items'', ''42'']"
    by (simp_all add: splitPath_def TrimByte_def)
  then have "matchOperationPath ''/items/{id}'' ''/items/42/'' = Some [(''id'', ''42'')]"
    by (simp add: matchOperationPath_def HasPrefix_def HasSuffix_def TrimPrefix_def TrimSuffix_def suffix_def prefix_def)
  moreover have "distinct (param_names (splitPath ''/items/{id}''))"
    unfolding split by (simp add: param_names_def is_param_def HasPrefix_def)
  ultimately show ?thesis using matchOperationPath_inverts [of "''/items/{id}''" "''/items/42/''"] by simp
qed

subsection \<open>The proxy reaches public addresses only\<close>

text \<open>What a target stands for when the request is sent: the address it names, or what its host resolves to.\<close>

definition target_addresses :: "outside \<Rightarrow> string \<Rightarrow> string list" where
  "target_addresses ot raw =
     (case ot_ParseURL ot raw of
        Inl e \<Rightarrow> []
      | Inr (scheme, host) \<Rightarrow>
          if ot_ParseIP ot host \<noteq> None then [host]
          else case ot_LookupHost ot host of Inl e \<Rightarrow> [] | Inr addrs \<Rightarrow> addrs)"

lemma validated_target_public:
  "validateProxyTarget ot raw = None \<Longrightarrow> \<forall>addr\<in>set (target_addresses ot raw). \<not> blocked_address ot addr"
  by (fastforce simp: validateProxyTarget_def target_addresses_def blocked_address_def list_ex_iff
      split: sum.splits option.splits if_splits)

lemma dialled_is_public: "safeDialContext ot split addr = Some (Inr (ip, port)) \<Longrightarrow> \<not> blocked_address ot ip"
  by (auto simp: safeDialContext_def list_ex_iff split: sum.splits list.splits if_splits)

lemma blocked_like_vault: "isBlockedIP = isVaultBlockedIP"
  by (simp add: fun_eq_iff isBlockedIP_def isVaultBlockedIP_def privateIPNets4_def privateIPNets6_def vaultBlockedNets4_def
      vaultBlockedNets6_def split: ip.split)

end
