(* ===== verification/Mock_Engine.thy ===== *)
theory Mock_Engine
  imports Mock_Request
begin

text \<open>
  The mock server: its state (\<open>mocking/state.go\<close>), the resolution of a request (\<open>service.go\<close>) and its HTTP
  handler (\<open>handler.go\<close>). The suites come from a reader, the parameter \<open>get\<close>; \<open>E\<close> is the standard library,
  \<open>cue\<close> the CUE compiler, \<open>D\<close> the random draws of the request and \<open>W\<close> the world of the proxy. A handler
  runs as one step; the lemmas on lost updates take the load and the store of the state apart.
\<close>

subsection \<open>State\<close>

record mock_service =
  mk_state :: "string \<rightharpoonup> strmap"
  mk_suiteState :: "string \<rightharpoonup> string set"

definition NewService :: mock_service where
  "NewService = \<lparr>mk_state = Map.empty, mk_suiteState = Map.empty\<rparr>"

definition loadState :: "mock_service \<Rightarrow> string \<Rightarrow> mock_state option \<Rightarrow> strmap" where
  "loadState s key config =
     (let state = (case config of None \<Rightarrow> [] | Some c \<Rightarrow> ms_Defaults c) in
      if TrimSpace key = [] then state
      else case mk_state s key of
          None \<Rightarrow> state
        | Some current \<Rightarrow> AList.merge state current)"

definition storeState :: "mock_service \<Rightarrow> string \<Rightarrow> string \<Rightarrow> strmap \<Rightarrow> mock_service" where
  "storeState s suiteID key value =
     (if TrimSpace key = [] then s
      else s\<lparr>mk_state := (mk_state s)(key \<mapsto> value),
        mk_suiteState := (if TrimSpace suiteID = [] then mk_suiteState s
          else (mk_suiteState s)(suiteID \<mapsto> insert key (case mk_suiteState s suiteID of None \<Rightarrow> {} | Some ks \<Rightarrow> ks)))\<rparr>)"

definition ResetSuiteState :: "(string \<Rightarrow> goerr + 'a) \<Rightarrow> mock_service \<Rightarrow> string \<Rightarrow> mock_service \<times> goerr option" where
  "ResetSuiteState get s suiteID =
     (let suiteID = TrimSpace suiteID in
      if suiteID = [] then (s, None)
      else case get suiteID of
          Inl e \<Rightarrow> (s, Some e)
        | Inr suite \<Rightarrow>
            (let gone = (case mk_suiteState s suiteID of None \<Rightarrow> {} | Some ks \<Rightarrow> ks) in
             (s\<lparr>mk_state := (\<lambda>k. if k \<in> gone then None else mk_state s k),
                mk_suiteState := (mk_suiteState s)(suiteID := None)\<rparr>, None)))"

definition apply_transition :: "mock_lib \<Rightarrow> mvalue \<Rightarrow> strmap \<Rightarrow> mock_state_transition \<Rightarrow> strmap" where
  "apply_transition E contextMap state transition =
     (let assigned = foldl (\<lambda>st (k, v). AList.update k (renderTemplate (ml_Float E) contextMap v) st) state (mt_Set transition);
          kept = foldl (\<lambda>st k. AList.delete k st) assigned (mt_Delete transition)
      in foldl (\<lambda>st (k, delta). AList.update k (FormatInt (int64_add (fst (Atoi (str_at st k))) delta)) st)
           kept (mt_Increment transition))"

text \<open>The loop over the transitions: the first one for this example whose key is not blank is applied.\<close>

fun chosen_transition ::
  "mock_lib \<Rightarrow> mock_state \<Rightarrow> mvalue \<Rightarrow> string \<Rightarrow> string \<Rightarrow> mock_state_transition list \<Rightarrow> (string \<times> mock_state_transition) option" where
  "chosen_transition E config contextMap lookupKey exampleName [] = None"
| "chosen_transition E config contextMap lookupKey exampleName (transition # transitions) =
     (let key = renderTemplate (ml_Float E) contextMap
            (FirstNonEmpty [mt_MutationKeyTemplate transition, ms_MutationKeyTemplate config, lookupKey])
      in if TrimSpace (mt_OnExample transition) \<noteq> [] \<and> mt_OnExample transition \<noteq> exampleName \<or> TrimSpace key = []
         then chosen_transition E config contextMap lookupKey exampleName transitions
         else Some (key, transition))"

definition applyStateTransition ::
  "mock_lib \<Rightarrow> mock_service \<Rightarrow> mock_state option \<Rightarrow> string \<Rightarrow> string \<Rightarrow> 'a suite_with_api_scheme \<Rightarrow> api_surface \<Rightarrow>
     api_operation \<Rightarrow> request_snapshot \<Rightarrow> strmap \<Rightarrow> mock_result \<Rightarrow> mock_service \<times> mock_result" where
  "applyStateTransition E s config lookupKey exampleName suite surface operation snapshot state result =
     (case config of
        None \<Rightarrow> (s, result)
      | Some c \<Rightarrow>
          (let contextMap = buildTemplateContext suite surface operation snapshot state
                 (parseJSONMap E (rs_Body result)) exampleName
           in case chosen_transition E c contextMap lookupKey exampleName (ms_Transitions c) of
               None \<Rightarrow> (s, result)
             | Some (key, transition) \<Rightarrow>
                 (storeState s (g_ID suite) key (apply_transition E contextMap state transition),
                  result\<lparr>rs_Headers := header_Set ''X-Babelsuite-State-Key'' key (rs_Headers result)\<rparr>)))"

subsection \<open>Finding the operation\<close>

definition ErrSurfaceNotFound :: goerr where
  "ErrSurfaceNotFound = ErrorsNew ''mock surface not found''"

definition ErrOperationNotFound :: goerr where
  "ErrOperationNotFound = ErrorsNew ''mock operation not found''"

definition is_rest :: "api_surface \<Rightarrow> api_operation \<Rightarrow> bool" where
  "is_rest surface operation \<longleftrightarrow>
     EqualFold (om_Adapter (op_MockMetadata operation)) ''rest'' \<or> EqualFold (sf_Protocol surface) ''REST''"

definition lookupRESTOperation ::
  "(string \<Rightarrow> goerr + suite_with_api) \<Rightarrow> string \<Rightarrow> string \<Rightarrow> string \<Rightarrow> string \<Rightarrow>
     goerr + (suite_with_api \<times> api_surface \<times> api_operation \<times> strmap)" where
  "lookupRESTOperation get suiteID surfaceID verb requestPath =
     (case get suiteID of
        Inl e \<Rightarrow> Inl e
      | Inr suite \<Rightarrow>
          (case find (\<lambda>surface. sf_ID surface = TrimSpace surfaceID) (g_APISurfaces suite) of
             None \<Rightarrow> Inl ErrSurfaceNotFound
           | Some surface \<Rightarrow>
               (case first_answer (\<lambda>operation.
                    if \<not> is_rest surface operation \<or> \<not> EqualFold (TrimSpace (op_Method operation)) (TrimSpace verb) then None
                    else map_option (Pair operation) (matchOperationPath (op_Name operation) requestPath)) (sf_Operations surface) of
                  None \<Rightarrow> Inl ErrOperationNotFound
                | Some (operation, params) \<Rightarrow> Inr (suite, surface, operation, params))))"

definition findOperationByID :: "'a suite_with_api_scheme \<Rightarrow> string \<Rightarrow> string \<Rightarrow> goerr + (api_surface \<times> api_operation)" where
  "findOperationByID suite surfaceID operationID =
     (case find (\<lambda>surface. sf_ID surface = TrimSpace surfaceID) (g_APISurfaces suite) of
        None \<Rightarrow> Inl ErrSurfaceNotFound
      | Some surface \<Rightarrow>
          (case find (\<lambda>operation. op_ID operation = TrimSpace operationID) (sf_Operations surface) of
             None \<Rightarrow> Inl ErrOperationNotFound
           | Some operation \<Rightarrow> Inr (surface, operation)))"

subsection \<open>Answering\<close>

text \<open>
  The world of the proxy: addresses, and the HTTP client. \<open>px_NewRequest\<close> is the error of
  \<open>http.NewRequestWithContext\<close>, \<open>px_Do\<close> the answer to a method, target, header and body: status, header and the
  first \<open>maxMockRequestBodyBytes\<close> bytes that could be read.
\<close>

record proxy_world =
  px_Outside :: outside
  px_NewRequest :: "string \<Rightarrow> string \<Rightarrow> goerr option"
  px_Do :: "string \<Rightarrow> string \<Rightarrow> http_header \<Rightarrow> string \<Rightarrow> goerr + (int \<times> http_header \<times> string)"

definition proxyFallback ::
  "mock_lib \<Rightarrow> proxy_world \<Rightarrow> http_request \<Rightarrow> mock_fallback \<Rightarrow> string \<Rightarrow> string \<Rightarrow> string \<Rightarrow> goerr + mock_result" where
  "proxyFallback E W original fallback dispatcher resolverURL runtimeURL =
     (let target = TrimSpace (fb_ProxyURL fallback);
          refuse = (\<lambda>status body. Inr (errorResult status ''application/json'' body))
      in if target = [] then refuse 502 ''{\"error\":\"Fallback proxy URL is not configured.\"}''
         else case validateProxyTarget (px_Outside W) target of
             Some e \<Rightarrow> refuse 502 (jsonErrorBody E (Error e))
           | None \<Rightarrow>
               (case readRequestBody E original of
                  Inl e \<Rightarrow> refuse 400 ''{\"error\":\"Could not replay request body for fallback proxy.\"}''
                | Inr (body, bodyJSON, bodyObject) \<Rightarrow>
                    (case px_NewRequest W (hr_Method original) target of
                       Some e \<Rightarrow> Inl e
                     | None \<Rightarrow>
                         (case px_Do W (hr_Method original) target (hr_Header original) body of
                            Inl e \<Rightarrow> refuse 502 (jsonErrorBody E (Error e))
                          | Inr (status, headers, responseBody) \<Rightarrow>
                              Inr \<lparr>rs_Status = status, rs_MediaType = header_Get headers ''Content-Type'',
                                rs_Headers = header_Set ''X-Babelsuite-Runtime-Url'' runtimeURL
                                  (header_Set ''X-Babelsuite-Fallback'' ''proxy'' headers),
                                rs_Body = responseBody, rs_Adapter = ''proxy'', rs_Dispatcher = dispatcher,
                                rs_ResolverURL = resolverURL, rs_RuntimeURL = runtimeURL, rs_MatchedExample = []\<rparr>))))"

text \<open>The headers of an example or a fallback, rendered, with the forwarded parameters on top.\<close>

definition response_headers ::
  "mock_lib \<Rightarrow> api_operation \<Rightarrow> request_snapshot \<Rightarrow> mvalue \<Rightarrow> api_header list \<Rightarrow> http_header" where
  "response_headers E operation snapshot contextMap given =
     applyRecopiedConstraintHeaders (om_ParameterConstraints (op_MockMetadata operation)) snapshot
       (foldl (\<lambda>headers header. header_Set (h_Name header) (renderTemplate (ml_Float E) contextMap (h_Value header)) headers) [] given)"

definition resolveFallback ::
  "mock_lib \<Rightarrow> draws \<Rightarrow> proxy_world \<Rightarrow> 'a suite_with_api_scheme \<Rightarrow> api_surface \<Rightarrow> api_operation \<Rightarrow> request_snapshot \<Rightarrow> strmap \<Rightarrow>
     http_request \<Rightarrow> schema_backed_example list \<Rightarrow> (goerr + mock_result) option" where
  "resolveFallback E D W suite surface operation snapshot state request schemaExamples =
     (let meta = op_MockMetadata operation in
      case om_Fallback meta of
        None \<Rightarrow> Some (Inr (errorResult 404 ''application/json'' ''{\"error\":\"No matching mock exchange was found.\"}''))
      | Some fallback \<Rightarrow>
          (let mode = ToLower (TrimSpace (fb_Mode fallback)) in
           if mode = ''example'' then
             (case find (\<lambda>example. sx_Name example = fb_ExampleName fallback) schemaExamples of
                Some example \<Rightarrow>
                  map_option Inr (buildSchemaResult E D suite surface operation snapshot state (om_Adapter meta) example)
              | None \<Rightarrow>
                  (case find (\<lambda>example. ex_Name example = fb_ExampleName fallback) (op_Exchanges operation) of
                     Some example \<Rightarrow>
                       (let contextMap = buildTemplateContext suite surface operation snapshot state [] (ex_Name example) in
                        Some (Inr (operation_result operation (om_Adapter meta) (parseStatusCode (ex_ResponseStatus example) 200)
                          (FirstNonEmpty [ex_ResponseMediaType example, inferredMediaType (ex_ResponseBody example)])
                          (response_headers E operation snapshot contextMap (ex_ResponseHeaders example))
                          (renderTemplate (ml_Float E) contextMap (ex_ResponseBody example)) (ex_Name example))))
                   | None \<Rightarrow>
                       Some (Inr (errorResult 404 ''application/json'' ''{\"error\":\"Fallback example was not found.\"}''))))
           else if mode = ''proxy'' then
             Some (proxyFallback E W request fallback (FirstNonEmpty [op_Dispatcher operation, om_Dispatcher meta])
               (om_ResolverURL meta) (om_RuntimeURL meta))
           else
             (let contextMap = buildTemplateContext suite surface operation snapshot state [] [] in
              Some (Inr (operation_result operation (om_Adapter meta) (parseStatusCode (fb_Status fallback) 400)
                (FirstNonEmpty [fb_MediaType fallback, inferredMediaType (fb_Body fallback)])
                (response_headers E operation snapshot contextMap (fb_Headers fallback))
                (renderTemplate (ml_Float E) contextMap (fb_Body fallback)) [])))))"

text \<open>What a request ends with: a result, an error for the handler, or a panic.\<close>

type_synonym answer = "(goerr + mock_result) option"

definition request_snapshot_of :: "http_request \<Rightarrow> strmap \<Rightarrow> string \<Rightarrow> mvalue \<Rightarrow> (string \<times> mvalue) list \<Rightarrow> request_snapshot" where
  "request_snapshot_of request pathParams requestBody bodyJSON bodyObject =
     \<lparr>sn_Method = hr_Method request, sn_Query = flattenValues (hr_Query request), sn_Headers = flattenHeader (hr_Header request),
      sn_Path = pathParams, sn_BodyRaw = requestBody, sn_BodyJSON = bodyJSON, sn_BodyObject = bodyObject\<rparr>"

definition example_result ::
  "mock_lib \<Rightarrow> api_operation \<Rightarrow> request_snapshot \<Rightarrow> mvalue \<Rightarrow> string \<Rightarrow> exchange_example \<Rightarrow> mock_result" where
  "example_result E operation snapshot contextMap adapter example =
     (let renderedBody = renderTemplate (ml_Float E) contextMap (ex_ResponseBody example) in
      operation_result operation adapter (parseStatusCode (ex_ResponseStatus example) 200)
        (FirstNonEmpty [ex_ResponseMediaType example, inferredMediaType renderedBody])
        (response_headers E operation snapshot contextMap (ex_ResponseHeaders example)) renderedBody (ex_Name example))"

text \<open>The wait for \<open>DelayMillis\<close>: the error of the context if it ends first.\<close>

definition delayed :: "mock_operation_metadata \<Rightarrow> http_request \<Rightarrow> goerr option" where
  "delayed meta request = (if om_DelayMillis meta > 0 then hr_Done request else None)"

definition resolve_snapshot ::
  "mock_lib \<Rightarrow> (string \<Rightarrow> goerr + cue_value) \<Rightarrow> draws \<Rightarrow> proxy_world \<Rightarrow> mock_service \<Rightarrow> 'a suite_with_api_scheme \<Rightarrow> api_surface \<Rightarrow>
     api_operation \<Rightarrow> request_snapshot \<Rightarrow> http_request \<Rightarrow> string \<Rightarrow> mock_service \<times> answer" where
  "resolve_snapshot E cue D W s suite surface operation snapshot request adapter =
     (let meta = op_MockMetadata operation;
          finish = (\<lambda>result. withOperationMetadata result operation adapter);
          stateKey = (case om_State meta of
              None \<Rightarrow> []
            | Some c \<Rightarrow> renderTemplate (ml_Float E) (buildTemplateContext suite surface operation snapshot [] [] []) (ms_LookupKeyTemplate c));
          state = loadState s stateKey (om_State meta);
          schemaExamples = loadSchemaExamples E cue suite operation;
          contextMap = buildTemplateContext suite surface operation snapshot state [] [];
          commit = (\<lambda>name result.
            case applyStateTransition E s (om_State meta) stateKey name suite surface operation snapshot state result of
              (s', result') \<Rightarrow> (s', Some (Inr result')))
      in case matchSchemaExample E schemaExamples snapshot of
          Invalid result \<Rightarrow> (s, Some (Inr (finish result)))
        | Matched schemaExample \<Rightarrow>
            (case delayed meta request of
               Some e \<Rightarrow> (s, Some (Inl e))
             | None \<Rightarrow>
                 (case buildSchemaResult E D suite surface operation snapshot state adapter schemaExample of
                    None \<Rightarrow> (s, None)
                  | Some result \<Rightarrow> commit (sx_Name schemaExample) result))
        | NoExample \<Rightarrow>
            (case matchExample E operation snapshot of
               None \<Rightarrow>
                 (s, map_option (map_sum (\<lambda>e. e) finish)
                   (resolveFallback E D W suite surface operation snapshot state request schemaExamples))
             | Some example \<Rightarrow>
                 (case delayed meta request of
                    Some e \<Rightarrow> (s, Some (Inl e))
                  | None \<Rightarrow> commit (ex_Name example) (example_result E operation snapshot contextMap adapter example))))"

definition resolveInner ::
  "mock_lib \<Rightarrow> (string \<Rightarrow> goerr + cue_value) \<Rightarrow> draws \<Rightarrow> proxy_world \<Rightarrow> mock_service \<Rightarrow> 'a suite_with_api_scheme \<Rightarrow> api_surface \<Rightarrow>
     api_operation \<Rightarrow> strmap \<Rightarrow> http_request \<Rightarrow> string \<Rightarrow> mock_service \<times> answer" where
  "resolveInner E cue D W s suite surface operation pathParams request adapter =
     (case readRequestBody E request of
        Inl e \<Rightarrow>
          (s, Some (Inr (withOperationMetadata
             (errorResult 400 ''application/json'' ''{\"error\":\"Could not read request body.\"}'') operation adapter)))
      | Inr (requestBody, bodyJSON, bodyObject) \<Rightarrow>
          (let snapshot = request_snapshot_of request pathParams requestBody bodyJSON bodyObject in
           case validateConstraints E (om_ParameterConstraints (op_MockMetadata operation)) snapshot of
             None \<Rightarrow> (s, None)
           | Some (Some result) \<Rightarrow> (s, Some (Inr (withOperationMetadata result operation adapter)))
           | Some None \<Rightarrow> resolve_snapshot E cue D W s suite surface operation snapshot request adapter))"

subsection \<open>Entry points\<close>

definition InvokeREST ::
  "mock_lib \<Rightarrow> (string \<Rightarrow> goerr + cue_value) \<Rightarrow> draws \<Rightarrow> proxy_world \<Rightarrow> (string \<Rightarrow> goerr + suite_with_api) \<Rightarrow> mock_service \<Rightarrow>
     string \<Rightarrow> string \<Rightarrow> string \<Rightarrow> http_request \<Rightarrow> mock_service \<times> answer" where
  "InvokeREST E cue D W get s suiteID surfaceID requestPath request =
     (case lookupRESTOperation get suiteID surfaceID (hr_Method request) requestPath of
        Inl e \<Rightarrow> (s, Some (Inl e))
      | Inr (suite, surface, operation, pathParams) \<Rightarrow>
          resolveInner E cue D W s suite surface operation pathParams request ''rest'')"

definition InvokeAdapter ::
  "mock_lib \<Rightarrow> (string \<Rightarrow> goerr + cue_value) \<Rightarrow> draws \<Rightarrow> proxy_world \<Rightarrow> (string \<Rightarrow> goerr + suite_with_api) \<Rightarrow> mock_service \<Rightarrow>
     string \<Rightarrow> string \<Rightarrow> string \<Rightarrow> string \<Rightarrow> http_request \<Rightarrow> mock_service \<times> answer" where
  "InvokeAdapter E cue D W get s suiteID surfaceID operationID adapter request =
     (case get suiteID of
        Inl e \<Rightarrow> (s, Some (Inl e))
      | Inr suite \<Rightarrow>
          (case findOperationByID suite surfaceID operationID of
             Inl e \<Rightarrow> (s, Some (Inl e))
           | Inr (surface, operation) \<Rightarrow>
               resolveInner E cue D W s suite surface operation [] request (ToLower (TrimSpace adapter))))"

definition ResolveOperation ::
  "mock_lib \<Rightarrow> (string \<Rightarrow> goerr + cue_value) \<Rightarrow> draws \<Rightarrow> proxy_world \<Rightarrow> (string \<Rightarrow> goerr + suite_with_api) \<Rightarrow> mock_service \<Rightarrow>
     string \<Rightarrow> string \<Rightarrow> string \<Rightarrow> http_request \<Rightarrow> mock_service \<times> answer" where
  "ResolveOperation E cue D W get s suiteID surfaceID operationID request =
     (case get suiteID of
        Inl e \<Rightarrow> (s, Some (Inl e))
      | Inr suite \<Rightarrow>
          (case findOperationByID suite surfaceID operationID of
             Inl e \<Rightarrow> (s, Some (Inl e))
           | Inr (surface, operation) \<Rightarrow>
               (let adapter = ToLower (TrimSpace (om_Adapter (op_MockMetadata operation)));
                    originalPath = resolverOriginalPath E request operation;
                    pathParams = (if EqualFold adapter ''rest'' then
                        (case matchOperationPath (op_Name operation) originalPath of Some params \<Rightarrow> params | None \<Rightarrow> [])
                      else [])
                in resolveInner E cue D W s suite surface operation pathParams
                     (cloneResolverRequest request operation originalPath) adapter)))"

subsection \<open>The HTTP handler\<close>

record mock_reply =
  my_Status :: int
  my_Header :: http_header
  my_Body :: string

definition WriteError :: "int \<Rightarrow> string \<Rightarrow> (string \<Rightarrow> string) \<Rightarrow> mock_reply" where
  "WriteError status message render =
     \<lparr>my_Status = status, my_Header = [(''Content-Type'', [''application/json''])], my_Body = render message\<rparr>"

definition writeLookupError :: "(string \<Rightarrow> string) \<Rightarrow> goerr \<Rightarrow> goerr \<Rightarrow> mock_reply" where
  "writeLookupError render suitesErrNotFound err =
     (if err = suitesErrNotFound then WriteError 404 ''Suite not found.'' render
      else if err = ErrSurfaceNotFound then WriteError 404 ''Mock surface not found.'' render
      else if err = ErrOperationNotFound then WriteError 404 ''Mock operation not found.'' render
      else WriteError 500 ''Could not process mock invocation.'' render)"

definition set_unless_blank :: "string \<Rightarrow> string \<Rightarrow> http_header \<Rightarrow> http_header" where
  "set_unless_blank k v h = (if TrimSpace v \<noteq> [] then header_Set k v h else h)"

text \<open>\<open>writeResult\<close>; \<open>WriteHeader\<close> panics on a status outside 100 to 999.\<close>

definition writeResult :: "mock_result \<Rightarrow> mock_reply option" where
  "writeResult result =
     (let copied = foldl (\<lambda>h (k, vs). foldl (\<lambda>h v. header_Add k v h) h vs) [] (rs_Headers result);
          headers = set_unless_blank ''X-Babelsuite-Mock-Example'' (rs_MatchedExample result)
            (set_unless_blank ''X-Babelsuite-Resolver-Url'' (rs_ResolverURL result)
            (set_unless_blank ''X-Babelsuite-Dispatcher'' (rs_Dispatcher result)
            (set_unless_blank ''X-Babelsuite-Mock-Adapter'' (rs_Adapter result)
            (set_unless_blank ''X-Babelsuite-Runtime-Url'' (rs_RuntimeURL result)
            (set_unless_blank ''Content-Type'' (rs_MediaType result) copied)))))
      in if rs_Status result < 100 \<or> 999 < rs_Status result then None
         else Some \<lparr>my_Status = rs_Status result, my_Header = headers, my_Body = rs_Body result\<rparr>)"

text \<open>The first two parts of a route and the rest, \<open>strings.SplitN(path, "/", 3)\<close>.\<close>

definition route_parts :: "string \<Rightarrow> string \<Rightarrow> (string \<times> string \<times> string) option" where
  "route_parts pre path =
     (case Cut (TrimByte (TrimPrefix path pre) (CHR ''/'')) (CHR ''/'') of
        (a, r, found) \<Rightarrow>
          (case Cut r (CHR ''/'') of (b, c, found') \<Rightarrow> if found \<and> found' then Some (a, b, c) else None))"

text \<open>The bearer secret in front of every mock route.\<close>

definition mock_authorized :: "string \<Rightarrow> http_request \<Rightarrow> bool" where
  "mock_authorized secret request \<longleftrightarrow>
     secret = [] \<or> TrimSpace (TrimPrefix (TrimSpace (header_Get (hr_Header request) ''Authorization'')) ''Bearer '') = secret"

definition invokeREST ::
  "mock_lib \<Rightarrow> (string \<Rightarrow> goerr + cue_value) \<Rightarrow> draws \<Rightarrow> proxy_world \<Rightarrow> (string \<Rightarrow> goerr + suite_with_api) \<Rightarrow> goerr \<Rightarrow>
     (string \<Rightarrow> string) \<Rightarrow> string \<Rightarrow> mock_service \<Rightarrow> http_request \<Rightarrow> mock_service \<times> mock_reply option" where
  "invokeREST E cue D W get suitesErrNotFound render secret s request =
     (if \<not> mock_authorized secret request then (s, Some (WriteError 401 ''Mock access requires a valid secret.'' render))
      else case route_parts ''/mocks/rest/'' (hr_Path request) of
          None \<Rightarrow> (s, Some (WriteError 404 ''Mock route not found.'' render))
        | Some (suiteID, surfaceID, path) \<Rightarrow>
            (case InvokeREST E cue D W get s suiteID surfaceID (''/'' @ path) request of
               (s', None) \<Rightarrow> (s', None)
             | (s', Some (Inl e)) \<Rightarrow> (s', Some (writeLookupError render suitesErrNotFound e))
             | (s', Some (Inr result)) \<Rightarrow> (s', writeResult result)))"

text \<open>The gRPC and asynchronous routes, with the path values of the pattern.\<close>

definition invokeAdapterRoute ::
  "mock_lib \<Rightarrow> (string \<Rightarrow> goerr + cue_value) \<Rightarrow> draws \<Rightarrow> proxy_world \<Rightarrow> (string \<Rightarrow> goerr + suite_with_api) \<Rightarrow> goerr \<Rightarrow>
     (string \<Rightarrow> string) \<Rightarrow> string \<Rightarrow> mock_service \<Rightarrow> string \<Rightarrow> string \<Rightarrow> string \<Rightarrow> string \<Rightarrow> http_request \<Rightarrow>
     mock_service \<times> mock_reply option" where
  "invokeAdapterRoute E cue D W get suitesErrNotFound render secret s suiteID surfaceID operationID adapter request =
     (if \<not> mock_authorized secret request then (s, Some (WriteError 401 ''Mock access requires a valid secret.'' render))
      else case InvokeAdapter E cue D W get s suiteID surfaceID operationID adapter request of
          (s', None) \<Rightarrow> (s', None)
        | (s', Some (Inl e)) \<Rightarrow> (s', Some (writeLookupError render suitesErrNotFound e))
        | (s', Some (Inr result)) \<Rightarrow> (s', writeResult result))"

text \<open>The internal resolver route answers 200 with the result as JSON; \<open>encode\<close> is that encoding.\<close>

definition resolveOperationRoute ::
  "mock_lib \<Rightarrow> (string \<Rightarrow> goerr + cue_value) \<Rightarrow> draws \<Rightarrow> proxy_world \<Rightarrow> (string \<Rightarrow> goerr + suite_with_api) \<Rightarrow> goerr \<Rightarrow>
     (string \<Rightarrow> string) \<Rightarrow> (mock_result \<Rightarrow> string) \<Rightarrow> string \<Rightarrow> mock_service \<Rightarrow> http_request \<Rightarrow> mock_service \<times> mock_reply option" where
  "resolveOperationRoute E cue D W get suitesErrNotFound render encode secret s request =
     (if \<not> mock_authorized secret request then (s, Some (WriteError 401 ''Mock access requires a valid secret.'' render))
      else case route_parts ''/internal/mock-data/'' (hr_Path request) of
          None \<Rightarrow> (s, Some (WriteError 404 ''Mock resolver route not found.'' render))
        | Some (suiteID, surfaceID, operationID) \<Rightarrow>
            (case ResolveOperation E cue D W get s suiteID surfaceID operationID request of
               (s', None) \<Rightarrow> (s', None)
             | (s', Some (Inl e)) \<Rightarrow> (s', Some (writeLookupError render suitesErrNotFound e))
             | (s', Some (Inr result)) \<Rightarrow>
                 (s', Some \<lparr>my_Status = 200, my_Header = header_Set ''Content-Type'' ''application/json'' [], my_Body = encode result\<rparr>)))"

subsection \<open>Numbers in the state\<close>

lemma digit_value_hex: "d < 10 \<Longrightarrow> digit_value (hex_digit d) = Some (int d)"
proof -
  assume "d < 10"
  then have "d \<in> {0, 1, 2, 3, 4, 5, 6, 7, 8, 9}" by auto
  then show ?thesis by (auto simp: digit_value_def hex_digit_def byte_in_def)
qed

lemma digits_value_snoc:
  "digits_value acc (s @ [c]) =
     (case digits_value acc s of None \<Rightarrow> None | Some n \<Rightarrow> map_option (\<lambda>d. 10 * n + d) (digit_value c))"
  by (induction acc s rule: digits_value.induct) (auto split: option.split)

lemma digits_value_Itoa: "digits_value 0 (Itoa n) = Some (int n)"
proof (induction n rule: Itoa.induct)
  case (1 n)
  show ?case
  proof (cases "n < 10")
    case True
    then show ?thesis by (subst Itoa.simps) (simp add: digit_value_hex)
  next
    case False
    have "int n = 10 * int (n div 10) + int (n mod 10)" by presburger
    then show ?thesis using 1 [OF False] False
      by (subst Itoa.simps) (simp add: digits_value_snoc digit_value_hex)
  qed
qed

lemma digits_value_digits: "digits_value acc s = Some n \<Longrightarrow> c \<in> set s \<Longrightarrow> digit_value c \<noteq> None"
  by (induction acc s rule: digits_value.induct) (auto split: option.splits)

lemma Itoa_unsigned: "\<not> HasPrefix (Itoa n) ''-''" "\<not> HasPrefix (Itoa n) ''+''"
proof -
  have "digit_value (CHR ''-'') = None" "digit_value (CHR ''+'') = None" by (simp_all add: digit_value_def byte_in_def)
  then have "CHR ''-'' \<notin> set (Itoa n)" "CHR ''+'' \<notin> set (Itoa n)"
    using digits_value_digits [OF digits_value_Itoa] by blast+
  then show "\<not> HasPrefix (Itoa n) ''-''" "\<not> HasPrefix (Itoa n) ''+''"
    by (auto simp: HasPrefix_def prefix_def)
qed

lemma Atoi_FormatInt: "MinInt64 \<le> n \<Longrightarrow> n \<le> MaxInt64 \<Longrightarrow> Atoi (FormatInt n) = (n, True)"
  by (auto simp: Atoi_def FormatInt_def Itoa_unsigned Itoa_not_Nil digits_value_Itoa HasPrefix_def [of "CHR ''-'' # _"] Let_def)

lemma int64_range: "MinInt64 \<le> int64_add a b" "int64_add a b \<le> MaxInt64"
  using sint_range_size [of "word_of_int (a + b) :: 64 word"] by (simp_all add: int64_add_def word_size)

lemma int64_add_assoc: "int64_add (int64_add a b) c = int64_add a (b + c)"
  by (simp add: int64_add_def algebra_simps)

subsection \<open>Counting\<close>

definition counting :: "string \<Rightarrow> int \<Rightarrow> mock_state_transition" where
  "counting field delta = \<lparr>mt_OnExample = [], mt_MutationKeyTemplate = [], mt_Set = [], mt_Delete = [], mt_Increment = [(field, delta)]\<rparr>"

lemma str_at_update [simp]: "str_at (AList.update k v m) k' = (if k = k' then v else str_at m k')"
  by (simp add: str_at_def AList.update_conv')

lemma count_once:
  "str_at (apply_transition E m state (counting f d)) f = FormatInt (int64_add (fst (Atoi (str_at state f))) d)"
  by (simp add: apply_transition_def counting_def)

text \<open>One matched request on the key \<open>key\<close>: load, transition, store.\<close>

definition serve_once ::
  "mock_lib \<Rightarrow> mock_state \<Rightarrow> string \<Rightarrow> string \<Rightarrow> 'a suite_with_api_scheme \<Rightarrow> api_surface \<Rightarrow> api_operation \<Rightarrow> request_snapshot \<Rightarrow>
     mock_result \<Rightarrow> mock_service \<Rightarrow> mock_service" where
  "serve_once E config key name suite surface operation snapshot result s =
     fst (applyStateTransition E s (Some config) key name suite surface operation snapshot (loadState s key (Some config)) result)"

lemma str_at_merge: "map_of cur k \<noteq> None \<Longrightarrow> str_at (AList.merge st cur) k = str_at cur k"
  by (auto simp: str_at_def merge_conv' map_add_def)

lemma stored_is_loaded:
  assumes "TrimSpace key \<noteq> []" "map_of st f \<noteq> None"
  shows "str_at (loadState (storeState s suiteID key st) key c) f = str_at st f"
  using assms by (simp add: loadState_def storeState_def str_at_merge Let_def)

lemma count_step:
  assumes config: "ms_Transitions config = [counting f d]" "ms_MutationKeyTemplate config = []"
    and key: "TrimSpace key \<noteq> []" "CHR ''{'' \<notin> set key"
  shows "str_at (loadState (serve_once E config key name suite surface operation snapshot result s) key (Some config)) f =
    FormatInt (int64_add (fst (Atoi (str_at (loadState s key (Some config)) f))) d)"
proof -
  have chosen: "chosen_transition E config m key name (ms_Transitions config) = Some (key, counting f d)" for m
    using key by (simp add: config counting_def render_plain)
  have "map_of (apply_transition E m st (counting f d)) f \<noteq> None" for m st
    by (simp add: apply_transition_def counting_def AList.update_conv')
  then show ?thesis
    unfolding serve_once_def applyStateTransition_def Let_def option.case chosen prod.case fst_conv
    by (subst stored_is_loaded [OF key(1)]) (simp_all add: count_once)
qed

text \<open>Requests that are served one after the other count: when the only transition of the state adds \<open>d\<close> to
  a field, \<open>n\<close> served requests add \<open>n\<close> times \<open>d\<close>, with the wrap-around of a 64-bit integer.\<close>

theorem counter_counts:
  assumes config: "ms_Transitions config = [counting f d]" "ms_MutationKeyTemplate config = []"
    and key: "TrimSpace key \<noteq> []" "CHR ''{'' \<notin> set key" and n: "0 < n"
  shows "str_at (loadState ((serve_once E config key name suite surface operation snapshot result ^^ n) s) key (Some config)) f =
    FormatInt (int64_add (fst (Atoi (str_at (loadState s key (Some config)) f))) (int n * d))"
  using n
proof (induction n rule: nat_induct_non_zero)
  case 1
  show ?case using count_step [OF config key] by simp
next
  case (Suc n)
  show ?case
    unfolding funpow.simps comp_apply count_step [OF config key] Suc.IH
    by (simp add: Atoi_FormatInt int64_range int64_add_assoc algebra_simps)
qed

subsection \<open>What a request changes\<close>

lemma header_Get_Set [simp]: "header_Get (header_Set k v h) k = v"
  by (simp add: header_Get_def header_Set_def AList.update_conv')

lemma chosen_key: "chosen_transition E c m lookupKey name ts = Some (key, t) \<Longrightarrow> TrimSpace key \<noteq> []"
  by (induction ts) (auto simp: Let_def split: if_splits)

text \<open>The service after a request and the request's answer: nothing changed, or one key written and named in the answer.\<close>

definition writes_one_key :: "mock_service \<Rightarrow> string \<Rightarrow> mock_service \<Rightarrow> answer \<Rightarrow> string \<Rightarrow> bool" where
  "writes_one_key s suiteID s' answer key \<longleftrightarrow> TrimSpace key \<noteq> [] \<and> (\<exists>v. s' = storeState s suiteID key v) \<and>
     (\<exists>r. answer = Some (Inr r) \<and> header_Get (rs_Headers r) ''X-Babelsuite-State-Key'' = key)"

lemma transition_frame:
  assumes "applyStateTransition E s config lookupKey name suite surface operation snapshot state result = (s', result')"
  shows "s' = s \<and> result' = result \<or>
    (\<exists>key. writes_one_key s (g_ID suite) s' (Some (Inr result')) key \<and> rs_MatchedExample result' = rs_MatchedExample result)"
proof (cases config)
  case None
  with assms show ?thesis by (simp add: applyStateTransition_def)
next
  case (Some c)
  let ?m = "buildTemplateContext suite surface operation snapshot state (parseJSONMap E (rs_Body result)) name"
  show ?thesis
  proof (cases "chosen_transition E c ?m lookupKey name (ms_Transitions c)")
    case None
    with assms Some show ?thesis by (simp add: applyStateTransition_def)
  next
    case (Some kt)
    then obtain key t where kt: "chosen_transition E c ?m lookupKey name (ms_Transitions c) = Some (key, t)" by (cases kt) simp
    have "writes_one_key s (g_ID suite) s' (Some (Inr result')) key" "rs_MatchedExample result' = rs_MatchedExample result"
      using assms kt chosen_key [OF kt] \<open>config = Some c\<close> by (auto simp: applyStateTransition_def writes_one_key_def Let_def)
    then show ?thesis by blast
  qed
qed

lemma matched_names:
  "buildSchemaResult E D suite surface operation snapshot state adapter x = Some r \<Longrightarrow> rs_MatchedExample r = sx_Name x"
  "rs_MatchedExample (example_result E operation snapshot m adapter example) = ex_Name example"
  by (auto simp: buildSchemaResult_def operation_result_def example_result_def Let_def split: option.splits)

lemma resolve_snapshot_frame:
  assumes "resolve_snapshot E cue D W s suite surface operation snapshot request adapter = (s', answer)"
  shows "s' = s \<or> (\<exists>key. writes_one_key s (g_ID suite) s' answer key)"
  using assms unfolding resolve_snapshot_def Let_def
  by (auto dest!: transition_frame split: schema_match.splits option.splits prod.splits)

lemma resolveInner_frame:
  assumes "resolveInner E cue D W s suite surface operation pathParams request adapter = (s', answer)"
  shows "s' = s \<or> (\<exists>key. writes_one_key s (g_ID suite) s' answer key)"
  using assms unfolding resolveInner_def Let_def
  by (auto dest!: resolve_snapshot_frame split: sum.splits option.splits prod.splits)


subsection \<open>Resetting a suite\<close>

text \<open>
  The histories of a service: requests that leave it alone, requests that write a key, and resets.
  \<open>written\<close> collects the keys a suite has written since it was last reset.
\<close>

datatype mock_event = Wrote string string | WasReset string

inductive mock_history :: "(string \<Rightarrow> goerr + suite_with_api) \<Rightarrow> mock_service \<Rightarrow> mock_event list \<Rightarrow> bool" for get where
  started: "mock_history get NewService []"
| served: "mock_history get s h \<Longrightarrow>
    resolveInner E cue D W s (suite :: suite_with_api) surface operation pathParams request adapter = (s', answer) \<Longrightarrow>
    writes_one_key s (g_ID suite) s' answer key \<Longrightarrow> mock_history get s' (h @ [Wrote (g_ID suite) key])"
| unchanged: "mock_history get s h \<Longrightarrow>
    resolveInner E cue D W s (suite :: suite_with_api) surface operation pathParams request adapter = (s, answer) \<Longrightarrow>
    mock_history get s h"
| cleared: "mock_history get s h \<Longrightarrow> ResetSuiteState get s suiteID = (s', None) \<Longrightarrow> TrimSpace suiteID \<noteq> [] \<Longrightarrow>
    mock_history get s' (h @ [WasReset (TrimSpace suiteID)])"
| refused: "mock_history get s h \<Longrightarrow> ResetSuiteState get s suiteID = (s', Some e) \<Longrightarrow> mock_history get s' h"

fun note_event :: "string \<Rightarrow> string set \<Rightarrow> mock_event \<Rightarrow> string set" where
  "note_event suiteID ks (Wrote i k) = (if i = suiteID then insert k ks else ks)"
| "note_event suiteID ks (WasReset i) = (if i = suiteID then {} else ks)"

definition written :: "mock_event list \<Rightarrow> string \<Rightarrow> string set" where
  "written h suiteID = foldl (note_event suiteID) {} h"

lemma written_snoc [simp]: "written (h @ [e]) suiteID = note_event suiteID (written h suiteID) e"
  by (simp add: written_def)

definition owned :: "mock_service \<Rightarrow> string \<Rightarrow> string set" where
  "owned s suiteID = (case mk_suiteState s suiteID of None \<Rightarrow> {} | Some ks \<Rightarrow> ks)"

lemma owned_NewService: "owned NewService suiteID = {}"
  by (simp add: owned_def NewService_def)

lemma owned_store:
  "TrimSpace key \<noteq> [] \<Longrightarrow> TrimSpace suiteID \<noteq> [] \<Longrightarrow>
     owned (storeState s i key v) suiteID = (if i = suiteID then insert key (owned s suiteID) else owned s suiteID)"
  by (auto simp: owned_def storeState_def)

lemma reset_result:
  "ResetSuiteState get s suiteID = (s', None) \<Longrightarrow> TrimSpace suiteID \<noteq> [] \<Longrightarrow>
     mk_state s' = (\<lambda>k. if k \<in> owned s (TrimSpace suiteID) then None else mk_state s k) \<and>
     owned s' = (\<lambda>i. if i = TrimSpace suiteID then {} else owned s i)"
  by (auto simp: ResetSuiteState_def owned_def Let_def fun_eq_iff split: sum.splits)

lemma reset_refused: "ResetSuiteState get s suiteID = (s', Some e) \<Longrightarrow> s' = s"
  by (auto simp: ResetSuiteState_def Let_def split: if_splits sum.splits)

lemma owned_written: "mock_history get s h \<Longrightarrow> TrimSpace suiteID \<noteq> [] \<Longrightarrow> owned s suiteID = written h suiteID"
proof (induction arbitrary: suiteID rule: mock_history.induct)
  case started
  then show ?case by (simp add: owned_NewService written_def)
next
  case (served s h E cue D W suite surface operation pathParams request adapter s' answer key)
  then show ?case by (auto simp: writes_one_key_def owned_store)
next
  case (cleared s h i s')
  then show ?case using reset_result [OF cleared.hyps(2,3)] by simp
next
  case (refused s h i s' e)
  then show ?case using reset_refused by blast
qed simp

text \<open>C33. Resetting a suite takes its mocks back to their defaults: every key that the suite has written since
  its last reset is forgotten, so the next request that reads it finds exactly the configured defaults,
  and every other key keeps its value.\<close>

theorem reset_restores_defaults:
  assumes "mock_history get s h" "trimmed_id suiteID" "get suiteID = Inr suite" "ResetSuiteState get s suiteID = (s', e)"
  shows "e = None \<and>
    (\<forall>key config. key \<in> written h suiteID \<longrightarrow> loadState s' key (Some config) = ms_Defaults config) \<and>
    (\<forall>key config. key \<notin> written h suiteID \<longrightarrow> loadState s' key config = loadState s key config)"
proof -
  have trim: "TrimSpace suiteID = suiteID" "suiteID \<noteq> []" using assms(2) by (auto simp: trimmed_id_def)
  have e: "e = None" using assms(3,4) trim by (auto simp: ResetSuiteState_def Let_def)
  have "mk_state s' = (\<lambda>k. if k \<in> written h suiteID then None else mk_state s k)"
    using reset_result [OF assms(4) [unfolded e]] owned_written [OF assms(1), of suiteID] trim by simp
  with e show ?thesis by (simp add: loadState_def Let_def)
qed

subsection \<open>An example service\<close>

definition demo_state :: mock_state where
  "demo_state = \<lparr>ms_LookupKeyTemplate = ''cart'', ms_MutationKeyTemplate = [], ms_Defaults = [(''hits'', ''0'')],
     ms_Transitions = [counting ''hits'' 1]\<rparr>"

definition demo_operation :: api_operation where
  "demo_operation = \<lparr>op_ID = ''get'', op_Method = ''GET'', op_Name = ''/items/{id}'', op_Summary = [], op_ContractPath = [],
     op_MockPath = [], op_MockURL = [], op_CurlCommand = [], op_Dispatcher = [],
     op_MockMetadata = \<lparr>om_Adapter = ''rest'', om_Dispatcher = [], om_DispatcherRules = [], om_DelayMillis = 0,
       om_ParameterConstraints = [], om_Fallback = None, om_State = Some demo_state, om_MetadataPath = [],
       om_ResolverURL = [], om_RuntimeURL = []\<rparr>,
     op_Exchanges = [\<lparr>ex_Name = ''ok'', ex_SourceArtifact = [], ex_When = [], ex_RequestHeaders = [], ex_RequestBody = [],
       ex_ResponseStatus = ''200'', ex_ResponseMediaType = ''text/plain'', ex_ResponseHeaders = [], ex_ResponseBody = ''fine''\<rparr>]\<rparr>"

definition demo_surface :: api_surface where
  "demo_surface = \<lparr>sf_ID = ''api'', sf_Title = [], sf_Protocol = ''REST'', sf_MockHost = [], sf_Description = [],
     sf_Operations = [demo_operation]\<rparr>"

definition demo_suite :: suite_with_api where
  "demo_suite = \<lparr>g_ID = ''shop'', g_Title = [], g_Repository = [], g_Version = [], g_SuiteStar = [], g_Profiles = [],
     g_Folders = [], g_SeedSources = [], g_SourceFiles = [], g_Topology = [], g_TopologyError = [],
     g_ResolvedDependencies = [], g_APISurfaces = [demo_surface]\<rparr>"

definition demo_request :: http_request where
  "demo_request = \<lparr>hr_Method = ''GET'', hr_Path = [], hr_Query = [], hr_Header = [], hr_Body = Inr [], hr_Done = None\<rparr>"

definition demo_world :: proxy_world where
  "demo_world = \<lparr>px_Outside = \<lparr>ot_ParseURL = (\<lambda>_. Inl ContextCanceled), ot_ParseIP = (\<lambda>_. None), ot_LookupHost = (\<lambda>_. Inr []),
       ot_JoinPath = (\<lambda>_ _. None), ot_LookupEnv = (\<lambda>_. None), ot_Vault = (\<lambda>_ _ _. Inl ContextCanceled)\<rparr>,
     px_NewRequest = (\<lambda>_ _. None), px_Do = (\<lambda>_ _ _ _. Inl ContextCanceled)\<rparr>"

definition demo_served :: mock_service where
  "demo_served = storeState NewService ''shop'' ''cart'' [(''hits'', ''1'')]"

lemma demo_transition:
  "chosen_transition E demo_state m ''cart'' name (ms_Transitions demo_state) = Some (''cart'', counting ''hits'' 1)"
  "apply_transition E m [(''hits'', ''0'')] (counting ''hits'' 1) = [(''hits'', ''1'')]"
proof -
  have cart: "TrimSpace ''cart'' = ''cart''" by (rule TrimSpace_plain) (simp add: plain_char_def)
  then show "chosen_transition E demo_state m ''cart'' name (ms_Transitions demo_state) = Some (''cart'', counting ''hits'' 1)"
    by (simp add: demo_state_def counting_def render_plain)
  have "Itoa 0 = ''0''" "Itoa 1 = ''1''" by (simp_all add: Itoa.simps hex_digit_def)
  then have "fst (Atoi ''0'') = 0" "FormatInt 1 = ''1''" using Atoi_FormatInt [of 0] by (simp_all add: FormatInt_def)
  then show "apply_transition E m [(''hits'', ''0'')] (counting ''hits'' 1) = [(''hits'', ''1'')]"
    by (simp add: apply_transition_def counting_def str_at_def int64_add_def)
qed

lemma demo_resolves:
  "\<exists>r. resolveInner no_lib (\<lambda>_. no_literal) no_draws demo_world NewService demo_suite demo_surface demo_operation [] demo_request ''rest'' =
     (demo_served, Some (Inr r)) \<and> header_Get (rs_Headers r) ''X-Babelsuite-State-Key'' = ''cart''"
proof -
  let ?snap = "request_snapshot_of demo_request [] [] MNil []"
  have body: "readRequestBody no_lib demo_request = Inr ([], MNil, [])"
    by (simp add: readRequestBody_def demo_request_def)
  have meta: "om_ParameterConstraints (op_MockMetadata demo_operation) = []" "om_State (op_MockMetadata demo_operation) = Some demo_state"
    "delayed (op_MockMetadata demo_operation) demo_request = None"
    by (simp_all add: demo_operation_def delayed_def)
  have key: "renderTemplate (ml_Float no_lib) m (ms_LookupKeyTemplate demo_state) = ''cart''" for m
    by (simp add: demo_state_def render_plain)
  have state: "loadState NewService ''cart'' (Some demo_state) = [(''hits'', ''0'')]"
    by (simp add: loadState_def NewService_def demo_state_def Let_def)
  have none: "matchSchemaExample no_lib (loadSchemaExamples no_lib (\<lambda>_. no_literal) demo_suite demo_operation) ?snap = NoExample"
    by (simp add: loadSchemaExamples_def sourceFileContent_def demo_suite_def matchSchemaExample_def)
  obtain example where ex: "matchExample no_lib demo_operation ?snap = Some example"
    by (simp add: matchExample_def demo_operation_def)
  have suite: "g_ID demo_suite = ''shop''" by (simp add: demo_suite_def)
  show ?thesis
    unfolding resolveInner_def body sum.case prod.case Let_def meta validateConstraints.simps option.case
      resolve_snapshot_def key state none schema_match.case ex applyStateTransition_def demo_transition suite
    by (simp add: demo_served_def)
qed

lemma demo_key: "TrimSpace ''cart'' = ''cart''" "TrimSpace ''shop'' = ''shop''"
  by (rule TrimSpace_plain, simp add: plain_char_def)+

lemma demo_history: "mock_history get demo_served [Wrote ''shop'' ''cart'']"
proof -
  obtain r where run: "resolveInner no_lib (\<lambda>_. no_literal) no_draws demo_world NewService demo_suite demo_surface demo_operation []
      demo_request ''rest'' = (demo_served, Some (Inr r))" and "header_Get (rs_Headers r) ''X-Babelsuite-State-Key'' = ''cart''"
    using demo_resolves by blast
  then have "writes_one_key NewService (g_ID demo_suite) demo_served (Some (Inr r)) ''cart''"
    by (auto simp: writes_one_key_def demo_key demo_served_def demo_suite_def)
  then show ?thesis using mock_history.served [OF mock_history.started run] by (simp add: demo_suite_def)
qed


theorem reset_restores_defaults_witness:
  "loadState demo_served ''cart'' (Some demo_state) = [(''hits'', ''1'')] \<and>
   loadState (fst (ResetSuiteState (\<lambda>_. Inr demo_suite) demo_served ''shop'')) ''cart'' (Some demo_state) = [(''hits'', ''0'')]"
proof -
  have ok: "trimmed_id ''shop''" by (simp add: trimmed_id_def demo_key)
  obtain s' e where run: "ResetSuiteState (\<lambda>_. Inr demo_suite) demo_served ''shop'' = (s', e)" by fastforce
  have "''cart'' \<in> written [Wrote ''shop'' ''cart''] ''shop''" by (simp add: written_def)
  then have "loadState s' ''cart'' (Some demo_state) = [(''hits'', ''0'')]"
    using reset_restores_defaults [OF demo_history ok refl run] by (simp add: demo_state_def)
  moreover have "loadState demo_served ''cart'' (Some demo_state) = [(''hits'', ''1'')]"
    by (simp add: demo_served_def loadState_def storeState_def demo_state_def demo_key Let_def AList.merge_def)
  ultimately show ?thesis by (simp add: run)
qed

theorem counter_counts_witness:
  "str_at (loadState ((serve_once no_lib demo_state ''cart'' ''ok'' demo_suite demo_surface demo_operation
       (request_snapshot_of demo_request [] [] MNil []) (errorResult 200 [] []) ^^ 2) NewService) ''cart'' (Some demo_state)) ''hits'' = ''2''"
proof -
  have "str_at (loadState NewService ''cart'' (Some demo_state)) ''hits'' = FormatInt 0"
    by (simp add: loadState_def NewService_def demo_state_def str_at_def FormatInt_def Itoa.simps hex_digit_def Let_def)
  then have "fst (Atoi (str_at (loadState NewService ''cart'' (Some demo_state)) ''hits'')) = 0" by (simp add: Atoi_FormatInt)
  moreover have "FormatInt (int64_add 0 (int 2 * 1)) = ''2''"
    by (simp add: int64_add_def FormatInt_def Itoa.simps hex_digit_def)
  ultimately show ?thesis
    using counter_counts [of demo_state "''hits''" 1 "''cart''" 2 no_lib "''ok''" demo_suite demo_surface demo_operation
        "request_snapshot_of demo_request [] [] MNil []" "errorResult 200 [] []" NewService] demo_key
    by (simp add: demo_state_def)
qed

subsection \<open>The proxy\<close>


definition local_world :: outside where
  "local_world = \<lparr>ot_ParseURL = (\<lambda>_. Inr (''http'', ''db.local'')), ot_ParseIP = (\<lambda>t. if t = ''127.0.0.1'' then Some (IP4 0x7F000001) else None),
     ot_LookupHost = (\<lambda>_. Inr [''127.0.0.1'']), ot_JoinPath = (\<lambda>_ _. None), ot_LookupEnv = (\<lambda>_. None),
     ot_Vault = (\<lambda>_ _ _. Inl ContextCanceled)\<rparr>"

definition local_fallback :: mock_fallback where
  "local_fallback = \<lparr>fb_Mode = ''proxy'', fb_ExampleName = [], fb_ProxyURL = ''http://db.local'', fb_Status = [], fb_MediaType = [],
     fb_Body = [], fb_Headers = []\<rparr>"

definition public_world :: outside where
  "public_world = local_world\<lparr>ot_ParseIP := (\<lambda>t. Some (IP4 0x5DB8D822)), ot_LookupHost := (\<lambda>_. Inr [''93.184.216.34''])\<rparr>"


subsection \<open>Where the engine surprises\<close>

text \<open>
  The state is loaded and stored under separate locks. When two requests load it before either stores,
  the second store overwrites the first, and a counter of two requests stands at one.
\<close>

lemma lost_increment:
  fixes snapshot :: request_snapshot and result :: mock_result
  defines "loaded \<equiv> loadState NewService ''cart'' (Some demo_state)"
  defines "served \<equiv> (\<lambda>s. fst (applyStateTransition no_lib s (Some demo_state) ''cart'' ''ok'' demo_suite demo_surface demo_operation
      snapshot loaded result))"
  shows "str_at (loadState (served (served NewService)) ''cart'' (Some demo_state)) ''hits'' = ''1''"
proof -
  have loaded: "loaded = [(''hits'', ''0'')]" by (simp add: loaded_def loadState_def NewService_def demo_state_def Let_def)
  have "served s = storeState s ''shop'' ''cart'' [(''hits'', ''1'')]" for s
    unfolding served_def applyStateTransition_def Let_def option.case demo_transition prod.case fst_conv loaded
    by (simp add: demo_suite_def)
  then show ?thesis using stored_is_loaded [of "''cart''" "[(''hits'', ''1'')]" "''hits''"] by (simp add: demo_key str_at_def)
qed

text \<open>Two suites that use the same key lose it together: the reset of one forgets what the other wrote last.\<close>

lemma shared_key_reset:
  assumes "TrimSpace key \<noteq> []" "trimmed_id a" "TrimSpace b \<noteq> []" "a \<noteq> b" "get a = Inr suite"
  shows "mk_state (fst (ResetSuiteState get (storeState (storeState NewService a key v) b key w) a)) key = None"
  using assms by (auto simp: ResetSuiteState_def storeState_def NewService_def trimmed_id_def Let_def)

text \<open>
  Where no mutation key is configured the rendered lookup key is rendered once more, so text that came
  from the request is evaluated as a template.
\<close>

lemma lookup_key_rendered_twice:
  defines "m \<equiv> MMap [(''request'', MMap [(''path'', MStrMap [(''id'', ''{{state.secret}}'')])]), (''state'', MStrMap [(''secret'', ''s3'')])]"
  shows "renderTemplate ff m ''{{request.path.id}}'' = ''{{state.secret}}''"
    and "chosen_transition E (demo_state\<lparr>ms_LookupKeyTemplate := ''{{request.path.id}}''\<rparr>) m ''{{state.secret}}'' name [counting f d] =
      Some (''s3'', counting f d)"
proof -
  have trim: "TrimSpace ''s3'' = ''s3''" "TrimSpace ''{{state.secret}}'' = ''{{state.secret}}''" "TrimSpace [] = []"
    by (rule TrimSpace_plain, simp add: plain_char_def)+
  have one: "renderTemplate ff m ''{{request.path.id}}'' = ''{{state.secret}}''" "renderTemplate ff m ''{{state.secret}}'' = ''s3''" for ff
    using replace_tokens_pieces [of "[Token 0 [Path [''request'', ''path'', ''id'']]]" "[]" ff m]
      replace_tokens_pieces [of "[Token 0 [Path [''state'', ''secret'']]]" "[]" ff m]
      TrimSpace_not_blank [of "CHR ''{''" "''{{request.path.id}}''"] TrimSpace_not_blank [of "CHR ''{''" "''{{state.secret}}''"]
    by (simp_all add: renderTemplate_def template_text_def template_value_def token_value_def ident_char_def byte_in_def plain_char_def m_def)
  show "renderTemplate ff m ''{{request.path.id}}'' = ''{{state.secret}}''" by (rule one)
  show "chosen_transition E (demo_state\<lparr>ms_LookupKeyTemplate := ''{{request.path.id}}''\<rparr>) m ''{{state.secret}}'' name [counting f d] =
      Some (''s3'', counting f d)"
    by (simp add: counting_def demo_state_def one trim)
qed

text \<open>A status that is a number but no HTTP status makes the handler panic.\<close>

lemma odd_status_panics: "parseStatusCode ''42'' 200 = 42" "writeResult (errorResult 42 mediaType body) = None"
proof -
  have "TrimSpace ''42'' = ''42''" by (rule TrimSpace_plain) (simp add: plain_char_def)
  then show "parseStatusCode ''42'' 200 = 42"
    by (simp add: parseStatusCode_def Atoi_def HasPrefix_def digit_value_def byte_in_def)
qed (simp add: writeResult_def errorResult_def Let_def)

end
