(* ===== verification/Mock_Preview.thy ===== *)
theory Mock_Preview
  imports Mock_Request
begin

text \<open>
  The previews of the examples of a suite, \<open>mocking/preview.go\<close>: the request that an example describes is
  put together from its operation and conditions, and the example is rendered for it. Shown: that
  request meets the example's own conditions, where they are consistent and do not look into the body.
\<close>

definition previewState :: "mock_state option \<Rightarrow> strmap" where
  "previewState config = (case config of None \<Rightarrow> [] | Some c \<Rightarrow> ms_Defaults c)"

fun set_segments :: "(string \<times> mvalue) list \<Rightarrow> string list \<Rightarrow> string \<Rightarrow> (string \<times> mvalue) list" where
  "set_segments current [] v = current"
| "set_segments current (segment # segments) v =
     (if segment = [] then set_segments current segments v
      else if segments = [] then AList.update segment (MString v) current
      else
        let inner = (case map_of current segment of Some (MMap m) \<Rightarrow> m | _ \<Rightarrow> [])
        in AList.update segment (MMap (set_segments inner segments v)) current)"

definition setPreviewBodyValue :: "(string \<times> mvalue) list \<Rightarrow> string \<Rightarrow> string \<Rightarrow> (string \<times> mvalue) list" where
  "setPreviewBodyValue body path v = set_segments body (SplitByte (TrimSpace path) (CHR ''.'')) v"

definition preview_condition :: "request_snapshot \<Rightarrow> match_condition \<Rightarrow> request_snapshot" where
  "preview_condition snapshot condition =
     (let place = ToLower (TrimSpace (mc_From condition)); k = mc_Param condition; v = mc_Value condition in
      if place = ''path'' then snapshot\<lparr>sn_Path := AList.update k v (sn_Path snapshot)\<rparr>
      else if place = ''header'' then snapshot\<lparr>sn_Headers := AList.update (ToLower k) v (sn_Headers snapshot)\<rparr>
      else if place = ''body'' then
        (let body = setPreviewBodyValue (sn_BodyObject snapshot) k v
         in snapshot\<lparr>sn_BodyObject := body, sn_BodyJSON := MMap body\<rparr>)
      else snapshot\<lparr>sn_Query := AList.update k v (sn_Query snapshot)\<rparr>)"

definition preview_body :: "mock_lib \<Rightarrow> string \<Rightarrow> mvalue \<times> (string \<times> mvalue) list" where
  "preview_body E raw =
     (if TrimSpace raw = [] then (MNil, [])
      else case ml_Unmarshal E raw of
          Some bodyJSON \<Rightarrow> (bodyJSON, object_of bodyJSON)
        | None \<Rightarrow> (MString (TrimSpace raw), []))"

definition previewRequestSnapshot :: "mock_lib \<Rightarrow> api_operation \<Rightarrow> exchange_example \<Rightarrow> request_snapshot" where
  "previewRequestSnapshot E operation exchange =
     (let place = ml_ParseURLPath E (TrimSpace (op_MockURL operation));
          base = \<lparr>sn_Method = TrimSpace (op_Method operation),
            sn_Query = (case place of None \<Rightarrow> [] | Some (path, query) \<Rightarrow> flattenValues query),
            sn_Headers = foldl (\<lambda>headers header.
                if TrimSpace (h_Name header) = [] then headers
                else AList.update (ToLower (h_Name header)) (h_Value header) headers) [] (ex_RequestHeaders exchange),
            sn_Path = (case place of
                None \<Rightarrow> []
              | Some (path, query) \<Rightarrow> (case matchOperationPath (op_Name operation) path of None \<Rightarrow> [] | Some params \<Rightarrow> params)),
            sn_BodyRaw = ex_RequestBody exchange,
            sn_BodyJSON = fst (preview_body E (ex_RequestBody exchange)),
            sn_BodyObject = snd (preview_body E (ex_RequestBody exchange))\<rparr>
      in foldl preview_condition base (ex_When exchange))"

definition renderPreviewHeaders :: "mock_lib \<Rightarrow> api_header list \<Rightarrow> mvalue \<Rightarrow> api_header list" where
  "renderPreviewHeaders E headers contextMap =
     map (\<lambda>header. \<lparr>h_Name = h_Name header, h_Value = renderTemplate (ml_Float E) contextMap (h_Value header)\<rparr>) headers"

definition previewResponseHeaders :: "http_header \<Rightarrow> api_header list" where
  "previewResponseHeaders headers =
     concat (map (\<lambda>key.
         case map_of headers (CanonicalHeaderKey key) of
           None \<Rightarrow> []
         | Some vs \<Rightarrow> if vs = [] then [] else [\<lparr>h_Name = key, h_Value = Join vs '', ''\<rparr>])
       (sort (map fst headers)))"

text \<open>\<open>None\<close> is the panic of a random draw, as in \<open>buildSchemaResult\<close>.\<close>

definition PreviewExchange ::
  "mock_lib \<Rightarrow> (string \<Rightarrow> goerr + cue_value) \<Rightarrow> draws \<Rightarrow> 'a suite_with_api_scheme \<Rightarrow> api_surface \<Rightarrow> api_operation \<Rightarrow>
     exchange_example \<Rightarrow> exchange_example option" where
  "PreviewExchange E cue D suite surface operation exchange =
     (let snapshot = previewRequestSnapshot E operation exchange;
          state = previewState (om_State (op_MockMetadata operation))
      in case find (\<lambda>example. sx_Name example = ex_Name exchange) (loadSchemaExamples E cue suite operation) of
          Some example \<Rightarrow>
            map_option (\<lambda>result. exchange
                \<lparr>ex_ResponseMediaType := FirstNonEmpty [rs_MediaType result, ex_ResponseMediaType exchange],
                 ex_ResponseHeaders := previewResponseHeaders (rs_Headers result),
                 ex_ResponseBody := rs_Body result\<rparr>)
              (buildSchemaResult E D suite surface operation snapshot state (om_Adapter (op_MockMetadata operation)) example)
        | None \<Rightarrow>
            (let contextMap = buildTemplateContext suite surface operation snapshot state [] (ex_Name exchange);
                 body = renderTemplate (ml_Float E) contextMap (ex_ResponseBody exchange)
             in Some (exchange
                \<lparr>ex_ResponseHeaders := renderPreviewHeaders E (ex_ResponseHeaders exchange) contextMap,
                 ex_ResponseBody := body,
                 ex_ResponseMediaType := FirstNonEmpty [ex_ResponseMediaType exchange, inferredMediaType body]\<rparr>)))"

definition preview_operation ::
  "mock_lib \<Rightarrow> (string \<Rightarrow> goerr + cue_value) \<Rightarrow> draws \<Rightarrow> 'a suite_with_api_scheme \<Rightarrow> api_surface \<Rightarrow> api_operation \<Rightarrow> api_operation option" where
  "preview_operation E cue D suite surface operation =
     (if op_Exchanges operation \<noteq> [] \<or> TrimSpace (op_MockPath operation) = [] then Some operation
      else
        let examples = loadSchemaExamples E cue suite operation in
        if examples = [] then Some operation
        else map_option (\<lambda>exchanges. operation\<lparr>op_Exchanges := exchanges\<rparr>)
          (those (map (\<lambda>example. PreviewExchange E cue D suite surface operation
             \<lparr>ex_Name = sx_Name example, ex_SourceArtifact = op_MockPath operation, ex_When = [], ex_RequestHeaders = [],
              ex_RequestBody = [], ex_ResponseStatus = [], ex_ResponseMediaType = [], ex_ResponseHeaders = [], ex_ResponseBody = []\<rparr>)
           examples)))"

definition RenderExchangePreviews ::
  "mock_lib \<Rightarrow> (string \<Rightarrow> goerr + cue_value) \<Rightarrow> draws \<Rightarrow> 'a suite_with_api_scheme \<Rightarrow> api_surface list \<Rightarrow> api_surface list option" where
  "RenderExchangePreviews E cue D suite surfaces =
     those (map (\<lambda>surface. map_option (\<lambda>ops. surface\<lparr>sf_Operations := ops\<rparr>)
       (those (map (preview_operation E cue D suite surface) (sf_Operations surface)))) surfaces)"

subsection \<open>The preview request meets the conditions\<close>

text \<open>The slot of the request a condition looks at.\<close>

definition slot :: "match_condition \<Rightarrow> string \<times> string" where
  "slot c = (let place = ToLower (TrimSpace (mc_From c)) in
     if place = ''path'' then (''path'', mc_Param c)
     else if place = ''header'' then (''header'', ToLower (mc_Param c))
     else if place = ''body'' then (''body'', mc_Param c)
     else (''query'', mc_Param c))"

fun slot_read :: "request_snapshot \<Rightarrow> string \<times> string \<Rightarrow> string" where
  "slot_read snapshot (place, k) =
     (if place = ''path'' then str_at (sn_Path snapshot) k
      else if place = ''header'' then str_at (sn_Headers snapshot) k else str_at (sn_Query snapshot) k)"

lemma slot_places: "fst (slot c) \<in> {''path'', ''header'', ''body'', ''query''}"
  by (simp add: slot_def Let_def)

lemma valueAt_slot: "fst (slot d) \<noteq> ''body'' \<Longrightarrow> valueAt E (mc_From d) (mc_Param d) snapshot = slot_read snapshot (slot d)"
  unfolding slot_def valueAt_def Let_def by (simp split: if_splits)

lemma str_at_put: "str_at (AList.update k v m) k' = (if k = k' then v else str_at m k')"
  by (simp add: str_at_def AList.update_conv')

lemma condition_slot:
  assumes "fst (slot c) \<noteq> ''body''" "fst q \<in> {''path'', ''header'', ''query''}"
  shows "slot_read (preview_condition snapshot c) q = (if slot c = q then mc_Value c else slot_read snapshot q)"
proof -
  obtain place k where q: "q = (place, k)" by (cases q)
  consider "ToLower (TrimSpace (mc_From c)) = ''path''" | "ToLower (TrimSpace (mc_From c)) = ''header''"
    | "ToLower (TrimSpace (mc_From c)) \<notin> {''path'', ''header'', ''body''}"
    using assms(1) by (auto simp: slot_def Let_def split: if_splits)
  then show ?thesis
  proof cases
    case 1
    then show ?thesis using assms(2) unfolding q by (auto simp: slot_def preview_condition_def str_at_put Let_def)
  next
    case 2
    then show ?thesis using assms(2) unfolding q by (auto simp: slot_def preview_condition_def str_at_put Let_def)
  next
    case 3
    then show ?thesis using assms(2) unfolding q by (auto simp: slot_def preview_condition_def str_at_put Let_def)
  qed
qed

lemma slot_value:
  assumes "fst (slot c) \<noteq> ''body''" "fst (slot d) \<noteq> ''body''"
  shows "valueAt E (mc_From d) (mc_Param d) (preview_condition snapshot c) =
    (if slot c = slot d then mc_Value c else valueAt E (mc_From d) (mc_Param d) snapshot)"
  using assms slot_places [of d] by (simp add: valueAt_slot condition_slot)

lemma conditions_met:
  assumes "\<forall>c\<in>set cs. fst (slot c) \<noteq> ''body''" "\<forall>c\<in>set cs. \<forall>d\<in>set cs. slot c = slot d \<longrightarrow> mc_Value c = mc_Value d"
  shows "matchWhen E cs (foldl preview_condition snapshot cs)"
  using assms
proof (induction cs rule: rev_induct)
  case (snoc c cs)
  let ?before = "foldl preview_condition snapshot cs"
  have "set cs \<subseteq> set (cs @ [c])" by auto
  then have met: "matchWhen E cs ?before" using snoc.prems by (intro snoc.IH) blast+
  have "valueAt E (mc_From d) (mc_Param d) (preview_condition ?before c) = mc_Value d" if d: "d \<in> set (cs @ [c])" for d
  proof (cases "slot c = slot d")
    case True
    then show ?thesis using snoc.prems d by (auto simp: slot_value)
  next
    case False
    then have "d \<in> set cs" using d by auto
    then have "valueAt E (mc_From d) (mc_Param d) ?before = mc_Value d"
      using met by (simp add: matchWhen_def list_all_iff)
    moreover have "fst (slot c) \<noteq> ''body''" "fst (slot d) \<noteq> ''body''" using snoc.prems(1) d by auto
    ultimately show ?thesis using False by (simp add: slot_value)
  qed
  then show ?case by (simp add: matchWhen_def list_all_iff)
qed (simp add: matchWhen_def)

lemma preview_request_matches:
  assumes "\<forall>c\<in>set (ex_When exchange). fst (slot c) \<noteq> ''body''"
    "\<forall>c\<in>set (ex_When exchange). \<forall>d\<in>set (ex_When exchange). slot c = slot d \<longrightarrow> mc_Value c = mc_Value d"
  shows "matchWhen E (ex_When exchange) (previewRequestSnapshot E operation exchange)"
  unfolding previewRequestSnapshot_def Let_def by (rule conditions_met [OF assms])

end
