(* ===== verification/Spec2Isabelle.thy ===== *)
theory Spec2Isabelle
  imports Execution_Boot Network_Plan Stream_Hub Agent_Registry Profile_Runtime Auth_Oidc Mock_Engine Mock_Preview
begin

text \<open>
  \<^bold>\<open>A verification library for the Go backend of babelSuite.\<close>

  babelSuite runs test suites.  A suite is a package of files whose topology says which steps (mocks,
  services, tasks, tests, traffic, nested suites) depend on which.  The backend resolves a suite to a
  flat list of steps, turns the steps into tasks of a queue, runs each task when the tasks it depends
  on have ended, on this machine or on a remote agent, and reports the progress as a stream of
  events.  The mocks of a suite are answered by the backend itself from the exchanges its API surfaces
  declare.  Users sign in with a password or through an OIDC provider.

  \<^bold>\<open>Parts, theories and sources.\<close>  The paths are relative to \<^verbatim>\<open>src/backend/internal\<close>.

  \<^item> \<open>Go_Prelude\<close>, \<open>Go_Strings\<close>: what the sources use of Go itself: strings as byte lists, times and
    durations as integers (nanoseconds), errors as values, slices sorted by a comparison, and the
    functions of \<^verbatim>\<open>strings\<close>, \<^verbatim>\<open>path\<close>, \<^verbatim>\<open>strconv\<close> and \<^verbatim>\<open>fmt\<close>; the collection
    \<open>go_simps\<close> evaluates them.  Letters outside ASCII keep their case.
  \<^item> \<open>Task_Queue\<close> (\<^verbatim>\<open>queue/queue.go\<close>): the in-memory queue, every method and goroutine as one
    critical section over a record, composed by a step relation.  Shown: the invariant of the
    tables, tasks start only after their dependencies, pools keep their capacity, no wake-up is lost
    and a queue whose workers return cannot deadlock.
  \<^item> \<open>Suite_Types\<close>, \<open>Topology_Order\<close> (\<^verbatim>\<open>suites/topology.go\<close>, \<^verbatim>\<open>execution/topology.go\<close>):
    the steps and the two level-by-level sorts.  Shown: the result is the input in dependency order
    with correct levels, the cycle error is exact, every error names a real defect, the two sorts
    agree.
  \<^item> \<open>Suite_Validation\<close> (\<^verbatim>\<open>suites/validation.go\<close>): accepted packages keep every limit and no
    accepted path leaves the package.
  \<^item> \<open>Suite_Resolver\<close> (\<^verbatim>\<open>suites/topology.go\<close>, \<^verbatim>\<open>dependency_runtime.go\<close>,
    \<^verbatim>\<open>pre_hook.go\<close>): resolution of nested suites with manifests, locks, namespacing and pre-hooks.
    Shown: resolution ends, its result is ordered, imported steps stand in place of the import, pre-hooks
    come first.
  \<^item> \<open>Execution_Flow\<close>, \<open>Execution_Store\<close>, \<open>Network_Plan\<close>, \<open>Execution_Boot\<close>
    (\<^verbatim>\<open>execution/flow.go\<close>, \<^verbatim>\<open>runtime.go\<close>, \<^verbatim>\<open>topology.go\<close>, \<^verbatim>\<open>network_plan.go\<close>,
    \<^verbatim>\<open>mock_reset.go\<close>): the threads of an execution as a transition system that refines a small
    specification (each step ends once, the status is the conjunction of the steps), the rule that
    decides which steps are skipped, the stored executions, host names, and the tasks an execution
    puts into the queue: no history of executions leaves a task behind.
  \<^item> \<open>Stream_Hub\<close> (\<^verbatim>\<open>eventstream\<close>, \<^verbatim>\<open>logstream\<close>, \<^verbatim>\<open>execution/stream.go\<close>): a
    subscriber is given each record at most once and in the stream's order of ids where the code
    promises it.
  \<^item> \<open>Agent_Coordinator\<close>, \<open>Agent_Registry\<close> (\<^verbatim>\<open>agent\<close>): assignments with leases, cancellation
    and restart; the registry against a specified directory.
  \<^item> \<open>Profile_Store\<close>, \<open>Profile_Runtime\<close> (\<^verbatim>\<open>profiles\<close>, \<^verbatim>\<open>execution/profile_runtime.go\<close>):
    managed profiles, their inheritance, and what each step gets from them.
  \<^item> \<open>User_Store\<close> (\<^verbatim>\<open>store\<close>, \<^verbatim>\<open>cachehub/hub.go\<close>): the account tables with the
    constraints of their schema, the Redis cache in front of them, and the contract both satisfy.
  \<^item> \<open>Auth_Guards\<close>, \<open>Auth_Tokens\<close>, \<open>Auth_Handlers\<close>, \<open>Auth_Accounts\<close>, \<open>Auth_Oidc\<close> (\<^verbatim>\<open>auth\<close>):
    rate limits, lockout, one-time codes, tokens with revocation, the account handlers and single
    sign-on, and the properties that span them.
  \<^item> \<open>Mock_Types\<close>, \<open>Mock_Template\<close>, \<open>Mock_Schema\<close>, \<open>Mock_Request\<close>, \<open>Mock_Engine\<close>, \<open>Mock_Preview\<close>
    (\<^verbatim>\<open>mocking\<close>, \<^verbatim>\<open>suites/types.go\<close>): the mock server: API surfaces, operations and exchanges;
    template rendering with paths, literals and alternatives; the reading of a schema and the validation and
    generation of values; the matching of paths, conditions and exchanges; the state a mock keeps and
    its transitions; the fallbacks, and the proxy with its guard against private addresses; the previews
    that call an operation with its own example.  Shown: rendering against a reference semantics,
    validation decides conformance exactly, a path pattern inverts its own instantiation, a request
    writes at most one state key, a reset restores the declared defaults, no request reaches a
    private address.

  \<^bold>\<open>How the parts meet.\<close>  \<open>Suite_Resolver\<close> ends in \<open>Topology_Order\<close>; \<open>Execution_Boot\<close> turns its result
  into tasks of \<open>Task_Queue\<close> and shows the premises of the queue's liveness for them; the flow of
  \<open>Execution_Flow\<close> is what a task of the queue runs, and its outcome for a remote step is what
  \<open>Agent_Coordinator\<close> answers; \<open>Auth_Handlers\<close> is written over any record of store operations and proved
  over the contract \<open>account_store\<close>.  The mock steps of \<open>Execution_Flow\<close> reset the state of \<open>Mock_Engine\<close>
  before they start; \<open>Mock_Request\<close> guards its proxy with the predicate on addresses that
  \<open>Profile_Runtime\<close> uses for the secret vault.

  \<^bold>\<open>Interfaces.\<close>  Locales state what one part relies on of another, each interpreted on the model's own
  definitions: \<open>lifecycle\<close> (a status that never leaves its final values; the assignments),
  \<open>agent_directory\<close> (the registry with and without a store), \<open>account_store\<close> (the database, and the cached
  store over it).

  \<^bold>\<open>State, errors, time.\<close>  A struct is a record, a mutex-protected method is a function on it, a goroutine
  is a sequence of such steps in a relation.  An error is a value of \<open>goerr\<close> or of a datatype of the part.
  \<open>time.Now\<close> is an argument; theorems that need it assume that the clock does not run backwards.  Maps
  that the code ranges over in random order are used only where the order does not matter or is a
  parameter.

  \<^bold>\<open>Bounds and fuel.\<close>  Recursion into nested suites takes fuel, one unit per suite of the catalogue plus
  two; \<open>ResolveRuntime_terminates\<close> shows it never runs out, since the stack holds each suite once.  The
  search for a free profile id takes one unit per record plus one, enough because the candidates are
  distinct.  All other loops are structural or have a measure.  Integers are unbounded except where
  the code can overflow: millicores in \<open>Profile_Runtime\<close> are 64-bit words.

  \<^bold>\<open>Parameters.\<close>  Code outside the repository is an argument with named hypotheses: the YAML and Starlark
  readers of the suite files, the JWT library (\<open>jwt_validates\<close>, \<open>jwt_decodes\<close>, \<open>jwt_accepts\<close>, \<open>jwt_signs\<close>),
  bcrypt and UUIDs (\<open>env_ok\<close>), base64 and JSON of the sign-on state (\<open>codec_ok\<close>), the OIDC provider, URL
  parsing; for the mocks the CUE compiler, JSON decoding, the conversion of floating-point numbers,
  random draws, name resolution and the server behind a proxy.  Witnesses instantiate them.

  \<^bold>\<open>Not modelled.\<close>  Running containers and load generators, the evaluation of Starlark, registries and
  environments (input and output of other systems), HTTP decoding and encoding, telemetry, the MongoDB store
  and schema migrations, the frontend, the command line and generated code.  Concurrency inside one HTTP
  request is not modelled except for token revocation; where a handler checks and acts in two critical
  sections the theorems speak of requests one after the other.
\<close>

end
